(* ===== verification/Prelude.thy ===== *)
theory Prelude imports Main "HOL-Library.Word" "HOL-Library.Signed_Division" begin

text \<open>
  Shared vocabulary of the development: the machine types of the C and C++ sources, the
  conversions between them, the collections of facts the component proofs use, and the generic
  lemmas on lists and words that more than one component needs.
\<close>

unbundle bit_operations_syntax

subsection \<open>Machine types\<close>

type_synonym u8 = "8 word"
type_synonym u16 = "16 word"
type_synonym u32 = "32 word"
type_synonym u64 = "64 word"

text \<open>A buffer of octets: \<open>std::string\<close> payloads, \<open>uint8_t\<close> arrays, ENet packet data.\<close>

type_synonym bytes = "u8 list"

text \<open>
  C's conversion of a real quotient \<open>a / b\<close> to \<open>int\<close> truncates towards zero, and so does
  integer division; both are \<^term>\<open>(sdiv) :: int \<Rightarrow> int \<Rightarrow> int\<close>.
\<close>

abbreviation c_quot :: "int \<Rightarrow> int \<Rightarrow> int" where
  "c_quot a b \<equiv> a sdiv b"

text \<open>A test \<open>b & m\<close> used as a condition is true when the result is not zero.\<close>

definition bit_test :: "u8 \<Rightarrow> u8 \<Rightarrow> bool" where
  "bit_test b m \<longleftrightarrow> b AND m \<noteq> 0"

text \<open>
  A buffer used where the code passes a bare \<open>char *\<close>: the bytes up to the terminating zero. A
  buffer with no zero makes the code read past its end, the value \<open>None\<close>.
\<close>

definition c_string :: "bytes \<Rightarrow> bytes option" where
  "c_string b = (if 0 \<in> set b then Some (takeWhile (\<lambda>x. x \<noteq> 0) b) else None)"

subsection \<open>Collections of facts\<close>

named_theorems frame_simps \<open>fields an operation leaves alone\<close>

subsection \<open>Generic lemmas\<close>

lemma c_quot_nonneg: "0 \<le> a \<Longrightarrow> 0 < b \<Longrightarrow> c_quot a b = a div b"
  by (simp add: signed_divide_int_def sgn_if)

lemma c_quot_minus: "c_quot (- a) b = - c_quot a b"
  by (simp add: signed_divide_int_def)

lemma c_quot_neg: "a < 0 \<Longrightarrow> 0 < b \<Longrightarrow> c_quot a b = - ((- a) div b)"
  using c_quot_minus [of "- a" b] c_quot_nonneg [of "- a" b] by simp

lemma c_quot_mono:
  assumes "a \<le> c" and "0 < b"
  shows "c_quot a b \<le> c_quot c b"
proof (cases "0 \<le> a")
  case True
  with assms have "0 \<le> c" by simp
  with True assms show ?thesis by (simp only: c_quot_nonneg zdiv_mono1)
next
  case neg: False
  show ?thesis
  proof (cases "0 \<le> c")
    case True
    with assms have "0 \<le> c_quot c b" by (simp only: c_quot_nonneg pos_imp_zdiv_nonneg_iff)
    moreover from neg assms have "c_quot a b \<le> 0"
      using c_quot_neg [of a b] pos_imp_zdiv_nonneg_iff [of b "- a"] by linarith
    ultimately show ?thesis by linarith
  next
    case False
    with neg assms have "(- c) div b \<le> (- a) div b" by (intro zdiv_mono1) auto
    with neg False assms show ?thesis by (simp only: c_quot_neg not_le)
  qed
qed

lemma c_quot_bounds:
  assumes "0 < b" and "- (b * k) \<le> a" and "a \<le> b * k" and "0 \<le> k"
  shows "- k \<le> c_quot a b \<and> c_quot a b \<le> k"
proof -
  have "c_quot (b * k) b = k" using assms by (simp add: c_quot_nonneg)
  moreover have "c_quot (- (b * k)) b = - k"
    using c_quot_minus [of "b * k" b] calculation by simp
  ultimately show ?thesis
    using c_quot_mono [OF assms(2,1)] c_quot_mono [OF assms(3,1)] by simp
qed

lemma foldl_invariant:
  assumes "I s" and "\<And>s x. I s \<Longrightarrow> I (f s x)"
  shows "I (foldl f s xs)"
  using assms(1) by (induction xs arbitrary: s) (auto intro: assms(2))

lemma foldl_frame:
  assumes "\<And>s x. g (f s x) = g s"
  shows "g (foldl f s xs) = g s"
  using assms by (induction xs arbitrary: s) auto

lemma word_eq_by_bits:
  fixes x y :: "'a::len word"
  assumes "\<And>n. n < LENGTH('a) \<Longrightarrow> bit x n \<longleftrightarrow> bit y n"
  shows "x = y"
  using assms by (rule bit_word_eqI)

lemma word_all_below:
  fixes P :: "'a::len word \<Rightarrow> bool"
  assumes "\<forall>n \<in> set [0..<2 ^ LENGTH('a)]. P (word_of_nat n)"
  shows "P w"
proof -
  have "unat w \<in> set [0..<2 ^ LENGTH('a)]" by (simp add: unsigned_less)
  with assms have "P (word_of_nat (unat w))" by blast
  then show ?thesis by simp
qed

lemma div_digit: "r < k \<Longrightarrow> (p * k + r) div k = (p :: nat)"
  by simp

lemma mod_digit: "r < k \<Longrightarrow> (p * k + r) mod k = (r :: nat)"
  by simp

end
