(* ===== verification/CText.thy ===== *)
theory CText imports Prelude begin

text \<open>
  Text as the C and C++ libraries treat it: the conversions between octets and characters, between
  numbers and their digits, and the case of letters (in the C locale). The parsers of several programs
  of the repository call them.
\<close>

subsection \<open>Octets and characters\<close>

definition octets_of :: "string \<Rightarrow> bytes" where
  "octets_of s = map (\<lambda>c. word_of_nat (of_char c)) s"

definition text_of :: "bytes \<Rightarrow> string" where
  "text_of b = map (\<lambda>x. char_of (unat x)) b"

lemma u8_mod: "unat (x :: u8) mod 256 = unat x"
  using unsigned_less [of x, where 'a = nat] by simp

lemma octets_of_text [simp]: "octets_of (text_of b) = b"
  by (induction b) (simp_all add: octets_of_def text_of_def u8_mod)

lemma text_of_octets [simp]: "text_of (octets_of s) = s"
  by (induction s) (simp_all add: octets_of_def text_of_def unat_of_nat)

lemma text_of_length [simp]: "length (text_of b) = length b" "length (octets_of s) = length s"
  by (simp_all add: text_of_def octets_of_def)

lemma text_of_append [simp]: "text_of (a @ b) = text_of a @ text_of b" "octets_of (s @ t) = octets_of s @ octets_of t"
  by (simp_all add: text_of_def octets_of_def)

subsection \<open>Numbers\<close>

definition is_space :: "char \<Rightarrow> bool" where
  "is_space c \<longleftrightarrow> c = CHR '' '' \<or> c = CHR 0x09 \<or> c = CHR 0x0A \<or> c = CHR 0x0B \<or> c = CHR 0x0C \<or> c = CHR 0x0D"

definition is_digit :: "char \<Rightarrow> bool" where
  "is_digit c \<longleftrightarrow> 48 \<le> (of_char c :: nat) \<and> (of_char c :: nat) \<le> 57"

definition digits_value :: "string \<Rightarrow> int" where
  "digits_value ds = foldl (\<lambda>v d. 10 * v + int (of_char d - 48)) 0 ds"

text \<open>What \<open>strtol\<close> and its relatives read in base ten: white space, a sign and digits; anything after them is
left. A zero, the end of a C string, is none of these.\<close>

definition signed_digits :: "string \<Rightarrow> bool \<times> string" where
  "signed_digits s =
     (let s = dropWhile is_space s
      in (s \<noteq> [] \<and> hd s = CHR ''-'',
          takeWhile is_digit (if s \<noteq> [] \<and> (hd s = CHR ''-'' \<or> hd s = CHR ''+'') then tl s else s)))"

text \<open>\<open>std::stoi\<close>, where \<open>None\<close> is the exception for no digits or a value outside \<open>int\<close>, and
\<open>std::istream >> int\<close>, which fails on the same strings.\<close>

definition stoi :: "string \<Rightarrow> int option" where
  "stoi s =
     (let (neg, ds) = signed_digits s;
          v = (if neg then - digits_value ds else digits_value ds)
      in if ds = [] \<or> v < - (2 ^ 31) \<or> 2 ^ 31 \<le> v then None else Some v)"

definition stream_int :: "string \<Rightarrow> int option" where "stream_int s = stoi s"

text \<open>\<open>strtoul\<close> on 64 bits: 0 when there are no digits, the largest value when there are too many, and a
negative number modulo \<open>2 ^ 64\<close>.\<close>

definition strtoul :: "string \<Rightarrow> nat" where
  "strtoul s =
     (let (neg, ds) = signed_digits s; v = digits_value ds
      in if 2 ^ 64 \<le> v then 2 ^ 64 - 1 else if neg then nat ((- v) mod 2 ^ 64) else nat v)"

text \<open>\<open>atoi\<close>, which in the C library of the board is \<open>strtol\<close> cut to an \<open>int\<close>.\<close>

definition atoi :: "string \<Rightarrow> int" where
  "atoi s =
     (let (neg, ds) = signed_digits s; v = digits_value ds
      in signed_take_bit 31 (if neg then max (- (2 ^ 63)) (- v) else min (2 ^ 63 - 1) v))"

text \<open>Printing a number in decimal.\<close>

fun decimal :: "nat \<Rightarrow> string" where
  "decimal n = (if n < 10 then [char_of (48 + n)] else decimal (n div 10) @ [char_of (48 + n mod 10)])"

declare decimal.simps [simp del]

lemma digit_char: "d < 10 \<Longrightarrow> is_digit (char_of (48 + d)) \<and> (of_char (char_of (48 + d)) :: nat) - 48 = d"
  by (simp add: is_digit_def)

lemma digits_value_snoc: "digits_value (ds @ [d]) = 10 * digits_value ds + int (of_char d - 48)"
  by (simp add: digits_value_def)

lemma decimal_value: "digits_value (decimal n) = int n \<and> list_all is_digit (decimal n) \<and> decimal n \<noteq> []"
proof (induction n rule: decimal.induct)
  case (1 n)
  show ?case
  proof (cases "n < 10")
    case True
    then show ?thesis using digit_char [of n] by (simp add: decimal.simps [of n] digits_value_def)
  next
    case False
    then have "int n = 10 * int (n div 10) + int (n mod 10)" by (metis div_mult_mod_eq mult.commute of_nat_add of_nat_mult of_nat_numeral)
    then show ?thesis using 1 [OF False] False digit_char [of "n mod 10"]
      by (simp add: decimal.simps [of n] digits_value_snoc)
  qed
qed

lemma digit_plain: "is_digit c \<Longrightarrow> \<not> is_space c \<and> c \<noteq> CHR ''-'' \<and> c \<noteq> CHR ''+'' \<and> c \<noteq> CHR 0x00"
  by (auto simp: is_digit_def is_space_def)

lemma decimal_digits: "list_all is_digit (decimal n)" "decimal n \<noteq> []" "digits_value (decimal n) = int n"
  using decimal_value by simp_all

lemma signed_digits_decimal: "signed_digits (decimal n) = (False, decimal n)"
proof -
  obtain d ds where d: "decimal n = d # ds" "is_digit d" "list_all is_digit ds"
    using decimal_digits [of n] by (cases "decimal n") auto
  then show ?thesis using digit_plain [OF d(2)]
    by (simp add: signed_digits_def takeWhile_eq_all_conv list_all_iff)
qed

lemma strtoul_decimal: "n < 2 ^ 64 \<Longrightarrow> strtoul (decimal n) = n"
  by (simp add: strtoul_def signed_digits_decimal decimal_digits)

lemma stoi_decimal: "n < 2 ^ 31 \<Longrightarrow> stoi (decimal n) = Some (int n)"
  by (simp add: stoi_def signed_digits_decimal decimal_digits)

lemma atoi_decimal: "n < 2 ^ 31 \<Longrightarrow> atoi (decimal n) = int n"
  by (simp add: atoi_def signed_digits_decimal decimal_digits signed_take_bit_int_eq_self)

subsection \<open>Case\<close>

definition tolower :: "char \<Rightarrow> char" where
  "tolower c = (if 65 \<le> (of_char c :: nat) \<and> (of_char c :: nat) \<le> 90 then char_of ((of_char c :: nat) + 32) else c)"

definition toupper :: "char \<Rightarrow> char" where
  "toupper c = (if 97 \<le> (of_char c :: nat) \<and> (of_char c :: nat) \<le> 122 then char_of ((of_char c :: nat) - 32) else c)"

end
