(* ===== verification/HttpText.thy ===== *)
theory HttpText imports CText "HOL-Library.Sublist" begin

text \<open>
  The lexical part of the HTTP parser: \<open>http/constants.hpp\<close> and the extraction functions of
  \<open>http/parser.hpp\<close>. An iterator into a range \<open>[begin, end)\<close> is the rest of the text from it; iterators
  into one range are equal when the rests are. A function that returns \<open>begin\<close> to report an error
  returns what it was given.
\<close>

subsection \<open>Characters\<close>

definition header_token :: "nat list" where
  "header_token =
     [0,0,0,0,0,0,0,0,0,0,0,0,0,0,0,0,
      0,0,0,0,0,0,0,0,0,0,0,0,0,0,0,0,
      0,1,0,1,1,1,1,1,0,0,1,1,0,1,1,0,
      1,1,1,1,1,1,1,1,1,1,0,0,0,0,0,0,
      0,1,1,1,1,1,1,1,1,1,1,1,1,1,1,1,
      1,1,1,1,1,1,1,1,1,1,1,0,0,0,1,1,
      1,1,1,1,1,1,1,1,1,1,1,1,1,1,1,1,
      1,1,1,1,1,1,1,1,1,1,1,0,1,0,1,0] @ replicate 128 0"

definition is_token_char :: "char \<Rightarrow> bool" where
  "is_token_char c \<longleftrightarrow> header_token ! of_char c = 1"

definition is_not_token_char :: "char \<Rightarrow> bool" where
  "is_not_token_char c \<longleftrightarrow> header_token ! of_char c = 0"

definition is_whitespace_char :: "char \<Rightarrow> bool" where
  "is_whitespace_char c \<longleftrightarrow> (of_char c :: nat) = 9 \<or> (of_char c :: nat) = 32"

subsection \<open>Extraction\<close>

definition extract_token :: "string \<Rightarrow> string \<times> string" where
  "extract_token s = (takeWhile (\<lambda>c. \<not> is_not_token_char c) s, dropWhile (\<lambda>c. \<not> is_not_token_char c) s)"

text \<open>
  The scan for the closing quote: \<open>s\<close> is the text copied so far, \<open>chunk\<close> the characters since
  \<open>marker\<close>. The character before a quote that stands at \<open>marker\<close> is a quote itself. \<open>None\<close> is a
  string without an end.
\<close>

fun quoted_loop :: "string \<Rightarrow> string \<Rightarrow> string \<Rightarrow> (string \<times> string) option" where
  "quoted_loop s chunk [] = None"
| "quoted_loop s chunk (c # cs) =
     (if c \<noteq> CHR 0x22 then quoted_loop s (chunk @ [c]) cs
      else if chunk \<noteq> [] \<and> last chunk = CHR 0x5C then quoted_loop (s @ butlast chunk @ [CHR 0x22]) [] cs
      else Some (s @ chunk, cs))"

definition extract_quoted_string :: "string \<Rightarrow> string \<times> string" where
  "extract_quoted_string s =
     (case s of
        [] \<Rightarrow> ([], s)
      | c # cs \<Rightarrow>
          if c \<noteq> CHR 0x22 then ([], s)
          else (case quoted_loop [] [] cs of None \<Rightarrow> ([], s) | Some r \<Rightarrow> r))"

definition extract_lws :: "string \<Rightarrow> string" where
  "extract_lws s =
     dropWhile is_whitespace_char
       (if 2 < length s \<and> s ! 0 = CHR 0x0D \<and> s ! 1 = CHR 0x0A \<and> is_whitespace_char (s ! 2) then drop 3 s else s)"

lemma extract_lws_suffix: "suffix (extract_lws s) s"
  unfolding extract_lws_def
  by (rule suffix_order.trans [OF suffix_dropWhile]) (simp add: suffix_drop)

function extract_all_lws :: "string \<Rightarrow> string" where
  "extract_all_lws s =
     (let new = extract_lws s in if new \<noteq> [] \<and> s \<noteq> new then extract_all_lws new else new)"
  by pat_completeness auto
termination
  using extract_lws_suffix by (relation "measure length") (auto intro!: suffix_length_less simp: strict_suffix_def)

declare extract_all_lws.simps [simp del]

text \<open>
  Attributes, a map. The result is the iterator with the attributes read, or \<open>None\<close> for a syntax
  error, where the code returns \<open>begin\<close>.
\<close>

type_synonym attribute_list = "string \<rightharpoonup> string"

lemma extract_all_lws_suffix: "suffix (extract_all_lws s) s"
proof (induction s rule: extract_all_lws.induct)
  case (1 s)
  then show ?case using extract_lws_suffix [of s]
    by (subst extract_all_lws.simps) (auto simp: Let_def intro: suffix_order.trans)
qed

lemma extract_token_le: "fst (extract_token s) \<noteq> [] \<Longrightarrow> length (snd (extract_token s)) < length s"
proof -
  assume ne: "fst (extract_token s) \<noteq> []"
  have "length s = length (fst (extract_token s)) + length (snd (extract_token s))"
    unfolding extract_token_def fst_conv snd_conv
    by (metis length_append takeWhile_dropWhile_id)
  with ne show ?thesis by simp
qed

lemma quoted_loop_le: "quoted_loop s chunk cs = Some (r, rest) \<Longrightarrow> length rest < length cs"
  by (induction s chunk cs rule: quoted_loop.induct) (auto split: if_splits)

lemma extract_quoted_le: "length (snd (extract_quoted_string s)) \<le> length s"
proof -
  have "length rest \<le> Suc (length cs)" if "quoted_loop [] [] cs = Some (r, rest)" for r rest cs
    using quoted_loop_le [OF that] by simp
  then show ?thesis by (auto simp: extract_quoted_string_def split: list.split option.split)
qed

text \<open>
  One attribute, from the token on: its name, its value and the iterator behind it. \<open>None\<close> stands for
  the exits that return \<open>begin\<close>.
\<close>

definition attribute_value :: "string \<Rightarrow> (string \<times> string) option" where
  "attribute_value cursor =
     (let (v, rest) = extract_quoted_string cursor in
      if rest \<noteq> cursor then Some (v, rest)
      else let (v, rest) = extract_token cursor in if v = [] then None else Some (v, rest))"

definition take_attribute :: "string \<Rightarrow> (string \<times> string \<times> string) option" where
  "take_attribute cursor =
     (let (name, rest) = extract_token (extract_all_lws cursor) in
      if name = [] then None
      else
        let cursor = extract_all_lws rest in
        if cursor = [] \<or> hd cursor \<noteq> CHR ''='' then Some (name, [], cursor)
        else
          let cursor = extract_all_lws (tl cursor) in
          if cursor = [] then None else map_option (\<lambda>(v, rest). (name, v, rest)) (attribute_value cursor))"

lemma attribute_value_le: "attribute_value cursor = Some (v, rest) \<Longrightarrow> length rest \<le> length cursor"
  using extract_quoted_le [of cursor] extract_token_le [of cursor]
  by (auto simp: attribute_value_def Let_def case_prod_beta split: if_splits)

lemma extract_all_lws_le: "length (extract_all_lws s) \<le> length s"
  by (rule suffix_length_le) (rule extract_all_lws_suffix)

lemma take_attribute_le:
  assumes "take_attribute cursor = Some (name, v, rest)"
  shows "length rest < length cursor"
proof -
  let ?c = "extract_all_lws cursor" and ?r = "extract_all_lws (snd (extract_token (extract_all_lws cursor)))"
  have ne: "fst (extract_token ?c) \<noteq> []" using assms by (auto simp: take_attribute_def case_prod_beta Let_def)
  have r: "length ?r < length cursor"
    using extract_token_le [OF ne] extract_all_lws_le [of "snd (extract_token ?c)"] extract_all_lws_le [of cursor] by linarith
  show ?thesis
  proof (cases "?r = [] \<or> hd ?r \<noteq> CHR ''=''")
    case True
    then show ?thesis using assms ne r by (simp add: take_attribute_def case_prod_beta Let_def split: if_splits)
  next
    case False
    then obtain v' where "attribute_value (extract_all_lws (tl ?r)) = Some (v', rest)"
      using assms ne by (auto simp: take_attribute_def case_prod_beta Let_def split: if_splits)
    from attribute_value_le [OF this] extract_all_lws_le [of "tl ?r"] r show ?thesis by simp
  qed
qed

text \<open>The loop of \<open>extract_attributes\<close>; \<open>first\<close> is its flag.\<close>

function attributes_loop :: "bool \<Rightarrow> string \<Rightarrow> attribute_list \<Rightarrow> (string \<times> attribute_list) option" where
  "attributes_loop first cursor attributes =
     (let cursor = extract_all_lws cursor in
      if cursor = [] \<or> (\<not> first \<and> hd cursor \<noteq> CHR '';'') then Some (cursor, attributes)
      else (case take_attribute (if first then cursor else tl cursor) of
              None \<Rightarrow> None
            | Some (name, v, rest) \<Rightarrow> attributes_loop False rest (attributes(name \<mapsto> v))))"
  by pat_completeness auto
termination
proof (relation "measure (\<lambda>(first, cursor, attributes). length cursor)", goal_cases)
  case (2 first cursor attributes x y name z v rest)
  then have "take_attribute (if first then extract_all_lws cursor else tl (extract_all_lws cursor)) = Some (name, v, rest)"
    by metis
  from take_attribute_le [OF this]
  have "length rest < length (if first then extract_all_lws cursor else tl (extract_all_lws cursor))" .
  with extract_all_lws_le [of cursor] show ?case by (auto split: if_splits)
qed simp

declare attributes_loop.simps [simp del]

definition extract_attributes :: "string \<Rightarrow> attribute_list \<Rightarrow> (string \<times> attribute_list) option" where
  "extract_attributes begin attributes = (if begin = [] then None else attributes_loop True begin attributes)"

text \<open>
  \<open>extract_attributes\<close> returns the iterator it was given both for an error and for an attribute list in
  which it could not move; the caller takes both as an error.
\<close>

type_synonym parameter_list = "(string \<times> attribute_list) list"

lemma attributes_loop_le: "attributes_loop first cursor attributes = Some (rest, out) \<Longrightarrow> length rest \<le> length cursor"
proof (induction first cursor attributes rule: attributes_loop.induct)
  case (1 first cursor attributes)
  let ?c = "extract_all_lws cursor"
  show ?case
  proof (cases "?c = [] \<or> (\<not> first \<and> hd ?c \<noteq> CHR '';'')")
    case True
    then show ?thesis using 1(2) extract_all_lws_le [of cursor]
      by (simp add: attributes_loop.simps [of first cursor] Let_def)
  next
    case False
    then obtain name v r where t: "take_attribute (if first then ?c else tl ?c) = Some (name, v, r)"
      "attributes_loop False r (attributes(name \<mapsto> v)) = Some (rest, out)"
      using 1(2) by (auto simp: attributes_loop.simps [of first cursor] Let_def split: option.splits prod.splits)
    have "length rest \<le> length r" using 1(1) [OF refl False t(1) refl refl t(2)] .
    moreover have "length r < length (if first then ?c else tl ?c)" by (rule take_attribute_le [OF t(1)])
    ultimately show ?thesis using extract_all_lws_le [of cursor] by (auto split: if_splits)
  qed
qed

text \<open>One parameter: its name, its attributes and the iterator behind it.\<close>

definition take_parameter :: "string \<Rightarrow> (string \<times> attribute_list \<times> string) option" where
  "take_parameter cursor =
     (let (name, rest) = extract_token cursor in
      if name = [] then None
      else
        let cursor = extract_all_lws rest in
        if cursor \<noteq> [] \<and> hd cursor = CHR '';'' then
          map_option (\<lambda>(rest, attributes). (name, attributes, rest)) (extract_attributes (tl cursor) Map.empty)
        else Some (name, Map.empty, cursor))"

lemma take_parameter_le:
  assumes "take_parameter cursor = Some (name, attributes, rest)"
  shows "length rest < length cursor"
proof -
  let ?r = "extract_all_lws (snd (extract_token cursor))"
  have ne: "fst (extract_token cursor) \<noteq> []" using assms by (auto simp: take_parameter_def case_prod_beta Let_def)
  then have r: "length ?r < length cursor"
    using extract_token_le [of cursor] extract_all_lws_le [of "snd (extract_token cursor)"] by simp
  show ?thesis
  proof (cases "?r \<noteq> [] \<and> hd ?r = CHR '';''")
    case True
    then have "extract_attributes (tl ?r) Map.empty = Some (rest, attributes)"
      using assms ne by (auto simp: take_parameter_def case_prod_beta Let_def)
    then have "attributes_loop True (tl ?r) Map.empty = Some (rest, attributes)"
      by (simp add: extract_attributes_def split: if_splits)
    then have "length rest \<le> length (tl ?r)" by (rule attributes_loop_le)
    with r show ?thesis by simp
  next
    case False
    then show ?thesis using assms ne r by (auto simp: take_parameter_def case_prod_beta Let_def split: if_splits)
  qed
qed

function parameters_loop :: "string \<Rightarrow> parameter_list \<Rightarrow> (string \<times> parameter_list) option" where
  "parameters_loop cursor parameters =
     (let cursor = extract_all_lws cursor in
      if cursor = [] then Some (cursor, parameters)
      else (case take_parameter cursor of
              None \<Rightarrow> None
            | Some (name, attributes, rest) \<Rightarrow>
                let parameters = parameters @ [(name, attributes)]; cursor = extract_all_lws rest in
                if cursor = [] \<or> hd cursor \<noteq> CHR '','' then Some (cursor, parameters)
                else if tl cursor = [] then None
                else parameters_loop (tl cursor) parameters))"
  by pat_completeness auto
termination
proof (relation "measure (\<lambda>(cursor, parameters). length cursor)", goal_cases)
  case (2 cursor parameters x y name z attributes rest)
  then have "take_parameter (extract_all_lws cursor) = Some (name, attributes, rest)" by simp
  from take_parameter_le [OF this] extract_all_lws_le [of cursor] extract_all_lws_le [of rest]
  show ?case using 2 by simp
qed simp

declare parameters_loop.simps [simp del]

definition extract_parameters :: "string \<Rightarrow> (string \<times> parameter_list) option" where
  "extract_parameters begin = (if begin = [] then None else parameters_loop begin [])"

text \<open>\<open>parse_parameter_list\<close>: the flag that is set for an error, and the parameters. After an error the code leaves
those read so far in \<open>out\<close>; its callers \<open>negotiate_extensions\<close> and \<open>extract_subprotocols\<close> do not look at them then, and
the model gives none.\<close>

definition parse_parameter_list :: "string \<Rightarrow> bool \<times> parameter_list" where
  "parse_parameter_list s =
     (if s = [] then (False, [])
      else (case extract_parameters s of None \<Rightarrow> (True, []) | Some (rest, parameters) \<Rightarrow> (False, parameters)))"

text \<open>
  \<open>strip_lws\<close> skips white space from both ends, from the back with the same function over reverse
  iterators. When the two iterators cross, the string it builds from them is undefined (\<open>None\<close>).
\<close>

definition strip_lws :: "string \<Rightarrow> string option" where
  "strip_lws input =
     (let begin = extract_all_lws input in
      if begin = [] then Some []
      else
        let rbegin = extract_all_lws (rev input) in
        if rbegin = [] then Some []
        else if length input \<le> length begin + length rbegin then
          Some (take (length rbegin - (length input - length begin)) begin)
        else None)"

subsection \<open>White space\<close>

text \<open>Text in which no line ends.\<close>

fun no_crlf :: "string \<Rightarrow> bool" where
  "no_crlf [] \<longleftrightarrow> True"
| "no_crlf (c # cs) \<longleftrightarrow> \<not> (c = CHR 0x0D \<and> cs \<noteq> [] \<and> hd cs = CHR 0x0A) \<and> no_crlf cs"

lemma no_crlf_suffix: "no_crlf (a @ b) \<Longrightarrow> no_crlf b"
  by (induction a) simp_all

lemma no_crlf_drop: "no_crlf s \<Longrightarrow> suffix t s \<Longrightarrow> no_crlf t"
  by (auto simp: suffix_def dest: no_crlf_suffix)

lemma no_cr_no_crlf: "CHR 0x0D \<notin> set s \<Longrightarrow> no_crlf s"
  by (induction s) auto

lemma lws_plain: "no_crlf s \<Longrightarrow> extract_lws s = dropWhile is_whitespace_char s"
proof -
  assume "no_crlf s"
  then have "\<not> (2 < length s \<and> s ! 0 = CHR 0x0D \<and> s ! 1 = CHR 0x0A \<and> is_whitespace_char (s ! 2))"
    by (cases s; cases "tl s") auto
  then show ?thesis unfolding extract_lws_def by (simp only: if_False)
qed

lemma dropWhile_again: "dropWhile P (dropWhile P s) = dropWhile P s"
  by (induction s) simp_all

lemma all_lws_plain:
  assumes "no_crlf s"
  shows "extract_all_lws s = dropWhile is_whitespace_char s"
proof -
  let ?new = "dropWhile is_whitespace_char s"
  have new: "no_crlf ?new" by (rule no_crlf_drop [OF assms suffix_dropWhile])
  have "extract_all_lws ?new = ?new"
    by (subst extract_all_lws.simps) (simp add: lws_plain [OF new] dropWhile_again)
  then show ?thesis by (subst extract_all_lws.simps) (simp add: lws_plain [OF assms] Let_def)
qed

lemma extract_lws_head: "extract_lws s \<noteq> [] \<Longrightarrow> \<not> is_whitespace_char (hd (extract_lws s))"
  unfolding extract_lws_def by (rule hd_dropWhile)

lemma all_lws_head: "extract_all_lws s \<noteq> [] \<Longrightarrow> \<not> is_whitespace_char (hd (extract_all_lws s))"
proof (induction s rule: extract_all_lws.induct)
  case (1 s)
  then show ?case using extract_lws_head [of s] unfolding extract_all_lws.simps [of s]
    by (auto simp: Let_def split: if_splits)
qed

text \<open>White space at either end.\<close>

definition trim :: "string \<Rightarrow> string" where
  "trim s = rev (dropWhile is_whitespace_char (rev (dropWhile is_whitespace_char s)))"

lemma strip_is_trim:
  assumes "CHR 0x0D \<notin> set s"
  shows "strip_lws s = Some (trim s)"
proof (cases "dropWhile is_whitespace_char s = []")
  case True
  then show ?thesis unfolding strip_lws_def trim_def all_lws_plain [OF no_cr_no_crlf [OF assms]] True by simp
next
  case False
  let ?P = is_whitespace_char
  define d r where "d = dropWhile ?P s" and "r = dropWhile ?P (rev d)"
  have s: "s = takeWhile ?P s @ d" by (simp add: d_def)
  have "hd d \<in> set d" "\<not> ?P (hd d)" using False hd_dropWhile [of ?P s] by (auto simp: d_def)
  then have "dropWhile ?P (rev d @ rev (takeWhile ?P s)) = r @ rev (takeWhile ?P s)"
    unfolding r_def by (intro dropWhile_append1) simp_all
  moreover have "rev s = rev d @ rev (takeWhile ?P s)" by (metis s rev_append)
  ultimately have b: "extract_all_lws (rev s) = r @ rev (takeWhile ?P s)"
    using all_lws_plain [OF no_cr_no_crlf, of "rev s"] assms unfolding set_rev by metis
  have "r \<noteq> []" using \<open>hd d \<in> set d\<close> \<open>\<not> ?P (hd d)\<close> by (auto simp: r_def)
  have "d = rev r @ rev (takeWhile ?P (rev d))" unfolding r_def by (metis rev_append rev_rev_ident takeWhile_dropWhile_id)
  then have "take (length r) d = rev r" by (metis append_eq_conv_conj length_rev)
  moreover have "length s = length (takeWhile ?P s) + length d" by (metis s length_append)
  ultimately show ?thesis using False b \<open>r \<noteq> []\<close> all_lws_plain [OF no_cr_no_crlf [OF assms]]
    by (simp add: strip_lws_def trim_def d_def [symmetric] r_def [symmetric] Let_def)
qed

lemma strip_defined:
  assumes "no_crlf s"
  shows "strip_lws s \<noteq> None"
proof (cases "dropWhile is_whitespace_char s = [] \<or> extract_all_lws (rev s) = []")
  case True
  then show ?thesis by (auto simp: strip_lws_def all_lws_plain [OF assms] Let_def)
next
  case False
  let ?P = is_whitespace_char and ?r = "extract_all_lws (rev s)"
  obtain p where p: "rev s = p @ ?r" using extract_all_lws_suffix [of "rev s"] by (auto simp: suffix_def)
  then have s: "s = rev ?r @ rev p" by (metis rev_append rev_rev_ident)
  have "length (takeWhile ?P s) < length ?r"
  proof (rule ccontr)
    assume "\<not> ?thesis"
    then have "take (length ?r) s = take (length ?r) (takeWhile ?P s)"
      by (metis append_eq_conv_conj not_less take_append takeWhile_dropWhile_id diff_is_0_eq take0 append_Nil2)
    then have "set (rev ?r) \<subseteq> set (takeWhile ?P s)" using s by (metis append_eq_conv_conj length_rev set_take_subset)
    then show False using all_lws_head [of "rev s"] False set_takeWhileD [of _ ?P s] by (metis hd_in_set set_rev subsetD)
  qed
  moreover have "length s = length (takeWhile ?P s) + length (dropWhile ?P s)"
    by (metis length_append takeWhile_dropWhile_id)
  ultimately show ?thesis using False by (simp add: strip_lws_def all_lws_plain [OF assms] Let_def)
qed

subsection \<open>Tokens and quoted strings\<close>

lemma token_char: "is_token_char c \<longleftrightarrow> \<not> is_not_token_char c"
proof -
  have "length header_token = 256" "\<forall>x \<in> set header_token. x = 0 \<or> x = 1" by (simp_all add: header_token_def)
  then have "header_token ! of_char c = 0 \<or> header_token ! of_char c = 1" by (metis nth_mem nat_of_char_less_256)
  then show ?thesis by (auto simp: is_token_char_def is_not_token_char_def)
qed

definition is_token :: "string \<Rightarrow> bool" where
  "is_token s \<longleftrightarrow> s \<noteq> [] \<and> list_all is_token_char s"

lemma extract_token_whole:
  assumes "is_token s" and "rest = [] \<or> \<not> is_token_char (hd rest)"
  shows "extract_token (s @ rest) = (s, rest)"
proof -
  have "takeWhile is_token_char rest = []" "dropWhile is_token_char rest = rest" using assms(2) by (cases rest; simp)+
  moreover have "\<forall>c \<in> set s. is_token_char c" using assms(1) by (simp add: is_token_def list_all_iff)
  ultimately show ?thesis unfolding extract_token_def token_char [symmetric]
    by (simp add: takeWhile_append2 dropWhile_append2)
qed

fun escape :: "string \<Rightarrow> string" where
  "escape [] = []"
| "escape (c # cs) = (if c = CHR 0x22 then CHR 0x5C # c # escape cs else c # escape cs)"

lemma quoted_loop_escape:
  assumes "CHR 0x5C \<notin> set v" and "chunk = [] \<or> last chunk \<noteq> CHR 0x5C"
  shows "quoted_loop s chunk (escape v @ CHR 0x22 # rest) = Some (s @ chunk @ v, rest)"
  using assms
proof (induction v arbitrary: s chunk)
  case (Cons c v)
  then show ?case using Cons.IH [of "[]" "s @ chunk @ [CHR 0x22]"] Cons.IH [of "chunk @ [c]" s] by auto
qed auto

lemma extract_quoted_escape:
  "CHR 0x5C \<notin> set v \<Longrightarrow> extract_quoted_string (CHR 0x22 # escape v @ CHR 0x22 # rest) = (v, rest)"
  using quoted_loop_escape [of v "[]" "[]" rest] by (simp add: extract_quoted_string_def)

subsection \<open>Printing parameters\<close>

text \<open>A parameter list as the grammar of the header fields writes it, every value quoted.\<close>

definition print_attribute :: "string \<times> string \<Rightarrow> string" where
  "print_attribute nv = ''; '' @ fst nv @ ''='' @ [CHR 0x22] @ escape (snd nv) @ [CHR 0x22]"

definition print_parameter :: "string \<times> (string \<times> string) list \<Rightarrow> string" where
  "print_parameter p = fst p @ concat (map print_attribute (snd p))"

fun print_parameters :: "(string \<times> (string \<times> string) list) list \<Rightarrow> string" where
  "print_parameters [] = []"
| "print_parameters [p] = print_parameter p"
| "print_parameters (p # ps) = print_parameter p @ '', '' @ print_parameters ps"

definition attributes_of :: "(string \<times> string) list \<Rightarrow> attribute_list" where
  "attributes_of nvs = foldl (\<lambda>m (n, v). m(n \<mapsto> v)) Map.empty nvs"

definition printable_attribute :: "string \<times> string \<Rightarrow> bool" where
  "printable_attribute nv \<longleftrightarrow> is_token (fst nv) \<and> CHR 0x5C \<notin> set (snd nv)"

definition printable_parameter :: "string \<times> (string \<times> string) list \<Rightarrow> bool" where
  "printable_parameter p \<longleftrightarrow> is_token (fst p) \<and> list_all printable_attribute (snd p)"

lemma ws_char: "is_whitespace_char c \<longleftrightarrow> c = CHR 0x09 \<or> c = CHR 0x20"
proof -
  have "(of_char (CHR 0x09) :: nat) = 9" "(of_char (CHR 0x20) :: nat) = 32" by simp_all
  then show ?thesis unfolding is_whitespace_char_def by (metis of_char_eqI)
qed

lemma all_lws_id:
  assumes "s = [] \<or> \<not> is_whitespace_char (hd s) \<and> hd s \<noteq> CHR 0x0D"
  shows "extract_all_lws s = s"
proof -
  have "extract_lws s = s" using assms by (cases s) (simp_all add: extract_lws_def)
  then show ?thesis by (subst extract_all_lws.simps) (simp add: Let_def)
qed

lemma all_lws_space:
  assumes "s \<noteq> [] \<and> \<not> is_whitespace_char (hd s) \<and> hd s \<noteq> CHR 0x0D"
  shows "extract_all_lws (CHR '' '' # s) = s"
proof -
  have "extract_lws (CHR '' '' # s) = s" using assms by (cases s) (simp_all add: extract_lws_def ws_char)
  then show ?thesis using all_lws_id [of s] assms by (subst extract_all_lws.simps) (simp add: Let_def)
qed

lemma token_start: "is_token s \<Longrightarrow> s @ rest \<noteq> [] \<and> \<not> is_whitespace_char (hd (s @ rest)) \<and> hd (s @ rest) \<noteq> CHR 0x0D"
proof -
  assume "is_token s"
  then obtain c cs where s: "s = c # cs" "is_token_char c" by (cases s) (auto simp: is_token_def)
  have "\<not> is_token_char (CHR 0x09)" "\<not> is_token_char (CHR 0x20)" "\<not> is_token_char (CHR 0x0D)" by code_simp+
  with s show ?thesis by (auto simp: ws_char)
qed

lemmas token_lws = token_start [THEN all_lws_space] token_start [THEN conjunct2, THEN disjI2, THEN all_lws_id]

lemma stop_chars: "\<not> is_token_char (CHR ''='')" "\<not> is_token_char (CHR '';'')" "\<not> is_token_char (CHR '','')"
  by code_simp+

lemma attribute_value_quoted:
  "CHR 0x5C \<notin> set v \<Longrightarrow> attribute_value (CHR 0x22 # escape v @ CHR 0x22 # rest) = Some (v, rest)"
proof -
  assume v: "CHR 0x5C \<notin> set v"
  have "rest \<noteq> CHR 0x22 # escape v @ CHR 0x22 # rest" by (auto dest: arg_cong [of _ _ length])
  then show ?thesis by (simp add: attribute_value_def extract_quoted_escape [OF v])
qed

lemma take_attribute_printed:
  assumes "printable_attribute (n, v)" and "w = [] \<or> w = '' ''"
  shows "take_attribute (w @ n @ ''='' @ [CHR 0x22] @ escape v @ [CHR 0x22] @ rest) = Some (n, v, rest)"
proof -
  let ?q = "CHR 0x22 # escape v @ CHR 0x22 # rest"
  have n: "is_token n" "CHR 0x5C \<notin> set v" using assms(1) by (simp_all add: printable_attribute_def)
  have "extract_all_lws (w @ n @ CHR ''='' # ?q) = n @ CHR ''='' # ?q" using assms(2) token_lws [OF n(1)] by auto
  moreover have "extract_token (n @ CHR ''='' # ?q) = (n, CHR ''='' # ?q)"
    by (rule extract_token_whole [OF n(1)]) (simp add: stop_chars)
  moreover have "extract_all_lws (CHR ''='' # ?q) = CHR ''='' # ?q" "extract_all_lws ?q = ?q"
    by (rule all_lws_id, simp add: ws_char)+
  ultimately show ?thesis using n by (simp add: take_attribute_def attribute_value_quoted is_token_def)
qed

lemma attributes_printed:
  assumes "list_all printable_attribute nvs" and "rest = [] \<or> hd rest = CHR '',''"
  shows "attributes_loop False (concat (map print_attribute nvs) @ rest) m
    = Some (rest, foldl (\<lambda>m (n, v). m(n \<mapsto> v)) m nvs)"
  using assms(1)
proof (induction nvs arbitrary: m)
  case Nil
  have "extract_all_lws rest = rest" using assms(2) by (intro all_lws_id) (auto simp: ws_char)
  then show ?case using assms(2) by (auto simp: attributes_loop.simps [of False] Let_def)
next
  case (Cons nv nvs)
  obtain n v where nv: "nv = (n, v)" by fastforce
  let ?rest = "concat (map print_attribute nvs) @ rest"
  have "extract_all_lws (print_attribute nv @ ?rest) = print_attribute nv @ ?rest"
    by (rule all_lws_id) (simp add: print_attribute_def ws_char)
  moreover have "take_attribute (tl (print_attribute nv @ ?rest)) = Some (n, v, ?rest)"
    using take_attribute_printed [of n v "'' ''" ?rest] Cons.prems by (simp add: nv print_attribute_def)
  moreover have "print_attribute nv @ ?rest \<noteq> []" "hd (print_attribute nv @ ?rest) = CHR '';''"
    by (simp_all add: print_attribute_def)
  moreover have "attributes_loop False ?rest (m(n \<mapsto> v)) = Some (rest, foldl (\<lambda>m (n, v). m(n \<mapsto> v)) (m(n \<mapsto> v)) nvs)"
    using Cons.prems by (intro Cons.IH) simp
  ultimately have "attributes_loop False (print_attribute nv @ ?rest) m
      = Some (rest, foldl (\<lambda>m (n, v). m(n \<mapsto> v)) (m(n \<mapsto> v)) nvs)"
    by (subst attributes_loop.simps) (simp add: Let_def del: fun_upd_apply append_is_Nil_conv)
  then show ?case unfolding nv by (simp del: fun_upd_apply)
qed

lemma extract_attributes_printed:
  assumes "list_all printable_attribute (nv # nvs)" and "rest = [] \<or> hd rest = CHR '',''"
  shows "extract_attributes (tl (concat (map print_attribute (nv # nvs)) @ rest)) Map.empty = Some (rest, attributes_of (nv # nvs))"
proof -
  obtain n v where nv: "nv = (n, v)" by fastforce
  let ?rest = "concat (map print_attribute nvs) @ rest"
  let ?body = "n @ ''='' @ [CHR 0x22] @ escape v @ [CHR 0x22] @ ?rest"
  have n: "is_token n" "printable_attribute (n, v)" using assms(1) nv by (simp_all add: printable_attribute_def)
  have b: "tl (concat (map print_attribute (nv # nvs)) @ rest) = '' '' @ ?body" by (simp add: nv print_attribute_def)
  have "extract_all_lws ('' '' @ ?body) = ?body" "?body \<noteq> []" using token_lws(1) [OF n(1)] n(1) by (auto simp: is_token_def)
  moreover have "take_attribute ?body = Some (n, v, ?rest)" using take_attribute_printed [OF n(2), of "[]" ?rest] by simp
  moreover have "attributes_loop False ?rest [n \<mapsto> v] = Some (rest, attributes_of (nv # nvs))"
    using attributes_printed [of nvs rest "[n \<mapsto> v]"] assms by (simp add: attributes_of_def nv)
  ultimately show ?thesis unfolding b extract_attributes_def by (subst attributes_loop.simps) (simp add: Let_def)
qed

lemma take_parameter_printed:
  assumes "printable_parameter p" and "rest = [] \<or> hd rest = CHR '',''"
  shows "take_parameter (print_parameter p @ rest) = Some (fst p, attributes_of (snd p), rest)"
proof -
  let ?attrs = "concat (map print_attribute (snd p)) @ rest"
  have n: "is_token (fst p)" using assms(1) by (simp add: printable_parameter_def)
  have h: "?attrs = [] \<or> hd ?attrs = CHR '';'' \<or> hd ?attrs = CHR '',''"
    using assms(2) by (cases "snd p") (auto simp: print_attribute_def)
  have "extract_token (fst p @ ?attrs) = (fst p, ?attrs)"
    by (rule extract_token_whole [OF n]) (use h stop_chars in auto)
  moreover have "extract_all_lws ?attrs = ?attrs" by (rule all_lws_id) (use h in \<open>auto simp: ws_char\<close>)
  ultimately show ?thesis
    using n assms extract_attributes_printed [of "hd (snd p)" "tl (snd p)" rest]
    by (cases "snd p") (auto simp: take_parameter_def print_parameter_def printable_parameter_def attributes_of_def
        is_token_def print_attribute_def Let_def)
qed

lemma parameters_printed:
  assumes "list_all printable_parameter ps" and "ps \<noteq> []" and "w = [] \<or> w = '' ''"
  shows "parameters_loop (w @ print_parameters ps) out = Some ([], out @ map (\<lambda>(n, nvs). (n, attributes_of nvs)) ps)"
  using assms
proof (induction ps arbitrary: out w rule: print_parameters.induct)
  case (2 p)
  then have p: "printable_parameter p" "is_token (fst p)" by (simp_all add: printable_parameter_def)
  then have "extract_all_lws (w @ print_parameter p) = print_parameter p" "print_parameter p \<noteq> []"
    using 2(3) token_lws [OF p(2)] token_start [OF p(2)] by (auto simp: print_parameter_def)
  then show ?case using take_parameter_printed [OF p(1), of "[]"]
    by (subst parameters_loop.simps) (simp add: Let_def all_lws_id case_prod_beta)
next
  case (3 p q ps)
  let ?rest = "'', '' @ print_parameters (q # ps)"
  have p: "printable_parameter p" "is_token (fst p)" using 3(2) by (simp_all add: printable_parameter_def)
  then have "extract_all_lws (w @ print_parameter p @ ?rest) = print_parameter p @ ?rest" "print_parameter p \<noteq> []"
    using 3(4) token_lws [OF p(2)] token_start [OF p(2)] by (auto simp: print_parameter_def)
  moreover have "extract_all_lws ?rest = ?rest" by (rule all_lws_id) (simp add: ws_char)
  ultimately show ?case using take_parameter_printed [OF p(1), of ?rest] 3(1) [of "'' ''"] 3(2)
    by (subst parameters_loop.simps) (simp add: Let_def case_prod_beta)
qed simp

text \<open>The positions of the ones of a table.\<close>

fun ones :: "nat \<Rightarrow> nat list \<Rightarrow> nat list" where
  "ones k [] = []"
| "ones k (x # xs) = (if x = 1 then k # ones (k + 1) xs else ones (k + 1) xs)"

lemma ones_nth: "n < length xs \<Longrightarrow> xs ! n = 1 \<longleftrightarrow> k + n \<in> set (ones k xs)"
proof (induction xs arbitrary: k n)
  case (Cons x xs)
  have later: "m \<in> set (ones j xs) \<Longrightarrow> j \<le> m" for m j xs by (induction j xs rule: ones.induct) (auto split: if_splits)
  show ?case
  proof (cases n)
    case 0
    then show ?thesis using later [of k "k + 1" xs] by auto
  next
    case (Suc m)
    then show ?thesis using Cons.IH [of m "k + 1"] Cons.prems by auto
  qed
qed simp

definition tchar :: string where
  "tchar = ''!#$%&'' @ [CHR 0x27] @ ''*+-.0123456789ABCDEFGHIJKLMNOPQRSTUVWXYZ^_`abcdefghijklmnopqrstuvwxyz|~''"

lemma ones_none [simp]: "ones k (replicate n 0) = []"
  by (induction n arbitrary: k) simp_all

lemma ones_token: "ones 0 header_token = map of_char tchar"
  by (simp add: header_token_def tchar_def)

subsection \<open>Properties\<close>

text \<open>The table marks exactly the token characters of RFC 7230 (\<open>tchar\<close>).\<close>

theorem token_chars_rfc7230: "is_token_char c \<longleftrightarrow> c \<in> set tchar"
proof -
  have l: "length header_token = 256" by (simp add: header_token_def)
  have "is_token_char c \<longleftrightarrow> of_char c \<in> set (ones 0 header_token)"
    using ones_nth [of "of_char c" header_token 0] unfolding is_token_char_def l by simp
  also have "\<dots> \<longleftrightarrow> c \<in> set tchar" unfolding ones_token by (auto intro: rev_image_eqI)
  finally show ?thesis .
qed

text \<open>Stripping a text without carriage returns trims spaces and tabs at both ends, and on any text in
which no line ends it is defined; on one with folded lines its two iterators can cross.\<close>

theorem strip_lws_trims:
  "(CHR 0x0D \<notin> set s \<longrightarrow> strip_lws s = Some (trim s)) \<and> (no_crlf s \<longrightarrow> strip_lws s \<noteq> None)
   \<and> strip_lws [CHR 0x0D, CHR 0x0A, CHR 0x20, CHR 0x0A, CHR 0x0D] = None"
proof -
  have "strip_lws [CHR 0x0D, CHR 0x0A, CHR 0x20, CHR 0x0A, CHR 0x0D] = None" by code_simp
  then show ?thesis using strip_is_trim strip_defined by blast
qed

text \<open>Reading a printed parameter list gives the list back: names, attributes, and values with any
characters but backslashes, quotes and separators among them.\<close>

theorem parameters_roundtrip:
  assumes "list_all printable_parameter ps"
  shows "parse_parameter_list (print_parameters ps) = (False, map (\<lambda>(n, nvs). (n, attributes_of nvs)) ps)"
proof (cases "ps = []")
  case False
  then have "print_parameters ps \<noteq> []"
    using assms by (cases ps rule: print_parameters.cases) (auto simp: print_parameter_def printable_parameter_def is_token_def)
  then show ?thesis using parameters_printed [OF assms False, of "[]" "[]"]
    by (simp add: parse_parameter_list_def extract_parameters_def)
qed (simp add: parse_parameter_list_def)

theorem parameters_roundtrip_witness:
  "snd (parse_parameter_list (print_parameters [(''chat'', [(''level'', ''a, b; '' @ [CHR 0x22])]), (''v2'', [])]))
     = [(''chat'', attributes_of [(''level'', ''a, b; '' @ [CHR 0x22])]), (''v2'', Map.empty)]"
proof -
  have "list_all printable_parameter [(''chat'', [(''level'', ''a, b; '' @ [CHR 0x22])]), (''v2'', [])]" by code_simp
  from parameters_roundtrip [OF this] show ?thesis by (simp add: attributes_of_def)
qed

text \<open>A backslash before the closing quote is always taken to escape it, though it can be escaped
itself: the quoted string of one backslash is taken for one without an end.\<close>

theorem quoted_backslash_misread:
  "extract_quoted_string [CHR 0x22, CHR 0x5C, CHR 0x5C, CHR 0x22] = ([], [CHR 0x22, CHR 0x5C, CHR 0x5C, CHR 0x22])"
  by (simp add: extract_quoted_string_def)

end
