(* ===== verification/HttpParser.thy ===== *)
theory HttpParser imports HttpText begin

text \<open>
  HTTP messages: \<open>http/impl/parser.hpp\<close>, the base of requests and responses, and
  \<open>http/impl/request.hpp\<close>, the streaming parser the WebSocket server reads the opening handshake with.
  An exception of the parser is \<open>Threw\<close> with its status code.
\<close>

subsection \<open>Results\<close>

type_synonym status_code = int

datatype 'a parsed = Parsed 'a | Threw status_code | Undefined_text

fun and_then :: "'a parsed \<Rightarrow> ('a \<Rightarrow> 'b parsed) \<Rightarrow> 'b parsed" where
  "and_then (Parsed x) f = f x"
| "and_then (Threw code) f = Threw code"
| "and_then Undefined_text f = Undefined_text"

definition sc_bad_request :: status_code where "sc_bad_request = 400"
definition sc_request_entity_too_large :: status_code where "sc_request_entity_too_large = 413"
definition sc_request_header_fields_too_large :: status_code where "sc_request_header_fields_too_large = 431"
definition sc_internal_server_error :: status_code where "sc_internal_server_error = 500"

definition max_header_size :: nat where "max_header_size = 16000"
definition max_body_size :: nat where "max_body_size = 32000000"

subsection \<open>The header list\<close>

text \<open>A \<open>std::map\<close> whose keys compare without case: a list in the order of the keys.\<close>

type_synonym header_list = "(string \<times> string) list"

fun ci_less :: "string \<Rightarrow> string \<Rightarrow> bool" where
  "ci_less [] t \<longleftrightarrow> t \<noteq> []"
| "ci_less (c # cs) [] \<longleftrightarrow> False"
| "ci_less (c # cs) (d # ds) \<longleftrightarrow>
     (of_char (tolower c) :: nat) < of_char (tolower d) \<or>
     \<not> (of_char (tolower d) :: nat) < of_char (tolower c) \<and> ci_less cs ds"

definition ci_eq :: "string \<Rightarrow> string \<Rightarrow> bool" where
  "ci_eq s t \<longleftrightarrow> \<not> ci_less s t \<and> \<not> ci_less t s"

fun header_find :: "header_list \<Rightarrow> string \<Rightarrow> string option" where
  "header_find [] key = None"
| "header_find ((k, v) # h) key = (if ci_eq k key then Some v else header_find h key)"

fun header_put :: "string \<Rightarrow> string \<Rightarrow> header_list \<Rightarrow> header_list" where
  "header_put key val [] = [(key, val)]"
| "header_put key val ((k, v) # h) =
     (if ci_less key k then (key, val) # (k, v) # h
      else if ci_less k key then (k, v) # header_put key val h
      else (k, val) # h)"

definition header_erase :: "string \<Rightarrow> header_list \<Rightarrow> header_list" where
  "header_erase key h = filter (\<lambda>(k, v). \<not> ci_eq k key) h"

subsection \<open>The parser\<close>

datatype body_encoding = enc_unknown | enc_plain | enc_chunked

record http_parser =
  h_version :: string
  h_headers :: header_list
  h_header_bytes :: nat
  h_body :: string
  h_body_bytes_needed :: nat
  h_body_bytes_max :: nat
  h_body_encoding :: body_encoding

definition get_header :: "string \<Rightarrow> 'r http_parser_scheme \<Rightarrow> string" where
  "get_header key r = (case header_find (h_headers r) key of None \<Rightarrow> [] | Some v \<Rightarrow> v)"

definition get_header_as_plist :: "string \<Rightarrow> 'r http_parser_scheme \<Rightarrow> bool \<times> parameter_list" where
  "get_header_as_plist key r =
     (case header_find (h_headers r) key of
        None \<Rightarrow> (False, [])
      | Some v \<Rightarrow> if v = [] then (False, []) else parse_parameter_list v)"

definition replace_header :: "string \<Rightarrow> string \<Rightarrow> 'r http_parser_scheme \<Rightarrow> 'r http_parser_scheme" where
  "replace_header key val r = r\<lparr>h_headers := header_put key val (h_headers r)\<rparr>"

definition remove_header :: "string \<Rightarrow> 'r http_parser_scheme \<Rightarrow> 'r http_parser_scheme" where
  "remove_header key r = r\<lparr>h_headers := header_erase key (h_headers r)\<rparr>"

definition append_header :: "string \<Rightarrow> string \<Rightarrow> 'r http_parser_scheme \<Rightarrow> 'r http_parser_scheme parsed" where
  "append_header key val r =
     (if list_ex is_not_token_char key then Threw sc_bad_request
      else if get_header key r = [] then Parsed (r\<lparr>h_headers := header_put key val (h_headers r)\<rparr>)
      else Parsed (r\<lparr>h_headers := header_put key (get_header key r @ '', '' @ val) (h_headers r)\<rparr>))"

definition set_body :: "string \<Rightarrow> 'r http_parser_scheme \<Rightarrow> 'r http_parser_scheme" where
  "set_body value r =
     (if value = [] then (remove_header ''Content-Length'' r)\<lparr>h_body := []\<rparr>
      else (replace_header ''Content-Length'' (decimal (length value)) r)\<lparr>h_body := value\<rparr>)"

definition prepare_body :: "'r http_parser_scheme \<Rightarrow> (bool \<times> 'r http_parser_scheme) parsed" where
  "prepare_body r =
     (if get_header ''Content-Length'' r \<noteq> [] then
        let r = r\<lparr>h_body_bytes_needed := strtoul (get_header ''Content-Length'' r)\<rparr> in
        if h_body_bytes_needed r > h_body_bytes_max r then Threw sc_request_entity_too_large
        else Parsed (True, r\<lparr>h_body_encoding := enc_plain\<rparr>)
      else if get_header ''Transfer-Encoding'' r = ''chunked'' then Parsed (False, r)
      else Parsed (False, r))"

definition process_body :: "string \<Rightarrow> 'r http_parser_scheme \<Rightarrow> (nat \<times> 'r http_parser_scheme) parsed" where
  "process_body buf r =
     (if h_body_encoding r = enc_plain then
        let processed = min (h_body_bytes_needed r) (length buf)
        in Parsed (processed, r\<lparr>h_body := h_body r @ take processed buf,
                               h_body_bytes_needed := h_body_bytes_needed r - processed\<rparr>)
      else Threw sc_internal_server_error)"

definition body_ready :: "'r http_parser_scheme \<Rightarrow> bool" where
  "body_ready r \<longleftrightarrow> h_body_bytes_needed r = 0"

text \<open>\<open>std::find\<close>: what is before the first \<open>c\<close>, and the rest from it.\<close>

definition split_at_char :: "char \<Rightarrow> string \<Rightarrow> string \<times> string" where
  "split_at_char c s = (takeWhile (\<lambda>d. d \<noteq> c) s, dropWhile (\<lambda>d. d \<noteq> c) s)"

definition process_header :: "string \<Rightarrow> 'r http_parser_scheme \<Rightarrow> 'r http_parser_scheme parsed" where
  "process_header line r =
     (let (key, rest) = split_at_char (CHR '':'') line in
      if rest = [] then Threw sc_bad_request
      else (case (strip_lws key, strip_lws (tl rest)) of
              (Some key, Some val) \<Rightarrow> append_header key val r
            | _ \<Rightarrow> Undefined_text))"

definition raw_headers :: "'r http_parser_scheme \<Rightarrow> string" where
  "raw_headers r = concat (map (\<lambda>(k, v). k @ '': '' @ v @ [CHR 0x0D, CHR 0x0A]) (h_headers r))"

subsection \<open>Requests\<close>

text \<open>\<open>q_buf\<close> is the shared buffer of the head, \<open>None\<close> once it is reset.\<close>

record request = http_parser +
  q_buf :: "string option"
  q_method :: string
  q_uri :: string
  q_ready :: bool

definition request_new :: request where
  "request_new = \<lparr>h_version = [], h_headers = [], h_header_bytes = 0, h_body = [], h_body_bytes_needed = 0,
     h_body_bytes_max = max_body_size, h_body_encoding = enc_unknown, q_buf = Some [], q_method = [], q_uri = [],
     q_ready = False\<rparr>"

definition set_method :: "string \<Rightarrow> request \<Rightarrow> request parsed" where
  "set_method meth r =
     (if list_ex is_not_token_char meth then Threw sc_bad_request else Parsed (r\<lparr>q_method := meth\<rparr>))"

text \<open>The request line.\<close>

definition request_process :: "string \<Rightarrow> request \<Rightarrow> request parsed" where
  "request_process line r =
     (let (meth, rest) = split_at_char (CHR '' '') line in
      if rest = [] then Threw sc_bad_request
      else and_then (set_method meth r) (\<lambda>r.
        let (uri, rest) = split_at_char (CHR '' '') (tl rest) in
        if rest = [] then Threw sc_bad_request
        else Parsed (r\<lparr>q_uri := uri, h_version := tl rest\<rparr>)))"

text \<open>The search for the end of a line: the line, and what follows its delimiter.\<close>

fun split_crlf :: "string \<Rightarrow> (string \<times> string) option" where
  "split_crlf [] = None"
| "split_crlf (c # cs) =
     (if c = CHR 0x0D \<and> cs \<noteq> [] \<and> hd cs = CHR 0x0A then Some ([], tl cs)
      else map_option (\<lambda>(line, rest). (c # line, rest)) (split_crlf cs))"

lemma split_crlf_le: "split_crlf s = Some (line, rest) \<Longrightarrow> length rest < length s"
  by (induction s arbitrary: line) (auto split: if_splits simp: less_Suc_eq dest: less_SucI)

text \<open>
  The blank line that ends the head. The unsigned arithmetic of \<open>bytes_processed\<close> may wrap on the way;
  its value is the number of octets of \<open>buf\<close> before \<open>rest\<close>.
\<close>

definition end_of_head :: "string \<Rightarrow> string \<Rightarrow> request \<Rightarrow> (nat \<times> request) parsed" where
  "end_of_head buf rest r =
     (if q_method r = [] \<or> get_header ''Host'' r = [] then Threw sc_bad_request
      else
        let n = length buf + 2 - (length rest + 2)
        in and_then (prepare_body (r\<lparr>q_buf := None\<rparr>)) (\<lambda>(has_body, r).
             if has_body then
               and_then (process_body (drop n buf) r) (\<lambda>(k, r).
                 Parsed (n + k, if body_ready r then r\<lparr>q_ready := True\<rparr> else r))
             else Parsed (n, r\<lparr>q_ready := True\<rparr>)))"

definition request_line :: "string \<Rightarrow> request \<Rightarrow> request parsed" where
  "request_line line r = (if q_method r = [] then request_process line r else process_header line r)"

text \<open>
  The loop over the lines of the buffer, \<open>rest\<close> being what \<open>begin\<close> points to. The size of the
  delimiter counts with its terminating zero.
\<close>

function head_loop :: "string \<Rightarrow> string \<Rightarrow> request \<Rightarrow> (nat \<times> request) parsed" where
  "head_loop buf rest r =
     (case split_crlf rest of
        None \<Rightarrow>
          let r = r\<lparr>h_header_bytes := h_header_bytes r + (length rest + 3)\<rparr> in
          if h_header_bytes r > max_header_size then Threw sc_request_header_fields_too_large
          else Parsed (length buf, r\<lparr>q_buf := Some rest, h_header_bytes := h_header_bytes r - length rest\<rparr>)
      | Some (line, after) \<Rightarrow>
          let r = r\<lparr>h_header_bytes := h_header_bytes r + (length line + 3)\<rparr> in
          if h_header_bytes r > max_header_size then Threw sc_request_header_fields_too_large
          else if line = [] then end_of_head buf after r
          else and_then (request_line line r) (head_loop buf after))"
  by pat_completeness auto
termination
  by (relation "measure (\<lambda>(buf, rest, r). length rest)") (auto dest: split_crlf_le)

declare head_loop.simps [simp del]

definition request_consume :: "string \<Rightarrow> request \<Rightarrow> (nat \<times> request) parsed" where
  "request_consume buf r =
     (if q_ready r then Parsed (0, r)
      else if h_body_bytes_needed r > 0 then
        and_then (process_body buf r) (\<lambda>(n, r). Parsed (n, if body_ready r then r\<lparr>q_ready := True\<rparr> else r))
      else (case q_buf r of None \<Rightarrow> Undefined_text | Some b \<Rightarrow> head_loop buf (b @ buf) r))"

definition request_raw_head :: "request \<Rightarrow> string" where
  "request_raw_head r = q_method r @ '' '' @ q_uri r @ '' '' @ h_version r @ [CHR 0x0D, CHR 0x0A]
     @ raw_headers r @ [CHR 0x0D, CHR 0x0A]"

definition request_raw :: "request \<Rightarrow> string" where
  "request_raw r = request_raw_head r @ h_body r"

subsection \<open>The order of the keys\<close>

definition ci_key :: "string \<Rightarrow> nat list" where "ci_key s = map (\<lambda>c. of_char (tolower c)) s"

lemma ci_less_key: "ci_less s t \<longleftrightarrow> ord_class.lexordp (ci_key s) (ci_key t)"
  by (induction s t rule: ci_less.induct) (auto simp: ci_key_def)

lemma ci_less_irrefl [simp]: "\<not> ci_less s s"
  by (simp add: ci_less_key lexordp_irreflexive')

lemma ci_less_trans: "ci_less s t \<Longrightarrow> ci_less t u \<Longrightarrow> ci_less s u"
  unfolding ci_less_key by (rule lexordp_trans)

lemma ci_eq_key: "ci_eq s t \<longleftrightarrow> ci_key s = ci_key t"
  using lexordp_linear [of "ci_key s" "ci_key t"] lexordp_irreflexive' [of "ci_key s"]
  by (auto simp: ci_eq_def ci_less_key)

lemma ci_less_neither: "\<not> ci_less s t \<Longrightarrow> ci_less t s \<or> ci_key s = ci_key t"
  using ci_eq_key [of s t] by (auto simp: ci_eq_def)

lemma ci_less_neq: "ci_less s t \<Longrightarrow> ci_key s \<noteq> ci_key t"
  using ci_eq_key [of s t] by (auto simp: ci_eq_def)

lemma ci_eq_refl [simp]: "ci_eq s s"
  by (simp add: ci_eq_key)

lemma find_put: "header_find (header_put key val h) k = (if ci_eq key k then Some val else header_find h k)"
proof (induction key val h rule: header_put.induct)
  case (2 key val k0 v0 h)
  consider "ci_less key k0" | "ci_less k0 key" "\<not> ci_less key k0" | "ci_key key = ci_key k0" "\<not> ci_less key k0" "\<not> ci_less k0 key"
    using ci_less_neither [of key k0] by blast
  then show ?case
  proof cases
    case 2
    then show ?thesis using "2.IH" ci_less_neq [of k0 key] by (auto simp: ci_eq_key)
  qed (auto simp: ci_eq_key)
qed simp

lemma find_erase: "header_find (header_erase key h) k = (if ci_eq key k then None else header_find h k)"
  by (induction h) (auto simp: header_erase_def ci_eq_key)

text \<open>What the code relies on in its header lists: they are maps whose keys compare without case.\<close>

locale header_map =
  fixes get :: "'h \<Rightarrow> string \<Rightarrow> string"
    and put :: "string \<Rightarrow> string \<Rightarrow> 'h \<Rightarrow> 'h"
    and erase :: "string \<Rightarrow> 'h \<Rightarrow> 'h"
  assumes get_put: "get (put k v h) k' = (if ci_eq k k' then v else get h k')"
    and get_erase: "get (erase k h) k' = (if ci_eq k k' then [] else get h k')"
begin

lemma get_put_same: "get (put k v h) k = v"
  by (simp add: get_put)

lemma get_put_other: "\<not> ci_eq k k' \<Longrightarrow> get (put k v h) k' = get h k'"
  by (simp add: get_put)

lemma put_twice: "get (put k v (put k w h)) k' = get (put k v h) k'"
  by (simp add: get_put)

lemma put_after_erase: "get (put k v (erase k h)) k' = get (put k v h) k'"
  by (simp add: get_put get_erase)

end

interpretation headers: header_map
  "\<lambda>h k. case header_find h k of None \<Rightarrow> [] | Some v \<Rightarrow> v" header_put header_erase
  by unfold_locales (simp_all add: find_put find_erase)

lemma get_header_update:
  "get_header k' (replace_header k v r) = (if ci_eq k k' then v else get_header k' r)"
  "get_header k' (remove_header k r) = (if ci_eq k k' then [] else get_header k' r)"
  unfolding get_header_def replace_header_def remove_header_def
  using headers.get_put [of k v "h_headers r" k'] headers.get_erase [of k "h_headers r" k'] by simp_all

subsection \<open>Lines\<close>

lemma split_crlf_line: "no_crlf line \<Longrightarrow> split_crlf (line @ CHR 0x0D # CHR 0x0A # rest) = Some (line, rest)"
  by (induction line) (auto simp: hd_append)

lemma split_crlf_some: "split_crlf s = Some (line, rest) \<Longrightarrow> no_crlf line \<and> s = line @ CHR 0x0D # CHR 0x0A # rest"
proof (induction s arbitrary: line)
  case (Cons c cs)
  show ?case
  proof (cases "c = CHR 0x0D \<and> cs \<noteq> [] \<and> hd cs = CHR 0x0A")
    case True
    then show ?thesis using Cons.prems by (cases cs) auto
  next
    case False
    then obtain l where l: "split_crlf cs = Some (l, rest)" "line = c # l" using Cons.prems by (auto split: if_splits)
    with Cons.IH [OF l(1)] False show ?thesis by (cases l) auto
  qed
qed simp

lemma split_crlf_none: "split_crlf s = None \<longleftrightarrow> no_crlf s"
  by (induction s) auto

lemma split_crlf_append: "split_crlf s = Some (line, rest) \<Longrightarrow> split_crlf (s @ z) = Some (line, rest @ z)"
  using split_crlf_some [of s line rest] split_crlf_line [of line "rest @ z"] by auto

end
