(* ===== verification/HttpStream.thy ===== *)
theory HttpStream imports HttpParser begin

text \<open>
  A request that arrives in pieces: \<open>request_consume\<close> is called with each of them until the request is
  ready. The result does not depend on where the pieces were cut, as long as the head and 3 octets for each
  piece stay below the limit of the header size; the counter behind that limit does depend on the cuts.
\<close>

subsection \<open>Pieces\<close>

text \<open>What \<open>handle_read_handshake\<close> does with the octets of its reads: the octets that are left behind the
request, and the request. Its counter of header octets depends on the cuts, and so does whether it reaches the
limit.\<close>

fun request_feed :: "string list \<Rightarrow> request \<Rightarrow> (string \<times> request) parsed" where
  "request_feed [] r = Parsed ([], r)"
| "request_feed (c # cs) r = and_then (request_consume c r) (\<lambda>(n, r).
     if q_ready r then Parsed (drop n c @ concat cs, r) else request_feed cs r)"

text \<open>The fields that depend on the pieces.\<close>

definition counted :: "nat \<Rightarrow> string option \<Rightarrow> request \<Rightarrow> request" where
  "counted k b r = r\<lparr>h_header_bytes := k, q_buf := b\<rparr>"

subsection \<open>The head without its counter\<close>

function head_run :: "string \<Rightarrow> request \<Rightarrow> (bool \<times> string \<times> request) parsed" where
  "head_run s r =
     (case split_crlf s of
        None \<Rightarrow> Parsed (False, s, r)
      | Some (line, rest) \<Rightarrow> if line = [] then Parsed (True, rest, r) else and_then (request_line line r) (head_run rest))"
  by pat_completeness auto
termination
  by (relation "measure (\<lambda>(s, r). length s)") (auto dest: split_crlf_le)

text \<open>The head as the parser counts it, all of it and its complete lines.\<close>

function head_size :: "string \<Rightarrow> nat" where
  "head_size s =
     (case split_crlf s of
        None \<Rightarrow> length s + 3
      | Some (line, rest) \<Rightarrow> length line + 3 + (if line = [] then 0 else head_size rest))"
  by pat_completeness auto
termination
  by (relation "measure length") (auto dest: split_crlf_le)

function head_lines :: "string \<Rightarrow> nat" where
  "head_lines s =
     (case split_crlf s of
        None \<Rightarrow> 0
      | Some (line, rest) \<Rightarrow> length line + 3 + (if line = [] then 0 else head_lines rest))"
  by pat_completeness auto
termination
  by (relation "measure length") (auto dest: split_crlf_le)

declare head_run.simps [simp del] head_size.simps [simp del] head_lines.simps [simp del]

lemma and_then_assoc: "and_then (and_then x f) g = and_then x (\<lambda>y. and_then (f y) g)"
  by (cases x) simp_all

lemma and_then_map: "and_then (map_parsed f x) g = and_then x (\<lambda>y. g (f y))" "map_parsed f (and_then x h) = and_then x (\<lambda>y. map_parsed f (h y))"
  by (cases x; simp)+

lemma counted_simps [simp]:
  "counted k b (counted k' b' r) = counted k b r" "h_header_bytes (counted k b r) = k" "q_buf (counted k b r) = b"
  "q_method (counted k b r) = q_method r" "get_header x (counted k b r) = get_header x r" "q_ready (counted k b r) = q_ready r"
  "h_body_bytes_needed (counted k b r) = h_body_bytes_needed r" "counted (h_header_bytes r) (q_buf r) r = r"
  by (simp_all add: counted_def get_header_def)

text \<open>A line changes the method, the uri, the version and the headers, and looks at nothing else.\<close>

lemma append_counted: "append_header k v (counted n b r) = map_parsed (counted n b) (append_header k v r)"
  by (simp add: append_header_def) (simp add: counted_def)

lemma header_counted: "process_header line (counted n b r) = map_parsed (counted n b) (process_header line r)"
  by (simp add: process_header_def case_prod_beta append_counted split: option.split)

lemma method_counted: "set_method m (counted n b r) = map_parsed (counted n b) (set_method m r)"
  by (simp add: set_method_def counted_def)

lemma uri_counted: "(counted n b r)\<lparr>q_uri := u, h_version := v\<rparr> = counted n b (r\<lparr>q_uri := u, h_version := v\<rparr>)"
  by (simp add: counted_def)

lemma process_counted: "request_process line (counted n b r) = map_parsed (counted n b) (request_process line r)"
  by (cases "set_method (fst (split_at_char (CHR '' '') line)) r")
     (simp_all add: request_process_def case_prod_beta method_counted uri_counted)

lemma line_counted: "request_line line (counted k b r) = map_parsed (counted k b) (request_line line r)"
  by (simp add: request_line_def header_counted process_counted)

definition head_phase :: "request \<Rightarrow> request \<Rightarrow> bool" where
  "head_phase r r' \<longleftrightarrow> h_header_bytes r' = h_header_bytes r \<and> q_buf r' = q_buf r \<and> q_ready r' = q_ready r
     \<and> h_body_bytes_needed r' = h_body_bytes_needed r \<and> h_body_bytes_max r' = h_body_bytes_max r
     \<and> h_body r' = h_body r \<and> h_body_encoding r' = h_body_encoding r"

lemma append_keeps: "append_header k v r = Parsed r' \<Longrightarrow> head_phase r r' \<and> q_method r' = q_method r"
  by (auto simp: append_header_def head_phase_def split: if_splits)

lemma header_keeps: "process_header line r = Parsed r' \<Longrightarrow> head_phase r r' \<and> q_method r' = q_method r"
  by (auto simp: process_header_def case_prod_beta dest: append_keeps split: option.splits if_splits)

lemma process_keeps: "request_process line r = Parsed r' \<Longrightarrow> head_phase r r'"
  by (cases "set_method (fst (split_at_char (CHR '' '') line)) r")
     (auto simp: request_process_def case_prod_beta set_method_def head_phase_def split: if_splits)

lemma line_keeps: "request_line line r = Parsed r' \<Longrightarrow> head_phase r r'"
  using header_keeps process_keeps by (auto simp: request_line_def split: if_splits)

lemma run_counted: "head_run s (counted k b r) = map_parsed (\<lambda>(f, y, r). (f, y, counted k b r)) (head_run s r)"
proof (induction s r rule: head_run.induct)
  case (1 s r)
  show ?case
  proof (cases "split_crlf s")
    case (Some x)
    obtain line rest where x: "x = (line, rest)" by fastforce
    have "and_then (request_line line (counted k b r)) (head_run rest)
        = map_parsed (\<lambda>(f, y, r). (f, y, counted k b r)) (and_then (request_line line r) (head_run rest))" if "line \<noteq> []"
      using 1 [OF Some x [symmetric] that] by (cases "request_line line r") (simp_all add: line_counted)
    then show ?thesis using Some x by (simp add: head_run.simps [of s])
  qed (simp add: head_run.simps [of s])
qed

lemma head_lines_size: "head_lines s \<le> head_size s"
  by (induction s rule: head_size.induct) (subst head_lines.simps, subst head_size.simps, auto split: option.split)

lemma run_keeps: "head_run s r = Parsed (f, y, r') \<Longrightarrow> head_phase r r'"
proof (induction s r rule: head_run.induct)
  case (1 s r)
  show ?case
  proof (cases "split_crlf s")
    case None
    then show ?thesis using 1(2) by (simp add: head_run.simps [of s] head_phase_def)
  next
    case (Some x)
    obtain line rest where x: "x = (line, rest)" by fastforce
    show ?thesis
    proof (cases "line = []")
      case True
      then show ?thesis using 1(2) Some x by (simp add: head_run.simps [of s] head_phase_def)
    next
      case False
      then obtain r1 where r1: "request_line line r = Parsed r1" "head_run rest r1 = Parsed (f, y, r')"
        using 1(2) Some x by (cases "request_line line r") (simp_all add: head_run.simps [of s])
      show ?thesis using 1(1) [OF Some x [symmetric] False r1(2)] line_keeps [OF r1(1)] by (simp add: head_phase_def)
    qed
  qed
qed

text \<open>The loop of the parser, below its limit.\<close>

lemma head_loop_run:
  assumes "h_header_bytes r + head_size s \<le> max_header_size"
  shows "head_loop buf s r = and_then (head_run s r) (\<lambda>(f, y, r').
     if f then end_of_head buf y (r'\<lparr>h_header_bytes := h_header_bytes r + head_lines s\<rparr>)
     else Parsed (length buf, counted (h_header_bytes r + head_lines s + 3) (Some y) r'))"
  using assms
proof (induction s arbitrary: r rule: head_size.induct)
  case (1 s)
  show ?case
  proof (cases "split_crlf s")
    case None
    then show ?thesis using 1(2)
      by (simp add: head_loop.simps [of buf s] head_run.simps [of s] head_lines.simps [of s] head_size.simps [of s]
          counted_def Let_def)
  next
    case (Some x)
    obtain line rest where x: "x = (line, rest)" by fastforce
    define k where "k = h_header_bytes r + (length line + 3)"
    have k: "k \<le> max_header_size" using 1(2) Some x by (simp add: head_size.simps [of s] k_def)
    show ?thesis
    proof (cases "line = []")
      case True
      then show ?thesis using Some x k
        by (simp add: head_loop.simps [of buf s] head_run.simps [of s] head_lines.simps [of s] k_def Let_def)
    next
      case False
      have "head_loop buf s r = and_then (request_line line (counted k (q_buf r) r)) (head_loop buf rest)"
        using Some x k False by (simp add: head_loop.simps [of buf s] counted_def k_def Let_def)
      also have "\<dots> = and_then (request_line line r) (\<lambda>r'. head_loop buf rest (counted k (q_buf r) r'))"
        by (simp add: line_counted and_then_map)
      also have "\<dots> = and_then (request_line line r) (\<lambda>r'. and_then (head_run rest r') (\<lambda>(f, y, r').
          if f then end_of_head buf y (r'\<lparr>h_header_bytes := h_header_bytes r + head_lines s\<rparr>)
          else Parsed (length buf, counted (h_header_bytes r + head_lines s + 3) (Some y) r')))"
      proof (cases "request_line line r")
        case (Parsed r')
        have sz: "k + head_size rest \<le> max_header_size" using 1(2) Some x False by (simp add: head_size.simps [of s] k_def)
        have same: "q_buf r' = q_buf r" using line_keeps [OF Parsed] by (simp add: head_phase_def)
        have "k + head_lines rest = h_header_bytes r + head_lines s"
          using Some x False by (simp add: head_lines.simps [of s] k_def)
        moreover have buf: "(counted k (q_buf r) r'')\<lparr>h_header_bytes := m\<rparr> = r''\<lparr>h_header_bytes := m\<rparr>" if "q_buf r'' = q_buf r" for r'' m
          using that by (simp add: counted_def)
        ultimately show ?thesis
          using 1(1) [OF Some x [symmetric] False, of "counted k (q_buf r) r'"] sz Parsed run_keeps [of rest r'] same
          by (cases "head_run rest r'") (auto simp: run_counted head_phase_def)
      qed simp_all
      finally show ?thesis using Some x False by (simp add: head_run.simps [of s] and_then_assoc)
    qed
  qed
qed

subsection \<open>More octets\<close>

lemma head_run_append:
  "head_run (x @ z) r = and_then (head_run x r) (\<lambda>(f, y, r). if f then Parsed (True, y @ z, r) else head_run (y @ z) r)"
proof (induction x r rule: head_run.induct)
  case (1 x r)
  show ?case
  proof (cases "split_crlf x")
    case None
    then show ?thesis by (simp add: head_run.simps [of x])
  next
    case (Some p)
    obtain line rest where p: "p = (line, rest)" by fastforce
    have "and_then (request_line line r) (head_run (rest @ z)) = and_then (and_then (request_line line r) (head_run rest))
        (\<lambda>(f, y, r). if f then Parsed (True, y @ z, r) else head_run (y @ z) r)" if "line \<noteq> []"
      using 1 [OF Some p [symmetric] that] by (cases "request_line line r") simp_all
    then show ?thesis using Some p split_crlf_append [of x line rest z]
      by (simp add: head_run.simps [of x] head_run.simps [of "x @ z"])
  qed
qed

lemma split_crlf_new:
  "no_crlf b \<Longrightarrow> split_crlf (b @ c) = Some (line, rest) \<Longrightarrow> suffix rest c \<and> length b \<le> length line + 1"
proof (induction b arbitrary: line)
  case Nil
  then show ?case using split_crlf_some [of c line rest] by (auto simp: suffix_def)
next
  case (Cons x b)
  show ?case
  proof (cases "x = CHR 0x0D \<and> b @ c \<noteq> [] \<and> hd (b @ c) = CHR 0x0A")
    case True
    then have "b = []" using Cons.prems(1) by (cases b) auto
    then show ?thesis using True Cons.prems(2) by (auto simp: suffix_tl)
  next
    case False
    then obtain l where "split_crlf (b @ c) = Some (l, rest)" "line = x # l" using Cons.prems(2) by (auto split: if_splits)
    then show ?thesis using Cons.IH [of l] Cons.prems(1) by simp
  qed
qed

lemma head_size_append: "head_size s \<le> head_size (s @ z) + 1"
proof (induction s rule: head_size.induct)
  case (1 s)
  show ?case
  proof (cases "split_crlf s")
    case None
    then have "no_crlf s" by (simp add: split_crlf_none)
    then show ?thesis using None split_crlf_new [of s z]
      by (cases "split_crlf (s @ z)") (fastforce simp: head_size.simps [of s] head_size.simps [of "s @ z"])+
  next
    case (Some p)
    obtain line rest where p: "p = (line, rest)" by fastforce
    show ?thesis using 1 [OF Some p [symmetric]] Some p split_crlf_append [of s line rest z]
      by (auto simp: head_size.simps [of s] head_size.simps [of "s @ z"])
  qed
qed

lemma head_run_open:
  assumes "head_run s r = Parsed (False, y, r')"
  shows "head_size (s @ z) = head_lines s + head_size (y @ z) \<and> no_crlf y"
  using assms
proof (induction s r rule: head_run.induct)
  case (1 s r)
  show ?case
  proof (cases "split_crlf s")
    case None
    have "head_lines s = 0" by (subst head_lines.simps) (simp add: None)
    moreover have "y = s" using 1(2) None by (simp add: head_run.simps [of s])
    ultimately show ?thesis using split_crlf_none [THEN iffD1, OF None] by simp
  next
    case (Some p)
    obtain line rest where p: "p = (line, rest)" by fastforce
    have ne: "line \<noteq> []" using 1(2) Some p by (auto simp: head_run.simps [of s])
    then obtain r1 where r1: "head_run rest r1 = Parsed (False, y, r')"
      using 1(2) Some p by (cases "request_line line r") (simp_all add: head_run.simps [of s])
    show ?thesis using 1(1) [OF Some p [symmetric] ne r1] ne Some p split_crlf_append [of s line rest z]
      by (simp add: head_size.simps [of "s @ z"] head_lines.simps [of s])
  qed
qed

lemma head_run_suffix: "head_run s r = Parsed (f, y, r') \<Longrightarrow> suffix y s"
proof (induction s r rule: head_run.induct)
  case (1 s r)
  show ?case
  proof (cases "split_crlf s")
    case None
    then show ?thesis using 1(2) by (simp add: head_run.simps [of s])
  next
    case (Some p)
    obtain line rest where p: "p = (line, rest)" by fastforce
    have rest: "suffix rest s" using split_crlf_some [of s line rest] Some p by (auto simp: suffix_def)
    show ?thesis
    proof (cases "line = []")
      case True
      then show ?thesis using 1(2) Some p rest by (simp add: head_run.simps [of s])
    next
      case False
      then obtain r1 where r1: "head_run rest r1 = Parsed (f, y, r')"
        using 1(2) Some p by (cases "request_line line r") (simp_all add: head_run.simps [of s])
      show ?thesis using 1(1) [OF Some p [symmetric] False r1] rest by (rule suffix_order.trans)
    qed
  qed
qed

lemma head_run_end:
  assumes "head_run (b @ c) r = Parsed (True, y, r')" and "no_crlf b"
  shows "suffix y c"
proof (cases "split_crlf (b @ c)")
  case None
  then show ?thesis using assms(1) by (simp add: head_run.simps [of "b @ c"])
next
  case (Some p)
  obtain line rest where p: "p = (line, rest)" by fastforce
  have rest: "suffix rest c" using split_crlf_new [OF assms(2)] Some p by blast
  show ?thesis
  proof (cases "line = []")
    case True
    then show ?thesis using assms(1) Some p rest by (simp add: head_run.simps [of "b @ c"])
  next
    case False
    then obtain r1 where "head_run rest r1 = Parsed (True, y, r')"
      using assms(1) Some p by (cases "request_line line r") (simp_all add: head_run.simps [of "b @ c"])
    from suffix_order.trans [OF head_run_suffix [OF this] rest] show ?thesis .
  qed
qed

subsection \<open>Behind the head\<close>

text \<open>A body, and the end of the head, in terms of the text that is left rather than of octets counted.\<close>

definition body_left :: "string \<Rightarrow> request \<Rightarrow> (string \<times> request) parsed" where
  "body_left s r = and_then (process_body s r) (\<lambda>(k, r). Parsed (drop k s, if body_ready r then r\<lparr>q_ready := True\<rparr> else r))"

definition end_left :: "string \<Rightarrow> request \<Rightarrow> (string \<times> request) parsed" where
  "end_left s r =
     (if q_method r = [] \<or> get_header ''Host'' r = [] then Threw sc_bad_request
      else and_then (prepare_body (r\<lparr>q_buf := None\<rparr>)) (\<lambda>(has_body, r).
        if has_body then body_left s r else Parsed (s, r\<lparr>q_ready := True\<rparr>)))"

definition request_whole :: "string \<Rightarrow> request \<Rightarrow> (string \<times> request) parsed" where
  "request_whole s r = and_then (head_run s r) (\<lambda>(f, y, r). if f then end_left y r else Parsed ([], r))"

text \<open>Results without the fields that depend on the pieces.\<close>

definition uncounted :: "(string \<times> request) parsed \<Rightarrow> (string \<times> request) parsed" where
  "uncounted x = map_parsed (\<lambda>(s, r). (s, counted 0 None r)) x"

lemma uncounted_Parsed [simp]: "uncounted (Parsed (s, r)) = Parsed (s, counted 0 None r)"
  "uncounted (Threw code) = Threw code" "uncounted Undefined_text = Undefined_text"
  by (simp_all add: uncounted_def)

lemma counted_ready: "(counted k b r)\<lparr>q_ready := True\<rparr> = counted k b (r\<lparr>q_ready := True\<rparr>)"
  by (simp add: counted_def)

lemma process_body_counted: "process_body s (counted k b r) = map_parsed (\<lambda>(n, r). (n, counted k b r)) (process_body s r)"
  by (simp add: process_body_def Let_def counted_def)

lemma body_left_counted: "uncounted (body_left s (counted k b r)) = uncounted (body_left s r)"
  unfolding body_left_def process_body_counted
  by (cases "process_body s r") (auto simp: body_ready_def counted_def)

lemma prepare_counted:
  "prepare_body ((counted k b r)\<lparr>q_buf := None\<rparr>) = map_parsed (\<lambda>(h, r). (h, counted k None r)) (prepare_body (r\<lparr>q_buf := None\<rparr>))"
  by (simp add: prepare_body_def get_header_def Let_def) (simp add: counted_def)

lemma end_left_counted: "uncounted (end_left s (counted k b r)) = uncounted (end_left s r)"
proof (cases "prepare_body (r\<lparr>q_buf := None\<rparr>)")
  case (Parsed x)
  then show ?thesis using body_left_counted [of s k None "snd x"]
    by (cases x) (auto simp: end_left_def prepare_counted counted_ready)
qed (simp_all add: end_left_def prepare_counted)

lemma whole_counted: "uncounted (request_whole s (counted k b r)) = uncounted (request_whole s r)"
  unfolding request_whole_def run_counted
  by (cases "head_run s r") (auto simp: end_left_counted)

lemma end_of_head_left:
  assumes "suffix y c"
  shows "end_of_head c y r = map_parsed (\<lambda>(s, r). (length c - length s, r)) (end_left y r)"
proof -
  have y: "length y \<le> length c" "drop (length c - length y) c = y" using assms by (auto simp: suffix_def)
  have "length c - length y + min n (length y) = length c - (length y - min n (length y))" for n using y(1) by simp
  then show ?thesis using y
    by (cases "prepare_body (r\<lparr>q_buf := None\<rparr>)")
       (auto simp: end_of_head_def end_left_def body_left_def process_body_def Let_def and_then_map)
qed

lemma end_left_suffix: "end_left y r = Parsed (s, r') \<Longrightarrow> suffix s y"
  by (cases "prepare_body (r\<lparr>q_buf := None\<rparr>)")
     (auto simp: end_left_def body_left_def process_body_def Let_def suffix_drop split: if_splits)

text \<open>A body in pieces.\<close>

lemma body_in_pieces:
  assumes "\<not> q_ready r" and "0 < h_body_bytes_needed r" and "h_body_encoding r = enc_plain"
  shows "request_feed cs r = body_left (concat cs) r"
  using assms
proof (induction cs arbitrary: r)
  case Nil
  then show ?case by (simp add: body_left_def process_body_def body_ready_def)
next
  case (Cons c cs)
  let ?n = "h_body_bytes_needed r"
  show ?case
  proof (cases "?n \<le> length c")
    case True
    then show ?thesis using Cons.prems
      by (simp add: request_consume_def body_left_def process_body_def body_ready_def Let_def)
  next
    case False
    let ?r = "r\<lparr>h_body := h_body r @ c, h_body_bytes_needed := ?n - length c\<rparr>"
    have "request_feed (c # cs) r = request_feed cs ?r"
      using False Cons.prems by (simp add: request_consume_def process_body_def body_ready_def Let_def)
    also have "\<dots> = body_left (concat cs) ?r" using False Cons.prems by (intro Cons.IH) simp_all
    also have "\<dots> = body_left (concat (c # cs)) r" using False Cons.prems
      by (auto simp: body_left_def process_body_def body_ready_def Let_def min_def)
    finally show ?thesis .
  qed
qed

subsection \<open>Properties\<close>

lemma end_in_pieces:
  assumes "\<not> q_ready r" and "h_body_bytes_needed r = 0"
  shows "and_then (end_left y r) (\<lambda>(s, r). if q_ready r then Parsed (s @ concat cs, r) else request_feed cs r)
    = end_left (y @ concat cs) r"
proof (cases "prepare_body (r\<lparr>q_buf := None\<rparr>)")
  case (Parsed x)
  obtain has_body r' where x: "x = (has_body, r')" by fastforce
  have r': "\<not> q_ready r'" "has_body \<Longrightarrow> h_body_encoding r' = enc_plain"
    using Parsed x assms(1) by (auto simp: prepare_body_def Let_def split: if_splits)
  have "and_then (body_left y r') (\<lambda>(s, r). if q_ready r then Parsed (s @ concat cs, r) else request_feed cs r)
      = body_left (y @ concat cs) r'" if "has_body"
  proof (cases "h_body_bytes_needed r' \<le> length y")
    case True
    then show ?thesis using r' that by (simp add: body_left_def process_body_def body_ready_def Let_def)
  next
    case False
    then show ?thesis using r' that
      by (auto simp: body_left_def process_body_def body_ready_def Let_def body_in_pieces min_def)
  qed
  then show ?thesis using Parsed x by (auto simp: end_left_def)
qed (auto simp: end_left_def)

lemma head_in_pieces:
  assumes "\<not> q_ready r" and "h_body_bytes_needed r = 0" and "q_buf r = Some b" and "no_crlf b"
    and "h_header_bytes r + head_size (b @ concat cs) + 3 * length cs < max_header_size"
  shows "uncounted (request_feed cs r) = uncounted (request_whole (b @ concat cs) r)"
  using assms
proof (induction cs arbitrary: r b)
  case Nil
  then show ?case by (simp add: request_whole_def head_run.simps [of b] split_crlf_none [THEN iffD2])
next
  case (Cons c cs)
  let ?h = "h_header_bytes r"
  have "?h + head_size (b @ c) \<le> max_header_size"
    using Cons.prems(5) head_size_append [of "b @ c" "concat cs"] by simp
  note loop = head_loop_run [OF this, of c]
  show ?case
  proof (cases "head_run (b @ c) r")
    case (Parsed x)
    obtain f y r' where x: "x = (f, y, r')" by (cases x)
    have k: "head_phase r r'" using run_keeps Parsed x by blast
    show ?thesis
    proof (cases f)
      case True
      let ?r = "r'\<lparr>h_header_bytes := ?h + head_lines (b @ c)\<rparr>"
      have sfx: "suffix y c" by (rule head_run_end [OF _ Cons.prems(4)]) (use Parsed x True in simp)
      have "request_feed (c # cs) r = and_then (end_left y ?r) (\<lambda>(s, r).
          if q_ready r then Parsed (drop (length c - length s) c @ concat cs, r) else request_feed cs r)"
        using Cons.prems(1-3) loop Parsed x True
        by (cases "end_left y ?r") (simp_all add: request_consume_def end_of_head_left [OF sfx] case_prod_beta)
      also have "\<dots> = and_then (end_left y ?r) (\<lambda>(s, r). if q_ready r then Parsed (s @ concat cs, r) else request_feed cs r)"
      proof (cases "end_left y ?r")
        case e: (Parsed e)
        have "suffix (fst e) c" using end_left_suffix [of y ?r "fst e" "snd e"] e sfx by (auto intro: suffix_order.trans)
        then have "drop (length c - length (fst e)) c = fst e" by (auto simp: suffix_def)
        then show ?thesis using e by (simp add: case_prod_beta)
      qed simp_all
      also have "\<dots> = end_left (y @ concat cs) ?r"
        using Cons.prems(1,2) k by (intro end_in_pieces) (simp_all add: head_phase_def)
      also have "?r = counted (?h + head_lines (b @ c)) (q_buf r') r'" by (simp add: counted_def)
      finally show ?thesis using Parsed x True
        by (simp add: request_whole_def head_run_append [of "b @ c", simplified] end_left_counted)
    next
      case False
      let ?r = "counted (?h + head_lines (b @ c) + 3) (Some y) r'"
      have "head_run (b @ c) r = Parsed (False, y, r')" using Parsed x False by simp
      note open_head = head_run_open [OF this]
      have "request_feed (c # cs) r = request_feed cs ?r"
        using Cons.prems(1-3) loop Parsed x False k by (simp add: request_consume_def head_phase_def)
      also have "uncounted \<dots> = uncounted (request_whole (y @ concat cs) ?r)"
        using Cons.prems open_head [of "concat cs"] k by (intro Cons.IH) (simp_all add: head_phase_def)
      also have "\<dots> = uncounted (request_whole (y @ concat cs) r')" by (rule whole_counted)
      also have "\<dots> = uncounted (request_whole (b @ c @ concat cs) r)"
        using Parsed x False by (simp add: request_whole_def head_run_append [of "b @ c", simplified])
      finally show ?thesis by simp
    qed
  next
    case (Threw code)
    then show ?thesis using Cons.prems(1-3) loop
      by (simp add: request_consume_def request_whole_def head_run_append [of "b @ c", simplified])
  next
    case Undefined_text
    then show ?thesis using Cons.prems(1-3) loop
      by (simp add: request_consume_def request_whole_def head_run_append [of "b @ c", simplified])
  qed
qed

lemma pieces_read:
  assumes "head_size (concat cs) + 3 * length cs + 3 < max_header_size"
  shows "uncounted (request_feed cs request_new) = uncounted (request_feed [concat cs] request_new)"
proof -
  have "uncounted (request_feed ds request_new) = uncounted (request_whole (concat ds) request_new)"
    if "head_size (concat ds) + 3 * length ds < max_header_size" for ds
    using head_in_pieces [of request_new "[]" ds] that by (simp add: request_new_def)
  from this [of cs] this [of "[concat cs]"] assms show ?thesis by simp
qed

text \<open>C30. Reading a request does not depend on how the network cuts it, as long as the size of its head, 3 octets for
each piece and 3 more stay below the limit of 16000 octets: then the pieces give the request, the octets left behind
it, or the error that the whole text gives, all but the counter of header octets and the kept line. Without that bound
it is false: the code counts the octets of a piece that end no line when they come and again when their line ends, so
4001 to 15997 octets of one line are accepted whole and refused with 431 octet by octet (\<open>header_limit_leaks\<close>).\<close>

theorem request_in_pieces:
  assumes "head_size (concat cs) + 3 * length cs + 3 < max_header_size"
  shows "uncounted (request_feed cs request_new) = uncounted (request_feed [concat cs] request_new)"
  by (rule pieces_read [OF assms])

definition sample_request :: string where
  "sample_request = ''GET /chat HTTP/1.1'' @ [CHR 0x0D, CHR 0x0A] @ ''Host: robot'' @ [CHR 0x0D, CHR 0x0A]
     @ [CHR 0x0D, CHR 0x0A] @ ''rest''"

theorem request_in_pieces_witness:
  "\<exists>r. request_feed (map (\<lambda>c. [c]) sample_request) request_new = Parsed (''rest'', r) \<and> q_uri r = ''/chat''"
proof -
  have c: "concat (map (\<lambda>c. [c]) sample_request) = sample_request" by simp
  have whole: "map_parsed (\<lambda>(s, r). (s, q_uri r)) (request_feed [sample_request] request_new) = Parsed (''rest'', ''/chat'')"
    unfolding sample_request_def
    by (simp add: request_new_def request_consume_def head_loop.simps Let_def max_header_size_def request_line_def
        request_process_def split_at_char_def set_method_def is_not_token_char_def header_token_def
        process_header_def strip_is_trim trim_def ws_char append_header_def get_header_def end_of_head_def prepare_body_def
        ci_eq_key ci_key_def tolower_def)
  have size: "head_size sample_request = 38" "length sample_request = 39"
    by (simp_all add: sample_request_def head_size.simps)
  have "uncounted (request_feed (map (\<lambda>c. [c]) sample_request) request_new) = uncounted (request_feed [sample_request] request_new)"
    using request_in_pieces [of "map (\<lambda>c. [c]) sample_request"] size by (simp add: c max_header_size_def)
  then show ?thesis using whole
    by (cases "request_feed [sample_request] request_new";
        cases "request_feed (map (\<lambda>c. [c]) sample_request) request_new") (auto simp: uncounted_def counted_def dest!: arg_cong [of _ _ q_uri])
qed

lemma drip:
  assumes "no_crlf (u @ v)" and "4000 < length (u @ v)" and "length u \<le> 4000"
    and "q_buf r = Some u" and "h_header_bytes r = 3 * length u" and "\<not> q_ready r" and "h_body_bytes_needed r = 0"
  shows "request_feed (map (\<lambda>c. [c]) v) r = Threw sc_request_header_fields_too_large"
  using assms
proof (induction v arbitrary: u r)
  case (Cons c v)
  have "no_crlf (u @ [c])" using Cons.prems(1)
    by (induction u) (auto simp: hd_append split: if_splits)
  then have loop: "head_loop [c] (u @ [c]) r = (if 4000 < length u + 1 then Threw sc_request_header_fields_too_large
      else Parsed (1, counted (3 * (length u + 1)) (Some (u @ [c])) r))"
    using Cons.prems(5) split_crlf_none [of "u @ [c]"]
    by (simp add: head_loop.simps [of "[c]" "u @ [c]"] max_header_size_def counted_def Let_def)
  show ?case
  proof (cases "length u = 4000")
    case True
    then show ?thesis using Cons.prems loop by (simp add: request_consume_def)
  next
    case False
    have "request_feed (map (\<lambda>c. [c]) (c # v)) r
        = request_feed (map (\<lambda>c. [c]) v) (counted (3 * (length u + 1)) (Some (u @ [c])) r)"
      using Cons.prems False loop by (simp add: request_consume_def)
    also have "\<dots> = Threw sc_request_header_fields_too_large"
      using Cons.prems False by (intro Cons.IH [of "u @ [c]"]) simp_all
    finally show ?thesis .
  qed
qed simp

text \<open>The counter of the header size is not taken back with the octets that are kept for the next read:
three more are counted for every read. A head that comes one octet at a time is refused as too large after
4000 octets, a quarter of the limit, though the same text in one piece is accepted.\<close>

theorem header_limit_leaks:
  assumes "no_crlf s" and "4000 < length s" and "length s \<le> 15997"
  shows "request_feed (map (\<lambda>c. [c]) s) request_new = Threw sc_request_header_fields_too_large
    \<and> (\<exists>r. request_feed [s] request_new = Parsed ([], r))"
  using assms drip [of "[]" s request_new] split_crlf_none [of s]
  by (simp add: request_new_def request_consume_def head_loop.simps [of s s] max_header_size_def)

theorem header_limit_leaks_witness:
  "request_feed (map (\<lambda>c. [c]) (replicate 5000 (CHR ''x''))) request_new = Threw 431"
proof -
  have "no_crlf (replicate n (CHR ''x''))" for n by (induction n) simp_all
  then show ?thesis using header_limit_leaks [of "replicate 5000 (CHR ''x'')"]
    by (simp add: sc_request_header_fields_too_large_def)
qed

end
