(* ===== verification/HttpPrint.thy ===== *)
theory HttpPrint imports HttpStream begin

text \<open>
  Printing and parsing requests: \<open>request::raw\<close> and \<open>request::consume\<close> are inverse to each other on
  the requests that can be written down.
\<close>

subsection \<open>Requests that can be written\<close>

definition printable_header :: "string \<times> string \<Rightarrow> bool" where
  "printable_header kv \<longleftrightarrow> is_token (fst kv) \<and> CHR 0x0D \<notin> set (snd kv) \<and> trim (snd kv) = snd kv"

definition sorted_headers :: "header_list \<Rightarrow> bool" where
  "sorted_headers h \<longleftrightarrow> sorted_wrt (\<lambda>a b. ci_less (fst a) (fst b)) h"

text \<open>The body is announced by its length, or there is none.\<close>

definition announced_body :: "'r http_parser_scheme \<Rightarrow> bool" where
  "announced_body r \<longleftrightarrow>
     (if get_header ''Content-Length'' r = [] then h_body r = []
      else get_header ''Content-Length'' r = decimal (length (h_body r)) \<and> length (h_body r) \<le> max_body_size)"

definition printable_request :: "request \<Rightarrow> bool" where
  "printable_request r \<longleftrightarrow> is_token (q_method r) \<and> CHR '' '' \<notin> set (q_uri r) \<and> CHR 0x0D \<notin> set (q_uri r)
     \<and> CHR 0x0D \<notin> set (h_version r) \<and> sorted_headers (h_headers r) \<and> list_all printable_header (h_headers r)
     \<and> get_header ''Host'' r \<noteq> [] \<and> announced_body r \<and> head_size (request_raw_head r) \<le> max_header_size"

subsection \<open>Lines\<close>

lemma split_at_char_first: "c \<notin> set s \<Longrightarrow> split_at_char c (s @ c # rest) = (s, c # rest)"
  by (induction s) (auto simp: split_at_char_def)

lemma token_plain:
  assumes "is_token s"
  shows "CHR 0x0D \<notin> set s" "CHR '' '' \<notin> set s" "CHR '':'' \<notin> set s" "\<not> list_ex is_not_token_char s" "trim s = s"
proof -
  have out: "\<not> is_token_char (CHR 0x0D)" "\<not> is_token_char (CHR '' '')" "\<not> is_token_char (CHR '':'')" "\<not> is_token_char (CHR 0x09)"
    by code_simp+
  have inn: "\<forall>c \<in> set s. is_token_char c" using assms by (simp add: is_token_def list_all_iff)
  then show "CHR 0x0D \<notin> set s" "CHR '' '' \<notin> set s" "CHR '':'' \<notin> set s" "\<not> list_ex is_not_token_char s"
    using out by (auto simp: list_ex_iff token_char)
  have "\<forall>c \<in> set s. \<not> is_whitespace_char c" using inn out by (auto simp: ws_char)
  then have "dropWhile is_whitespace_char s = s" "dropWhile is_whitespace_char (rev s) = rev s"
    by (auto simp: dropWhile_eq_self_iff hd_in_set last_in_set hd_rev)
  then show "trim s = s" by (simp add: trim_def)
qed

lemma trim_space: "trim (CHR '' '' # s) = trim s"
  by (simp add: trim_def ws_char)

lemma header_line:
  assumes "printable_header (k, v)" and "header_find (h_headers r) k = None"
  shows "process_header (k @ '': '' @ v) r = Parsed (r\<lparr>h_headers := header_put k v (h_headers r)\<rparr>)"
proof -
  have k: "is_token k" "CHR 0x0D \<notin> set v" "trim v = v" using assms(1) by (simp_all add: printable_header_def)
  have "split_at_char (CHR '':'') (k @ '': '' @ v) = (k, '': '' @ v)"
    using split_at_char_first [OF token_plain(3) [OF k(1)]] by simp
  moreover have "strip_lws k = Some k" "strip_lws (CHR '' '' # v) = Some v"
    using k token_plain(1,5) [OF k(1)] by (simp_all add: strip_is_trim trim_space)
  ultimately show ?thesis using assms(2) token_plain(4) [OF k(1)]
    by (simp add: process_header_def append_header_def get_header_def)
qed

lemma put_last:
  assumes "\<forall>kv \<in> set h. ci_less (fst kv) k"
  shows "header_put k v h = h @ [(k, v)]" and "header_find h k = None"
proof -
  have "\<not> ci_less k a \<and> \<not> ci_eq a k" if "ci_less a k" for a
    using that ci_less_trans [of a k a] ci_less_neq [of a k] by (auto simp: ci_eq_key)
  then show "header_put k v h = h @ [(k, v)]" "header_find h k = None"
    using assms by (induction h) auto
qed

lemma headers_read:
  assumes "list_all printable_header h" and "sorted_headers (h_headers r @ h)" and "q_method r \<noteq> []"
  shows "head_run (concat (map (\<lambda>(k, v). k @ '': '' @ v @ [CHR 0x0D, CHR 0x0A]) h) @ [CHR 0x0D, CHR 0x0A] @ z) r
    = Parsed (True, z, r\<lparr>h_headers := h_headers r @ h\<rparr>)"
  using assms
proof (induction h arbitrary: r)
  case Nil
  then show ?case using split_crlf_line [of "[]" z] by (simp add: head_run.simps)
next
  case (Cons kv h)
  obtain k v where kv: "kv = (k, v)" by fastforce
  let ?rest = "concat (map (\<lambda>(k, v). k @ '': '' @ v @ [CHR 0x0D, CHR 0x0A]) h) @ [CHR 0x0D, CHR 0x0A] @ z"
  have p: "printable_header (k, v)" "is_token k" "CHR 0x0D \<notin> set v" using Cons.prems(1) by (simp_all add: kv printable_header_def)
  have less: "\<forall>x \<in> set (h_headers r). ci_less (fst x) k"
    using Cons.prems(2) by (auto simp: sorted_headers_def kv sorted_wrt_append)
  have line: "split_crlf ((k @ '': '' @ v) @ CHR 0x0D # CHR 0x0A # ?rest) = Some (k @ '': '' @ v, ?rest)"
    using p token_plain(1) [OF p(2)] by (intro split_crlf_line no_cr_no_crlf) auto
  have "request_line (k @ '': '' @ v) r = Parsed (r\<lparr>h_headers := h_headers r @ [(k, v)]\<rparr>)"
    using header_line [OF p(1) put_last(2) [OF less]] put_last(1) [OF less] Cons.prems(3) by (simp add: request_line_def)
  then have "head_run ((k @ '': '' @ v) @ CHR 0x0D # CHR 0x0A # ?rest) r
      = head_run ?rest (r\<lparr>h_headers := h_headers r @ [(k, v)]\<rparr>)"
    using line by (subst head_run.simps) simp
  also have "\<dots> = Parsed (True, z, r\<lparr>h_headers := h_headers r @ kv # h\<rparr>)"
    using Cons.IH [of "r\<lparr>h_headers := h_headers r @ [(k, v)]\<rparr>"] Cons.prems kv by simp
  finally show ?case by (simp add: kv)
qed

definition read_head :: "request \<Rightarrow> request" where
  "read_head r = request_new\<lparr>q_method := q_method r, q_uri := q_uri r, h_version := h_version r, h_headers := h_headers r\<rparr>"

lemma head_read:
  assumes "printable_request r"
  shows "head_run (request_raw_head r @ z) request_new = Parsed (True, z, read_head r)"
proof -
  note p = assms [unfolded printable_request_def]
  let ?line = "q_method r @ '' '' @ q_uri r @ '' '' @ h_version r"
  have m: "is_token (q_method r)" using p by simp
  let ?r1 = "request_new\<lparr>q_method := q_method r, q_uri := q_uri r, h_version := h_version r\<rparr>"
  have "split_at_char (CHR '' '') ?line = (q_method r, '' '' @ q_uri r @ '' '' @ h_version r)"
    using split_at_char_first [OF token_plain(2) [OF m]] by simp
  moreover have "split_at_char (CHR '' '') (q_uri r @ '' '' @ h_version r) = (q_uri r, '' '' @ h_version r)"
    using split_at_char_first [of "CHR '' ''" "q_uri r" "h_version r"] p by simp
  ultimately have "request_process ?line request_new = Parsed ?r1"
    using token_plain(4) [OF m] by (simp add: request_process_def set_method_def)
  then have "request_line ?line request_new = Parsed ?r1" by (simp add: request_line_def request_new_def)
  moreover have "split_crlf (?line @ CHR 0x0D # CHR 0x0A # rest) = Some (?line, rest)" for rest
    using p token_plain(1) [OF m] by (intro split_crlf_line no_cr_no_crlf) auto
  moreover have "head_run (raw_headers r @ [CHR 0x0D, CHR 0x0A] @ z) ?r1 = Parsed (True, z, read_head r)"
    using headers_read [of "h_headers r" ?r1 z] p m
    by (simp add: raw_headers_def read_head_def request_new_def is_token_def)
  ultimately show ?thesis unfolding request_raw_head_def
    by (subst head_run.simps) (simp add: is_token_def)
qed

lemma head_size_read: "head_run s r = Parsed (True, y, r') \<Longrightarrow> head_size (s @ z) = head_size s"
proof (induction s r rule: head_run.induct)
  case (1 s r)
  show ?case
  proof (cases "split_crlf s")
    case None
    then show ?thesis using 1(2) by (simp add: head_run.simps [of s])
  next
    case (Some p)
    obtain line rest where p: "p = (line, rest)" by fastforce
    have "head_size (rest @ z) = head_size rest" if "line \<noteq> []"
    proof -
      have "and_then (request_line line r) (head_run rest) = Parsed (True, y, r')"
        using 1(2) Some p that by (simp add: head_run.simps [of s])
      then obtain r1 where "head_run rest r1 = Parsed (True, y, r')" by (cases "request_line line r") simp_all
      from 1(1) [OF Some p [symmetric] that this] show ?thesis .
    qed
    then show ?thesis using Some p split_crlf_append [of s line rest z]
      by (simp add: head_size.simps [of s] head_size.simps [of "s @ z"])
  qed
qed

subsection \<open>Properties\<close>

lemma printed_request_read:
  assumes "printable_request r"
  shows "\<exists>r'. request_consume (request_raw r @ rest) request_new = Parsed (length (request_raw r), r') \<and> q_ready r'
    \<and> q_method r' = q_method r \<and> q_uri r' = q_uri r \<and> h_version r' = h_version r \<and> h_headers r' = h_headers r
    \<and> h_body r' = h_body r"
proof -
  let ?buf = "request_raw_head r @ h_body r @ rest" and ?left = "h_body r @ rest"
  have run: "head_run ?buf request_new = Parsed (True, ?left, read_head r)" by (rule head_read [OF assms])
  have size: "head_size ?buf \<le> max_header_size"
    using head_size_read [of "request_raw_head r" request_new "[]" "read_head r"] head_read [OF assms, of "[]"] assms
    by (simp add: printable_request_def)
  let ?r = "(read_head r)\<lparr>h_header_bytes := head_lines ?buf\<rparr>"
  have "request_consume ?buf request_new = end_of_head ?buf ?left ?r"
    using head_loop_run [of request_new ?buf ?buf] size run by (simp add: request_consume_def request_new_def)
  also have "\<dots> = map_parsed (\<lambda>(s, r). (length ?buf - length s, r)) (end_left ?left ?r)"
    by (rule end_of_head_left) (simp add: suffix_def)
  finally have consume: "request_consume ?buf request_new = map_parsed (\<lambda>(s, r). (length ?buf - length s, r)) (end_left ?left ?r)" .
  have fields: "get_header x ?r = get_header x r" "q_method ?r = q_method r" "h_body ?r = []" "h_body_bytes_max ?r = max_body_size"
    for x by (simp_all add: read_head_def request_new_def get_header_def)
  note p = assms [unfolded printable_request_def]
  show ?thesis
  proof (cases "get_header ''Content-Length'' r = []")
    case True
    then have "h_body r = []" using p by (simp add: announced_body_def)
    moreover have "get_header x (?r\<lparr>q_buf := None\<rparr>) = get_header x r" for x using fields(1) [of x] by (simp add: get_header_def)
    ultimately have "end_left ?left ?r = Parsed (rest, ?r\<lparr>q_buf := None, q_ready := True\<rparr>)"
      using p True fields by (simp add: end_left_def prepare_body_def is_token_def)
    then show ?thesis using consume \<open>h_body r = []\<close>
      by (simp add: request_raw_def read_head_def request_new_def)
  next
    case False
    then have b: "get_header ''Content-Length'' r = decimal (length (h_body r))" "length (h_body r) \<le> max_body_size"
      using p by (simp_all add: announced_body_def)
    have n: "strtoul (decimal (length (h_body r))) = length (h_body r)"
      using b(2) by (intro strtoul_decimal) (simp add: max_body_size_def)
    have "get_header x (?r\<lparr>q_buf := None\<rparr>) = get_header x r" for x using fields(1) [of x] by (simp add: get_header_def)
    then have "prepare_body (?r\<lparr>q_buf := None\<rparr>) = Parsed (True, ?r\<lparr>q_buf := None, h_body_bytes_needed := length (h_body r), h_body_encoding := enc_plain\<rparr>)"
      using False b n fields by (simp add: prepare_body_def Let_def)
    then have "end_left ?left ?r = Parsed (rest, ?r\<lparr>q_buf := None, h_body_bytes_needed := 0, h_body_encoding := enc_plain,
        h_body := h_body r, q_ready := True\<rparr>)"
      using p fields by (simp add: end_left_def body_left_def process_body_def body_ready_def is_token_def Let_def)
    then show ?thesis using consume by (simp add: request_raw_def read_head_def request_new_def)
  qed
qed

text \<open>C31. A request that is written out and read again comes back: its method, its uri, its version, its
headers in order and its body, with every octet of it taken and none of those behind it.\<close>

theorem request_roundtrip:
  assumes "printable_request r"
  shows "\<exists>r'. request_consume (request_raw r @ rest) request_new = Parsed (length (request_raw r), r') \<and> q_ready r'
    \<and> q_method r' = q_method r \<and> q_uri r' = q_uri r \<and> h_version r' = h_version r \<and> h_headers r' = h_headers r
    \<and> h_body r' = h_body r"
  by (rule printed_request_read [OF assms])

definition sample :: request where
  "sample = request_new\<lparr>q_method := ''POST'', q_uri := ''/run'', h_version := ''HTTP/1.1'',
     h_headers := [(''Content-Length'', ''4''), (''Host'', ''robot:9002'')], h_body := ''a=17''\<rparr>"

theorem request_roundtrip_witness:
  "\<exists>r'. request_consume (request_raw sample @ ''next'') request_new = Parsed (length (request_raw sample), r') \<and> h_body r' = ''a=17''"
proof -
  have "decimal (Suc (Suc (Suc (Suc 0)))) = ''4''" by code_simp
  then have "printable_request sample"
    by (simp add: sample_def printable_request_def is_token_def is_token_char_def header_token_def sorted_headers_def
        printable_header_def trim_def ws_char get_header_def ci_eq_key ci_key_def tolower_def announced_body_def
        max_body_size_def max_header_size_def request_raw_head_def raw_headers_def head_size.simps request_new_def)
  from request_roundtrip [OF this, of "''next''"] show ?thesis by (auto simp: sample_def)
qed

end
