(* ===== verification/HttpResponse.thy ===== *)
theory HttpResponse imports HttpPrint begin

text \<open>
  HTTP responses: \<open>http/response.hpp\<close> and \<open>http/impl/response.hpp\<close>, with the status codes and their
  phrases of \<open>http/constants.hpp\<close>. The server writes a response to the opening handshake, the client
  reads it with the streaming parser.
\<close>

subsection \<open>Status codes\<close>

definition sc_uninitialized :: status_code where "sc_uninitialized = 0"
definition sc_switching_protocols :: status_code where "sc_switching_protocols = 101"
definition sc_upgrade_required :: status_code where "sc_upgrade_required = 426"

definition status_phrases :: "(status_code \<times> string) list" where
  "status_phrases =
     [(0, ''Uninitialized''), (100, ''Continue''), (101, ''Switching Protocols''), (200, ''OK''),
      (201, ''Created''), (202, ''Accepted''), (203, ''Non Authoritative Information''), (204, ''No Content''),
      (205, ''Reset Content''), (206, ''Partial Content''), (300, ''Multiple Choices''),
      (301, ''Moved Permanently''), (302, ''Found''), (303, ''See Other''), (304, ''Not Modified''),
      (305, ''Use Proxy''), (307, ''Temporary Redirect''), (400, ''Bad Request''), (401, ''Unauthorized''),
      (402, ''Payment Required''), (403, ''Forbidden''), (404, ''Not Found''), (405, ''Method Not Allowed''),
      (406, ''Not Acceptable''), (407, ''Proxy Authentication Required''), (408, ''Request Timeout''),
      (409, ''Conflict''), (410, ''Gone''), (411, ''Length Required''), (412, ''Precondition Failed''),
      (413, ''Request Entity Too Large''), (414, ''Request-URI Too Long''), (415, ''Unsupported Media Type''),
      (416, ''Requested Range Not Satisfiable''), (417, ''Expectation Failed''),
      (418, ''I'' @ [CHR 0x27] @ ''m a teapot''), (426, ''Upgrade Required''), (428, ''Precondition Required''),
      (429, ''Too Many Requests''), (431, ''Request Header Fields Too Large''),
      (500, ''Internal Server Error''), (501, ''Not Implemented''), (502, ''Bad Gateway''),
      (503, ''Service Unavailable''), (504, ''Gateway Timeout''), (505, ''HTTP Version Not Supported''),
      (510, ''Not Extended''), (511, ''Network Authentication Required'')]"

definition get_string :: "status_code \<Rightarrow> string" where
  "get_string c = (case map_of status_phrases c of None \<Rightarrow> ''Unknown'' | Some s \<Rightarrow> s)"

text \<open>What \<open>std::ostream << int\<close> prints, and what \<open>std::istream >> size_t\<close> reads: a negative number is
read modulo \<open>2 ^ 64\<close>, \<open>None\<close> is the failure for no digits or too large a number.\<close>

definition print_int :: "int \<Rightarrow> string" where
  "print_int i = (if i < 0 then CHR ''-'' # decimal (nat (- i)) else decimal (nat i))"

definition stream_size :: "string \<Rightarrow> nat option" where
  "stream_size s =
     (let (neg, ds) = signed_digits s; v = digits_value ds
      in if ds = [] \<or> 2 ^ 64 \<le> v then None else Some (if neg then nat ((- v) mod 2 ^ 64) else nat v))"

subsection \<open>The response\<close>

datatype response_state = RESPONSE_LINE | HEADERS | BODY | DONE

text \<open>\<open>s_buf\<close> is the shared buffer of the head, \<open>None\<close> once it is reset.\<close>

record response = http_parser +
  s_status_msg :: string
  s_read :: nat
  s_buf :: "string option"
  s_status_code :: status_code
  s_state :: response_state

definition response_new :: response where
  "response_new = \<lparr>h_version = [], h_headers = [], h_header_bytes = 0, h_body = [], h_body_bytes_needed = 0,
     h_body_bytes_max = max_body_size, h_body_encoding = enc_unknown, s_status_msg = [], s_read = 0, s_buf = Some [],
     s_status_code = sc_uninitialized, s_state = RESPONSE_LINE\<rparr>"

definition response_ready :: "response \<Rightarrow> bool" where
  "response_ready r \<longleftrightarrow> s_state r = DONE"

definition headers_ready :: "response \<Rightarrow> bool" where
  "headers_ready r \<longleftrightarrow> s_state r = BODY \<or> s_state r = DONE"

definition set_status :: "status_code \<Rightarrow> response \<Rightarrow> response" where
  "set_status code r = r\<lparr>s_status_code := code, s_status_msg := get_string code\<rparr>"

definition set_status_msg :: "status_code \<Rightarrow> string \<Rightarrow> response \<Rightarrow> response" where
  "set_status_msg code msg r = r\<lparr>s_status_code := code, s_status_msg := msg\<rparr>"

definition response_raw :: "response \<Rightarrow> string" where
  "response_raw r = h_version r @ '' '' @ print_int (s_status_code r) @ '' '' @ s_status_msg r @ [CHR 0x0D, CHR 0x0A]
     @ raw_headers r @ [CHR 0x0D, CHR 0x0A] @ h_body r"

text \<open>The status line.\<close>

definition response_process :: "string \<Rightarrow> response \<Rightarrow> response parsed" where
  "response_process line r =
     (let (version, rest) = split_at_char (CHR '' '') line in
      if rest = [] then Threw sc_bad_request
      else
        let r = r\<lparr>h_version := version\<rparr>; (digits, rest) = split_at_char (CHR '' '') (tl rest) in
        if rest = [] then Threw sc_bad_request
        else (case stream_int digits of
                None \<Rightarrow> Threw sc_bad_request
              | Some code \<Rightarrow> Parsed (set_status_msg code (tl rest) r)))"

definition response_process_body :: "string \<Rightarrow> response \<Rightarrow> nat \<times> response" where
  "response_process_body buf r =
     (if s_read r = 0 then (0, r\<lparr>s_state := DONE\<rparr>)
      else
        let (to_read, r) = (if length buf \<ge> s_read r then (s_read r, r\<lparr>s_state := DONE\<rparr>) else (length buf, r))
        in (to_read, r\<lparr>h_body := h_body r @ take to_read buf, s_read := s_read r - to_read\<rparr>))"

text \<open>The blank line: \<open>after\<close> is what follows it.\<close>

definition response_blank :: "string \<Rightarrow> string \<Rightarrow> response \<Rightarrow> (nat \<times> response) parsed" where
  "response_blank buf after r =
     (if s_state r = RESPONSE_LINE then Threw sc_bad_request
      else
        let len = get_header ''Content-Length'' r in
        case (if len = [] then Some 0 else stream_size len) of
          None \<Rightarrow> Threw sc_bad_request
        | Some n \<Rightarrow>
            let r = r\<lparr>s_read := n, s_state := BODY\<rparr>;
                read = length buf - length after;
                (k, r) = (if read < length buf then response_process_body (drop read buf) r else (0, r))
            in Parsed (read + k, r\<lparr>s_buf := None\<rparr>))"

definition response_line :: "string \<Rightarrow> response \<Rightarrow> response parsed" where
  "response_line line r =
     (if s_state r = RESPONSE_LINE then and_then (response_process line r) (\<lambda>r. Parsed (r\<lparr>s_state := HEADERS\<rparr>))
      else process_header line r)"

function response_loop :: "string \<Rightarrow> string \<Rightarrow> response \<Rightarrow> (nat \<times> response) parsed" where
  "response_loop buf rest r =
     (case split_crlf rest of
        None \<Rightarrow>
          let r = r\<lparr>h_header_bytes := h_header_bytes r + (length rest + 3)\<rparr> in
          if h_header_bytes r > max_header_size then Threw sc_request_header_fields_too_large
          else Parsed (length buf, r\<lparr>s_buf := Some rest, s_read := s_read r + length buf,
                                      h_header_bytes := h_header_bytes r - length rest\<rparr>)
      | Some (line, after) \<Rightarrow>
          let r = r\<lparr>h_header_bytes := h_header_bytes r + (length line + 3)\<rparr> in
          if h_header_bytes r > max_header_size then Threw sc_request_header_fields_too_large
          else if line = [] then response_blank buf after r
          else and_then (response_line line r) (response_loop buf after))"
  by pat_completeness auto
termination
  by (relation "measure (\<lambda>(buf, rest, r). length rest)") (auto dest: split_crlf_le)

declare response_loop.simps [simp del]

definition response_consume :: "string \<Rightarrow> response \<Rightarrow> (nat \<times> response) parsed" where
  "response_consume buf r =
     (if s_state r = DONE then Parsed (0, r)
      else if s_state r = BODY then Parsed (response_process_body buf r)
      else (case s_buf r of None \<Rightarrow> Undefined_text | Some b \<Rightarrow> response_loop buf (b @ buf) r))"

subsection \<open>Printing and parsing\<close>

definition printable_response :: "response \<Rightarrow> bool" where
  "printable_response r \<longleftrightarrow> CHR '' '' \<notin> set (h_version r) \<and> CHR 0x0D \<notin> set (h_version r)
     \<and> 0 \<le> s_status_code r \<and> s_status_code r < 2 ^ 31 \<and> CHR 0x0D \<notin> set (s_status_msg r)
     \<and> sorted_headers (h_headers r) \<and> list_all printable_header (h_headers r) \<and> announced_body r
     \<and> head_size (response_raw r) \<le> max_header_size"

definition header_text :: "header_list \<Rightarrow> string" where
  "header_text h = concat (map (\<lambda>(k, v). k @ '': '' @ v @ [CHR 0x0D, CHR 0x0A]) h) @ [CHR 0x0D, CHR 0x0A]"

lemma header_text_Cons: "header_text ((k, v) # h) = (k @ '': '' @ v) @ CHR 0x0D # CHR 0x0A # header_text h"
  by (simp add: header_text_def)

lemma decimal_no_space: "CHR '' '' \<notin> set (decimal n)" "CHR 0x0D \<notin> set (decimal n)"
  using decimal_digits(1) [of n] by (auto simp: list_all_iff is_digit_def)

lemma status_line:
  assumes "CHR '' '' \<notin> set v" and "0 \<le> code" and "code < 2 ^ 31"
  shows "response_process (v @ '' '' @ print_int code @ '' '' @ msg) r
    = Parsed (r\<lparr>h_version := v, s_status_code := code, s_status_msg := msg\<rparr>)"
proof -
  have "split_at_char (CHR '' '') (v @ '' '' @ print_int code @ '' '' @ msg) = (v, '' '' @ print_int code @ '' '' @ msg)"
    using split_at_char_first [OF assms(1)] by simp
  moreover have "split_at_char (CHR '' '') (print_int code @ '' '' @ msg) = (print_int code, '' '' @ msg)"
    using split_at_char_first [of "CHR '' ''" "print_int code" msg] decimal_no_space assms(2) by (simp add: print_int_def)
  moreover have "stream_int (print_int code) = Some code"
    using stoi_decimal [of "nat code"] assms(2,3) by (simp add: print_int_def stream_int_def)
  ultimately show ?thesis by (simp add: response_process_def set_status_msg_def)
qed

lemma head_size_headers: "list_all printable_header h \<Longrightarrow> head_size (header_text h @ z) = head_size (header_text h)"
proof (induction h)
  case Nil
  then show ?case using split_crlf_line [of "[]"] by (simp add: header_text_def head_size.simps)
next
  case (Cons kv h)
  obtain k v where kv: "kv = (k, v)" by fastforce
  have "is_token k" "CHR 0x0D \<notin> set v" using Cons.prems by (simp_all add: kv printable_header_def)
  then have "split_crlf ((k @ '': '' @ v) @ CHR 0x0D # CHR 0x0A # t) = Some (k @ '': '' @ v, t)" for t
    using token_plain(1) [of k] by (intro split_crlf_line no_cr_no_crlf) auto
  from this [of "header_text h @ z"] this [of "header_text h"] Cons show ?case
    by (simp add: kv header_text_Cons head_size.simps)
qed

lemma response_step:
  assumes "no_crlf line" and "line \<noteq> []" and "h_header_bytes r + (length line + 3) \<le> max_header_size"
    and "response_line line (r\<lparr>h_header_bytes := h_header_bytes r + (length line + 3)\<rparr>) = Parsed r'"
  shows "response_loop buf (line @ CHR 0x0D # CHR 0x0A # rest) r = response_loop buf rest r'"
  using assms split_crlf_line [OF assms(1), of rest]
  by (subst response_loop.simps) (simp add: Let_def)

lemma response_headers_read:
  assumes "list_all printable_header h" and "sorted_headers (h_headers r @ h)" and "s_state r = HEADERS"
    and "h_header_bytes r + head_size (header_text h @ z) \<le> max_header_size"
  shows "\<exists>k. response_loop buf (header_text h @ z) r
    = response_blank buf z (r\<lparr>h_headers := h_headers r @ h, h_header_bytes := k\<rparr>)"
  using assms
proof (induction h arbitrary: r)
  case Nil
  then show ?case using split_crlf_line [of "[]" z]
    by (intro exI [of _ "h_header_bytes r + 3"]) (simp add: header_text_def response_loop.simps [of buf _ r] head_size.simps)
next
  case (Cons kv h)
  obtain k v where kv: "kv = (k, v)" by fastforce
  let ?rest = "header_text h @ z"
  have p: "printable_header (k, v)" "is_token k" "CHR 0x0D \<notin> set v" using Cons.prems(1) by (simp_all add: kv printable_header_def)
  have ne: "k @ '': '' @ v \<noteq> []" by simp
  have less: "\<forall>x \<in> set (h_headers r). ci_less (fst x) k"
    using Cons.prems(2) by (auto simp: sorted_headers_def kv sorted_wrt_append)
  have line: "no_crlf (k @ '': '' @ v)"
    using p token_plain(1) [OF p(2)] by (intro no_cr_no_crlf) auto
  let ?n = "h_header_bytes r + (length (k @ '': '' @ v) + 3)"
  let ?r = "r\<lparr>h_header_bytes := ?n, h_headers := h_headers r @ [(k, v)]\<rparr>"
  have size: "h_header_bytes r + (length (k @ '': '' @ v) + 3 + head_size ?rest) \<le> max_header_size"
    using Cons.prems(4) split_crlf_line [OF line, of ?rest] by (simp add: kv header_text_Cons head_size.simps)
  have "response_line (k @ '': '' @ v) (r\<lparr>h_header_bytes := ?n\<rparr>) = Parsed ?r"
    using header_line [OF p(1), of "r\<lparr>h_header_bytes := ?n\<rparr>"] put_last [OF less] Cons.prems(3)
    by (simp add: response_line_def)
  then have "response_loop buf ((k @ '': '' @ v) @ CHR 0x0D # CHR 0x0A # ?rest) r = response_loop buf ?rest ?r"
    using line ne size by (intro response_step) simp_all
  moreover obtain n where "response_loop buf ?rest ?r = response_blank buf z (?r\<lparr>h_headers := h_headers ?r @ h, h_header_bytes := n\<rparr>)"
    using Cons.IH [of ?r] Cons.prems kv size by auto
  ultimately show ?case
    by (intro exI [of _ n]) (simp add: kv header_text_Cons)
qed

text \<open>C40. A response that is written out and read again comes back: its version, its status, its headers in
order and its body, with every octet of it taken and none of those behind it.\<close>

theorem response_roundtrip:
  assumes "printable_response r"
  shows "\<exists>r'. response_consume (response_raw r @ rest) response_new = Parsed (length (response_raw r), r') \<and> headers_ready r'
    \<and> h_version r' = h_version r \<and> s_status_code r' = s_status_code r \<and> s_status_msg r' = s_status_msg r
    \<and> h_headers r' = h_headers r \<and> h_body r' = h_body r"
proof -
  note p = assms [unfolded printable_response_def]
  define L where "L = h_version r @ '' '' @ print_int (s_status_code r) @ '' '' @ s_status_msg r"
  let ?left = "h_body r @ rest" and ?buf = "response_raw r @ rest" and ?H = "header_text (h_headers r)"
  have buf: "?buf = L @ CHR 0x0D # CHR 0x0A # ?H @ ?left" "response_raw r = L @ CHR 0x0D # CHR 0x0A # ?H @ h_body r"
    by (simp_all add: L_def response_raw_def header_text_def raw_headers_def)
  have line: "no_crlf L" "L \<noteq> []" using p decimal_no_space(2) by (auto simp: L_def print_int_def intro!: no_cr_no_crlf)
  define n where "n = length L + 3"
  have size: "n + head_size (?H @ ?left) \<le> max_header_size"
  proof -
    have "head_size (response_raw r) = n + head_size (?H @ h_body r)"
      using split_crlf_line [OF line(1)] line(2) unfolding buf(2) by (subst head_size.simps) (simp add: n_def)
    moreover have "head_size (?H @ z) = head_size ?H" for z using p by (intro head_size_headers) simp
    ultimately show ?thesis using p by simp
  qed
  let ?r = "response_new\<lparr>h_header_bytes := n, h_version := h_version r, s_status_code := s_status_code r,
      s_status_msg := s_status_msg r, s_state := HEADERS\<rparr>"
  have "response_line L (response_new\<lparr>h_header_bytes := n\<rparr>) = Parsed ?r"
    using status_line [of "h_version r" "s_status_code r" "s_status_msg r"] p unfolding L_def
    by (simp add: response_line_def response_new_def)
  then have "response_loop ?buf (L @ CHR 0x0D # CHR 0x0A # ?H @ ?left) response_new = response_loop ?buf (?H @ ?left) ?r"
    using size line by (intro response_step) (simp_all add: n_def response_new_def)
  moreover obtain k where "response_loop ?buf (?H @ ?left) ?r
      = response_blank ?buf ?left (?r\<lparr>h_headers := h_headers r, h_header_bytes := k\<rparr>)"
    using response_headers_read [of "h_headers r" ?r ?left ?buf] p size by (auto simp: response_new_def)
  ultimately have c: "response_consume ?buf response_new
      = response_blank ?buf ?left (?r\<lparr>h_headers := h_headers r, h_header_bytes := k\<rparr>)"
    by (simp add: response_consume_def response_new_def buf(1) [symmetric])
  have g: "get_header x (?r\<lparr>h_headers := h_headers r, h_header_bytes := k\<rparr>) = get_header x r" for x
    by (simp add: get_header_def)
  have l: "length ?buf - length ?left = length (response_raw r) - length (h_body r)" "length (h_body r) \<le> length (response_raw r)"
    unfolding buf(1) buf(2) by simp_all
  have d: "drop (length (response_raw r) - length (h_body r)) ?buf = ?left"
  proof -
    obtain head where "response_raw r = head @ h_body r" unfolding buf(2) by (metis append_assoc append_Cons)
    then show ?thesis by simp
  qed
  show ?thesis
  proof (cases "get_header ''Content-Length'' r = []")
    case True
    then have "h_body r = []" using p by (simp add: announced_body_def)
    then show ?thesis using c g True l d
      by (simp add: response_blank_def response_process_body_def headers_ready_def response_new_def Let_def)
  next
    case False
    then have b: "get_header ''Content-Length'' r = decimal (length (h_body r))" "length (h_body r) \<le> max_body_size"
      using p by (simp_all add: announced_body_def)
    then have "stream_size (decimal (length (h_body r))) = Some (length (h_body r))"
      by (simp add: stream_size_def signed_digits_decimal decimal_digits max_body_size_def)
    moreover have "length (response_raw r) - length (h_body r) < length (response_raw r) + length rest" if "h_body r \<noteq> []"
      using that l(2) by (metis diff_less length_greater_0_conv less_le_trans trans_less_add1)
    ultimately show ?thesis using c g False b l d
      by (auto simp: response_blank_def response_process_body_def headers_ready_def response_new_def Let_def)
  qed
qed

definition sample_response :: response where
  "sample_response = (set_status sc_upgrade_required response_new)\<lparr>h_version := ''HTTP/1.1'',
     h_headers := [(''Content-Length'', ''4''), (''Server'', ''robot'')], h_body := ''none''\<rparr>"

theorem response_roundtrip_witness:
  "\<exists>r'. response_consume (response_raw sample_response @ ''next'') response_new = Parsed (length (response_raw sample_response), r')
    \<and> s_status_code r' = 426 \<and> s_status_msg r' = ''Upgrade Required'' \<and> h_body r' = ''none''"
proof -
  have "decimal (Suc (Suc (Suc (Suc 0)))) = ''4''" "decimal 426 = ''426''" by (code_simp, simp add: decimal.simps) code_simp
  moreover have "get_string 426 = ''Upgrade Required''" by code_simp
  ultimately have "printable_response sample_response"
    by (simp add: sample_response_def printable_response_def set_status_def sc_upgrade_required_def print_int_def is_token_def is_token_char_def
        header_token_def sorted_headers_def printable_header_def trim_def ws_char get_header_def ci_eq_key ci_key_def tolower_def
        announced_body_def max_body_size_def max_header_size_def response_raw_def raw_headers_def head_size.simps response_new_def)
  moreover have "get_string 426 = ''Upgrade Required''" by code_simp
  ultimately show ?thesis using response_roundtrip [of sample_response "''next''"]
    by (auto simp: sample_response_def set_status_def sc_upgrade_required_def response_new_def)
qed

end
