(* ===== verification/WsUri.thy ===== *)
theory WsUri imports HttpParser begin

text \<open>
  URIs: \<open>websocketpp/uri.hpp\<close>, and \<open>get_uri_from_host\<close> of \<open>processors/processor.hpp\<close>, which makes
  one of the Host header of a request. The constructor that parses a text returns early on an error and
  leaves the members it has not come to as they were: it takes the storage they are made in.
\<close>

subsection \<open>Operations\<close>

definition uri_default_port :: u16 where "uri_default_port = 80"
definition uri_default_secure_port :: u16 where "uri_default_secure_port = 443"

record uri =
  u_scheme :: string
  u_host :: string
  u_resource :: string
  u_port :: u16
  u_secure :: bool
  u_valid :: bool

definition default_port :: "bool \<Rightarrow> u16" where
  "default_port secure = (if secure then uri_default_secure_port else uri_default_port)"

text \<open>The port, and whether it is one; the \<open>int\<close> of \<open>atoi\<close> becomes unsigned.\<close>

definition get_port_from_string :: "bool \<Rightarrow> string \<Rightarrow> u16 \<times> bool" where
  "get_port_from_string secure port =
     (if port = [] then (default_port secure, True)
      else
        let t_port = word_of_int (atoi port) :: u32
        in (ucast t_port, \<not> (t_port > 65535 \<or> t_port = 0)))"

definition is_secure_scheme :: "string \<Rightarrow> bool" where
  "is_secure_scheme scheme \<longleftrightarrow> scheme = ''wss'' \<or> scheme = ''https''"

definition uri_of :: "string \<Rightarrow> string \<Rightarrow> string \<Rightarrow> uri" where
  "uri_of scheme host resource =
     \<lparr>u_scheme = scheme, u_host = host, u_resource = (if resource = [] then ''/'' else resource),
      u_port = default_port (is_secure_scheme scheme), u_secure = is_secure_scheme scheme, u_valid = True\<rparr>"

definition uri_of_port :: "string \<Rightarrow> string \<Rightarrow> string \<Rightarrow> string \<Rightarrow> uri" where
  "uri_of_port scheme host port resource =
     (let (p, ok) = get_port_from_string (is_secure_scheme scheme) port
      in \<lparr>u_scheme = scheme, u_host = host, u_resource = (if resource = [] then ''/'' else resource),
          u_port = p, u_secure = is_secure_scheme scheme, u_valid = ok\<rparr>)"

text \<open>The host: what is before a colon or a slash, the state they lead to and what is behind them.\<close>

fun uri_host :: "string \<Rightarrow> string \<times> nat \<times> string" where
  "uri_host [] = ([], 2, [])"
| "uri_host (c # cs) =
     (if c = CHR ''/'' then ([], 2, cs)
      else if c = CHR '':'' then ([], 1, cs)
      else let (host, state, rest) = uri_host cs in (c # host, state, rest))"

fun uri_port :: "string \<Rightarrow> string \<times> string" where
  "uri_port [] = ([], [])"
| "uri_port (c # cs) = (if c = CHR ''/'' then ([], cs) else let (port, rest) = uri_port cs in (c # port, rest))"

text \<open>The host of an IPv6 literal, without its brackets; \<open>None\<close> is an early return, with the host read so
far.\<close>

definition uri_literal :: "string \<Rightarrow> string \<times> (nat \<times> string) option" where
  "uri_literal s =
     (let (host, rest) = split_at_char (CHR '']'') s in
      if rest = [] then ([], None)
      else (case tl rest of
              [] \<Rightarrow> (host, Some (2, []))
            | c # cs \<Rightarrow> if c = CHR ''/'' then (host, Some (2, cs)) else if c = CHR '':'' then (host, Some (1, cs))
                        else (host, None)))"

definition uri_authority :: "string \<Rightarrow> uri \<Rightarrow> uri" where
  "uri_authority s u =
     (let (host, next) = (if hd s = CHR ''['' then uri_literal (tl s) else let (h, st, r) = uri_host s in (h, Some (st, r)));
          u = u\<lparr>u_host := u_host u @ host\<rparr>
      in case next of
           None \<Rightarrow> u
         | Some (state, rest) \<Rightarrow>
             let (port, rest) = (if state = 1 then uri_port rest else ([], rest));
                 (p, ok) = get_port_from_string (u_secure u) port;
                 u = u\<lparr>u_port := p\<rparr>
             in if \<not> ok then u else u\<lparr>u_resource := ''/'' @ rest, u_valid := True\<rparr>)"

text \<open>The constructor, in storage \<open>u\<close>; a scheme alone is not a URI.\<close>

definition uri_parse :: "uri \<Rightarrow> string \<Rightarrow> uri" where
  "uri_parse u s =
     (let u = u\<lparr>u_host := [], u_resource := [], u_valid := False\<rparr> in
      if 7 \<le> length s \<and> take 6 s = ''wss://'' then uri_authority (drop 6 s) (u\<lparr>u_secure := True, u_scheme := ''wss''\<rparr>)
      else if 6 \<le> length s \<and> take 5 s = ''ws://'' then uri_authority (drop 5 s) (u\<lparr>u_secure := False, u_scheme := ''ws''\<rparr>)
      else if 8 \<le> length s \<and> take 7 s = ''http://'' then uri_authority (drop 7 s) (u\<lparr>u_secure := False, u_scheme := ''http''\<rparr>)
      else if 9 \<le> length s \<and> take 8 s = ''https://'' then uri_authority (drop 8 s) (u\<lparr>u_secure := True, u_scheme := ''https''\<rparr>)
      else u)"

definition get_host_port :: "uri \<Rightarrow> string" where
  "get_host_port u = (if u_port u = default_port (u_secure u) then u_host u else u_host u @ '':'' @ decimal (unat (u_port u)))"

definition uri_str :: "uri \<Rightarrow> string" where
  "uri_str u = u_scheme u @ ''://'' @ u_host u
     @ (if u_port u \<noteq> default_port (u_secure u) then '':'' @ decimal (unat (u_port u)) else []) @ u_resource u"

definition get_query :: "uri \<Rightarrow> string" where
  "get_query u = (let (path, rest) = split_at_char (CHR ''?'') (u_resource u) in if rest = [] then [] else tl rest)"

text \<open>\<open>rfind\<close> of a character.\<close>

fun rfind :: "char \<Rightarrow> string \<Rightarrow> nat option" where
  "rfind c [] = None"
| "rfind c (d # s) = (case rfind c s of Some n \<Rightarrow> Some (n + 1) | None \<Rightarrow> if d = c then Some 0 else None)"

definition get_uri_from_host :: "request \<Rightarrow> string \<Rightarrow> uri" where
  "get_uri_from_host r scheme =
     (let h = get_header ''Host'' r in
      case rfind (CHR '':'') h of
        None \<Rightarrow> uri_of scheme h (q_uri r)
      | Some last_colon \<Rightarrow>
          if (case rfind (CHR '']'') h of None \<Rightarrow> False | Some last_sbrace \<Rightarrow> last_sbrace > last_colon)
          then uri_of scheme h (q_uri r)
          else uri_of_port scheme (take last_colon h) (drop (last_colon + 1) h) (q_uri r))"

subsection \<open>Lemmas\<close>

lemma uri_host_end:
  assumes "CHR ''/'' \<notin> set host" and "CHR '':'' \<notin> set host"
  shows "uri_host (host @ CHR ''/'' # rest) = (host, 2, rest)" and "uri_host (host @ CHR '':'' # rest) = (host, 1, rest)"
  using assms by (induction host) auto

lemma uri_port_end: "CHR ''/'' \<notin> set port \<Longrightarrow> uri_port (port @ CHR ''/'' # rest) = (port, rest)"
  by (induction port) auto

lemma decimal_no_slash: "CHR ''/'' \<notin> set (decimal n)"
  using decimal_digits(1) [of n] by (auto simp: list_all_iff is_digit_def)

lemma port_decimal:
  assumes "p \<noteq> 0"
  shows "get_port_from_string secure (decimal (unat (p :: u16))) = (p, True)"
proof -
  have p: "unat p < 65536" using unsigned_less [of p, where 'a = nat] by simp
  then have "atoi (decimal (unat p)) = int (unat p)" by (intro atoi_decimal) simp
  moreover have "ucast (word_of_nat (unat p) :: u32) = p" by (rule bit_word_eqI) (simp add: bit_simps)
  moreover have n: "unat (word_of_nat (unat p) :: u32) = unat p" by (subst unat_of_nat) (use p in simp)
  moreover have "(word_of_nat (unat p) :: u32) \<le> 65535" unfolding word_le_nat_alt n using p by simp
  moreover have "(word_of_nat (unat p) :: u32) \<noteq> 0" using n assms by (metis unat_eq_zero unsigned_0)
  ultimately show ?thesis using decimal_digits(2) [of "unat p"] by (simp add: get_port_from_string_def not_less)
qed

text \<open>URIs that can be written: a scheme the code knows, a host that is no literal, and a path.\<close>

definition printable_uri :: "uri \<Rightarrow> bool" where
  "printable_uri u \<longleftrightarrow> u_scheme u \<in> {''ws'', ''wss'', ''http'', ''https''} \<and> u_secure u = is_secure_scheme (u_scheme u)
     \<and> u_host u \<noteq> [] \<and> hd (u_host u) \<noteq> CHR ''['' \<and> CHR ''/'' \<notin> set (u_host u) \<and> CHR '':'' \<notin> set (u_host u)
     \<and> u_port u \<noteq> 0 \<and> (\<exists>p. u_resource u = ''/'' @ p) \<and> u_valid u"

lemma get_port_empty: "get_port_from_string secure [] = (default_port secure, True)"
  by (simp add: get_port_from_string_def)

lemma authority_read:
  assumes "printable_uri u" and "u_secure m = u_secure u" and "u_host m = []" and "u_scheme m = u_scheme u"
  shows "uri_authority (drop (length (u_scheme u) + 3) (uri_str u)) m = u"
proof -
  note p = assms(1) [unfolded printable_uri_def]
  obtain path where path: "u_resource u = CHR ''/'' # path" using p by auto
  let ?port = "if u_port u \<noteq> default_port (u_secure u) then '':'' @ decimal (unat (u_port u)) else []"
  have rest: "drop (length (u_scheme u) + 3) (uri_str u) = u_host u @ ?port @ u_resource u"
    by (simp add: uri_str_def)
  have h: "hd (u_host u @ ?port @ u_resource u) \<noteq> CHR ''[''" using p by (cases "u_host u") auto
  show ?thesis
  proof (cases "u_port u = default_port (u_secure u)")
    case True
    then have "uri_host (u_host u @ ?port @ u_resource u) = (u_host u, 2, path)"
      using uri_host_end(1) [of "u_host u" path] p path by simp
    then show ?thesis unfolding rest using h True p path assms(2-4)
      by (simp add: uri_authority_def get_port_empty)
  next
    case False
    then have "uri_host (u_host u @ ?port @ u_resource u) = (u_host u, 1, decimal (unat (u_port u)) @ u_resource u)"
      using uri_host_end(2) [of "u_host u"] p by simp
    moreover have "uri_port (decimal (unat (u_port u)) @ u_resource u) = (decimal (unat (u_port u)), path)"
      unfolding path by (rule uri_port_end [OF decimal_no_slash])
    ultimately show ?thesis unfolding rest using h p path assms(2-4) port_decimal [of "u_port u"]
      by (simp add: uri_authority_def)
  qed
qed

subsection \<open>Properties\<close>

text \<open>A URI that is written out and parsed comes back, whatever the storage held.\<close>

theorem uri_roundtrip:
  assumes "printable_uri u"
  shows "uri_parse m (uri_str u) = u"
proof -
  note p = assms [unfolded printable_uri_def]
  let ?m = "m\<lparr>u_host := [], u_resource := [], u_valid := False\<rparr>"
  let ?n = "?m\<lparr>u_secure := u_secure u, u_scheme := u_scheme u\<rparr>"
  obtain c cs where h: "u_host u = c # cs" using p by (cases "u_host u") auto
  have "uri_parse m (uri_str u) = uri_authority (drop (length (u_scheme u) + 3) (uri_str u)) ?n"
    using p h by (auto simp: uri_parse_def uri_str_def is_secure_scheme_def)
  also have "\<dots> = u" by (rule authority_read [OF assms]) simp_all
  finally show ?thesis .
qed

theorem uri_roundtrip_witness:
  "\<exists>u. uri_parse u ''ws://robot:9002/chat'' = u \<and> u_port u = 9002"
proof -
  let ?u = "\<lparr>u_scheme = ''ws'', u_host = ''robot'', u_resource = ''/chat'', u_port = 9002, u_secure = False, u_valid = True\<rparr>"
  have "printable_uri ?u" by (simp add: printable_uri_def is_secure_scheme_def)
  moreover have "uri_str ?u = ''ws://robot:9002/chat''"
    by (simp add: uri_str_def default_port_def uri_default_port_def decimal.simps) code_simp
  ultimately show ?thesis using uri_roundtrip [of ?u ?u] by (intro exI [of _ ?u]) simp
qed

text \<open>An IPv6 literal loses its brackets, so the URI that is written out is another one, or none.\<close>

theorem uri_literal_lost:
  "u_valid (uri_parse m ''ws://[::1]:9002/'') \<and> uri_str (uri_parse m ''ws://[::1]:9002/'') = ''ws://::1:9002/''
   \<and> \<not> u_valid (uri_parse m ''ws://::1:9002/'')"
proof -
  have "atoi ''9002'' = 9002" "atoi '':1:9002'' = 0" by code_simp+
  moreover have "decimal 9002 = ''9002''" by (simp add: decimal.simps) code_simp
  ultimately show ?thesis
    by (simp add: uri_parse_def uri_authority_def uri_literal_def split_at_char_def get_port_from_string_def uri_str_def
        default_port_def uri_default_port_def)
qed

text \<open>A port is accepted when its value modulo \<open>2 ^ 32\<close> is one: 4294967376 is taken for port 80.\<close>

theorem uri_port_wraps: "get_port_from_string secure ''4294967376'' = (80, True)"
proof -
  have "atoi ''4294967376'' = 80" by code_simp
  then show ?thesis by (simp add: get_port_from_string_def)
qed

end
