(* ===== verification/Octets.thy ===== *)
theory Octets imports Prelude begin

text \<open>
  The representation of integers in memory, shared by the WebSocket and the hashing code: the
  little-endian octets of a word (the target is an LP64 little-endian AArch64), the word read back
  from octets, byte order conversion (\<open>common/network.hpp\<close>), and a byte-addressed memory for the
  routines that work on buffers through pointers.
\<close>

subsection \<open>Octets of a word\<close>

text \<open>The view of an integer through a \<open>uint8_t c[n]\<close> member of a union, lowest address first.\<close>

definition le_bytes :: "nat \<Rightarrow> 'a::len word \<Rightarrow> bytes" where
  "le_bytes n w = map (\<lambda>i. ucast (drop_bit (8 * i) w)) [0..<n]"

definition of_le :: "bytes \<Rightarrow> 'a::len word" where
  "of_le bs = foldr (\<lambda>b w. push_bit 8 w OR ucast b) bs 0"

lemma length_le_bytes [simp]: "length (le_bytes n w) = n"
  by (simp add: le_bytes_def)

lemma nth_le_bytes: "i < n \<Longrightarrow> le_bytes n w ! i = ucast (drop_bit (8 * i) w)"
  by (simp add: le_bytes_def)

lemma of_le_Nil [simp]: "of_le [] = 0"
  by (simp add: of_le_def)

lemma of_le_Cons: "of_le (b # bs) = push_bit 8 (of_le bs) OR ucast b"
  by (simp add: of_le_def)

lemma bit_byte_beyond: "8 \<le> k \<Longrightarrow> \<not> bit (b :: u8) k"
  using bit_imp_le_length [of b k] by auto

lemma bit_of_le:
  "bit (of_le bs :: 'a::len word) k \<longleftrightarrow>
     k < LENGTH('a) \<and> k div 8 < length bs \<and> bit (bs ! (k div 8)) (k mod 8)"
proof (induction bs arbitrary: k)
  case (Cons b bs)
  show ?case
  proof (cases "k < 8")
    case True
    then show ?thesis by (auto simp: of_le_Cons bit_or_iff bit_push_bit_iff bit_ucast_iff)
  next
    case False
    then have "k = (k - 8) + 8" by simp
    then have d: "k div 8 = Suc ((k - 8) div 8)" "k mod 8 = (k - 8) mod 8"
      by (metis div_add_self2 mod_add_self2 Suc_eq_plus1 zero_neq_numeral)+
    from False show ?thesis
      by (auto simp: of_le_Cons bit_or_iff bit_push_bit_iff bit_ucast_iff bit_byte_beyond Cons.IH d)
  qed
qed simp

lemma bit_nth_le_bytes:
  "i < n \<Longrightarrow> bit (le_bytes n w ! i) k \<longleftrightarrow> k < 8 \<and> bit w (8 * i + k)"
  by (auto simp: nth_le_bytes bit_ucast_iff bit_drop_bit_eq)

lemma of_le_bytes:
  assumes "LENGTH('a) \<le> 8 * n"
  shows "of_le (le_bytes n (w :: 'a::len word)) = w"
proof (rule bit_word_eqI)
  fix k assume "k < LENGTH('a)"
  with assms have "k div 8 < n" by auto
  then show "bit (of_le (le_bytes n w) :: 'a word) k = bit w k"
    using \<open>k < LENGTH('a)\<close> by (simp add: bit_of_le bit_nth_le_bytes)
qed

lemma le_bytes_of_le:
  assumes "8 * length bs \<le> LENGTH('a)"
  shows "le_bytes (length bs) (of_le bs :: 'a::len word) = bs"
proof (rule nth_equalityI)
  fix i assume "i < length (le_bytes (length bs) (of_le bs :: 'a word))"
  then have i: "i < length bs" by simp
  show "le_bytes (length bs) (of_le bs :: 'a word) ! i = bs ! i"
  proof (rule bit_word_eqI)
    fix k assume k: "k < LENGTH(8)"
    then have "(8 * i + k) div 8 = i" "(8 * i + k) mod 8 = k" by simp_all
    moreover have "8 * i + k < LENGTH('a)" using i k assms by simp
    ultimately show "bit (le_bytes (length bs) (of_le bs :: 'a word) ! i) k = bit (bs ! i) k"
      using i k by (simp add: bit_nth_le_bytes bit_of_le)
  qed
qed simp

lemma nth_le_bytes_xor: "i < n \<Longrightarrow> le_bytes n (v XOR w) ! i = le_bytes n v ! i XOR le_bytes n w ! i"
  by (rule bit_word_eqI) (simp add: bit_nth_le_bytes bit_xor_iff)

lemma le_bytes_Suc: "le_bytes (Suc n) w = ucast w # le_bytes n (drop_bit 8 w)"
  by (rule nth_equalityI)
     (auto simp: nth_Cons nth_le_bytes add.commute split: nat.splits)

subsection \<open>Network byte order (\<open>common/network.hpp\<close>)\<close>

definition is_little_endian :: bool where
  "is_little_endian \<longleftrightarrow> le_bytes 2 (1 :: u16) ! 0 = 1"

lemma little_endian [simp]: "is_little_endian"
  by (simp add: is_little_endian_def le_bytes_def)

definition swap_at :: "nat \<Rightarrow> nat \<Rightarrow> bytes \<Rightarrow> bytes" where
  "swap_at i j c = c[i := c ! j, j := c ! i]"

definition htonll :: "u64 \<Rightarrow> u64" where
  "htonll src =
     (if le_bytes 8 (1 :: u64) ! 7 = 1 then src
      else of_le (swap_at 3 4 (swap_at 2 5 (swap_at 1 6 (swap_at 0 7 (le_bytes 8 src))))))"

definition ntohll :: "u64 \<Rightarrow> u64" where "ntohll src = htonll src"

text \<open>\<open>htons\<close> and \<open>ntohs\<close> of \<open>netinet/in.h\<close>.\<close>

definition ntohs :: "u16 \<Rightarrow> u16" where "ntohs w = of_le (rev (le_bytes 2 w))"

lemma swap_rev:
  "length c = 8 \<Longrightarrow> swap_at 3 4 (swap_at 2 5 (swap_at 1 6 (swap_at 0 7 c))) = rev c"
  by (auto simp: swap_at_def length_Suc_conv numeral_eq_Suc)

lemma htonll_rev: "htonll src = of_le (rev (le_bytes 8 src))"
proof -
  have "le_bytes 8 (1 :: u64) ! 7 \<noteq> 1"
    by (simp add: nth_le_bytes)
  then show ?thesis unfolding htonll_def using swap_rev [of "le_bytes 8 src"] by simp
qed

lemma htonll_bytes: "le_bytes 8 (htonll src) = rev (le_bytes 8 src)"
  using le_bytes_of_le [where 'a = 64, of "rev (le_bytes 8 src)"] by (simp add: htonll_rev)

lemma ntohll_of_le: "length bs = 8 \<Longrightarrow> ntohll (of_le bs) = of_le (rev bs)"
  using le_bytes_of_le [where 'a = 64, of bs] by (simp add: ntohll_def htonll_rev)

lemma htonll_involution: "ntohll (htonll src) = src"
  by (simp add: ntohll_def htonll_rev [of "htonll src"] htonll_bytes of_le_bytes)

lemma ntohs_of_le: "length bs = 2 \<Longrightarrow> ntohs (of_le bs) = of_le (rev bs)"
  using le_bytes_of_le [where 'a = 16, of bs] by (simp add: ntohs_def)

subsection \<open>Memory\<close>

text \<open>
  A byte-addressed memory; pointers are addresses. A store writes the octets of a machine word.
  Every address exists, so a lemma that a routine leaves all bytes outside a range alone, and
  reads none outside another, stands for the absence of overruns.
\<close>

type_synonym memory = "nat \<Rightarrow> u8"

definition load64 :: "memory \<Rightarrow> nat \<Rightarrow> u64" where
  "load64 m p = of_le (map (\<lambda>i. m (p + i)) [0..<8])"

definition store64 :: "nat \<Rightarrow> u64 \<Rightarrow> memory \<Rightarrow> memory" where
  "store64 p w m = (\<lambda>a. if p \<le> a \<and> a < p + 8 then le_bytes 8 w ! (a - p) else m a)"

definition store8 :: "nat \<Rightarrow> u8 \<Rightarrow> memory \<Rightarrow> memory" where
  "store8 p b m = m(p := b)"

text \<open>The \<open>n\<close> bytes from address \<open>p\<close> on.\<close>

definition peek :: "memory \<Rightarrow> nat \<Rightarrow> nat \<Rightarrow> bytes" where
  "peek m p n = map (\<lambda>i. m (p + i)) [0..<n]"

text \<open>A memory that holds \<open>bs\<close> at \<open>p\<close>.\<close>

definition poke :: "nat \<Rightarrow> bytes \<Rightarrow> memory \<Rightarrow> memory" where
  "poke p bs m = (\<lambda>a. if p \<le> a \<and> a < p + length bs then bs ! (a - p) else m a)"

lemma length_peek [simp]: "length (peek m p n) = n"
  by (simp add: peek_def)

lemma nth_peek [simp]: "i < n \<Longrightarrow> peek m p n ! i = m (p + i)"
  by (simp add: peek_def)

lemma peek_poke [simp]: "peek (poke p bs m) p (length bs) = bs"
  by (rule nth_equalityI) (simp_all add: poke_def)

lemma nth_load64: "i < 8 \<Longrightarrow> le_bytes 8 (load64 m p) ! i = m (p + i)"
  using le_bytes_of_le [where 'a = 64, of "map (\<lambda>i. m (p + i)) [0..<8]"]
  by (simp add: load64_def)

end
