(* ===== verification/WsSha1.thy ===== *)
theory WsSha1 imports Octets begin

text \<open>
  SHA-1 as \<open>websocketpp/sha1/sha1.hpp\<close> computes it, against the description of FIPS 180-4. The
  round buffer \<open>w\<close> is not initialised by the code: it is an argument here, and the digest is shown
  not to depend on it.
\<close>

subsection \<open>The code\<close>

definition rol :: "u32 \<Rightarrow> nat \<Rightarrow> u32" where
  "rol val steps = push_bit steps val OR drop_bit (32 - steps) val"

text \<open>The first 16 entries, from 15 down to 0.\<close>

definition clearWBuffert :: "u32 list \<Rightarrow> u32 list" where
  "clearWBuffert buffert = fold (\<lambda>pos w. w[pos := 0]) (rev [0..<16]) buffert"

type_synonym hash_vars = "u32 \<times> u32 \<times> u32 \<times> u32 \<times> u32"

definition sha1macro :: "u32 \<Rightarrow> u32 \<Rightarrow> u32 \<Rightarrow> hash_vars \<Rightarrow> hash_vars" where
  "sha1macro func val wround vars =
     (case vars of (a, b, c, d, e) \<Rightarrow>
        let t = rol a 5 + func + e + val + wround in (t, a, rol b 30, c, d))"

definition expand_w :: "nat \<Rightarrow> u32 list \<Rightarrow> u32 list" where
  "expand_w round w =
     w[round := rol (w ! (round - 3) XOR w ! (round - 8) XOR w ! (round - 14) XOR w ! (round - 16)) 1]"

text \<open>The three functions the macro is used with, and one turn of each loop.\<close>

definition f_choose :: "hash_vars \<Rightarrow> u32" where
  "f_choose = (\<lambda>(a, b, c, d, e). (b AND c) OR (NOT b AND d))"
definition f_parity :: "hash_vars \<Rightarrow> u32" where
  "f_parity = (\<lambda>(a, b, c, d, e). b XOR c XOR d)"
definition f_majority :: "hash_vars \<Rightarrow> u32" where
  "f_majority = (\<lambda>(a, b, c, d, e). (b AND c) OR (b AND d) OR (c AND d))"

definition round_first :: "nat \<Rightarrow> u32 list \<times> hash_vars \<Rightarrow> u32 list \<times> hash_vars" where
  "round_first round = (\<lambda>(w, vars). (w, sha1macro (f_choose vars) 0x5a827999 (w ! round) vars))"

definition round_later ::
  "(hash_vars \<Rightarrow> u32) \<Rightarrow> u32 \<Rightarrow> nat \<Rightarrow> u32 list \<times> hash_vars \<Rightarrow> u32 list \<times> hash_vars" where
  "round_later func val round = (\<lambda>(w, vars).
     let w = expand_w round w in (w, sha1macro (func vars) val (w ! round) vars))"

definition innerHash :: "u32 list \<Rightarrow> u32 list \<Rightarrow> u32 list \<times> u32 list" where
  "innerHash result w =
     (let s = (w, (result ! 0, result ! 1, result ! 2, result ! 3, result ! 4));
          s = fold round_first [0..<16] s;
          s = fold (round_later f_choose 0x5a827999) [16..<20] s;
          s = fold (round_later f_parity 0x6ed9eba1) [20..<40] s;
          s = fold (round_later f_majority 0x8f1bbcdc) [40..<60] s;
          s = fold (round_later f_parity 0xca62c1d6) [60..<80] s
      in case s of (w, a, b, c, d, e) \<Rightarrow>
        ([result ! 0 + a, result ! 1 + b, result ! 2 + c, result ! 3 + d, result ! 4 + e], w))"

definition load_block :: "bytes \<Rightarrow> nat \<Rightarrow> u32 list \<Rightarrow> u32 list" where
  "load_block sarray currentBlock w =
     fold (\<lambda>roundPos w. w[roundPos :=
         ucast (sarray ! (currentBlock + 4 * roundPos + 3))
         OR push_bit 8 (ucast (sarray ! (currentBlock + 4 * roundPos + 2)))
         OR push_bit 16 (ucast (sarray ! (currentBlock + 4 * roundPos + 1)))
         OR push_bit 24 (ucast (sarray ! (currentBlock + 4 * roundPos)))]) [0..<16] w"

function full_blocks :: "bytes \<Rightarrow> nat \<Rightarrow> u32 list \<Rightarrow> u32 list \<Rightarrow> nat \<times> u32 list \<times> u32 list" where
  "full_blocks sarray currentBlock result w =
     (let endOfFullBlocks = length sarray - 64 in
      if currentBlock \<le> endOfFullBlocks then
        let w = load_block sarray currentBlock w;
            (result, w) = innerHash result w
        in full_blocks sarray (currentBlock + 64) result w
      else (currentBlock, result, w))"
  by auto
termination by (relation "measure (\<lambda>(sarray, currentBlock, result, w). length sarray + 1 - currentBlock)") auto

declare full_blocks.simps [simp del]

definition or_byte :: "nat \<Rightarrow> u32 \<Rightarrow> u32 list \<Rightarrow> u32 list" where
  "or_byte lastBlockBytes b w =
     w[lastBlockBytes div 4 := w ! (lastBlockBytes div 4) OR push_bit (8 * (3 - lastBlockBytes mod 4)) b]"

definition calc :: "bytes \<Rightarrow> u32 list \<Rightarrow> bytes" where
  "calc sarray w =
     (let result = [0x67452301, 0xefcdab89, 0x98badcfe, 0x10325476, 0xc3d2e1f0];
          bytelength = length sarray;
          (currentBlock, result, w) =
            (if bytelength \<ge> 64 then full_blocks sarray 0 result w else (0, result, w));
          endCurrentBlock = bytelength - currentBlock;
          w = clearWBuffert w;
          w = fold (\<lambda>i. or_byte i (ucast (sarray ! (i + currentBlock)))) [0..<endCurrentBlock] w;
          w = or_byte endCurrentBlock 0x80 w;
          (result, w) =
            (if endCurrentBlock \<ge> 56 then
               let (result, w) = innerHash result w in (result, clearWBuffert w)
             else (result, w));
          w = w[15 := ucast (push_bit 3 (word_of_nat bytelength :: u64))];
          (result, w) = innerHash result w
      in map (\<lambda>hashByte. ucast (drop_bit (nat (((3 - int hashByte) AND 3) * 8)) (result ! (hashByte div 4)) AND 0xff))
           [0..<20])"

subsection \<open>FIPS 180-4\<close>

definition be32 :: "bytes \<Rightarrow> u32" where
  "be32 bs = of_le (rev bs)"

text \<open>The message, the bit 1, zeros up to 56 octets modulo 64, and the length in bits.\<close>

definition sha1_pad :: "bytes \<Rightarrow> bytes" where
  "sha1_pad m = m @ [0x80] @ replicate ((119 - length m mod 64) mod 64) 0
     @ rev (le_bytes 8 (word_of_nat (8 * length m) :: u64))"

definition block_words :: "bytes \<Rightarrow> u32 list" where
  "block_words b = map (\<lambda>j. be32 (take 4 (drop (4 * j) b))) [0..<16]"

fun schedule :: "u32 list \<Rightarrow> nat \<Rightarrow> u32" where
  "schedule ws t = (if t < 16 then ws ! t
     else rol (schedule ws (t - 3) XOR schedule ws (t - 8) XOR schedule ws (t - 14) XOR schedule ws (t - 16)) 1)"

declare schedule.simps [simp del]

definition sha1_f :: "nat \<Rightarrow> u32 \<Rightarrow> u32 \<Rightarrow> u32 \<Rightarrow> u32" where
  "sha1_f t x y z =
     (if t < 20 then (x AND y) OR (NOT x AND z) else if t < 40 then x XOR y XOR z
      else if t < 60 then (x AND y) OR (x AND z) OR (y AND z) else x XOR y XOR z)"

definition sha1_K :: "nat \<Rightarrow> u32" where
  "sha1_K t = (if t < 20 then 0x5a827999 else if t < 40 then 0x6ed9eba1
               else if t < 60 then 0x8f1bbcdc else 0xca62c1d6)"

definition sha1_round :: "u32 list \<Rightarrow> nat \<Rightarrow> hash_vars \<Rightarrow> hash_vars" where
  "sha1_round ws t = (\<lambda>(a, b, c, d, e).
     (rol a 5 + sha1_f t b c d + e + sha1_K t + schedule ws t, a, rol b 30, c, d))"

definition sha1_compress :: "bytes \<Rightarrow> u32 list \<Rightarrow> u32 list" where
  "sha1_compress blk H =
     (case fold (sha1_round (block_words blk)) [0..<80] (H ! 0, H ! 1, H ! 2, H ! 3, H ! 4) of
        (a, b, c, d, e) \<Rightarrow> [H ! 0 + a, H ! 1 + b, H ! 2 + c, H ! 3 + d, H ! 4 + e])"

fun sha1_blocks :: "nat \<Rightarrow> bytes \<Rightarrow> u32 list \<Rightarrow> u32 list" where
  "sha1_blocks 0 m H = H"
| "sha1_blocks (Suc n) m H = sha1_blocks n (drop 64 m) (sha1_compress (take 64 m) H)"

definition sha1 :: "bytes \<Rightarrow> bytes" where
  "sha1 m = (let p = sha1_pad m in
     concat (map (\<lambda>h. rev (le_bytes 4 h))
       (sha1_blocks (length p div 64) p [0x67452301, 0xefcdab89, 0x98badcfe, 0x10325476, 0xc3d2e1f0])))"

subsection \<open>The inner hash\<close>

text \<open>After round \<open>n\<close> the buffer holds the schedule up to there and the variables agree.\<close>

definition hash_inv :: "u32 list \<Rightarrow> nat \<Rightarrow> hash_vars \<Rightarrow> u32 list \<times> hash_vars \<Rightarrow> bool" where
  "hash_inv ws n v0 s \<longleftrightarrow> length (fst s) = 80 \<and> (\<forall>i < max n 16. fst s ! i = schedule ws i)
     \<and> snd s = fold (sha1_round ws) [0..<n] v0"

lemma fold_hash_inv:
  assumes "hash_inv ws lo v0 s" and "lo \<le> hi"
    and "\<And>n s. lo \<le> n \<Longrightarrow> n < hi \<Longrightarrow> hash_inv ws n v0 s \<Longrightarrow> hash_inv ws (Suc n) v0 (f n s)"
  shows "hash_inv ws hi v0 (fold f [lo..<hi] s)"
proof -
  have "i \<le> hi - lo \<Longrightarrow> hash_inv ws (lo + i) v0 (fold f [lo..<lo + i] s)" for i
    by (induction i) (use assms in simp_all)
  from this [of "hi - lo"] assms(2) show ?thesis by simp
qed

lemma hash_inv_step:
  assumes "hash_inv ws n v0 (w, v)" and "n < 80"
    and "length w' = 80" and "\<forall>i < max (Suc n) 16. w' ! i = schedule ws i"
    and "v' = sha1_round ws n v"
  shows "hash_inv ws (Suc n) v0 (w', v')"
  using assms by (simp add: hash_inv_def)

lemma expand_schedule:
  assumes "hash_inv ws n v0 (w, v)" and "16 \<le> n" and "n < 80"
  shows "length (expand_w n w) = 80 \<and> (\<forall>i < max (Suc n) 16. expand_w n w ! i = schedule ws i)"
proof -
  have "schedule ws n = rol (w ! (n - 3) XOR w ! (n - 8) XOR w ! (n - 14) XOR w ! (n - 16)) 1"
    using assms by (subst schedule.simps) (simp add: hash_inv_def)
  then show ?thesis using assms by (auto simp: expand_w_def hash_inv_def nth_list_update less_Suc_eq)
qed

lemma innerHash_compress:
  assumes "length w = 80" and "take 16 w = block_words blk" and "length H = 5"
  shows "fst (innerHash H w) = sha1_compress blk H \<and> length (snd (innerHash H w)) = 80"
proof -
  let ?ws = "block_words blk" and ?v = "(H ! 0, H ! 1, H ! 2, H ! 3, H ! 4)"
  have w16: "w ! i = schedule ?ws i" if "i < 16" for i
    using that assms(1) by (subst schedule.simps, simp) (simp flip: assms(2))
  have s0: "hash_inv ?ws 0 ?v (w, ?v)"
    using assms(1) w16 by (simp add: hash_inv_def)
  have s1: "hash_inv ?ws 16 ?v (fold round_first [0..<16] (w, ?v))"
  proof (rule fold_hash_inv [OF s0])
    fix n s assume n: "0 \<le> n" "n < (16 :: nat)" and s: "hash_inv ?ws n ?v s"
    obtain w v where wv: "s = (w, v)" by (cases s)
    with s n show "hash_inv ?ws (Suc n) ?v (round_first n s)"
      by (auto simp: hash_inv_def round_first_def f_choose_def sha1macro_def sha1_round_def sha1_f_def
          sha1_K_def Let_def split: prod.splits)
  qed simp
  have later_inv: "hash_inv ?ws hi ?v (fold (round_later func val) [lo..<hi] s)"
    if "hash_inv ?ws lo ?v s" "16 \<le> lo" "lo \<le> hi" "hi \<le> 80"
      and f: "\<And>n a b c d e. lo \<le> n \<Longrightarrow> n < hi \<Longrightarrow> func (a, b, c, d, e) = sha1_f n b c d \<and> val = sha1_K n"
    for lo hi s func val
  proof (rule fold_hash_inv [OF that(1,3)])
    fix n s assume n: "lo \<le> n" "n < hi" and s: "hash_inv ?ws n ?v s"
    obtain w a b c d e where wv: "s = (w, a, b, c, d, e)" by (metis prod.collapse)
    have e: "length (expand_w n w) = 80 \<and> (\<forall>i < max (Suc n) 16. expand_w n w ! i = schedule ?ws i)"
      using expand_schedule s n that(2,4) wv by simp
    show "hash_inv ?ws (Suc n) ?v (round_later func val n s)"
      unfolding wv round_later_def Let_def prod.case
    proof (rule hash_inv_step [OF s [unfolded wv]])
      show "sha1macro (func (a, b, c, d, e)) val (expand_w n w ! n) (a, b, c, d, e)
          = sha1_round ?ws n (a, b, c, d, e)"
        using f [OF n] e by (simp add: sha1macro_def sha1_round_def Let_def)
    qed (use e n that(4) in auto)
  qed
  define s2 where "s2 = fold (round_later f_choose 0x5a827999) [16..<20] (fold round_first [0..<16] (w, ?v))"
  define s3 where "s3 = fold (round_later f_parity 0x6ed9eba1) [20..<40] s2"
  define s4 where "s4 = fold (round_later f_majority 0x8f1bbcdc) [40..<60] s3"
  define s5 where "s5 = fold (round_later f_parity 0xca62c1d6) [60..<80] s4"
  have "hash_inv ?ws 20 ?v s2"
    unfolding s2_def by (rule later_inv [OF s1]) (simp_all add: f_choose_def sha1_f_def sha1_K_def)
  then have "hash_inv ?ws 40 ?v s3"
    unfolding s3_def by (rule later_inv) (simp_all add: f_parity_def sha1_f_def sha1_K_def)
  then have "hash_inv ?ws 60 ?v s4"
    unfolding s4_def by (rule later_inv) (simp_all add: f_majority_def sha1_f_def sha1_K_def)
  then have s5: "hash_inv ?ws 80 ?v s5"
    unfolding s5_def by (rule later_inv) (simp_all add: f_parity_def sha1_f_def sha1_K_def)
  have "innerHash H w = (case s5 of (w, a, b, c, d, e) \<Rightarrow>
      ([H ! 0 + a, H ! 1 + b, H ! 2 + c, H ! 3 + d, H ! 4 + e], w))"
    unfolding innerHash_def Let_def s5_def s4_def s3_def s2_def ..
  with s5 show ?thesis
    by (simp add: hash_inv_def sha1_compress_def case_prod_beta)
qed

subsection \<open>Blocks\<close>

lemma bit_be32:
  "length bs = 4 \<Longrightarrow> bit (be32 bs) k \<longleftrightarrow> k < 32 \<and> bit (bs ! (3 - k div 8)) (k mod 8)"
  by (auto simp: be32_def bit_of_le rev_nth)

lemma be32_four:
  "be32 [x0, x1, x2, x3] =
     ucast x3 OR push_bit 8 (ucast x2) OR push_bit 16 (ucast x1) OR push_bit 24 (ucast x0)"
  by (simp add: be32_def of_le_Cons push_bit_or push_bit_push_bit or.commute or.left_commute)

lemma take_four_drop:
  "4 * j + 4 \<le> length b \<Longrightarrow>
     take 4 (drop (4 * j) b) = [b ! (4 * j), b ! (4 * j + 1), b ! (4 * j + 2), b ! (4 * j + 3)]"
  by (rule nth_equalityI) (auto simp: nth_Cons less_Suc_eq numeral_eq_Suc split: nat.splits)

lemma length_fold_update:
  "(\<And>i w. length (f i w) = length w) \<Longrightarrow> length (fold f is w) = length w"
  by (induction "is" arbitrary: w) simp_all

text \<open>A loop that sets entry \<open>i\<close> in turn \<open>i\<close>.\<close>

lemma nth_fold_update:
  assumes "n \<le> length w"
  shows "length (fold (\<lambda>i w. w[i := g i]) [0..<n] w) = length w
     \<and> (\<forall>j < n. fold (\<lambda>i w. w[i := g i]) [0..<n] w ! j = g j)
     \<and> (\<forall>j \<ge> n. fold (\<lambda>i w. w[i := g i]) [0..<n] w ! j = w ! j)"
  using assms by (induction n) (auto simp: nth_list_update less_Suc_eq)

lemma load_block_words:
  assumes "cur + 64 \<le> length m" and "length w = 80"
  shows "length (load_block m cur w) = 80 \<and> take 16 (load_block m cur w) = block_words (take 64 (drop cur m))"
proof -
  let ?g = "\<lambda>j. ucast (m ! (cur + 4 * j + 3)) OR push_bit 8 (ucast (m ! (cur + 4 * j + 2)))
      OR push_bit 16 (ucast (m ! (cur + 4 * j + 1))) OR push_bit 24 (ucast (m ! (cur + 4 * j)) :: u32)"
  have fold: "load_block m cur w = fold (\<lambda>i w. w[i := ?g i]) [0..<16] w"
    by (simp only: load_block_def)
  note loaded = nth_fold_update [of 16 w ?g, folded fold]
  have "take 16 (load_block m cur w) ! j = block_words (take 64 (drop cur m)) ! j" if "j < 16" for j
  proof -
    let ?b = "take 64 (drop cur m)"
    have b: "length ?b = 64" "\<And>i. i < 64 \<Longrightarrow> ?b ! i = m ! (cur + i)" using assms by auto
    have "block_words ?b ! j = be32 (take 4 (drop (4 * j) ?b))"
      using that by (simp add: block_words_def)
    also have "take 4 (drop (4 * j) ?b) = [?b ! (4 * j), ?b ! (4 * j + 1), ?b ! (4 * j + 2), ?b ! (4 * j + 3)]"
      by (rule take_four_drop) (use that b(1) in simp)
    also have "be32 \<dots> = ?g j"
      unfolding be32_four using that by (subst (1 2 3 4) b(2)) (auto simp: add.assoc)
    finally show ?thesis using loaded assms(2) that by simp
  qed
  then have "take 16 (load_block m cur w) = block_words (take 64 (drop cur m))"
    using loaded assms(2) by (intro nth_equalityI) (simp_all add: block_words_def)
  then show ?thesis using loaded assms(2) by simp
qed

lemma length_compress [simp]: "length (sha1_compress b H) = 5"
  by (simp add: sha1_compress_def case_prod_beta)

lemma full_blocks_spec:
  assumes "64 \<le> length m" and "cur mod 64 = 0" and "cur \<le> length m" and "length H = 5" and "length w = 80"
  shows "\<exists>H' w'. full_blocks m cur H w = (64 * (length m div 64), H', w') \<and> length H' = 5 \<and> length w' = 80
     \<and> (\<forall>k ext. sha1_blocks ((length m - cur) div 64 + k) (drop cur (m @ ext)) H
                = sha1_blocks k (drop (64 * (length m div 64)) (m @ ext)) H')"
  using assms
proof (induction "length m - cur" arbitrary: cur H w rule: less_induct)
  case less
  show ?case
  proof (cases "cur \<le> length m - 64")
    case True
    let ?w = "load_block m cur w" and ?b = "take 64 (drop cur m)"
    have le: "cur + 64 \<le> length m" using True less.prems(1) by simp
    note load = load_block_words [OF le less.prems(5)]
    have inner: "fst (innerHash H ?w) = sha1_compress ?b H" "length (snd (innerHash H ?w)) = 80"
      using innerHash_compress [of ?w ?b H] load less.prems(4) by simp_all
    have step: "full_blocks m cur H w
        = full_blocks m (cur + 64) (sha1_compress ?b H) (snd (innerHash H ?w))"
      using True inner(1) by (subst full_blocks.simps) (simp add: Let_def case_prod_beta)
    have "\<exists>H' w'. full_blocks m (cur + 64) (sha1_compress ?b H) (snd (innerHash H ?w))
          = (64 * (length m div 64), H', w') \<and> length H' = 5 \<and> length w' = 80
       \<and> (\<forall>k ext. sha1_blocks ((length m - (cur + 64)) div 64 + k) (drop (cur + 64) (m @ ext)) (sha1_compress ?b H)
                = sha1_blocks k (drop (64 * (length m div 64)) (m @ ext)) H')"
      by (rule less.hyps) (use le less.prems inner in auto)
    moreover have "sha1_blocks ((length m - cur) div 64 + k) (drop cur (m @ ext)) H
        = sha1_blocks ((length m - (cur + 64)) div 64 + k) (drop (cur + 64) (m @ ext)) (sha1_compress ?b H)"
      for k ext
    proof -
      have "length m - cur = (length m - (cur + 64)) + 64" using le by simp
      then have "(length m - cur) div 64 + k = Suc ((length m - (cur + 64)) div 64 + k)"
        by (simp only: div_add_self2)
      moreover have "take 64 (drop cur (m @ ext)) = ?b" using le by simp
      moreover have "drop 64 (drop cur (m @ ext)) = drop (cur + 64) (m @ ext)"
        by (simp only: drop_drop add.commute)
      ultimately show ?thesis by (simp only: sha1_blocks.simps)
    qed
    ultimately show ?thesis unfolding step by simp
  next
    case False
    then have "length m - cur < 64" using less.prems(1) by simp
    moreover obtain q where "cur = 64 * q" using less.prems(2) by (metis mod_0_imp_dvd dvdE)
    ultimately have "length m div 64 = q" "cur = 64 * q" "(length m - cur) div 64 = 0"
      using less.prems(3) by (auto intro!: div_nat_eqI)
    then show ?thesis
      using False less.prems by (subst full_blocks.simps) auto
  qed
qed

subsection \<open>The last blocks\<close>

lemma nth_fold_zero:
  "length (fold (\<lambda>pos w. w[pos := 0]) is w) = length w
   \<and> (j < length w \<longrightarrow> fold (\<lambda>pos w. w[pos := 0]) is w ! j = (if j \<in> set is then 0 else w ! j))"
  for w :: "u32 list"
  by (induction "is" arbitrary: w) (auto simp: nth_list_update)

lemma clear_effect:
  assumes "length w = 80"
  shows "length (clearWBuffert w) = 80 \<and> (\<forall>j < 16. clearWBuffert w ! j = 0)"
  using nth_fold_zero [of "rev [0..<16]" w] assms by (simp only: clearWBuffert_def) (auto simp del: fold.simps upt_conv_Cons)

text \<open>The word of the octets \<open>4 * j\<close> to \<open>4 * j + 3\<close> when only the first \<open>n\<close> octets are there.\<close>

definition partial_word :: "(nat \<Rightarrow> u8) \<Rightarrow> nat \<Rightarrow> nat \<Rightarrow> u32" where
  "partial_word f n j = be32 (map (\<lambda>i. if i < n then f i else 0) [4 * j..<4 * j + 4])"

lemma bit_partial_word:
  "bit (partial_word f n j) k \<longleftrightarrow>
     k < 32 \<and> 4 * j + (3 - k div 8) < n \<and> bit (f (4 * j + (3 - k div 8))) (k mod 8)"
  by (auto simp: partial_word_def bit_be32 split: if_splits)

lemma partial_word_zero [simp]: "partial_word f 0 j = 0"
  by (rule bit_word_eqI) (simp add: bit_partial_word)

lemma word_index: "(d :: nat) \<le> 3 \<Longrightarrow> 4 * j + (3 - d) = n \<longleftrightarrow> j = n div 4 \<and> d = 3 - n mod 4"
proof
  assume "d \<le> 3" and n: "4 * j + (3 - d) = n"
  have "3 - d < (4 :: nat)" by simp
  then have "n div 4 = j" "n mod 4 = 3 - d" unfolding n [symmetric] by simp_all
  with \<open>d \<le> 3\<close> show "j = n div 4 \<and> d = 3 - n mod 4" by simp
next
  assume "j = n div 4 \<and> d = 3 - n mod 4"
  moreover have "n mod 4 \<le> 3" using mod_less_divisor [of 4 n] by simp
  ultimately have "4 * j + (3 - d) = 4 * (n div 4) + n mod 4" by simp
  then show "4 * j + (3 - d) = n" by simp
qed

lemma partial_word_Suc:
  "partial_word f (Suc n) j =
     (if j = n div 4 then partial_word f n j OR push_bit (8 * (3 - n mod 4)) (ucast (f n))
      else partial_word f n j)"
proof (rule bit_word_eqI)
  fix k assume "k < LENGTH(32)"
  then have k: "k < 32" by simp
  define i where "i = 4 * j + (3 - k div 8)"
  have here: "i = n \<longleftrightarrow> j = n div 4 \<and> k div 8 = 3 - n mod 4"
    unfolding i_def using k by (intro word_index) auto
  have push: "bit (push_bit (8 * (3 - n mod 4)) (ucast (f n) :: u32)) k \<longleftrightarrow>
      k div 8 = 3 - n mod 4 \<and> bit (f n) (k mod 8)"
  proof (cases "k div 8 = 3 - n mod 4")
    case True
    then have "k - 8 * (3 - n mod 4) = k mod 8" "8 * (3 - n mod 4) \<le> k"
      using div_mult_mod_eq [of k 8] by linarith+
    moreover have "k mod 8 < 32" by (rule less_trans [of _ 8]) simp_all
    ultimately show ?thesis using True k by (auto simp: bit_push_bit_iff bit_ucast_iff)
  next
    case False
    then have "\<not> (8 * (3 - n mod 4) \<le> k \<and> k - 8 * (3 - n mod 4) < 8)" by auto
    then show ?thesis using False bit_imp_le_length [of "f n" "k - 8 * (3 - n mod 4)"]
      by (auto simp: bit_push_bit_iff bit_ucast_iff)
  qed
  show "bit (partial_word f (Suc n) j) k =
      bit (if j = n div 4 then partial_word f n j OR push_bit (8 * (3 - n mod 4)) (ucast (f n))
           else partial_word f n j) k"
  proof -
    have "bit (partial_word f (Suc n) j) k \<longleftrightarrow> (i < n \<or> i = n) \<and> bit (f i) (k mod 8)"
      "bit (partial_word f n j) k \<longleftrightarrow> i < n \<and> bit (f i) (k mod 8)"
      using k by (auto simp: bit_partial_word i_def less_Suc_eq)
    then show ?thesis using here push by (cases "j = n div 4") (auto simp: bit_or_iff)
  qed
qed

lemma fill_effect:
  assumes "length w = 80" and "\<forall>j < 16. w ! j = 0" and "n \<le> 64"
  shows "length (fold (\<lambda>i. or_byte i (ucast (f i))) [0..<n] w) = 80
     \<and> (\<forall>j < 16. fold (\<lambda>i. or_byte i (ucast (f i))) [0..<n] w ! j = partial_word f n j)"
  using assms(3)
proof (induction n)
  case 0
  then show ?case using assms by simp
next
  case (Suc n)
  define v where "v = fold (\<lambda>i. or_byte i (ucast (f i))) [0..<n] w"
  have IH: "length v = 80" "\<And>j. j < 16 \<Longrightarrow> v ! j = partial_word f n j" using Suc by (auto simp: v_def)
  have step: "fold (\<lambda>i. or_byte i (ucast (f i))) [0..<Suc n] w = or_byte n (ucast (f n)) v"
    by (simp add: v_def)
  have "n div 4 < 16" using Suc.prems by auto
  then show ?case unfolding step unfolding or_byte_def using IH by (auto simp: nth_list_update partial_word_Suc)
qed

text \<open>The words of a block given by its octets.\<close>

lemma block_words_nth:
  assumes "length b = 64" and "j < 16"
  shows "block_words b ! j = partial_word (\<lambda>i. b ! i) 64 j"
proof (rule bit_word_eqI)
  fix k assume "k < LENGTH(32)"
  then have k: "3 - k div 8 < 4" "k < 32" by auto
  then have "4 * j + (3 - k div 8) < 64" using assms(2) by simp
  then show "bit (block_words b ! j) k = bit (partial_word (\<lambda>i. b ! i) 64 j) k"
    using assms k by (simp add: block_words_def bit_be32 bit_partial_word)
qed

lemma partial_word_cong:
  assumes "\<And>i. 4 * j \<le> i \<Longrightarrow> i < 4 * j + 4 \<Longrightarrow> (if i < n then f i else 0) = (if i < n' then g i else 0)"
  shows "partial_word f n j = partial_word g n' j"
  unfolding partial_word_def using assms by (intro arg_cong [of _ _ be32] map_cong) auto

text \<open>A buffer filled with a block that ends in zeros.\<close>

lemma filled_block:
  assumes "length w = 80" and "\<forall>j < 16. w ! j = partial_word (\<lambda>i. t ! i) (length t) j" and "length t \<le> 64"
  shows "take 16 w = block_words (t @ replicate (64 - length t) 0)"
proof (rule nth_equalityI)
  fix j assume "j < length (take 16 w)"
  then have j: "j < 16" using assms(1) by simp
  have "block_words (t @ replicate (64 - length t) 0) ! j
      = partial_word (\<lambda>i. (t @ replicate (64 - length t) 0) ! i) 64 j"
    using assms(3) j by (intro block_words_nth) simp_all
  also have "\<dots> = partial_word (\<lambda>i. t ! i) (length t) j"
    using assms(3) j by (intro partial_word_cong) (auto simp: nth_append)
  finally show "take 16 w ! j = block_words (t @ replicate (64 - length t) 0) ! j"
    using assms(1,2) j by simp
qed (use assms(1) in \<open>simp add: block_words_def\<close>)

text \<open>The tail of the message, shorter than a block, with the length in the last word.\<close>

definition final_words :: "bytes \<Rightarrow> nat \<Rightarrow> u32 list \<Rightarrow> u32 list" where
  "final_words t len w = (fold (\<lambda>i. or_byte i (ucast (t ! i))) [0..<length t] (clearWBuffert w))
     [15 := ucast (push_bit 3 (word_of_nat len :: u64))]"

lemma filled_tail:
  assumes "length w = 80" and "length t \<le> 64"
  shows "length (fold (\<lambda>i. or_byte i (ucast (t ! i))) [0..<length t] (clearWBuffert w)) = 80"
    and "take 16 (fold (\<lambda>i. or_byte i (ucast (t ! i))) [0..<length t] (clearWBuffert w))
       = block_words (t @ replicate (64 - length t) 0)"
proof -
  have "length (clearWBuffert w) = 80" "\<forall>j < 16. clearWBuffert w ! j = 0"
    using clear_effect [OF assms(1)] by auto
  note fill = fill_effect [OF this assms(2), of "\<lambda>i. t ! i"]
  then show "length (fold (\<lambda>i. or_byte i (ucast (t ! i))) [0..<length t] (clearWBuffert w)) = 80" by blast
  show "take 16 (fold (\<lambda>i. or_byte i (ucast (t ! i))) [0..<length t] (clearWBuffert w))
       = block_words (t @ replicate (64 - length t) 0)"
    by (rule filled_block) (use fill assms in auto)
qed

lemma length_field:
  assumes "len < 2 ^ 29"
  shows "rev (le_bytes 8 (word_of_nat (8 * len) :: u64)) = replicate 4 0 @ rev (le_bytes 4 (word_of_nat (8 * len) :: u64))"
    and "be32 (rev (le_bytes 4 (word_of_nat (8 * len) :: u64))) = ucast (push_bit 3 (word_of_nat len :: u64))"
proof -
  let ?W = "word_of_nat (8 * len) :: u64"
  have bound: "\<not> bit ?W k" if "32 \<le> k" for k
  proof -
    have "8 * len < 2 ^ 32" using assms by simp
    then have "8 * len < 2 ^ k" using that by (meson less_le_trans one_le_numeral power_increasing)
    then have "\<not> bit (8 * len) k" by (simp add: bit_iff_odd div_less)
    then show ?thesis by (simp add: bit_of_nat_iff del: of_nat_mult)
  qed
  have "le_bytes 8 ?W ! i = 0" if "4 \<le> i" "i < 8" for i
    by (rule bit_word_eqI) (use that bound in \<open>simp add: bit_nth_le_bytes\<close>)
  then have "drop 4 (le_bytes 8 ?W) = replicate 4 0"
    by (intro nth_equalityI) simp_all
  moreover have "take 4 (le_bytes 8 ?W) = le_bytes 4 ?W"
    by (rule nth_equalityI) (simp_all add: nth_le_bytes)
  ultimately have "le_bytes 8 ?W = le_bytes 4 ?W @ replicate 4 0"
    using append_take_drop_id [of 4 "le_bytes 8 ?W"] by simp
  then show "rev (le_bytes 8 ?W) = replicate 4 0 @ rev (le_bytes 4 ?W)"
    by (metis rev_append rev_replicate)
  have "push_bit 3 (word_of_nat len :: u64) = ?W" by (simp add: push_bit_eq_mult)
  then show "be32 (rev (le_bytes 4 ?W)) = ucast (push_bit 3 (word_of_nat len :: u64))"
    by (intro bit_word_eqI)
       (simp add: be32_def bit_of_le bit_nth_le_bytes bit_ucast_iff less_mult_imp_div_less del: of_nat_mult)
qed

lemma final_words_block:
  assumes "length w = 80" and "length t \<le> 56" and "len < 2 ^ 29"
  shows "length (final_words t len w) = 80"
    and "take 16 (final_words t len w)
       = block_words (t @ replicate (56 - length t) 0 @ rev (le_bytes 8 (word_of_nat (8 * len) :: u64)))"
proof -
  let ?L = "rev (le_bytes 4 (word_of_nat (8 * len) :: u64))"
  define b where "b = t @ replicate (60 - length t) 0 @ ?L"
  have "t @ replicate (56 - length t) 0 @ rev (le_bytes 8 (word_of_nat (8 * len) :: u64)) = b"
  proof -
    have "60 - length t = (56 - length t) + 4" using assms(2) by simp
    then show ?thesis unfolding b_def length_field(1) [OF assms(3)] by (simp only: replicate_add append_assoc)
  qed
  moreover have len: "length b = 64" using assms(2) by (simp add: b_def)
  moreover have "length t \<le> 64" using assms(2) by simp
  note fill = filled_tail [OF assms(1) this]
  moreover have "take 16 (final_words t len w) = block_words b"
  proof (rule nth_equalityI)
    fix j assume "j < length (take 16 (final_words t len w))"
    then have j: "j < 16" using fill(1) by (simp add: final_words_def)
    show "take 16 (final_words t len w) ! j = block_words b ! j"
    proof (cases "j = 15")
      case True
      have "take 4 (drop 60 b) = ?L" using assms(2) by (simp add: b_def)
      then have "block_words b ! 15 = be32 ?L" by (simp add: block_words_def)
      then show ?thesis using True fill(1) length_field(2) [OF assms(3)] by (simp add: final_words_def)
    next
      case False
      then have "take 16 (final_words t len w) ! j
          = take 16 (fold (\<lambda>i. or_byte i (ucast (t ! i))) [0..<length t] (clearWBuffert w)) ! j"
        using j fill(1) by (simp add: final_words_def)
      also have "\<dots> = partial_word (\<lambda>i. (t @ replicate (64 - length t) 0) ! i) 64 j"
        unfolding fill(2) using j assms(2) by (intro block_words_nth) simp_all
      also have "\<dots> = partial_word (\<lambda>i. b ! i) 64 j"
        using j False assms(2) by (intro partial_word_cong) (auto simp: b_def nth_append)
      also have "\<dots> = block_words b ! j" using len j by (simp add: block_words_nth)
      finally show ?thesis .
    qed
  qed (use fill(1) in \<open>simp add: block_words_def final_words_def\<close>)
  ultimately show "length (final_words t len w) = 80"
    and "take 16 (final_words t len w)
       = block_words (t @ replicate (56 - length t) 0 @ rev (le_bytes 8 (word_of_nat (8 * len) :: u64)))"
    by (simp_all add: final_words_def)
qed

subsection \<open>Properties\<close>

lemma hash_bytes:
  fixes H :: "u32 list"
  assumes "length H = 5"
  shows "map (\<lambda>hashByte. ucast (drop_bit (nat (((3 - int hashByte) AND 3) * 8)) (H ! (hashByte div 4)) AND 0xff))
           [0..<20] = concat (map (\<lambda>h. rev (le_bytes 4 h)) H)"
proof -
  obtain h0 h1 h2 h3 h4 where H: "H = [h0, h1, h2, h3, h4]"
    using assms by (auto simp: length_Suc_conv numeral_eq_Suc)
  have b: "rev (le_bytes 4 h) = [ucast (drop_bit 24 h), ucast (drop_bit 16 h), ucast (drop_bit 8 h), ucast h]"
    for h :: u32 by (simp add: le_bytes_def upt_rec)
  have m: "(ucast (w AND 0xff) :: u8) = ucast w" for w :: u32
  proof (rule bit_word_eqI)
    fix n assume "n < LENGTH(8)"
    moreover have "(0xff :: u32) = mask 8" by (simp add: mask_eq_exp_minus_1)
    ultimately show "bit (ucast (w AND 0xff) :: u8) n = bit (ucast w :: u8) n"
      by (simp only: bit_ucast_iff bit_and_iff bit_mask_iff) simp
  qed
  have u: "[0..<20] = [0, 1, 2, 3, 4, 5, 6, 7, 8, 9, 10, 11, 12, 13, 14, 15, 16, 17, 18, 19 :: nat]"
    by (simp add: upt_rec)
  show ?thesis unfolding H u by (simp add: b m)
qed

lemma tail_loop:
  fixes t m :: bytes
  assumes "t = drop cur m @ [0x80]" and "n = length m - cur"
  shows "or_byte n 0x80 (fold (\<lambda>i. or_byte i (ucast (m ! (i + cur)))) [0..<n] w)
       = fold (\<lambda>i. or_byte i (ucast (t ! i))) [0..<length t] w"
proof -
  have t: "length t = Suc n" "t ! n = 0x80" "\<And>i. i < n \<Longrightarrow> t ! i = m ! (i + cur)"
    using assms by (auto simp: nth_append add.commute)
  have "fold (\<lambda>i. or_byte i (ucast (m ! (i + cur)))) [0..<n] w = fold (\<lambda>i. or_byte i (ucast (t ! i))) [0..<n] w"
    using t(3) by (intro fold_cong) auto
  then show ?thesis by (simp add: t(1,2))
qed

text \<open>The three ways the code can end, as one equation over the tail.\<close>

lemma calc_tail:
  assumes "length w = 80"
  shows "\<exists>H w'. length H = 5 \<and> length w' = 80
     \<and> (\<forall>k ext. sha1_blocks (length m div 64 + k) (m @ ext) [0x67452301, 0xefcdab89, 0x98badcfe, 0x10325476, 0xc3d2e1f0]
          = sha1_blocks k (drop (64 * (length m div 64)) (m @ ext)) H)
     \<and> calc m w =
        (let t = drop (64 * (length m div 64)) m @ [0x80];
             (H, w') = (if 57 \<le> length t
                then (fst (innerHash H (fold (\<lambda>i. or_byte i (ucast (t ! i))) [0..<length t] (clearWBuffert w'))),
                      final_words [] (length m)
                        (snd (innerHash H (fold (\<lambda>i. or_byte i (ucast (t ! i))) [0..<length t] (clearWBuffert w')))))
                else (H, final_words t (length m) w'))
         in concat (map (\<lambda>h. rev (le_bytes 4 h)) (fst (innerHash H w'))))"
proof -
  let ?H0 = "[0x67452301, 0xefcdab89, 0x98badcfe, 0x10325476, 0xc3d2e1f0] :: u32 list"
  let ?q = "64 * (length m div 64)"
  obtain H w' where HW: "(if length m \<ge> 64 then full_blocks m 0 ?H0 w else (0, ?H0, w)) = (?q, H, w')"
    "length H = 5" "length w' = 80"
    "\<And>k ext. sha1_blocks (length m div 64 + k) (m @ ext) ?H0 = sha1_blocks k (drop ?q (m @ ext)) H"
    using full_blocks_spec [of m 0 ?H0 w] assms by (cases "64 \<le> length m") auto
  have inner5: "length (fst (innerHash X v)) = 5" for X v
    by (simp add: innerHash_def Let_def case_prod_beta)
  have "56 \<le> length m - ?q \<longleftrightarrow> 57 \<le> length (drop ?q m @ [0x80 :: u8])" by auto
  then show ?thesis
    using HW(2-4) inner5
    by (intro exI [of _ H] exI [of _ w'])
       (simp add: calc_def HW(1) Let_def case_prod_beta hash_bytes tail_loop [OF refl refl] final_words_def)
qed

lemma padding_split:
  assumes "q = 64 * (length m div 64)" and "t = drop q m @ [0x80]"
    and "L = rev (le_bytes 8 (word_of_nat (8 * length m) :: u64))"
  shows "length t \<le> 56 \<Longrightarrow> length (sha1_pad m) div 64 = length m div 64 + 1
            \<and> drop q (sha1_pad m) = t @ replicate (56 - length t) 0 @ L"
    and "57 \<le> length t \<Longrightarrow> length (sha1_pad m) div 64 = length m div 64 + 2
            \<and> drop q (sha1_pad m) = (t @ replicate (64 - length t) 0) @ replicate 56 0 @ L"
proof -
  define r where "r = length m mod 64"
  have "length m = q + r" "r < 64"
    using div_mult_mod_eq [of "length m" 64] unfolding assms(1) r_def by (simp_all only: mult.commute)
  then have r: "r < 64" "length t = Suc r" "length m = q + r" "q \<le> length m"
    by (simp_all add: assms(2))
  have drop: "drop q (sha1_pad m) = t @ replicate ((119 - r) mod 64) 0 @ L"
    using r(4) by (simp add: sha1_pad_def assms(2,3) r_def)
  have len: "length (sha1_pad m) = q + r + 9 + (119 - r) mod 64"
    using r(3) by (simp add: sha1_pad_def r_def)
  show "length (sha1_pad m) div 64 = length m div 64 + 1
            \<and> drop q (sha1_pad m) = t @ replicate (56 - length t) 0 @ L" if "length t \<le> 56"
  proof -
    have "r \<le> 55" using that r(2) by simp
    then have "119 - r = (55 - r) + 64" by simp
    then have "(119 - r) mod 64 = (55 - r) mod 64" by (simp only: mod_add_self2)
    then have "(119 - r) mod 64 = 55 - r" by simp
    then show ?thesis using drop len r(2) \<open>r \<le> 55\<close> assms(1) by simp
  qed
  show "length (sha1_pad m) div 64 = length m div 64 + 2
            \<and> drop q (sha1_pad m) = (t @ replicate (64 - length t) 0) @ replicate 56 0 @ L"
    if "57 \<le> length t"
  proof -
    have "(119 - r) mod 64 = (64 - length t) + 56" using that r(1,2) by simp
    moreover from this have "length (sha1_pad m) = q + 128" using len r(1,2) that by simp
    ultimately show ?thesis using drop assms(1) by (simp add: replicate_add)
  qed
qed

lemma two_blocks: "length b = 64 \<Longrightarrow> sha1_blocks 2 (b @ r) H = sha1_compress (take 64 r) (sha1_compress b H)"
proof -
  assume "length b = 64"
  then have "take 64 (b @ r) = b" "drop 64 (b @ r) = r" by (metis append_eq_conv_conj)+
  then show ?thesis by (simp only: numeral_2_eq_2 sha1_blocks.simps)
qed

lemma calc_sha1:
  assumes "length w = 80" and "length m < 2 ^ 29"
  shows "calc m w = sha1 m"
proof -
  let ?H0 = "[0x67452301, 0xefcdab89, 0x98badcfe, 0x10325476, 0xc3d2e1f0] :: u32 list"
  define q t L where "q = 64 * (length m div 64)" and "t = drop q m @ [0x80]"
    and "L = rev (le_bytes 8 (word_of_nat (8 * length m) :: u64))"
  note split = padding_split [OF q_def t_def L_def]
  obtain H w' where Hw: "length H = 5" "length w' = 80"
    and blocks: "\<And>k ext. sha1_blocks (length m div 64 + k) (m @ ext) ?H0 = sha1_blocks k (drop q (m @ ext)) H"
    and code: "calc m w = (let (H, w') = (if 57 \<le> length t
                then (fst (innerHash H (fold (\<lambda>i. or_byte i (ucast (t ! i))) [0..<length t] (clearWBuffert w'))),
                      final_words [] (length m)
                        (snd (innerHash H (fold (\<lambda>i. or_byte i (ucast (t ! i))) [0..<length t] (clearWBuffert w')))))
                else (H, final_words t (length m) w'))
         in concat (map (\<lambda>h. rev (le_bytes 4 h)) (fst (innerHash H w'))))"
    using calc_tail [OF assms(1), of m] unfolding Let_def q_def t_def by blast
  have pad: "sha1_pad m = m @ drop (length m) (sha1_pad m)" by (simp add: sha1_pad_def)
  have spec: "sha1_blocks (length m div 64 + k) (sha1_pad m) ?H0 = sha1_blocks k (drop q (sha1_pad m)) H" for k
    using blocks [of k "drop (length m) (sha1_pad m)"] pad by simp
  have t64: "length t \<le> 64" unfolding t_def q_def by simp
  show ?thesis
  proof (cases "57 \<le> length t")
    case False
    then have t56: "length t \<le> 56" by simp
    note final = final_words_block [OF Hw(2) t56 assms(2), folded L_def]
    have "fst (innerHash H (final_words t (length m) w')) = sha1_compress (take 64 (t @ replicate (56 - length t) 0 @ L)) H"
      using innerHash_compress [OF final Hw(1)] t56 by (simp add: L_def)
    also have "\<dots> = sha1_blocks (length (sha1_pad m) div 64) (sha1_pad m) ?H0"
      using split(1) [OF t56] spec [of 1] by simp
    finally show ?thesis using False code by (simp add: sha1_def Let_def)
  next
    case True
    let ?v = "fold (\<lambda>i. or_byte i (ucast (t ! i))) [0..<length t] (clearWBuffert w')"
    let ?b = "t @ replicate (64 - length t) 0"
    have inner: "fst (innerHash H ?v) = sha1_compress ?b H" "length (snd (innerHash H ?v)) = 80"
      using innerHash_compress [OF filled_tail [OF Hw(2) t64] Hw(1)] by blast+
    have "length ([] :: bytes) \<le> 56" by simp
    note final = final_words_block [OF inner(2) this assms(2), folded L_def]
    have "fst (innerHash (fst (innerHash H ?v)) (final_words [] (length m) (snd (innerHash H ?v))))
        = sha1_compress (take 64 (replicate 56 0 @ L)) (sha1_compress ?b H)"
      using innerHash_compress [OF final] inner(1) by (simp add: L_def)
    also have "\<dots> = sha1_blocks 2 (?b @ replicate 56 0 @ L) H"
      by (rule two_blocks [symmetric]) (use t64 in simp)
    also have "\<dots> = sha1_blocks (length (sha1_pad m) div 64) (sha1_pad m) ?H0"
      using split(2) [OF True] spec [of 2] by simp
    finally show ?thesis using True code by (simp add: sha1_def Let_def)
  qed
qed

text \<open>C16. The digest the code computes is the SHA-1 of FIPS 180-4 for every message shorter than
  \<open>2 ^ 29\<close> octets, whatever the uninitialised round buffer holds: the unrolled loops implement the
  message schedule and the four round functions, and the tail handling implements the padding.\<close>
theorem sha1_correct:
  assumes "length w = 80" and "length m < 2 ^ 29"
  shows "calc m w = sha1 m"
  by (rule calc_sha1 [OF assms])

theorem sha1_correct_witness:
  "calc [0x61, 0x62, 0x63] (replicate 80 7) = sha1 [0x61, 0x62, 0x63]"
  by (rule sha1_correct) simp_all

end
