(* ===== verification/WsBase64.thy ===== *)
theory WsBase64 imports Octets begin

text \<open>
  Base64 as \<open>websocketpp/base64/base64.hpp\<close> encodes and decodes it, for the key exchange of the
  WebSocket handshake.
\<close>

subsection \<open>The code\<close>

definition base64_chars :: bytes where
  "base64_chars =
    [65, 66, 67, 68, 69, 70, 71, 72, 73, 74, 75, 76, 77, 78, 79, 80, 81, 82, 83, 84, 85, 86, 87, 88, 89, 90,
     97, 98, 99, 100, 101, 102, 103, 104, 105, 106, 107, 108, 109, 110, 111, 112, 113, 114, 115, 116, 117,
     118, 119, 120, 121, 122, 48, 49, 50, 51, 52, 53, 54, 55, 56, 57, 43, 47]"

definition is_base64 :: "u8 \<Rightarrow> bool" where
  "is_base64 c \<longleftrightarrow> c = 43 \<or> (c \<ge> 47 \<and> c \<le> 57) \<or> (c \<ge> 65 \<and> c \<le> 90) \<or> (c \<ge> 97 \<and> c \<le> 122)"

text \<open>The four sextets of three octets, computed at two places of the encoder.\<close>

definition to_sextets :: "u8 \<Rightarrow> u8 \<Rightarrow> u8 \<Rightarrow> bytes" where
  "to_sextets a0 a1 a2 =
     [drop_bit 2 (a0 AND 0xfc),
      push_bit 4 (a0 AND 0x03) + drop_bit 4 (a1 AND 0xf0),
      push_bit 2 (a1 AND 0x0f) + drop_bit 6 (a2 AND 0xc0),
      a2 AND 0x3f]"

definition encode_char :: "u8 \<Rightarrow> u8" where
  "encode_char v = base64_chars ! unat v"

text \<open>
  The loop over the input with the octets of \<open>char_array_3\<close> collected so far, and the rest after
  it: \<open>i\<close> is the length of the collected list.
\<close>

fun encode_loop :: "bytes \<Rightarrow> bytes \<Rightarrow> bytes \<Rightarrow> bytes \<times> bytes" where
  "encode_loop [] char_array_3 ret = (char_array_3, ret)"
| "encode_loop (b # input) char_array_3 ret =
     (let char_array_3 = char_array_3 @ [b] in
      if length char_array_3 = 3 then
        encode_loop input []
          (ret @ map encode_char (to_sextets (char_array_3 ! 0) (char_array_3 ! 1) (char_array_3 ! 2)))
      else encode_loop input char_array_3 ret)"

definition base64_encode :: "bytes \<Rightarrow> bytes" where
  "base64_encode input =
     (let (char_array_3, ret) = encode_loop input [] [];
          i = length char_array_3
      in if i \<noteq> 0 then
           let char_array_3 = char_array_3 @ replicate (3 - i) 0;
               char_array_4 = to_sextets (char_array_3 ! 0) (char_array_3 ! 1) (char_array_3 ! 2)
           in ret @ map encode_char (take (i + 1) char_array_4) @ replicate (3 - i) 61
         else ret)"

text \<open>\<open>base64_chars.find (c)\<close> cast to an \<open>unsigned char\<close>: \<open>npos\<close> becomes 255.\<close>

definition find_char :: "u8 \<Rightarrow> u8" where
  "find_char c =
     (if c \<in> set base64_chars then word_of_nat (length (takeWhile (\<lambda>x. x \<noteq> c) base64_chars)) else 255)"

definition from_sextets :: "u8 \<Rightarrow> u8 \<Rightarrow> u8 \<Rightarrow> u8 \<Rightarrow> bytes" where
  "from_sextets v0 v1 v2 v3 =
     [push_bit 2 v0 + drop_bit 4 (v1 AND 0x30),
      push_bit 4 (v1 AND 0xf) + drop_bit 2 (v2 AND 0x3c),
      push_bit 6 (v2 AND 0x3) + v3]"

fun decode_loop :: "bytes \<Rightarrow> bytes \<Rightarrow> bytes \<Rightarrow> bytes \<times> bytes" where
  "decode_loop [] char_array_4 ret = (char_array_4, ret)"
| "decode_loop (c # input) char_array_4 ret =
     (if c \<noteq> 61 \<and> is_base64 c then
        let char_array_4 = char_array_4 @ [c] in
        if length char_array_4 = 4 then
          let v = map find_char char_array_4
          in decode_loop input [] (ret @ from_sextets (v ! 0) (v ! 1) (v ! 2) (v ! 3))
        else decode_loop input char_array_4 ret
      else (char_array_4, ret))"

definition base64_decode :: "bytes \<Rightarrow> bytes" where
  "base64_decode input =
     (let (char_array_4, ret) = decode_loop input [] [];
          i = length char_array_4
      in if i \<noteq> 0 then
           let v = map find_char (char_array_4 @ replicate (4 - i) 0)
           in ret @ take (i - 1) (from_sextets (v ! 0) (v ! 1) (v ! 2) (v ! 3))
         else ret)"

subsection \<open>Tables\<close>

lemma base64_chars_valid: "list_all is_base64 base64_chars \<and> list_all (\<lambda>c. c \<noteq> 61) base64_chars"
  by (simp add: base64_chars_def is_base64_def)

lemma length_chars: "length base64_chars = 64"
  by (simp add: base64_chars_def)

lemma distinct_chars: "distinct base64_chars"
  by (simp add: base64_chars_def)

lemma takeWhile_nth:
  "distinct xs \<Longrightarrow> i < length xs \<Longrightarrow> length (takeWhile (\<lambda>x. x \<noteq> xs ! i) xs) = i"
proof (induction xs arbitrary: i)
  case (Cons x xs)
  then show ?case by (cases i) auto
qed simp

lemma find_encode:
  assumes "v < 64"
  shows "find_char (encode_char v) = v" and "is_base64 (encode_char v)" and "encode_char v \<noteq> 61"
proof -
  have v: "unat v < 64" using assms by (simp add: word_less_nat_alt)
  then have i: "base64_chars ! unat v \<in> set base64_chars" by (simp add: length_chars)
  then show "find_char (encode_char v) = v"
    using takeWhile_nth [OF distinct_chars, of "unat v"] v
    by (simp add: find_char_def encode_char_def length_chars)
  show "is_base64 (encode_char v)" "encode_char v \<noteq> 61"
    using base64_chars_valid i by (auto simp: encode_char_def list_all_iff)
qed

text \<open>The parts an octet is cut into, and its recombination.\<close>

lemma octet_parts:
  "drop_bit 2 (b AND 0xfc) < (64 :: u8) \<and> b AND 0x3f < 64 \<and> b AND 0x03 < 4 \<and> b AND 0x0f < 16
   \<and> drop_bit 4 (b AND 0xf0) < 16 \<and> drop_bit 6 (b AND 0xc0) < 4
   \<and> push_bit 2 (drop_bit 2 (b AND 0xfc)) + (b AND 0x03) = b
   \<and> push_bit 4 (drop_bit 4 (b AND 0xf0)) + (b AND 0x0f) = b
   \<and> push_bit 6 (drop_bit 6 (b AND 0xc0)) + (b AND 0x3f) = b"
proof -
  have "\<forall>n \<in> set [0..<2 ^ LENGTH(8)]. (\<lambda>b. drop_bit 2 (b AND 0xfc) < (64 :: u8) \<and> b AND 0x3f < 64
   \<and> b AND 0x03 < 4 \<and> b AND 0x0f < 16
   \<and> drop_bit 4 (b AND 0xf0) < 16 \<and> drop_bit 6 (b AND 0xc0) < 4
   \<and> push_bit 2 (drop_bit 2 (b AND 0xfc)) + (b AND 0x03) = b
   \<and> push_bit 4 (drop_bit 4 (b AND 0xf0)) + (b AND 0x0f) = b
   \<and> push_bit 6 (drop_bit 6 (b AND 0xc0)) + (b AND 0x3f) = b) (word_of_nat n)"
    by code_simp
  from word_all_below [OF this] show ?thesis .
qed

text \<open>A sextet made of two parts, cut again.\<close>

lemma word_of_nat_unat_self: "word_of_nat (unat x) = x"
  by simp

lemma sextet_parts:
  "x < 4 \<Longrightarrow> y < 16 \<Longrightarrow> push_bit 4 x + y < (64 :: u8) \<and> drop_bit 4 ((push_bit 4 x + y) AND 0x30) = x
      \<and> (push_bit 4 x + y) AND 0xf = y"
  "x < 4 \<Longrightarrow> y < 16 \<Longrightarrow> push_bit 2 y + x < (64 :: u8) \<and> drop_bit 2 ((push_bit 2 y + x) AND 0x3c) = y
      \<and> (push_bit 2 y + x) AND 0x3 = x"
proof -
  have *: "\<forall>m \<in> set [0..<4]. \<forall>n \<in> set [0..<16]. (\<lambda>x y :: u8.
        (push_bit 4 x + y < 64 \<and> drop_bit 4 ((push_bit 4 x + y) AND 0x30) = x
      \<and> (push_bit 4 x + y) AND 0xf = y)
      \<and> (push_bit 2 y + x < 64 \<and> drop_bit 2 ((push_bit 2 y + x) AND 0x3c) = y
      \<and> (push_bit 2 y + x) AND 0x3 = x)) (word_of_nat m) (word_of_nat n)"
    by code_simp
  assume "x < 4" "y < 16"
  then have "unat x \<in> set [0..<4]" "unat y \<in> set [0..<16]"
    by (simp_all add: word_less_nat_alt)
  from bspec [OF bspec [OF * this(1)] this(2)]
  show "push_bit 4 x + y < (64 :: u8) \<and> drop_bit 4 ((push_bit 4 x + y) AND 0x30) = x
      \<and> (push_bit 4 x + y) AND 0xf = y"
    and "push_bit 2 y + x < (64 :: u8) \<and> drop_bit 2 ((push_bit 2 y + x) AND 0x3c) = y
      \<and> (push_bit 2 y + x) AND 0x3 = x"
    unfolding word_of_nat_unat_self by blast+
qed

subsection \<open>RFC 4648\<close>

text \<open>Three octets are a number below \<open>2 ^ 24\<close>, written with four digits to the base 64.\<close>

definition digits64 :: "nat \<Rightarrow> bytes" where
  "digits64 n = map (\<lambda>d. base64_chars ! d) [n div 262144 mod 64, n div 4096 mod 64, n div 64 mod 64, n mod 64]"

definition triple :: "u8 \<Rightarrow> u8 \<Rightarrow> u8 \<Rightarrow> nat" where
  "triple a b c = unat a * 65536 + unat b * 256 + unat c"

fun rfc4648 :: "bytes \<Rightarrow> bytes" where
  "rfc4648 [] = []"
| "rfc4648 [a] = take 2 (digits64 (triple a 0 0)) @ [61, 61]"
| "rfc4648 [a, b] = take 3 (digits64 (triple a b 0)) @ [61]"
| "rfc4648 (a # b # c # rest) = digits64 (triple a b c) @ rfc4648 rest"

lemma octet_numbers:
  "unat (drop_bit 2 (b AND 0xfc)) = unat (b :: u8) div 4 \<and> unat (b AND 0x03) = unat b mod 4
   \<and> unat (drop_bit 4 (b AND 0xf0)) = unat b div 16 \<and> unat (b AND 0x0f) = unat b mod 16
   \<and> unat (drop_bit 6 (b AND 0xc0)) = unat b div 64 \<and> unat (b AND 0x3f) = unat b mod 64"
proof -
  have "\<forall>n \<in> set [0..<2 ^ LENGTH(8)]. (\<lambda>b. unat (drop_bit 2 (b AND 0xfc)) = unat (b :: u8) div 4
   \<and> unat (b AND 0x03) = unat b mod 4
   \<and> unat (drop_bit 4 (b AND 0xf0)) = unat b div 16 \<and> unat (b AND 0x0f) = unat b mod 16
   \<and> unat (drop_bit 6 (b AND 0xc0)) = unat b div 64 \<and> unat (b AND 0x3f) = unat b mod 64) (word_of_nat n)"
    by code_simp
  from word_all_below [OF this] show ?thesis .
qed

lemma sextet_numbers:
  assumes "x < 4" and "y < (16 :: u8)"
  shows "unat (push_bit 4 x + y) = unat x * 16 + unat y" and "unat (push_bit 2 y + x) = unat y * 4 + unat x"
  using assms by (simp_all add: push_bit_eq_mult unat_word_ariths word_less_nat_alt)

lemma digits4:
  assumes "w < 64" "x < 64" "y < 64" "z < (64 :: nat)"
  shows "(((w * 64 + x) * 64 + y) * 64 + z) div 262144 mod 64 = w"
    and "(((w * 64 + x) * 64 + y) * 64 + z) div 4096 mod 64 = x"
    and "(((w * 64 + x) * 64 + y) * 64 + z) div 64 mod 64 = y"
    and "(((w * 64 + x) * 64 + y) * 64 + z) mod 64 = z"
proof -
  let ?n = "((w * 64 + x) * 64 + y) * 64 + z"
  have d: "?n div 64 = (w * 64 + x) * 64 + y" "?n div 64 div 64 = w * 64 + x" "?n div 64 div 64 div 64 = w"
    using assms by (simp_all only: div_digit)
  moreover have "?n div 4096 = ?n div 64 div 64" "?n div 262144 = ?n div 64 div 64 div 64"
    using div_mult2_eq [of ?n 64 64] div_mult2_eq [of ?n 4096 64] by simp_all
  ultimately show "?n div 262144 mod 64 = w" "?n div 4096 mod 64 = x" "?n div 64 mod 64 = y" "?n mod 64 = z"
    using assms by (simp_all only: mod_digit mod_less)
qed

lemma regroup:
  "a = p * 4 + q \<Longrightarrow> b = r * 16 + s \<Longrightarrow> c = t * 64 + u \<Longrightarrow>
     a * 65536 + b * 256 + c = ((p * 64 + (q * 16 + r)) * 64 + (s * 4 + t)) * 64 + (u :: nat)"
  by simp

lemma encode_sextets: "map encode_char (to_sextets a b c) = digits64 (triple a b c)"
proof -
  note n = octet_numbers [of a] octet_numbers [of b] octet_numbers [of c]
  define w x y z where "w = unat a div 4" and "x = unat a mod 4 * 16 + unat b div 16"
    and "y = unat b mod 16 * 4 + unat c div 64" and "z = unat c mod 64"
  have "unat a < 256" "unat b < 256" "unat c < 256"
    using unsigned_less [of a] unsigned_less [of b] unsigned_less [of c] by simp_all
  then have lt: "w < 64" "x < 64" "y < 64" "z < 64"
    unfolding w_def x_def y_def z_def by auto
  have "triple a b c = ((w * 64 + x) * 64 + y) * 64 + z"
    unfolding triple_def w_def x_def y_def z_def
    by (rule regroup) (simp_all only: div_mult_mod_eq)
  note d = digits4 [OF lt, folded this, unfolded w_def x_def y_def z_def]
  have p: "unat (push_bit 4 (a AND 0x03) + drop_bit 4 (b AND 0xf0)) = unat a mod 4 * 16 + unat b div 16"
    "unat (push_bit 2 (b AND 0x0f) + drop_bit 6 (c AND 0xc0)) = unat b mod 16 * 4 + unat c div 64"
    using n octet_parts [of a] octet_parts [of b] octet_parts [of c] by (simp_all only: sextet_numbers)
  show ?thesis
    unfolding digits64_def d to_sextets_def encode_char_def list.map p using n by simp
qed

definition encode_rest :: "bytes \<times> bytes \<Rightarrow> bytes" where
  "encode_rest s = (let (char_array_3, ret) = s;
          i = length char_array_3
      in if i \<noteq> 0 then
           let char_array_3 = char_array_3 @ replicate (3 - i) 0;
               char_array_4 = to_sextets (char_array_3 ! 0) (char_array_3 ! 1) (char_array_3 ! 2)
           in ret @ map encode_char (take (i + 1) char_array_4) @ replicate (3 - i) 61
         else ret)"

lemma encode_from: "encode_rest (encode_loop input [] ret) = ret @ rfc4648 input"
proof (induction input arbitrary: ret rule: rfc4648.induct)
  case (2 a)
  have "take 2 (digits64 (triple a 0 0)) = map encode_char (take 2 (to_sextets a 0 0))"
    by (simp only: encode_sextets [symmetric] take_map)
  then show ?case by (simp add: encode_rest_def numeral_2_eq_2)
next
  case (3 a b)
  have "take 3 (digits64 (triple a b 0)) = map encode_char (take 3 (to_sextets a b 0))"
    by (simp only: encode_sextets [symmetric] take_map)
  then show ?case by (simp add: encode_rest_def numeral_3_eq_3)
qed (simp_all add: encode_rest_def encode_sextets numeral_3_eq_3)

lemma encode_rfc: "base64_encode input = rfc4648 input"
  using encode_from [of input "[]"] by (simp add: base64_encode_def encode_rest_def)

lemma sextets_back:
  "from_sextets (to_sextets a b c ! 0) (to_sextets a b c ! 1) (to_sextets a b c ! 2) (to_sextets a b c ! 3) = [a, b, c]
   \<and> (\<forall>v \<in> set (to_sextets a b c). v < 64)"
  using octet_parts [of a] octet_parts [of b] octet_parts [of c]
    sextet_parts(1) [of "a AND 0x03" "drop_bit 4 (b AND 0xf0)"]
    sextet_parts(2) [of "drop_bit 6 (c AND 0xc0)" "b AND 0x0f"]
  by (simp add: from_sextets_def to_sextets_def)

subsection \<open>Decoding\<close>

definition decode_rest :: "bytes \<times> bytes \<Rightarrow> bytes" where
  "decode_rest s = (let (char_array_4, ret) = s;
          i = length char_array_4
      in if i \<noteq> 0 then
           let v = map find_char (char_array_4 @ replicate (4 - i) 0)
           in ret @ take (i - 1) (from_sextets (v ! 0) (v ! 1) (v ! 2) (v ! 3))
         else ret)"

lemma base64_decode_rest: "base64_decode input = decode_rest (decode_loop input [] [])"
  by (simp add: base64_decode_def decode_rest_def)

text \<open>Reading characters that encode sextets, fewer than four or exactly four.\<close>

lemma decode_loop_collect:
  assumes "\<forall>v \<in> set vs. v < 64" and "length vs < 4"
  shows "decode_loop (map encode_char vs @ rest) [] ret = decode_loop rest (map encode_char vs) ret"
proof -
  have "length arr + length vs < 4 \<Longrightarrow> \<forall>v \<in> set vs. v < 64 \<Longrightarrow>
      decode_loop (map encode_char vs @ rest) arr ret = decode_loop rest (arr @ map encode_char vs) ret" for arr
    by (induction vs arbitrary: arr) (simp_all add: find_encode Let_def)
  from this [of "[]"] assms show ?thesis by simp
qed

lemma decode_loop_quad:
  assumes "\<forall>v \<in> set [v0, v1, v2, v3]. v < 64"
  shows "decode_loop (map encode_char [v0, v1, v2, v3] @ rest) [] ret
       = decode_loop rest [] (ret @ from_sextets v0 v1 v2 v3)"
  using decode_loop_collect [of "[v0, v1, v2]" "encode_char v3 # rest" ret] assms
  by (simp add: find_encode Let_def)

lemma sextets_list: "\<exists>v0 v1 v2 v3. to_sextets a b c = [v0, v1, v2, v3] \<and> v0 < 64 \<and> v1 < 64 \<and> v2 < 64 \<and> v3 < 64
    \<and> from_sextets v0 v1 v2 v3 = [a, b, c]"
  using sextets_back [of a b c] by (simp add: to_sextets_def)

lemma from_sextets_head:
  "take 1 (from_sextets v0 v1 v2 v3) = take 1 (from_sextets v0 v1 w2 w3)"
  "take 2 (from_sextets v0 v1 v2 v3) = take 2 (from_sextets v0 v1 v2 w3)"
  by (simp_all add: from_sextets_def)

lemma base64_decode_encoded: "decode_rest (decode_loop (rfc4648 xs) [] ret) = ret @ xs"
proof (induction xs arbitrary: ret rule: rfc4648.induct)
  case 1
  show ?case by (simp add: decode_rest_def)
next
  case (2 a)
  obtain v0 v1 v2 v3 where v: "to_sextets a 0 0 = [v0, v1, v2, v3]" "v0 < 64" "v1 < 64"
    "from_sextets v0 v1 v2 v3 = [a, 0, 0]" using sextets_list by blast
  have "rfc4648 [a] = map encode_char [v0, v1] @ [61, 61]"
    by (simp add: encode_sextets [symmetric] v)
  then show ?case
    using decode_loop_collect [of "[v0, v1]" "[61, 61]" ret] v from_sextets_head(1) [of v0 v1 v2 v3]
    by (simp add: decode_rest_def find_encode numeral_2_eq_2)
next
  case (3 a b)
  obtain v0 v1 v2 v3 where v: "to_sextets a b 0 = [v0, v1, v2, v3]" "v0 < 64" "v1 < 64" "v2 < 64"
    "from_sextets v0 v1 v2 v3 = [a, b, 0]" using sextets_list by blast
  have "rfc4648 [a, b] = map encode_char [v0, v1, v2] @ [61]"
    by (simp add: encode_sextets [symmetric] v numeral_3_eq_3)
  then show ?case
    using decode_loop_collect [of "[v0, v1, v2]" "[61]" ret] v from_sextets_head(2) [of v0 v1 v2 v3]
    by (simp add: decode_rest_def find_encode numeral_3_eq_3 numeral_2_eq_2)
next
  case (4 a b c rest)
  obtain v0 v1 v2 v3 where v: "to_sextets a b c = [v0, v1, v2, v3]" "v0 < 64" "v1 < 64" "v2 < 64" "v3 < 64"
    "from_sextets v0 v1 v2 v3 = [a, b, c]" using sextets_list by blast
  have "rfc4648 (a # b # c # rest) = map encode_char [v0, v1, v2, v3] @ rfc4648 rest"
    by (simp only: rfc4648.simps encode_sextets [symmetric] v)
  then show ?case
    using decode_loop_quad [of v0 v1 v2 v3 "rfc4648 rest" ret] v 4 by simp
qed

lemma rfc4648_chars: "length (rfc4648 xs) = 4 * ((length xs + 2) div 3)
     \<and> (\<forall>c \<in> set (rfc4648 xs). c \<in> set base64_chars \<or> c = 61)"
proof (induction xs rule: rfc4648.induct)
  case (4 a b c rest)
  have "(length (a # b # c # rest) + 2) div 3 = (length rest + 2) div 3 + 1"
    using div_add_self2 [of 3 "length rest + 2"] by simp
  with 4 show ?case by (auto simp: digits64_def length_chars)
qed (auto simp: digits64_def length_chars dest: in_set_takeD)

subsection \<open>Properties\<close>

text \<open>The encoder is the Base64 of RFC 4648: each three octets become the four digits to the base
  64 of the number they form, one or two left-over octets are padded with zeros and the missing digits
  replaced by \<open>=\<close>; so the length is four thirds, rounded up to a multiple of four.\<close>
theorem base64_encode_correct:
  "base64_encode input = rfc4648 input \<and> length (base64_encode input) = 4 * ((length input + 2) div 3)"
  using rfc4648_chars [of input] by (simp add: encode_rfc)

text \<open>Decoding an encoded string gives the octets back, for every input and every length.\<close>
theorem base64_roundtrip: "base64_decode (base64_encode input) = input"
  using base64_decode_encoded [of input "[]"] by (simp add: base64_decode_rest encode_rfc)

text \<open>The decoder reads up to the first padding sign or character outside the alphabet and
  ignores everything after it: garbage is never reported.\<close>
theorem base64_decode_stops:
  assumes "c = 61 \<or> \<not> is_base64 c"
  shows "base64_decode (xs @ c # ys) = base64_decode xs"
proof -
  have "decode_loop (xs @ c # ys) arr ret = decode_loop xs arr ret" for arr ret
    by (induction xs arbitrary: arr ret) (use assms in \<open>auto simp: Let_def\<close>)
  then show ?thesis by (simp add: base64_decode_rest)
qed

theorem base64_decode_stops_witness:
  "base64_decode ([81, 81] @ 33 # [81, 81]) = base64_decode [81, 81]"
  by (rule base64_decode_stops) (simp add: is_base64_def)

end
