(* ===== verification/WsUtf8.thy ===== *)
theory WsUtf8 imports Prelude begin

text \<open>
  The streaming UTF-8 validator \<open>websocketpp/utf8_validator.hpp\<close>: its table, the decoder step, the
  validator object, and its equivalence with the encoding of Unicode scalar values.
\<close>

subsection \<open>The code\<close>

definition utf8_accept :: u32 where "utf8_accept = 0"
definition utf8_reject :: u32 where "utf8_reject = 1"

definition utf8d :: "u8 list" where
  "utf8d =
  [0,0,0,0,0,0,0,0,0,0,0,0,0,0,0,0,0,0,0,0,0,0,0,0,0,0,0,0,0,0,0,0,
   0,0,0,0,0,0,0,0,0,0,0,0,0,0,0,0,0,0,0,0,0,0,0,0,0,0,0,0,0,0,0,0,
   0,0,0,0,0,0,0,0,0,0,0,0,0,0,0,0,0,0,0,0,0,0,0,0,0,0,0,0,0,0,0,0,
   0,0,0,0,0,0,0,0,0,0,0,0,0,0,0,0,0,0,0,0,0,0,0,0,0,0,0,0,0,0,0,0,
   1,1,1,1,1,1,1,1,1,1,1,1,1,1,1,1,9,9,9,9,9,9,9,9,9,9,9,9,9,9,9,9,
   7,7,7,7,7,7,7,7,7,7,7,7,7,7,7,7,7,7,7,7,7,7,7,7,7,7,7,7,7,7,7,7,
   8,8,2,2,2,2,2,2,2,2,2,2,2,2,2,2,2,2,2,2,2,2,2,2,2,2,2,2,2,2,2,2,
   0xA,0x3,0x3,0x3,0x3,0x3,0x3,0x3,0x3,0x3,0x3,0x3,0x3,0x4,0x3,0x3,
   0xB,0x6,0x6,0x6,0x5,0x8,0x8,0x8,0x8,0x8,0x8,0x8,0x8,0x8,0x8,0x8,
   0x0,0x1,0x2,0x3,0x5,0x8,0x7,0x1,0x1,0x1,0x4,0x6,0x1,0x1,0x1,0x1,
   1,1,1,1,1,1,1,1,1,1,1,1,1,1,1,1,1,0,1,1,1,1,1,0,1,0,1,1,1,1,1,1,
   1,2,1,1,1,1,1,2,1,2,1,1,1,1,1,1,1,1,1,1,1,1,1,2,1,1,1,1,1,1,1,1,
   1,2,1,1,1,1,1,1,1,2,1,1,1,1,1,1,1,1,1,1,1,1,1,3,1,3,1,1,1,1,1,1,
   1,3,1,1,1,1,1,3,1,3,1,1,1,1,1,1,1,3,1,1,1,1,1,1,1,1,1,1,1,1,1,1]"

text \<open>\<open>decode (state, codep, byte)\<close>: the advanced state, which is also returned, and the code point.\<close>

definition decode :: "u32 \<Rightarrow> u32 \<Rightarrow> u8 \<Rightarrow> u32 \<times> u32" where
  "decode state codep byte =
     (let typ = ucast (utf8d ! unat byte) :: u32;
          codep = (if state \<noteq> utf8_accept then (ucast byte AND 0x3f) OR push_bit 6 codep
                   else drop_bit (unat typ) 0xff AND ucast byte);
          state = ucast (utf8d ! unat (256 + state * 16 + typ))
      in (state, codep))"

record validator =
  m_state :: u32
  m_codepoint :: u32

definition validator_new :: validator where
  "validator_new = \<lparr>m_state = utf8_accept, m_codepoint = 0\<rparr>"

definition validator_consume :: "u8 \<Rightarrow> validator \<Rightarrow> bool \<times> validator" where
  "validator_consume byte v =
     (let (state, codep) = decode (m_state v) (m_codepoint v) byte;
          v = v\<lparr>m_state := state, m_codepoint := codep\<rparr>
      in if state = utf8_reject then (False, v) else (True, v))"

fun validator_decode :: "bytes \<Rightarrow> validator \<Rightarrow> bool \<times> validator" where
  "validator_decode [] v = (True, v)"
| "validator_decode (byte # rest) v =
     (let (result, codep) = decode (m_state v) (m_codepoint v) byte;
          v = v\<lparr>m_state := result, m_codepoint := codep\<rparr>
      in if result = utf8_reject then (False, v) else validator_decode rest v)"

definition validator_complete :: "validator \<Rightarrow> bool" where
  "validator_complete v \<longleftrightarrow> m_state v = utf8_accept"

definition validator_reset :: "validator \<Rightarrow> validator" where
  "validator_reset v = v\<lparr>m_state := utf8_accept, m_codepoint := 0\<rparr>"

definition validate :: "bytes \<Rightarrow> bool" where
  "validate s =
     (let (ok, v) = validator_decode s validator_new
      in if \<not> ok then False else validator_complete v)"

subsection \<open>UTF-8\<close>

text \<open>The Unicode scalar values and their encoding.\<close>

definition scalar :: "nat \<Rightarrow> bool" where
  "scalar c \<longleftrightarrow> c < 0xD800 \<or> 0xE000 \<le> c \<and> c < 0x110000"

definition utf8_encode_nat :: "nat \<Rightarrow> nat list" where
  "utf8_encode_nat c =
     (if c < 0x80 then [c]
      else if c < 0x800 then [0xC0 + c div 64, 0x80 + c mod 64]
      else if c < 0x10000 then [0xE0 + c div 4096, 0x80 + c div 64 mod 64, 0x80 + c mod 64]
      else [0xF0 + c div 262144, 0x80 + c div 4096 mod 64, 0x80 + c div 64 mod 64, 0x80 + c mod 64])"

definition utf8_encode :: "nat \<Rightarrow> bytes" where
  "utf8_encode c = map word_of_nat (utf8_encode_nat c)"

subsection \<open>The table by cases\<close>

text \<open>The nine states by what they still expect, and the code point a first byte starts with.\<close>

definition state_next :: "nat \<Rightarrow> nat \<Rightarrow> nat" where
  "state_next st b =
     (if st = 0 then
        (if b < 0x80 then 0 else if 0xC2 \<le> b \<and> b \<le> 0xDF then 2 else if b = 0xE0 then 4
         else if b = 0xED then 5 else if 0xE1 \<le> b \<and> b \<le> 0xEF then 3 else if b = 0xF0 then 6
         else if 0xF1 \<le> b \<and> b \<le> 0xF3 then 7 else if b = 0xF4 then 8 else 1)
      else if st = 2 \<and> 0x80 \<le> b \<and> b \<le> 0xBF then 0
      else if st = 3 \<and> 0x80 \<le> b \<and> b \<le> 0xBF then 2
      else if st = 4 \<and> 0xA0 \<le> b \<and> b \<le> 0xBF then 2
      else if st = 5 \<and> 0x80 \<le> b \<and> b \<le> 0x9F then 2
      else if st = 6 \<and> 0x90 \<le> b \<and> b \<le> 0xBF then 3
      else if st = 7 \<and> 0x80 \<le> b \<and> b \<le> 0xBF then 3
      else if st = 8 \<and> 0x80 \<le> b \<and> b \<le> 0x8F then 3
      else 1)"

definition first_bits :: "nat \<Rightarrow> nat" where
  "first_bits b = (if b < 0x80 then b else if b < 0xE0 then b - 0xC0 else if b < 0xF0 then b - 0xE0 else b - 0xF0)"

text \<open>The class of a byte and the transition on a class, the two halves of the table.\<close>

definition byte_class :: "nat \<Rightarrow> nat" where
  "byte_class b =
     (if b < 0x80 then 0 else if b < 0x90 then 1 else if b < 0xA0 then 9 else if b < 0xC0 then 7
      else if b < 0xC2 then 8 else if b < 0xE0 then 2 else if b = 0xE0 then 10 else if b = 0xED then 4
      else if b < 0xF0 then 3 else if b = 0xF0 then 11 else if b < 0xF4 then 6 else if b = 0xF4 then 5
      else 8)"

definition class_next :: "nat \<Rightarrow> nat \<Rightarrow> nat" where
  "class_next st c =
     (if st = 0 then [0, 1, 2, 3, 5, 8, 7, 1, 1, 1, 4, 6] ! c
      else if c = 1 \<or> c = 7 \<or> c = 9 then
        (if st = 2 then 0 else if st = 3 then 2
         else if st = 4 \<and> c = 7 then 2 else if st = 5 \<and> c \<noteq> 7 then 2
         else if st = 6 \<and> c \<noteq> 1 then 3 else if st = 7 then 3 else if st = 8 \<and> c = 1 then 3 else 1)
      else 1)"

lemma byte_classes: "take 256 utf8d = map (\<lambda>b. word_of_nat (byte_class b)) [0..<256]"
  by code_simp

lemma class_rows: "drop 256 utf8d = concat (map (\<lambda>st. map (\<lambda>c. word_of_nat
    (if c < 12 then class_next st c else 1)) [0..<16]) [0..<9])"
  by code_simp

lemma nth_concat_rows:
  assumes "\<And>i. i < n \<Longrightarrow> length (g i) = k" and "i < n" and "c < k"
  shows "concat (map g [0..<n]) ! (i * k + c) = g i ! c"
  using assms
proof (induction n)
  case (Suc n)
  have len: "length (concat (map g [0..<n])) = n * k"
    using Suc.prems(1) by (induction n) simp_all
  show ?case
  proof (cases "i < n")
    case True
    have "i * k + c < Suc i * k" using Suc.prems by simp
    also have "\<dots> \<le> n * k" using True by (intro mult_le_mono1) simp
    finally show ?thesis using True Suc by (simp add: nth_append len)
  next
    case False
    then have "i = n" using Suc.prems by simp
    then show ?thesis using Suc.prems by (simp add: nth_append len)
  qed
qed simp

lemma table_class: "b < 256 \<Longrightarrow> utf8d ! b = word_of_nat (byte_class b)"
proof -
  assume b: "b < 256"
  then have "utf8d ! b = take 256 utf8d ! b" by simp
  also have "\<dots> = word_of_nat (byte_class b)" unfolding byte_classes using b by simp
  finally show ?thesis .
qed

lemma table_row:
  assumes "st < 9" and "c < 12"
  shows "utf8d ! (256 + st * 16 + c) = word_of_nat (class_next st c)"
proof -
  have "length (drop 256 utf8d) = 144" by (simp add: class_rows length_concat comp_def sum_list_triv)
  then have "utf8d ! (256 + (st * 16 + c)) = drop 256 utf8d ! (st * 16 + c)"
    by (intro nth_drop [symmetric]) simp
  also have "\<dots> = word_of_nat (class_next st c)"
    unfolding class_rows using assms by (subst nth_concat_rows) simp_all
  finally show ?thesis by (simp add: add.assoc)
qed

lemma class_next_first: "b < 256 \<Longrightarrow> class_next 0 (byte_class b) = state_next 0 b"
  by (simp add: class_next_def byte_class_def state_next_def)

lemma class_next_later: "b < 256 \<Longrightarrow> st \<noteq> 0 \<Longrightarrow> class_next st (byte_class b) = state_next st b"
  unfolding byte_class_def by (simp add: class_next_def state_next_def)

lemma class_next_byte: "b < 256 \<Longrightarrow> class_next st (byte_class b) = state_next st b"
  using class_next_first class_next_later by (cases "st = 0") simp_all

lemma state_next_lt: "state_next st b < 9"
  by (simp add: state_next_def)

lemma byte_class_lt: "byte_class b < 12"
  by (simp add: byte_class_def)

lemma byte_nat [simp]: "unat (b :: u8) < 256"
  using unsigned_less [of b] by simp

lemma word_of_nat_unat: "(word_of_nat (unat (b :: 'a::len word)) :: 'b::len word) = ucast b"
  by simp

lemma decode_next:
  assumes "unat st < 9"
  shows "unat (fst (decode st cp b)) = state_next (unat st) (unat b)"
    and "unat (fst (decode st cp b)) < 9"
proof -
  let ?c = "byte_class (unat b)" and ?n = "class_next (unat st) (byte_class (unat b))"
  have n: "?n = state_next (unat st) (unat b)" "?n < 9"
    using class_next_byte [OF byte_nat, of "unat st" b] state_next_lt [of "unat st" "unat b"] by simp_all
  have cls: "unat (ucast (utf8d ! unat b) :: u32) = ?c"
    using byte_class_lt [of "unat b"] by (simp add: table_class unat_of_nat take_bit_nat_eq_self
        unsigned_ucast_eq unsigned_take_bit_eq)
  have "unat (256 + st * 16 + ucast (utf8d ! unat b) :: u32) = 256 + unat st * 16 + ?c"
    using assms byte_class_lt [of "unat b"] cls by (simp add: unat_word_ariths)
  then have "fst (decode st cp b) = ucast (word_of_nat ?n :: u8)"
    using table_row [OF assms byte_class_lt] by (simp add: decode_def Let_def)
  then have "unat (fst (decode st cp b)) = ?n"
    using n(2) by (simp add: unat_of_nat take_bit_nat_eq_self unsigned_ucast_eq unsigned_take_bit_eq)
  with n show "unat (fst (decode st cp b)) = state_next (unat st) (unat b)"
    "unat (fst (decode st cp b)) < 9" by simp_all
qed

lemma first_bits_table: "\<forall>b \<in> set [0..<256]. state_next 0 b \<noteq> 1 \<longrightarrow>
    unat (drop_bit (byte_class b) 0xff AND word_of_nat b :: u32) = first_bits b"
  by code_simp

lemma decode_first:
  assumes "state_next 0 (unat b) \<noteq> 1"
  shows "unat (snd (decode 0 cp b)) = first_bits (unat b)"
proof -
  have "unat (ucast (utf8d ! unat b) :: u32) = byte_class (unat b)"
    using byte_class_lt [of "unat b"] by (simp add: table_class unat_of_nat take_bit_nat_eq_self
        unsigned_ucast_eq unsigned_take_bit_eq)
  moreover note word_of_nat_unat [of b, where 'b = 32, symmetric]
  moreover have "unat (drop_bit (byte_class (unat b)) 0xff AND word_of_nat (unat b) :: u32) = first_bits (unat b)"
  proof -
    have "unat b \<in> set [0..<256]" unfolding set_upt atLeastLessThan_iff using byte_nat [of b] by blast
    from bspec [OF first_bits_table this] assms show ?thesis by blast
  qed
  ultimately show ?thesis by (simp only: decode_def Let_def utf8_accept_def if_not_P snd_conv simp_thms if_False)
qed

lemma cont_bits_table: "\<forall>b \<in> set [0x80..<0xC0]. unat (word_of_nat b AND 0x3f :: u32) = b - 0x80"
  by code_simp

lemma decode_cont:
  assumes "st \<noteq> 0" and "0x80 \<le> unat b" and "unat b < 0xC0" and "unat cp < 2 ^ 26"
  shows "unat (snd (decode st cp b)) = unat cp * 64 + (unat b - 0x80)"
proof -
  have x: "unat (ucast b AND 0x3f :: u32) = unat b - 0x80"
  proof -
    have "unat b \<in> set [0x80..<0xC0]" unfolding set_upt atLeastLessThan_iff using assms(2,3) by blast
    from bspec [OF cont_bits_table this] show ?thesis by (simp only: word_of_nat_unat)
  qed
  have "(ucast b AND 0x3f :: u32) OR push_bit 6 cp = (ucast b AND 0x3f) + push_bit 6 cp"
  proof (rule disjunctive_add [symmetric])
    fix n
    have "\<not> bit (0x3f :: u32) n" if "6 \<le> n"
    proof -
      have "(0x3f :: u32) = mask 6" by (simp add: mask_eq_exp_minus_1)
      then show ?thesis using that by (simp only: bit_mask_iff) simp
    qed
    then show "\<not> bit (ucast b AND 0x3f :: u32) n \<or> \<not> bit (push_bit 6 cp) n"
      by (auto simp: bit_and_iff bit_push_bit_iff)
  qed
  moreover have "unat (push_bit 6 cp) = unat cp * 64"
    using assms(4) by (simp add: push_bit_eq_mult unat_word_ariths)
  ultimately show ?thesis
    using assms x by (simp add: decode_def Let_def utf8_accept_def unat_word_ariths)
qed

subsection \<open>Runs of the automaton\<close>

definition utf8_run :: "nat \<Rightarrow> nat list \<Rightarrow> nat" where
  "utf8_run st ns = foldl state_next st ns"

lemma utf8_run_simps [simp]:
  "utf8_run st [] = st" "utf8_run st (b # ns) = utf8_run (state_next st b) ns"
  by (simp_all add: utf8_run_def)

lemma utf8_run_append: "utf8_run st (ns @ ms) = utf8_run (utf8_run st ns) ms"
  by (simp add: utf8_run_def)

lemma utf8_run_reject [simp]: "utf8_run (Suc 0) ns = 1"
  by (induction ns) (simp_all add: state_next_def)

lemma validator_decode_run:
  assumes "unat (m_state v) < 9" and "unat (m_state v) \<noteq> 1"
  shows "fst (validator_decode s v) \<longleftrightarrow> utf8_run (unat (m_state v)) (map unat s) \<noteq> 1"
    and "unat (m_state (snd (validator_decode s v))) = utf8_run (unat (m_state v)) (map unat s)"
proof -
  have "(fst (validator_decode s v) \<longleftrightarrow> utf8_run (unat (m_state v)) (map unat s) \<noteq> 1)
      \<and> unat (m_state (snd (validator_decode s v))) = utf8_run (unat (m_state v)) (map unat s)"
    using assms
  proof (induction s arbitrary: v)
    case (Cons b s)
    let ?v = "v\<lparr>m_state := fst (decode (m_state v) (m_codepoint v) b),
                m_codepoint := snd (decode (m_state v) (m_codepoint v) b)\<rparr>"
    note nxt = decode_next [OF Cons.prems(1), of "m_codepoint v" b]
    have reject: "fst (decode (m_state v) (m_codepoint v) b) = utf8_reject
        \<longleftrightarrow> state_next (unat (m_state v)) (unat b) = 1"
      using nxt(1) by (simp add: utf8_reject_def word_unat_eq_iff)
    show ?case
    proof (cases "state_next (unat (m_state v)) (unat b) = 1")
      case True
      then show ?thesis using reject nxt(1) by (simp add: case_prod_beta Let_def)
    next
      case False
      have "unat (m_state ?v) < 9" "unat (m_state ?v) \<noteq> 1" using nxt False by simp_all
      from Cons.IH [OF this] show ?thesis
        using reject False nxt(1) by (simp add: case_prod_beta Let_def)
    qed
  qed simp
  then show "fst (validator_decode s v) \<longleftrightarrow> utf8_run (unat (m_state v)) (map unat s) \<noteq> 1"
    and "unat (m_state (snd (validator_decode s v))) = utf8_run (unat (m_state v)) (map unat s)"
    by simp_all
qed

lemma validate_run: "validate s \<longleftrightarrow> utf8_run 0 (map unat s) = 0"
  using validator_decode_run [of validator_new s]
  by (auto simp: validate_def validator_new_def utf8_accept_def validator_complete_def
      case_prod_beta word_unat_eq_iff)

text \<open>What a run that ends in the accepting state must read next, state by state.\<close>

lemma run_needs:
  assumes "utf8_run st ns = 0" and "st \<noteq> 0"
  shows "\<exists>x ms. ns = x # ms \<and> state_next st x \<noteq> 1 \<and> utf8_run (state_next st x) ms = 0"
  using assms by (cases ns) (auto intro: ccontr)

lemma run_cont: "utf8_run 2 ns = 0 \<Longrightarrow> \<exists>q < 64. \<exists>ms. ns = (0x80 + q) # ms \<and> utf8_run 0 ms = 0"
proof -
  assume "utf8_run 2 ns = 0"
  then obtain x ms where x: "ns = x # ms" "state_next 2 x \<noteq> 1" "utf8_run (state_next 2 x) ms = 0"
    using run_needs by (metis zero_neq_numeral)
  then have "0x80 \<le> x \<and> x \<le> 0xBF \<and> utf8_run 0 ms = 0" by (auto simp: state_next_def split: if_splits)
  then show ?thesis using x(1) by (intro exI [of _ "x - 0x80"] exI [of _ ms]) auto
qed

lemma run_cont2:
  assumes "utf8_run st ns = 0" and "st \<in> {3, 4, 5}"
  shows "\<exists>q < 64. \<exists>r < 64. \<exists>ms. ns = (0x80 + q) # (0x80 + r) # ms \<and> utf8_run 0 ms = 0
     \<and> (st = 4 \<longrightarrow> 32 \<le> q) \<and> (st = 5 \<longrightarrow> q < 32)"
proof -
  obtain x ms where x: "ns = x # ms" "state_next st x \<noteq> 1" "utf8_run (state_next st x) ms = 0"
    using run_needs assms by (metis empty_iff insert_iff zero_neq_numeral)
  then have "0x80 \<le> x \<and> x \<le> 0xBF \<and> utf8_run 2 ms = 0 \<and> (st = 4 \<longrightarrow> 0xA0 \<le> x) \<and> (st = 5 \<longrightarrow> x \<le> 0x9F)"
    using assms(2) by (auto simp: state_next_def split: if_splits)
  moreover from this obtain r ms' where "r < 64" "ms = (0x80 + r) # ms'" "utf8_run 0 ms' = 0"
    using run_cont by blast
  ultimately show ?thesis
    using x(1) by (intro exI [of _ "x - 0x80"]) auto
qed

lemma run_cont3:
  assumes "utf8_run st ns = 0" and "st \<in> {6, 7, 8}"
  shows "\<exists>q < 64. \<exists>r < 64. \<exists>t < 64. \<exists>ms. ns = (0x80 + q) # (0x80 + r) # (0x80 + t) # ms
     \<and> utf8_run 0 ms = 0 \<and> (st = 6 \<longrightarrow> 16 \<le> q) \<and> (st = 8 \<longrightarrow> q < 16)"
proof -
  obtain x ms where x: "ns = x # ms" "state_next st x \<noteq> 1" "utf8_run (state_next st x) ms = 0"
    using run_needs assms by (metis empty_iff insert_iff zero_neq_numeral)
  then have "0x80 \<le> x \<and> x \<le> 0xBF \<and> utf8_run 3 ms = 0 \<and> (st = 6 \<longrightarrow> 0x90 \<le> x) \<and> (st = 8 \<longrightarrow> x \<le> 0x8F)"
    using assms(2) by (auto simp: state_next_def split: if_splits)
  moreover from this obtain r t ms' where "r < 64" "t < 64" "ms = (0x80 + r) # (0x80 + t) # ms'"
      "utf8_run 0 ms' = 0"
    using run_cont2 [of 3 ms] by blast
  ultimately show ?thesis
    using x(1) by (intro exI [of _ "x - 0x80"]) auto
qed

lemma encode2: "2 \<le> p \<Longrightarrow> p < 32 \<Longrightarrow> q < 64 \<Longrightarrow> utf8_encode_nat (p * 64 + q) = [0xC0 + p, 0x80 + q]"
  by (simp add: utf8_encode_nat_def)

lemma encode3:
  assumes "p < 16" "q < 64" "r < 64" "p = 0 \<longrightarrow> 32 \<le> q"
  shows "utf8_encode_nat (p * 4096 + q * 64 + r) = [0xE0 + p, 0x80 + q, 0x80 + r]"
proof -
  let ?c = "p * 4096 + q * 64 + r"
  have "?c div 4096 = p" using div_digit [of "q * 64 + r" 4096 p] assms by (simp add: add.assoc)
  moreover have "?c = (p * 64 + q) * 64 + r" by simp
  then have "?c div 64 = p * 64 + q" "?c mod 64 = r"
    using div_digit [of r 64 "p * 64 + q"] mod_digit [of r 64 "p * 64 + q"] assms by presburger+
  moreover have "(p * 64 + q) mod 64 = q" using assms by simp
  moreover have "\<not> ?c < 0x800" "?c < 0x10000" using assms by auto
  ultimately show ?thesis by (simp add: utf8_encode_nat_def)
qed

lemma encode4:
  assumes "p < 5" "q < 64" "r < 64" "t < 64" "p = 0 \<longrightarrow> 16 \<le> q"
  shows "utf8_encode_nat (p * 262144 + q * 4096 + r * 64 + t) = [0xF0 + p, 0x80 + q, 0x80 + r, 0x80 + t]"
proof -
  let ?c = "p * 262144 + q * 4096 + r * 64 + t"
  have "?c div 262144 = p"
    using div_digit [of "q * 4096 + r * 64 + t" 262144 p] assms by (simp add: add.assoc)
  moreover have "?c div 4096 = p * 64 + q"
    using div_digit [of "r * 64 + t" 4096 "p * 64 + q"] assms by (simp add: add.assoc)
  moreover have "?c = ((p * 64 + q) * 64 + r) * 64 + t" by simp
  then have "?c div 64 = (p * 64 + q) * 64 + r" "?c mod 64 = t"
    using div_digit [of t 64 "(p * 64 + q) * 64 + r"] mod_digit [of t 64 "(p * 64 + q) * 64 + r"] assms
    by presburger+
  moreover have "(p * 64 + q) mod 64 = q" "((p * 64 + q) * 64 + r) mod 64 = r"
    using assms mod_digit [of r 64 "p * 64 + q"] by (simp_all only: mod_digit)
  moreover have "\<not> ?c < 0x10000" using assms by auto
  ultimately show ?thesis by (simp add: utf8_encode_nat_def)
qed

text \<open>A run that accepts starts with the encoding of a scalar value.\<close>

lemma accepted_first:
  assumes "utf8_run 0 (b # ns) = 0"
  shows "\<exists>c ms. scalar c \<and> b # ns = utf8_encode_nat c @ ms \<and> utf8_run 0 ms = 0"
proof -
  from assms have "state_next 0 b \<noteq> 1" by auto
  then consider "b < 0x80" | "0xC2 \<le> b" "b \<le> 0xDF" | "0xE0 \<le> b" "b \<le> 0xEF" | "0xF0 \<le> b" "b \<le> 0xF4"
    by (auto simp: state_next_def split: if_splits)
  then show ?thesis
  proof cases
    case 1
    with assms show ?thesis
      by (intro exI [of _ b] exI [of _ ns]) (auto simp: scalar_def utf8_encode_nat_def state_next_def)
  next
    case 2
    then have "state_next 0 b = 2" by (simp add: state_next_def)
    then obtain q ms where q: "q < 64" "ns = (0x80 + q) # ms" "utf8_run 0 ms = 0"
      using assms run_cont [of ns] by (simp del: One_nat_def) blast
    with 2 encode2 [of "b - 0xC0" q] show ?thesis
      by (intro exI [of _ "(b - 0xC0) * 64 + q"] exI [of _ ms]) (auto simp: scalar_def)
  next
    case 3
    then have st: "state_next 0 b = (if b = 0xE0 then 4 else if b = 0xED then 5 else 3)"
      by (simp add: state_next_def)
    then obtain q r ms where q: "q < 64" "r < 64" "ns = (0x80 + q) # (0x80 + r) # ms"
        "utf8_run 0 ms = 0" "b = 0xE0 \<longrightarrow> 32 \<le> q" "b = 0xED \<longrightarrow> q < 32"
      using assms run_cont2 [of "state_next 0 b" ns] by (auto split: if_splits)
    from 3 obtain p where p: "b = 0xE0 + p" "p < 16" using that [of "b - 0xE0"] by auto
    have "scalar (p * 4096 + q * 64 + r)"
      using p q by (cases p "13 :: nat" rule: linorder_cases) (auto simp: scalar_def)
    with p q encode3 [of p q r] show ?thesis
      by (intro exI [of _ "p * 4096 + q * 64 + r"] exI [of _ ms]) auto
  next
    case 4
    then have st: "state_next 0 b = (if b = 0xF0 then 6 else if b = 0xF4 then 8 else 7)"
      by (simp add: state_next_def)
    then obtain q r t ms where q: "q < 64" "r < 64" "t < 64"
        "ns = (0x80 + q) # (0x80 + r) # (0x80 + t) # ms"
        "utf8_run 0 ms = 0" "b = 0xF0 \<longrightarrow> 16 \<le> q" "b = 0xF4 \<longrightarrow> q < 16"
      using assms run_cont3 [of "state_next 0 b" ns] by (auto split: if_splits)
    with 4 encode4 [of "b - 0xF0" q r t] show ?thesis
      by (intro exI [of _ "(b - 0xF0) * 262144 + q * 4096 + r * 64 + t"] exI [of _ ms])
         (auto simp: scalar_def)
  qed
qed

lemma accepted_encodes:
  assumes "utf8_run 0 ns = 0"
  shows "\<exists>cs. (\<forall>c \<in> set cs. scalar c) \<and> ns = concat (map utf8_encode_nat cs)"
  using assms
proof (induction "length ns" arbitrary: ns rule: less_induct)
  case less
  show ?case
  proof (cases ns)
    case Nil
    then show ?thesis by (intro exI [of _ "[]"]) simp
  next
    case (Cons b ms)
    obtain c ks where c: "scalar c" "ns = utf8_encode_nat c @ ks" "utf8_run 0 ks = 0"
      using accepted_first less.prems Cons by metis
    then have "length ks < length ns" by (simp add: utf8_encode_nat_def)
    then obtain cs where "\<forall>c \<in> set cs. scalar c" "ks = concat (map utf8_encode_nat cs)"
      using less.hyps c(3) by blast
    with c show ?thesis by (intro exI [of _ "c # cs"]) simp
  qed
qed

subsection \<open>Encodings are accepted\<close>

lemma encode_nat_lt: "c < 0x110000 \<Longrightarrow> b \<in> set (utf8_encode_nat c) \<Longrightarrow> b < 256"
  by (auto simp: utf8_encode_nat_def split: if_splits)

lemma map_unat_encode: "c < 0x110000 \<Longrightarrow> map unat (utf8_encode c) = utf8_encode_nat c"
proof -
  assume c: "c < 0x110000"
  have "map (\<lambda>b. unat (word_of_nat b :: u8)) (utf8_encode_nat c) = map id (utf8_encode_nat c)"
    using encode_nat_lt [OF c] by (intro map_cong refl) (simp add: unat_of_nat take_bit_nat_eq_self)
  then show ?thesis by (simp add: utf8_encode_def comp_def)
qed

text \<open>One decoder step in terms of numbers, from a state that has read a prefix.\<close>

definition at_state :: "nat \<Rightarrow> nat \<Rightarrow> validator \<Rightarrow> bool" where
  "at_state st c v \<longleftrightarrow> unat (m_state v) = st \<and> unat (m_codepoint v) = c"

lemma decode_step_first:
  assumes "m_state v = 0" and "state_next 0 (unat b) \<noteq> 1"
  shows "\<exists>v'. validator_decode (b # s) v = validator_decode s v'
     \<and> at_state (state_next 0 (unat b)) (first_bits (unat b)) v'"
proof -
  let ?v = "v\<lparr>m_state := fst (decode 0 (m_codepoint v) b), m_codepoint := snd (decode 0 (m_codepoint v) b)\<rparr>"
  have n: "unat (fst (decode 0 (m_codepoint v) b)) = state_next 0 (unat b)"
    using decode_next(1) [of 0] by simp
  then have "fst (decode 0 (m_codepoint v) b) \<noteq> utf8_reject"
    using assms(2) by (auto simp: utf8_reject_def)
  then have "validator_decode (b # s) v = validator_decode s ?v"
    using assms(1) by (simp add: case_prod_beta Let_def)
  then show ?thesis
    using n decode_first [OF assms(2)] by (intro exI [of _ ?v]) (simp add: at_state_def)
qed

lemma decode_step_cont:
  assumes "at_state st c v" and "st \<noteq> 0" and "st < 9" and "state_next st (unat b) \<noteq> 1"
    and "0x80 \<le> unat b" and "unat b < 0xC0" and "c < 2 ^ 26"
  shows "\<exists>v'. validator_decode (b # s) v = validator_decode s v'
     \<and> at_state (state_next st (unat b)) (c * 64 + (unat b - 0x80)) v'"
proof -
  let ?d = "decode (m_state v) (m_codepoint v) b"
  let ?v = "v\<lparr>m_state := fst ?d, m_codepoint := snd ?d\<rparr>"
  have n: "unat (fst ?d) = state_next st (unat b)"
    using decode_next(1) assms(1,3) by (simp add: at_state_def)
  then have "fst ?d \<noteq> utf8_reject" using assms(4) by (auto simp: utf8_reject_def)
  then have "validator_decode (b # s) v = validator_decode s ?v"
    by (simp add: case_prod_beta Let_def)
  moreover have "m_state v \<noteq> 0" using assms(1,2) by (auto simp: at_state_def)
  then have "unat (snd ?d) = c * 64 + (unat b - 0x80)"
    using decode_cont assms(1,5-7) by (simp add: at_state_def)
  ultimately show ?thesis using n by (intro exI [of _ ?v]) (simp add: at_state_def)
qed

lemma unat_byte: "n < 256 \<Longrightarrow> unat (word_of_nat n :: u8) = n"
  by (simp add: unat_of_nat take_bit_nat_eq_self)

lemma decode_cont_byte:
  assumes "at_state st c v" and "st \<noteq> 0" "st < 9" and "q < 64" and "state_next st (0x80 + q) \<noteq> 1"
    and "c < 2 ^ 26"
  shows "\<exists>v'. validator_decode (word_of_nat (0x80 + q) # s) v = validator_decode s v'
     \<and> at_state (state_next st (0x80 + q)) (c * 64 + q) v'"
proof -
  have u: "unat (word_of_nat (0x80 + q) :: u8) = 0x80 + q" using assms(4) by (intro unat_byte) simp
  show ?thesis
    using decode_step_cont [OF assms(1-3), of "word_of_nat (0x80 + q)" s] assms(4-6)
    unfolding u by simp
qed

text \<open>Reading the encoding of a scalar value from the accepting state leaves its code point.\<close>

lemma decode_encoded:
  assumes "scalar c" and "m_state v = 0"
  shows "\<exists>v'. validator_decode (utf8_encode c @ s) v = validator_decode s v' \<and> at_state 0 c v'"
proof -
  have lt: "c < 0x110000" using assms(1) by (auto simp: scalar_def)
  have first: "\<exists>v'. validator_decode (word_of_nat n # t) v = validator_decode t v'
      \<and> at_state (state_next 0 n) (first_bits n) v'" if "state_next 0 n \<noteq> 1" "n < 256" for n t
    using decode_step_first [OF assms(2), of "word_of_nat n" t] that(1)
    unfolding unat_byte [OF that(2)] by blast
  consider "c < 0x80" | "0x80 \<le> c" "c < 0x800" | "0x800 \<le> c" "c < 0x10000" | "0x10000 \<le> c" by linarith
  then show ?thesis
  proof cases
    case 1
    then show ?thesis
      using first [of c s] by (simp add: utf8_encode_def utf8_encode_nat_def state_next_def first_bits_def)
  next
    case 2
    define p q where "p = c div 64" and "q = c mod 64"
    have pq: "2 \<le> p" "p < 32" "q < 64" "p * 64 + q = c" using 2 by (auto simp: p_def q_def)
    have enc: "utf8_encode c = [word_of_nat (0xC0 + p), word_of_nat (0x80 + q)]"
      using 2 by (simp add: utf8_encode_def utf8_encode_nat_def p_def q_def del: of_nat_add)
    have st: "state_next 0 (0xC0 + p) = 2" "first_bits (0xC0 + p) = p" "state_next 2 (0x80 + q) = 0"
      using pq by (simp_all add: state_next_def first_bits_def)
    obtain v1 where v1: "validator_decode (utf8_encode c @ s) v
        = validator_decode (word_of_nat (0x80 + q) # s) v1" "at_state 2 p v1"
      using first [of "0xC0 + p" "word_of_nat (0x80 + q) # s"] st pq enc by auto
    show ?thesis
      using decode_cont_byte [OF v1(2), of q s] st pq v1(1) by auto
  next
    case 3
    define p q r where "p = c div 4096" and "q = c div 64 mod 64" and "r = c mod 64"
    have "c div 64 = p * 64 + q" by (simp add: p_def q_def div_mult2_eq [of c 64 64, simplified])
    then have c: "(p * 64 + q) * 64 + r = c" using div_mult_mod_eq [of c 64] by (simp only: r_def)
    have pq: "p < 16" "q < 64" "r < 64" using 3 by (auto simp: p_def q_def r_def)
    have lo: "p = 0 \<Longrightarrow> 32 \<le> q" and hi: "p = 13 \<Longrightarrow> q < 32"
      using 3(1) c pq assms(1) by (auto simp: scalar_def)
    have enc: "utf8_encode c = [word_of_nat (0xE0 + p), word_of_nat (0x80 + q), word_of_nat (0x80 + r)]"
      using 3 by (simp add: utf8_encode_def utf8_encode_nat_def p_def q_def r_def del: of_nat_add)
    define st where "st = state_next 0 (0xE0 + p)"
    have st: "st \<in> {3, 4, 5}" "first_bits (0xE0 + p) = p" "state_next st (0x80 + q) = 2"
        "state_next 2 (0x80 + r) = 0"
      using pq lo hi by (auto simp: state_next_def first_bits_def st_def)
    obtain v1 where v1: "validator_decode (utf8_encode c @ s) v
        = validator_decode (word_of_nat (0x80 + q) # word_of_nat (0x80 + r) # s) v1" "at_state st p v1"
      using first [of "0xE0 + p" "word_of_nat (0x80 + q) # word_of_nat (0x80 + r) # s"] st pq enc
      by (auto simp: st_def)
    obtain v2 where v2: "validator_decode (utf8_encode c @ s) v
        = validator_decode (word_of_nat (0x80 + r) # s) v2" "at_state 2 (p * 64 + q) v2"
      using decode_cont_byte [OF v1(2), of q "word_of_nat (0x80 + r) # s"] st pq v1(1) by auto
    show ?thesis
      using decode_cont_byte [OF v2(2), of r s] st pq v2(1) c by auto
  next
    case 4
    define p q r t where "p = c div 262144" and "q = c div 4096 mod 64" and "r = c div 64 mod 64"
      and "t = c mod 64"
    have "c div 4096 = p * 64 + q" "c div 64 = (c div 4096) * 64 + r"
      by (simp_all add: p_def q_def r_def div_mult2_eq [of c 4096 64, simplified] div_mult2_eq [of c 64 64, simplified])
    then have c: "((p * 64 + q) * 64 + r) * 64 + t = c" using div_mult_mod_eq [of c 64] by (simp only: t_def)
    have pq: "p < 5" "q < 64" "r < 64" "t < 64" using lt by (auto simp: p_def q_def r_def t_def)
    have lo: "p = 0 \<Longrightarrow> 16 \<le> q" and hi: "p < 4 \<or> q < 16"
      using 4 c pq lt by auto
    have enc: "utf8_encode c = [word_of_nat (0xF0 + p), word_of_nat (0x80 + q), word_of_nat (0x80 + r),
        word_of_nat (0x80 + t)]"
      using 4 by (simp add: utf8_encode_def utf8_encode_nat_def p_def q_def r_def t_def del: of_nat_add)
    define st where "st = state_next 0 (0xF0 + p)"
    have st: "st \<in> {6, 7, 8}" "first_bits (0xF0 + p) = p" "state_next st (0x80 + q) = 3"
        "state_next 3 (0x80 + r) = 2" "state_next 2 (0x80 + t) = 0"
      using pq lo hi by (auto simp: state_next_def first_bits_def st_def)
    obtain v1 where v1: "validator_decode (utf8_encode c @ s) v
        = validator_decode (word_of_nat (0x80 + q) # word_of_nat (0x80 + r) # word_of_nat (0x80 + t) # s) v1"
        "at_state st p v1"
      using first [of "0xF0 + p" "word_of_nat (0x80 + q) # word_of_nat (0x80 + r) # word_of_nat (0x80 + t) # s"]
        st pq enc by (auto simp: st_def)
    obtain v2 where v2: "validator_decode (utf8_encode c @ s) v
        = validator_decode (word_of_nat (0x80 + r) # word_of_nat (0x80 + t) # s) v2" "at_state 3 (p * 64 + q) v2"
      using decode_cont_byte [OF v1(2), of q "word_of_nat (0x80 + r) # word_of_nat (0x80 + t) # s"] st pq v1(1)
      by auto
    obtain v3 where v3: "validator_decode (utf8_encode c @ s) v
        = validator_decode (word_of_nat (0x80 + t) # s) v3" "at_state 2 ((p * 64 + q) * 64 + r) v3"
      using decode_cont_byte [OF v2(2), of r "word_of_nat (0x80 + t) # s"] st pq v2(1) by auto
    show ?thesis
      using decode_cont_byte [OF v3(2), of t s] st pq v3(1) c by auto
  qed
qed

lemma decode_text:
  assumes "\<forall>c \<in> set cs. scalar c" and "m_state v = 0"
  shows "\<exists>v'. validator_decode (concat (map utf8_encode cs)) v = (True, v') \<and> m_state v' = 0"
  using assms
proof (induction cs arbitrary: v)
  case (Cons c cs)
  then obtain v' where v': "validator_decode (utf8_encode c @ concat (map utf8_encode cs)) v
      = validator_decode (concat (map utf8_encode cs)) v'" "at_state 0 c v'"
    using decode_encoded [of c v] by fastforce
  then have "m_state v' = 0" by (simp add: at_state_def unat_eq_0)
  from Cons.IH [OF _ this] Cons.prems v' show ?case by simp
qed simp

subsection \<open>Properties\<close>

text \<open>C22. The validator accepts exactly the UTF-8 texts: \<open>validate s\<close> holds if and only if \<open>s\<close> is the
  concatenation of the shortest encodings of Unicode scalar values, so overlong forms, surrogates,
  values above 10FFFF and truncated sequences are all refused.\<close>
theorem validate_is_utf8:
  "validate s \<longleftrightarrow> (\<exists>cs. (\<forall>c \<in> set cs. scalar c) \<and> s = concat (map utf8_encode cs))"
proof
  assume "validate s"
  then obtain cs where cs: "\<forall>c \<in> set cs. scalar c" "map unat s = concat (map utf8_encode_nat cs)"
    using accepted_encodes validate_run by blast
  have "s = map word_of_nat (map unat s)" by (simp add: comp_def)
  also have "\<dots> = concat (map utf8_encode cs)"
    unfolding cs(2) by (simp add: map_concat utf8_encode_def [abs_def] comp_def)
  finally show "\<exists>cs. (\<forall>c \<in> set cs. scalar c) \<and> s = concat (map utf8_encode cs)" using cs(1) by blast
next
  assume "\<exists>cs. (\<forall>c \<in> set cs. scalar c) \<and> s = concat (map utf8_encode cs)"
  then obtain v' where "validator_decode s validator_new = (True, v')" "m_state v' = 0"
    using decode_text [of _ validator_new] by (auto simp: validator_new_def utf8_accept_def)
  then show "validate s"
    by (simp add: validate_def validator_complete_def utf8_accept_def)
qed

theorem validate_is_utf8_witness:
  "validate (concat (map utf8_encode [0x4E, 0xE9, 0x20AC, 0x1F916]))"
proof -
  have "\<forall>c \<in> set [0x4E, 0xE9, 0x20AC, 0x1F916]. scalar c" by (simp add: scalar_def)
  then show ?thesis using validate_is_utf8 by blast
qed

text \<open>The validator works on a stream: validating two pieces one after the other gives the verdict
  and the state of validating them together, unless the first piece was already refused. So the
  fragments of a message may be cut anywhere, inside a code point too.\<close>
theorem validator_streams:
  "validator_decode (s @ t) v =
     (let (ok, v') = validator_decode s v in if ok then validator_decode t v' else (False, v'))"
  by (induction s arbitrary: v) (simp_all add: Let_def case_prod_beta)

text \<open>Feeding a validator byte by byte reads code points: after the encoding of a scalar value the
  accepting state is reached again and the code point member holds that value.\<close>
theorem validator_codepoint:
  assumes "scalar c" and "m_state v = utf8_accept"
  shows "\<exists>v'. validator_decode (utf8_encode c) v = (True, v') \<and> m_state v' = utf8_accept
           \<and> unat (m_codepoint v') = c"
  using decode_encoded [of c v "[]"] assms by (auto simp: utf8_accept_def at_state_def unat_eq_0)

theorem validator_codepoint_witness:
  "\<exists>v'. validator_decode (utf8_encode 0x20AC) validator_new = (True, v') \<and> m_state v' = utf8_accept
     \<and> unat (m_codepoint v') = 0x20AC"
  by (rule validator_codepoint) (simp_all add: scalar_def validator_new_def)

end
