(* ===== verification/WsClose.thy ===== *)
theory WsClose imports WsUtf8 Octets CText begin

text \<open>
  Error codes (\<open>websocketpp/error.hpp\<close>, \<open>processors/base.hpp\<close>) and close codes with their wire form
  (\<open>websocketpp/close.hpp\<close>). An error code is a value of one of the two categories; the empty error
  code, success, is \<open>None\<close>.
\<close>

subsection \<open>Error codes\<close>

datatype lib_error
  = lib_general | lib_send_queue_full | lib_payload_violation | lib_endpoint_not_secure
    | lib_endpoint_unavailable | lib_invalid_uri | lib_no_outgoing_buffers
    | lib_no_incoming_buffers | lib_invalid_state | lib_bad_close_code | lib_reserved_close_code
    | lib_invalid_close_code | lib_invalid_utf8 | lib_invalid_subprotocol | lib_bad_connection
    | lib_test | lib_con_creation_failed | lib_unrequested_subprotocol | lib_client_only
    | lib_server_only | lib_http_connection_ended | lib_open_handshake_timeout
    | lib_close_handshake_timeout | lib_invalid_port | lib_async_accept_not_listening
    | lib_operation_canceled | lib_rejected | lib_upgrade_required | lib_invalid_version
    | lib_unsupported_version | lib_http_parse_error | lib_extension_neg_failed

datatype processor_error
  = proc_general | proc_bad_request | proc_protocol_violation | proc_message_too_big
    | proc_invalid_payload | proc_invalid_arguments | proc_invalid_opcode | proc_control_too_big
    | proc_invalid_rsv_bit | proc_fragmented_control | proc_invalid_continuation
    | proc_masking_required | proc_masking_forbidden | proc_non_minimal_encoding
    | proc_requires_64bit | proc_invalid_utf8 | proc_not_implemented | proc_invalid_http_method
    | proc_invalid_http_version | proc_invalid_http_status | proc_missing_required_header
    | proc_sha1_library | proc_no_protocol_support | proc_reserved_close_code
    | proc_invalid_close_code | proc_reason_requires_code | proc_subprotocol_parse_error
    | proc_extension_parse_error | proc_extensions_disabled | proc_short_key3

text \<open>Of the transport (\<open>transport/base/connection.hpp\<close>).\<close>

datatype transport_error
  = trans_general | trans_pass_through | trans_invalid_num_bytes | trans_double_read
    | trans_operation_aborted | trans_operation_not_supported | trans_eof | trans_tls_short_read
    | trans_timeout | trans_action_after_shutdown | trans_tls_error

text \<open>The extensions have a category of their own; only its value for a disabled extension is used.\<close>

datatype error_code = Lib lib_error | Proc processor_error | Trans transport_error | Ext_disabled

fun lib_message :: "lib_error \<Rightarrow> string" where
  "lib_message lib_general = ''Generic error''"
| "lib_message lib_send_queue_full = ''send queue full''"
| "lib_message lib_payload_violation = ''payload violation''"
| "lib_message lib_endpoint_not_secure = ''endpoint not secure''"
| "lib_message lib_endpoint_unavailable = ''endpoint not available''"
| "lib_message lib_invalid_uri = ''invalid uri''"
| "lib_message lib_no_outgoing_buffers = ''no outgoing message buffers''"
| "lib_message lib_no_incoming_buffers = ''no incoming message buffers''"
| "lib_message lib_invalid_state = ''invalid state''"
| "lib_message lib_bad_close_code = ''Unable to extract close code''"
| "lib_message lib_reserved_close_code = ''Extracted close code is in a reserved range''"
| "lib_message lib_invalid_close_code = ''Extracted close code is in an invalid range''"
| "lib_message lib_invalid_utf8 = ''Invalid UTF-8''"
| "lib_message lib_invalid_subprotocol = ''Invalid subprotocol''"
| "lib_message lib_bad_connection = ''Bad Connection''"
| "lib_message lib_test = ''Test Error''"
| "lib_message lib_con_creation_failed = ''Connection creation attempt failed''"
| "lib_message lib_unrequested_subprotocol = ''Selected subprotocol was not requested by the client''"
| "lib_message lib_client_only = ''Feature not available on server endpoints''"
| "lib_message lib_server_only = ''Feature not available on client endpoints''"
| "lib_message lib_http_connection_ended = ''HTTP connection ended''"
| "lib_message lib_open_handshake_timeout = ''The opening handshake timed out''"
| "lib_message lib_close_handshake_timeout = ''The closing handshake timed out''"
| "lib_message lib_invalid_port = ''Invalid URI port''"
| "lib_message lib_async_accept_not_listening = ''Async Accept not listening''"
| "lib_message lib_operation_canceled = ''Operation canceled''"
| "lib_message lib_rejected = ''Connection rejected''"
| "lib_message lib_upgrade_required = ''Upgrade required''"
| "lib_message lib_invalid_version = ''Invalid version''"
| "lib_message lib_unsupported_version = ''Unsupported version''"
| "lib_message lib_http_parse_error = ''HTTP parse error''"
| "lib_message lib_extension_neg_failed = ''Extension negotiation failed''"

fun processor_message :: "processor_error \<Rightarrow> string" where
  "processor_message proc_general = ''Generic processor error''"
| "processor_message proc_bad_request = ''invalid user input''"
| "processor_message proc_protocol_violation = ''Generic protocol violation''"
| "processor_message proc_message_too_big = ''A message was too large''"
| "processor_message proc_invalid_payload = ''A payload contained invalid data''"
| "processor_message proc_invalid_arguments = ''invalid function arguments''"
| "processor_message proc_invalid_opcode = ''invalid opcode''"
| "processor_message proc_control_too_big = ''Control messages are limited to fewer than 125 characters''"
| "processor_message proc_invalid_rsv_bit = ''Invalid use of reserved bits''"
| "processor_message proc_fragmented_control = ''Control messages cannot be fragmented''"
| "processor_message proc_invalid_continuation = ''Invalid message continuation''"
| "processor_message proc_masking_required = ''Clients may not send unmasked frames''"
| "processor_message proc_masking_forbidden = ''Servers may not send masked frames''"
| "processor_message proc_non_minimal_encoding = ''Payload length was not minimally encoded''"
| "processor_message proc_requires_64bit = ''64 bit frames are not supported on 32 bit systems''"
| "processor_message proc_invalid_utf8 = ''Invalid UTF8 encoding''"
| "processor_message proc_not_implemented = ''Operation required not implemented functionality''"
| "processor_message proc_invalid_http_method = ''Invalid HTTP method.''"
| "processor_message proc_invalid_http_version = ''Invalid HTTP version.''"
| "processor_message proc_invalid_http_status = ''Invalid HTTP status.''"
| "processor_message proc_missing_required_header = ''A required HTTP header is missing''"
| "processor_message proc_sha1_library = ''SHA-1 library error''"
| "processor_message proc_no_protocol_support = ''The WebSocket protocol version in use does not support this feature''"
| "processor_message proc_reserved_close_code = ''Reserved close code used''"
| "processor_message proc_invalid_close_code = ''Invalid close code used''"
| "processor_message proc_reason_requires_code = ''Using a close reason requires a valid close code''"
| "processor_message proc_subprotocol_parse_error = ''Error parsing subprotocol header''"
| "processor_message proc_extension_parse_error = ''Error parsing extension header''"
| "processor_message proc_extensions_disabled = ''Extensions are disabled''"
| "processor_message proc_short_key3 = ''Short Hybi00 Key 3 read''"

fun transport_message :: "transport_error \<Rightarrow> string" where
  "transport_message trans_general = ''Generic transport policy error''"
| "transport_message trans_pass_through = ''Underlying Transport Error''"
| "transport_message trans_invalid_num_bytes = ''async_read_at_least call requested more bytes than buffer can store''"
| "transport_message trans_double_read = ''Unknown''"
| "transport_message trans_operation_aborted = ''The operation was aborted''"
| "transport_message trans_operation_not_supported = ''The operation is not supported by this transport''"
| "transport_message trans_eof = ''End of File''"
| "transport_message trans_tls_short_read = ''TLS Short Read''"
| "transport_message trans_timeout = ''Timer Expired''"
| "transport_message trans_action_after_shutdown = ''A transport action was requested after shutdown''"
| "transport_message trans_tls_error = ''Generic TLS related error''"

text \<open>\<open>ec.message()\<close>, through the category of the code; the characters of these texts are octets.\<close>

fun error_message :: "error_code \<Rightarrow> bytes" where
  "error_message (Lib e) = octets_of (lib_message e)"
| "error_message (Proc e) = octets_of (processor_message e)"
| "error_message (Trans e) = octets_of (transport_message e)"
| "error_message Ext_disabled = octets_of ''Use of methods from disabled extension''"

subsection \<open>Close codes\<close>

definition status_blank :: u16 where "status_blank = 0"
definition status_omit_handshake :: u16 where "status_omit_handshake = 1"
definition status_force_tcp_drop :: u16 where "status_force_tcp_drop = 2"
definition status_normal :: u16 where "status_normal = 1000"
definition status_going_away :: u16 where "status_going_away = 1001"
definition status_protocol_error :: u16 where "status_protocol_error = 1002"
definition status_unsupported_data :: u16 where "status_unsupported_data = 1003"
definition status_no_status :: u16 where "status_no_status = 1005"
definition status_abnormal_close :: u16 where "status_abnormal_close = 1006"
definition status_invalid_payload :: u16 where "status_invalid_payload = 1007"
definition status_policy_violation :: u16 where "status_policy_violation = 1008"
definition status_message_too_big :: u16 where "status_message_too_big = 1009"
definition status_extension_required :: u16 where "status_extension_required = 1010"
definition status_internal_endpoint_error :: u16 where "status_internal_endpoint_error = 1011"
definition status_service_restart :: u16 where "status_service_restart = 1012"
definition status_try_again_later :: u16 where "status_try_again_later = 1013"
definition status_bad_gateway :: u16 where "status_bad_gateway = 1014"
definition status_tls_handshake :: u16 where "status_tls_handshake = 1015"
definition status_subprotocol_error :: u16 where "status_subprotocol_error = 3000"
definition status_invalid_subprotocol_data :: u16 where "status_invalid_subprotocol_data = 3001"
definition status_rsv_start :: u16 where "status_rsv_start = 1016"
definition status_rsv_end :: u16 where "status_rsv_end = 2999"
definition status_invalid_low :: u16 where "status_invalid_low = 999"
definition status_invalid_high :: u16 where "status_invalid_high = 5000"

lemmas status_defs = status_blank_def status_omit_handshake_def status_force_tcp_drop_def status_normal_def
  status_going_away_def status_protocol_error_def status_unsupported_data_def status_no_status_def
  status_abnormal_close_def status_invalid_payload_def status_policy_violation_def status_message_too_big_def
  status_extension_required_def status_internal_endpoint_error_def status_service_restart_def status_try_again_later_def
  status_bad_gateway_def status_tls_handshake_def status_subprotocol_error_def status_invalid_subprotocol_data_def
  status_rsv_start_def status_rsv_end_def status_invalid_low_def status_invalid_high_def

definition close_reserved :: "u16 \<Rightarrow> bool" where
  "close_reserved code \<longleftrightarrow> (code \<ge> status_rsv_start \<and> code \<le> status_rsv_end) \<or> code = 1004"

definition close_invalid :: "u16 \<Rightarrow> bool" where
  "close_invalid code \<longleftrightarrow> code \<le> status_invalid_low \<or> code \<ge> status_invalid_high
     \<or> code = status_no_status \<or> code = status_abnormal_close \<or> code = status_tls_handshake"

definition close_terminal :: "u16 \<Rightarrow> bool" where
  "close_terminal code \<longleftrightarrow> code = status_protocol_error \<or> code = status_invalid_payload
     \<or> code = status_policy_violation \<or> code = status_message_too_big
     \<or> code = status_internal_endpoint_error"

definition close_get_string :: "u16 \<Rightarrow> string" where
  "close_get_string code =
     (if code = status_normal then ''Normal close''
      else if code = status_going_away then ''Going away''
      else if code = status_protocol_error then ''Protocol error''
      else if code = status_unsupported_data then ''Unsupported data''
      else if code = status_no_status then ''No status set''
      else if code = status_abnormal_close then ''Abnormal close''
      else if code = status_invalid_payload then ''Invalid payload''
      else if code = status_policy_violation then ''Policy violoation''
      else if code = status_message_too_big then ''Message too big''
      else if code = status_extension_required then ''Extension required''
      else if code = status_internal_endpoint_error then ''Internal endpoint error''
      else if code = status_service_restart then ''Service restart''
      else if code = status_try_again_later then ''Try again later''
      else if code = status_bad_gateway then ''Bad gateway''
      else if code = status_tls_handshake then ''TLS handshake failure''
      else if code = status_subprotocol_error then ''Generic subprotocol error''
      else if code = status_invalid_subprotocol_data then ''Invalid subprotocol data''
      else ''Unknown'')"

definition to_ws :: "error_code \<Rightarrow> u16" where
  "to_ws ec = (case ec of
      Proc e \<Rightarrow>
        (if e \<in> set [proc_protocol_violation, proc_control_too_big, proc_invalid_opcode,
                    proc_invalid_rsv_bit, proc_fragmented_control, proc_invalid_continuation,
                    proc_masking_required, proc_masking_forbidden, proc_reserved_close_code,
                    proc_invalid_close_code] then status_protocol_error
         else if e = proc_invalid_payload \<or> e = proc_invalid_utf8 then status_invalid_payload
         else if e = proc_message_too_big then status_message_too_big
         else status_internal_endpoint_error)
    | _ \<Rightarrow> status_blank)"

text \<open>The code is converted through the union \<open>code_converter\<close>.\<close>

definition htons :: "u16 \<Rightarrow> u16" where "htons w = of_le (rev (le_bytes 2 w))"

definition extract_code :: "bytes \<Rightarrow> u16 \<times> error_code option" where
  "extract_code payload =
     (if length payload = 0 then (status_no_status, None)
      else if length payload = 1 then (status_protocol_error, Some (Lib lib_bad_close_code))
      else
        let code = ntohs (of_le [payload ! 0, payload ! 1]);
            ec = None;
            ec = (if close_invalid code then Some (Lib lib_invalid_close_code) else ec);
            ec = (if close_reserved code then Some (Lib lib_reserved_close_code) else ec)
        in (code, ec))"

definition extract_reason :: "bytes \<Rightarrow> bytes \<times> error_code option" where
  "extract_reason payload =
     (let reason = (if length payload > 2 then drop 2 payload else [])
      in (reason, if \<not> validate reason then Some (Lib lib_invalid_utf8) else None))"

subsection \<open>Properties\<close>

text \<open>The codes RFC 6455 lets an endpoint send.\<close>

definition sendable_code :: "nat \<Rightarrow> bool" where
  "sendable_code n \<longleftrightarrow> 1000 \<le> n \<and> n \<le> 1003 \<or> 1007 \<le> n \<and> n \<le> 1014 \<or> 3000 \<le> n \<and> n \<le> 4999"

lemma sendable_iff: "\<not> close_invalid code \<and> \<not> close_reserved code \<longleftrightarrow> sendable_code (unat code)"
proof -
  have "unat code \<noteq> 1004 \<longleftrightarrow> code \<noteq> 1004" "unat code \<noteq> 1005 \<longleftrightarrow> code \<noteq> 1005"
    "unat code \<noteq> 1006 \<longleftrightarrow> code \<noteq> 1006" "unat code \<noteq> 1015 \<longleftrightarrow> code \<noteq> 1015"
    by (simp_all add: word_unat_eq_iff)
  then show ?thesis
    by (auto simp: close_invalid_def close_reserved_def sendable_code_def status_defs word_le_nat_alt)
qed

lemma code_value: "unat (ntohs (of_le [a, b])) = unat a * 256 + unat (b :: u8)"
proof -
  have "ntohs (of_le [a, b]) = of_le [b, a]" by (simp add: ntohs_of_le)
  also have "\<dots> = push_bit 8 (ucast a) + ucast b"
  proof -
    have "(of_le [b, a] :: u16) = push_bit 8 (ucast a) OR ucast b" by (simp add: of_le_Cons)
    also have "\<dots> = push_bit 8 (ucast a) + ucast b"
      by (rule disjunctive_add [symmetric]) (auto simp: bit_push_bit_iff bit_ucast_iff bit_byte_beyond)
    finally show ?thesis .
  qed
  finally have n: "ntohs (of_le [a, b]) = push_bit 8 (ucast a) + ucast b" .
  have "unat a * 256 + unat b < 65536" using byte_nat [of a] byte_nat [of b] by linarith
  then have "(unat a * 256 + unat b) mod 65536 = unat a * 256 + unat b" by (rule mod_less)
  moreover have "take_bit 16 (unat a) = unat a" "take_bit 16 (unat b) = unat b"
    by (auto intro!: take_bit_nat_eq_self less_le_trans [OF byte_nat])
  ultimately show ?thesis
    unfolding n by (simp add: push_bit_eq_mult unat_word_ariths unsigned_ucast_eq unsigned_take_bit_eq)
qed

text \<open>A received close frame is accepted exactly when it is empty, which reads as the dummy code
  1005, or carries one of the codes RFC 6455 lets an endpoint send; a single octet, a reserved code and
  a code that must not appear on the wire are reported, each with its own error.\<close>
theorem extract_code_accepts:
  "snd (extract_code payload) = None \<longleftrightarrow>
     payload = [] \<or> (2 \<le> length payload \<and> sendable_code (unat (payload ! 0) * 256 + unat (payload ! 1)))"
  using sendable_iff [of "ntohs (of_le [payload ! 0, payload ! 1])"]
  by (cases payload; cases "tl payload") (auto simp: extract_code_def Let_def code_value)

text \<open>Whatever error ends a connection, the close code sent for it is one that may be sent, or
  none at all for an error of another category.\<close>
theorem to_ws_sendable: "to_ws ec = status_blank \<or> sendable_code (unat (to_ws ec))"
  by (cases ec) (simp_all add: to_ws_def status_defs sendable_code_def)

end
