(* ===== verification/WsHandshake.thy ===== *)
theory WsHandshake imports HttpResponse WsUri WsSha1 WsBase64 WsClose begin

text \<open>
  The opening handshake as the processors see it: the free functions of \<open>processors/processor.hpp\<close> and
  the handshake half of \<open>processors/hybi13.hpp\<close> (with \<open>hybi08.hpp\<close> and \<open>hybi07.hpp\<close>, which differ from it
  in their version and origin only), and the extension \<open>permessage_deflate/disabled.hpp\<close> of the
  program's configuration. An \<open>error_code option\<close> that is \<open>None\<close> is no error.
\<close>

subsection \<open>Recognising a handshake\<close>

definition upgrade_token :: string where "upgrade_token = ''websocket''"
definition connection_token :: string where "connection_token = ''Upgrade''"
definition handshake_guid :: string where "handshake_guid = ''258EAFA5-E914-47DA-95CA-C5AB0DC85B11''"

definition my_equal :: "char \<Rightarrow> char \<Rightarrow> bool" where
  "my_equal c d \<longleftrightarrow> toupper c = toupper d"

text \<open>\<open>std::search\<close>: the haystack from the first occurrence on, \<open>None\<close> for the end.\<close>

fun ci_find_substr :: "string \<Rightarrow> string \<Rightarrow> string option" where
  "ci_find_substr [] needle = None"
| "ci_find_substr (c # cs) needle =
     (if length needle \<le> length (c # cs) \<and> list_all2 my_equal (take (length needle) (c # cs)) needle then Some (c # cs)
      else ci_find_substr cs needle)"

definition is_websocket_handshake :: "'r http_parser_scheme \<Rightarrow> bool" where
  "is_websocket_handshake r \<longleftrightarrow>
     ci_find_substr (get_header ''Upgrade'' r) upgrade_token \<noteq> None \<and>
     ci_find_substr (get_header ''Connection'' r) connection_token \<noteq> None"

definition get_websocket_version :: "request \<Rightarrow> int" where
  "get_websocket_version r =
     (if \<not> q_ready r then -2
      else if get_header ''Sec-WebSocket-Version'' r = [] then 0
      else (case stream_int (get_header ''Sec-WebSocket-Version'' r) of None \<Rightarrow> -1 | Some version \<Rightarrow> version))"

subsection \<open>The server side\<close>

definition validate_handshake :: "request \<Rightarrow> error_code option" where
  "validate_handshake r =
     (if q_method r \<noteq> ''GET'' then Some (Proc proc_invalid_http_method)
      else if h_version r \<noteq> ''HTTP/1.1'' then Some (Proc proc_invalid_http_version)
      else if get_header ''Sec-WebSocket-Key'' r = [] then Some (Proc proc_missing_required_header)
      else None)"

text \<open>The key that proves the server has understood; \<open>w\<close> is the round buffer of SHA-1, which the code does
not initialise. There is no error the function could return.\<close>

definition process_handshake_key :: "u32 list \<Rightarrow> string \<Rightarrow> string" where
  "process_handshake_key w key = text_of (base64_encode (calc (octets_of (key @ handshake_guid)) w))"

definition process_handshake :: "u32 list \<Rightarrow> request \<Rightarrow> string \<Rightarrow> response \<Rightarrow> response parsed" where
  "process_handshake w request subprotocol response =
     (let server_key = process_handshake_key w (get_header ''Sec-WebSocket-Key'' request);
          response = replace_header ''Sec-WebSocket-Accept'' server_key response
      in and_then (append_header ''Upgrade'' upgrade_token response) (\<lambda>response.
         and_then (append_header ''Connection'' connection_token response) (\<lambda>response.
           Parsed (if subprotocol \<noteq> [] then replace_header ''Sec-WebSocket-Protocol'' subprotocol response
                   else response))))"

definition get_origin :: "int \<Rightarrow> request \<Rightarrow> string" where
  "get_origin version r =
     (if version = 7 \<or> version = 8 then get_header ''Sec-WebSocket-Origin'' r else get_header ''Origin'' r)"

definition extract_subprotocols :: "request \<Rightarrow> string list \<Rightarrow> error_code option \<times> string list" where
  "extract_subprotocols req subprotocol_list =
     (if get_header ''Sec-WebSocket-Protocol'' req \<noteq> [] then
        (case get_header_as_plist ''Sec-WebSocket-Protocol'' req of
           (True, _) \<Rightarrow> (Some (Proc proc_subprotocol_parse_error), subprotocol_list)
         | (False, p) \<Rightarrow> (None, subprotocol_list @ map fst p))
      else (None, subprotocol_list))"

definition hybi13_get_uri :: "bool \<Rightarrow> request \<Rightarrow> uri" where
  "hybi13_get_uri secure r = get_uri_from_host r (if secure then ''wss'' else ''ws'')"

subsection \<open>Extensions\<close>

definition enable_extensions :: bool where "enable_extensions = True"

definition deflate_negotiate :: "attribute_list \<Rightarrow> error_code option \<times> string" where
  "deflate_negotiate attributes = (Some Ext_disabled, [])"

definition deflate_init :: "bool \<Rightarrow> error_code option" where "deflate_init is_server = None"
definition deflate_is_implemented :: bool where "deflate_is_implemented = False"
definition deflate_is_enabled :: bool where "deflate_is_enabled = False"
definition generate_offer :: string where "generate_offer = []"

fun negotiate_loop :: "bool \<Rightarrow> parameter_list \<Rightarrow> error_code option \<times> string \<Rightarrow> error_code option \<times> string" where
  "negotiate_loop server [] ret = ret"
| "negotiate_loop server ((name, attributes) # p) ret =
     (if name \<noteq> ''permessage-deflate'' then negotiate_loop server p ret
      else if deflate_is_enabled then negotiate_loop server p ret
      else
        let (ec, reply) = deflate_negotiate attributes in
        if ec \<noteq> None then negotiate_loop server p ret
        else (case deflate_init server of
                Some ec \<Rightarrow> (Some ec, snd ret)
              | None \<Rightarrow> (fst ret, snd ret @ reply)))"

definition negotiate_extensions :: "bool \<Rightarrow> 'r http_parser_scheme \<Rightarrow> error_code option \<times> string" where
  "negotiate_extensions server header =
     (if \<not> enable_extensions then (Some (Proc proc_extensions_disabled), [])
      else (case get_header_as_plist ''Sec-WebSocket-Extensions'' header of
              (True, _) \<Rightarrow> (Some (Proc proc_extension_parse_error), [])
            | (False, p) \<Rightarrow>
                if p = [] then (None, [])
                else if deflate_is_implemented then negotiate_loop server p (None, [])
                else (None, [])))"

subsection \<open>The client side\<close>

text \<open>\<open>result << *it++\<close> with a comma and a space between.\<close>

fun join_subprotocols :: "string list \<Rightarrow> string" where
  "join_subprotocols [] = []"
| "join_subprotocols [s] = s"
| "join_subprotocols (s # t # ss) = s @ '', '' @ join_subprotocols (t # ss)"

text \<open>The key is four random values as they lie in memory, which on the board is little endian.\<close>

definition handshake_key :: "u32 list \<Rightarrow> string" where
  "handshake_key rs = text_of (base64_encode (concat (map (le_bytes 4) rs)))"

definition client_handshake_request :: "u32 list \<Rightarrow> uri \<Rightarrow> string list \<Rightarrow> request \<Rightarrow> request parsed" where
  "client_handshake_request rs u subprotocols req =
     and_then (set_method ''GET'' req) (\<lambda>req.
     let req = req\<lparr>q_uri := u_resource u, h_version := ''HTTP/1.1''\<rparr> in
     and_then (append_header ''Upgrade'' ''websocket'' req) (\<lambda>req.
     and_then (append_header ''Connection'' ''Upgrade'' req) (\<lambda>req.
     let req = replace_header ''Sec-WebSocket-Version'' ''13'' req;
         req = replace_header ''Host'' (get_host_port u) req;
         req = (if subprotocols \<noteq> [] then replace_header ''Sec-WebSocket-Protocol'' (join_subprotocols subprotocols) req
                else req);
         req = replace_header ''Sec-WebSocket-Key'' (handshake_key rs) req
     in Parsed (if deflate_is_implemented \<and> generate_offer \<noteq> []
                then replace_header ''Sec-WebSocket-Extensions'' generate_offer req else req))))"

definition validate_server_handshake_response :: "u32 list \<Rightarrow> request \<Rightarrow> response \<Rightarrow> error_code option" where
  "validate_server_handshake_response w req res =
     (if s_status_code res \<noteq> sc_switching_protocols then Some (Proc proc_invalid_http_status)
      else if ci_find_substr (get_header ''Upgrade'' res) upgrade_token = None
      then Some (Proc proc_missing_required_header)
      else if ci_find_substr (get_header ''Connection'' res) connection_token = None
      then Some (Proc proc_missing_required_header)
      else if process_handshake_key w (get_header ''Sec-WebSocket-Key'' req) \<noteq> get_header ''Sec-WebSocket-Accept'' res
      then Some (Proc proc_missing_required_header)
      else None)"

subsection \<open>Lemmas\<close>

lemma my_equal_refl [simp]: "my_equal c c"
  by (simp add: my_equal_def)

lemma find_substr_end: "needle \<noteq> [] \<Longrightarrow> ci_find_substr (s @ needle) needle \<noteq> None"
proof (induction s)
  case Nil
  then show ?case by (cases needle) (auto simp: list_all2_same)
qed auto

lemma find_substr_self: "needle \<noteq> [] \<Longrightarrow> ci_find_substr needle needle \<noteq> None"
  using find_substr_end [of needle "[]"] by simp

lemma key_ci: "ci_eq ''Upgrade'' ''Connection'' = False" "ci_eq ''Connection'' ''Upgrade'' = False"
  "ci_eq ''Connection'' ''Sec-WebSocket-Accept'' = False" "ci_eq ''Upgrade'' ''Sec-WebSocket-Accept'' = False"
  "ci_eq ''Sec-WebSocket-Protocol'' ''Upgrade'' = False" "ci_eq ''Sec-WebSocket-Protocol'' ''Connection'' = False"
  "ci_eq ''Sec-WebSocket-Protocol'' ''Sec-WebSocket-Accept'' = False"
  by (simp_all add: ci_eq_key ci_key_def tolower_def)

lemma append_header_value:
  assumes "list_ex is_not_token_char k = False"
  shows "\<exists>pre. append_header k v r = Parsed (replace_header k (pre @ v) r) \<and> (get_header k r = [] \<longrightarrow> pre = [])"
  using assms by (cases "get_header k r = []")
    (auto simp: append_header_def replace_header_def intro: exI [of _ "get_header k r @ '', ''"] exI [of _ "[]"])

lemma handshake_tokens: "list_ex is_not_token_char ''Upgrade'' = False" "list_ex is_not_token_char ''Connection'' = False"
  by code_simp+

lemma process_handshake_total:
  "\<exists>res. process_handshake w request subprotocol response = Parsed res
    \<and> s_status_code res = s_status_code response
    \<and> get_header ''Sec-WebSocket-Accept'' res = process_handshake_key w (get_header ''Sec-WebSocket-Key'' request)
    \<and> is_websocket_handshake res"
proof -
  let ?r = "replace_header ''Sec-WebSocket-Accept'' (process_handshake_key w (get_header ''Sec-WebSocket-Key'' request)) response"
  obtain p where p: "append_header ''Upgrade'' upgrade_token ?r = Parsed (replace_header ''Upgrade'' (p @ upgrade_token) ?r)"
    using append_header_value [OF handshake_tokens(1)] by blast
  let ?s = "replace_header ''Upgrade'' (p @ upgrade_token) ?r"
  obtain q where q: "append_header ''Connection'' connection_token ?s = Parsed (replace_header ''Connection'' (q @ connection_token) ?s)"
    using append_header_value [OF handshake_tokens(2)] by blast
  have ne: "upgrade_token \<noteq> []" "connection_token \<noteq> []" by (simp_all add: upgrade_token_def connection_token_def)
  have st: "s_status_code (replace_header k v r) = s_status_code r" for k v and r :: response
    by (simp add: replace_header_def)
  show ?thesis
    using find_substr_end [OF ne(1), of p] find_substr_end [OF ne(2), of q]
    by (simp add: process_handshake_def p q is_websocket_handshake_def get_header_update key_ci st)
qed

subsection \<open>Properties\<close>

lemma handshake_key_sha1:
  assumes "length w = 80" and "length key + 36 < 2 ^ 29"
  shows "process_handshake_key w key = text_of (rfc4648 (sha1 (octets_of (key @ ''258EAFA5-E914-47DA-95CA-C5AB0DC85B11''))))"
proof -
  have "calc (octets_of (key @ handshake_guid)) w = sha1 (octets_of (key @ handshake_guid))"
    using assms by (intro calc_sha1) (simp_all add: handshake_guid_def)
  then show ?thesis by (simp add: process_handshake_key_def encode_rfc handshake_guid_def)
qed

text \<open>The server proves that it has read the key of the client as RFC 6455 prescribes: its answer is the
Base64 text of the SHA-1 digest of the key and the fixed GUID, whatever the round buffer of the hash holds.\<close>

theorem accept_key_rfc6455:
  assumes "length w = 80" and "length (get_header ''Sec-WebSocket-Key'' request) + 36 < 2 ^ 29"
  shows "\<exists>res. process_handshake w request subprotocol response = Parsed res
    \<and> get_header ''Sec-WebSocket-Accept'' res = text_of (rfc4648 (sha1
        (octets_of (get_header ''Sec-WebSocket-Key'' request @ ''258EAFA5-E914-47DA-95CA-C5AB0DC85B11''))))"
  using process_handshake_total [of w request subprotocol response] handshake_key_sha1 [OF assms] by auto

definition key_request :: request where
  "key_request = request_new\<lparr>q_method := ''GET'', q_uri := ''/'', h_version := ''HTTP/1.1'',
     h_headers := [(''Sec-WebSocket-Key'', ''dGhlIHNhbXBsZSBub25jZQ=='')]\<rparr>"

lemma key_request_key: "get_header ''Sec-WebSocket-Key'' key_request = ''dGhlIHNhbXBsZSBub25jZQ==''"
  by (simp add: key_request_def get_header_def)

theorem accept_key_rfc6455_witness:
  "\<exists>res. process_handshake (replicate 80 5) key_request [] response_new = Parsed res
    \<and> get_header ''Sec-WebSocket-Accept'' res = text_of (rfc4648 (sha1
        (octets_of (''dGhlIHNhbXBsZSBub25jZQ==258EAFA5-E914-47DA-95CA-C5AB0DC85B11''))))"
  using accept_key_rfc6455 [of "replicate 80 5" key_request "[]" response_new] by (simp add: key_request_key)

text \<open>C32. A client accepts the answer of the server: to every request, with the headers the application of the
server has added, and whatever is left in the hash buffers of the two.\<close>

theorem client_accepts_server:
  assumes "length w = 80" and "length w' = 80" and "length (get_header ''Sec-WebSocket-Key'' request) + 36 < 2 ^ 29"
    and "s_status_code response = sc_switching_protocols"
  shows "\<exists>res. process_handshake w request subprotocol response = Parsed res
    \<and> validate_server_handshake_response w' request res = None"
proof -
  obtain res where res: "process_handshake w request subprotocol response = Parsed res"
    "s_status_code res = sc_switching_protocols" "is_websocket_handshake res"
    "get_header ''Sec-WebSocket-Accept'' res = process_handshake_key w (get_header ''Sec-WebSocket-Key'' request)"
    using process_handshake_total [of w request subprotocol response] assms(4) by auto
  have "process_handshake_key w' (get_header ''Sec-WebSocket-Key'' request) = get_header ''Sec-WebSocket-Accept'' res"
    unfolding res(4) handshake_key_sha1 [OF assms(1,3)] handshake_key_sha1 [OF assms(2,3)] ..
  with res(2,3) have "validate_server_handshake_response w' request res = None"
    by (simp add: validate_server_handshake_response_def is_websocket_handshake_def)
  with res(1) show ?thesis by blast
qed

theorem client_accepts_server_witness:
  "\<exists>res. process_handshake (replicate 80 5) key_request ''chat'' (set_status sc_switching_protocols response_new) = Parsed res
    \<and> validate_server_handshake_response (replicate 80 9) key_request res = None"
  by (rule client_accepts_server) (simp_all add: key_request_key set_status_def)

end
