(* ===== verification/WsMd5.thy ===== *)
theory WsMd5 imports WsSha1 begin

text \<open>
  MD5 as \<open>websocketpp/common/md5.hpp\<close> computes it, in pieces and with a block buffer, against the
  description of RFC 1321. The target is little endian, so the words of a block are the octets as they
  lie in memory. The buffer of the state is not initialised by the code: it is an argument, and the
  digest is shown not to depend on it.
\<close>

subsection \<open>The code\<close>

record md5_state =
  md5_count :: "u32 \<times> u32"
  md5_abcd :: "u32 \<times> u32 \<times> u32 \<times> u32"
  md5_buf :: bytes

type_synonym md5_regs = "u32 \<times> u32 \<times> u32 \<times> u32"

definition t_mask :: u32 where "t_mask = NOT 0"

definition md5_F :: "u32 \<Rightarrow> u32 \<Rightarrow> u32 \<Rightarrow> u32" where "md5_F x y z = (x AND y) OR (NOT x AND z)"
definition md5_G :: "u32 \<Rightarrow> u32 \<Rightarrow> u32 \<Rightarrow> u32" where "md5_G x y z = (x AND z) OR (y AND NOT z)"
definition md5_H :: "u32 \<Rightarrow> u32 \<Rightarrow> u32 \<Rightarrow> u32" where "md5_H x y z = x XOR y XOR z"
definition md5_I :: "u32 \<Rightarrow> u32 \<Rightarrow> u32 \<Rightarrow> u32" where "md5_I x y z = y XOR (x OR NOT z)"

text \<open>The macro \<open>SET\<close>: it assigns its first register, and the next use of it names the registers one
place on.\<close>

definition md5_set :: "(u32 \<Rightarrow> u32 \<Rightarrow> u32 \<Rightarrow> u32) \<Rightarrow> u32 list \<Rightarrow> nat \<times> nat \<times> u32 \<Rightarrow> md5_regs \<Rightarrow> md5_regs" where
  "md5_set f x op regs =
     (case (op, regs) of ((k, s, ti), (a, b, c, d)) \<Rightarrow>
        let t = a + f b c d + x ! k + ti in (d, rol t s + b, b, c))"

definition md5_round1 :: "(nat \<times> nat \<times> u32) list" where
  "md5_round1 =
    [(0, 7, t_mask XOR 0x28955b87), (1, 12, t_mask XOR 0x173848a9), (2, 17, 0x242070db), (3, 22, t_mask XOR 0x3e423111),
     (4, 7, t_mask XOR 0x0a83f050), (5, 12, 0x4787c62a), (6, 17, t_mask XOR 0x57cfb9ec), (7, 22, t_mask XOR 0x02b96afe),
     (8, 7, 0x698098d8), (9, 12, t_mask XOR 0x74bb0850), (10, 17, t_mask XOR 0x0000a44e), (11, 22, t_mask XOR 0x76a32841),
     (12, 7, 0x6b901122), (13, 12, t_mask XOR 0x02678e6c), (14, 17, t_mask XOR 0x5986bc71), (15, 22, 0x49b40821)]"

definition md5_round2 :: "(nat \<times> nat \<times> u32) list" where
  "md5_round2 =
    [(1, 5, t_mask XOR 0x09e1da9d), (6, 9, t_mask XOR 0x3fbf4cbf), (11, 14, 0x265e5a51), (0, 20, t_mask XOR 0x16493855),
     (5, 5, t_mask XOR 0x29d0efa2), (10, 9, 0x02441453), (15, 14, t_mask XOR 0x275e197e), (4, 20, t_mask XOR 0x182c0437),
     (9, 5, 0x21e1cde6), (14, 9, t_mask XOR 0x3cc8f829), (3, 14, t_mask XOR 0x0b2af278), (8, 20, 0x455a14ed),
     (13, 5, t_mask XOR 0x561c16fa), (2, 9, t_mask XOR 0x03105c07), (7, 14, 0x676f02d9), (12, 20, t_mask XOR 0x72d5b375)]"

definition md5_round3 :: "(nat \<times> nat \<times> u32) list" where
  "md5_round3 =
    [(5, 4, t_mask XOR 0x0005c6bd), (8, 11, t_mask XOR 0x788e097e), (11, 16, 0x6d9d6122), (14, 23, t_mask XOR 0x021ac7f3),
     (1, 4, t_mask XOR 0x5b4115bb), (4, 11, 0x4bdecfa9), (7, 16, t_mask XOR 0x0944b49f), (10, 23, t_mask XOR 0x4140438f),
     (13, 4, 0x289b7ec6), (0, 11, t_mask XOR 0x155ed805), (3, 16, t_mask XOR 0x2b10cf7a), (6, 23, 0x04881d05),
     (9, 4, t_mask XOR 0x262b2fc6), (12, 11, t_mask XOR 0x1924661a), (15, 16, 0x1fa27cf8), (2, 23, t_mask XOR 0x3b53a99a)]"

definition md5_round4 :: "(nat \<times> nat \<times> u32) list" where
  "md5_round4 =
    [(0, 6, t_mask XOR 0x0bd6ddbb), (7, 10, 0x432aff97), (14, 15, t_mask XOR 0x546bdc58), (5, 21, t_mask XOR 0x036c5fc6),
     (12, 6, 0x655b59c3), (3, 10, t_mask XOR 0x70f3336d), (10, 15, t_mask XOR 0x00100b82), (1, 21, t_mask XOR 0x7a7ba22e),
     (8, 6, 0x6fa87e4f), (15, 10, t_mask XOR 0x01d3191f), (6, 15, t_mask XOR 0x5cfebceb), (13, 21, 0x4e0811a1),
     (4, 6, t_mask XOR 0x08ac817d), (11, 10, t_mask XOR 0x42c50dca), (2, 15, 0x2ad7d2bb), (9, 21, t_mask XOR 0x14792c6e)]"

definition md5_words :: "bytes \<Rightarrow> u32 list" where
  "md5_words data = map (\<lambda>i. of_le (take 4 (drop (4 * i) data))) [0..<16]"

definition md5_process :: "md5_regs \<Rightarrow> bytes \<Rightarrow> md5_regs" where
  "md5_process abcd data =
     (let x = md5_words data;
          regs = fold (md5_set md5_F x) md5_round1 abcd;
          regs = fold (md5_set md5_G x) md5_round2 regs;
          regs = fold (md5_set md5_H x) md5_round3 regs;
          regs = fold (md5_set md5_I x) md5_round4 regs
      in case (abcd, regs) of ((a0, b0, c0, d0), (a, b, c, d)) \<Rightarrow> (a0 + a, b0 + b, c0 + c, d0 + d))"

definition md5_start :: md5_regs where
  "md5_start = (0x67452301, t_mask XOR 0x10325476, t_mask XOR 0x67452301, 0x10325476)"

definition md5_init :: "bytes \<Rightarrow> md5_state" where
  "md5_init buf = \<lparr>md5_count = (0, 0), md5_abcd = md5_start, md5_buf = buf\<rparr>"

text \<open>The loop over the full blocks, and what is left behind them.\<close>

function md5_blocks :: "md5_regs \<Rightarrow> bytes \<Rightarrow> md5_regs \<times> bytes" where
  "md5_blocks abcd p =
     (if 64 \<le> length p then md5_blocks (md5_process abcd (take 64 p)) (drop 64 p) else (abcd, p))"
  by auto
termination by (relation "measure (\<lambda>(abcd, p). length p)") auto

declare md5_blocks.simps [simp del]

definition md5_count_add :: "nat \<Rightarrow> u32 \<times> u32 \<Rightarrow> u32 \<times> u32" where
  "md5_count_add nbytes = (\<lambda>(count0, count1).
     let nbits = word_of_nat (nbytes * 8);
         count1 = count1 + word_of_nat (nbytes div 2 ^ 29);
         count0 = count0 + nbits
     in (count0, if count0 < nbits then count1 + 1 else count1))"

text \<open>\<open>memcpy\<close> into a buffer.\<close>

definition copy_into :: "nat \<Rightarrow> bytes \<Rightarrow> bytes \<Rightarrow> bytes" where
  "copy_into offset p buf = take offset buf @ p @ drop (offset + length p) buf"

definition md5_append :: "md5_state \<Rightarrow> bytes \<Rightarrow> md5_state" where
  "md5_append pms data =
     (let nbytes = length data; offset = unat (drop_bit 3 (fst (md5_count pms)) AND 63) in
      if nbytes = 0 then pms
      else
        let pms = pms\<lparr>md5_count := md5_count_add nbytes (md5_count pms)\<rparr>;
            copy = (if offset + nbytes > 64 then 64 - offset else nbytes);
            buf = copy_into offset (take copy data) (md5_buf pms)
        in if offset \<noteq> 0 \<and> offset + copy < 64 then pms\<lparr>md5_buf := buf\<rparr>
           else
             let (abcd, p, buf) = (if offset \<noteq> 0 then (md5_process (md5_abcd pms) buf, drop copy data, buf)
                                   else (md5_abcd pms, data, md5_buf pms));
                 (abcd, p) = md5_blocks abcd p
             in pms\<lparr>md5_abcd := abcd, md5_buf := copy_into 0 p buf\<rparr>)"

definition md5_pad :: bytes where "md5_pad = 0x80 # replicate 63 0"

definition md5_digest :: "md5_regs \<Rightarrow> bytes" where
  "md5_digest = (\<lambda>(a, b, c, d). le_bytes 4 a @ le_bytes 4 b @ le_bytes 4 c @ le_bytes 4 d)"

definition md5_finish :: "md5_state \<Rightarrow> bytes" where
  "md5_finish pms =
     (let (count0, count1) = md5_count pms;
          data = le_bytes 4 count0 @ le_bytes 4 count1;
          pms = md5_append pms (take (unat (((55 - drop_bit 3 count0) AND 63) + 1)) md5_pad);
          pms = md5_append pms data
      in md5_digest (md5_abcd pms))"

definition md5_hash_string :: "bytes \<Rightarrow> bytes \<Rightarrow> bytes" where
  "md5_hash_string buf s = md5_finish (md5_append (md5_init buf) s)"

definition hexval :: string where "hexval = ''0123456789abcdef''"

definition md5_hash_hex :: "bytes \<Rightarrow> bytes \<Rightarrow> string" where
  "md5_hash_hex buf input =
     concat (map (\<lambda>b. [hexval ! unat (drop_bit 4 b AND 0xf), hexval ! unat (b AND 0x0f)]) (md5_hash_string buf input))"

subsection \<open>RFC 1321\<close>

text \<open>Padding: the bit 1, zeros up to 56 octets modulo 64, and the length in bits, low octet first.\<close>

definition rfc1321_pad :: "bytes \<Rightarrow> bytes" where
  "rfc1321_pad m = m @ [0x80] @ replicate ((119 - length m mod 64) mod 64) 0
     @ le_bytes 8 (word_of_nat (8 * length m) :: u64)"

text \<open>The table T of the RFC: the integer part of \<open>4294967296 * abs (sin i)\<close>, from 1.\<close>

definition rfc1321_T :: "u32 list" where
  "rfc1321_T =
    [0xd76aa478, 0xe8c7b756, 0x242070db, 0xc1bdceee, 0xf57c0faf, 0x4787c62a, 0xa8304613, 0xfd469501,
     0x698098d8, 0x8b44f7af, 0xffff5bb1, 0x895cd7be, 0x6b901122, 0xfd987193, 0xa679438e, 0x49b40821,
     0xf61e2562, 0xc040b340, 0x265e5a51, 0xe9b6c7aa, 0xd62f105d, 0x02441453, 0xd8a1e681, 0xe7d3fbc8,
     0x21e1cde6, 0xc33707d6, 0xf4d50d87, 0x455a14ed, 0xa9e3e905, 0xfcefa3f8, 0x676f02d9, 0x8d2a4c8a,
     0xfffa3942, 0x8771f681, 0x6d9d6122, 0xfde5380c, 0xa4beea44, 0x4bdecfa9, 0xf6bb4b60, 0xbebfbc70,
     0x289b7ec6, 0xeaa127fa, 0xd4ef3085, 0x04881d05, 0xd9d4d039, 0xe6db99e5, 0x1fa27cf8, 0xc4ac5665,
     0xf4292244, 0x432aff97, 0xab9423a7, 0xfc93a039, 0x655b59c3, 0x8f0ccc92, 0xffeff47d, 0x85845dd1,
     0x6fa87e4f, 0xfe2ce6e0, 0xa3014314, 0x4e0811a1, 0xf7537e82, 0xbd3af235, 0x2ad7d2bb, 0xeb86d391]"

text \<open>Operation \<open>t\<close> of 64: its function, the word it takes and its shift.\<close>

definition rfc1321_f :: "nat \<Rightarrow> u32 \<Rightarrow> u32 \<Rightarrow> u32 \<Rightarrow> u32" where
  "rfc1321_f t x y z =
     (if t < 16 then (x AND y) OR (NOT x AND z) else if t < 32 then (x AND z) OR (y AND NOT z)
      else if t < 48 then x XOR y XOR z else y XOR (x OR NOT z))"

definition rfc1321_k :: "nat \<Rightarrow> nat" where
  "rfc1321_k t = (if t < 16 then t else if t < 32 then (5 * t + 1) mod 16
                  else if t < 48 then (3 * t + 5) mod 16 else (7 * t) mod 16)"

definition rfc1321_s :: "nat \<Rightarrow> nat" where
  "rfc1321_s t = (if t < 16 then [7, 12, 17, 22] else if t < 32 then [5, 9, 14, 20]
                  else if t < 48 then [4, 11, 16, 23] else [6, 10, 15, 21]) ! (t mod 4)"

definition rfc1321_op :: "u32 list \<Rightarrow> nat \<Rightarrow> md5_regs \<Rightarrow> md5_regs" where
  "rfc1321_op X t = (\<lambda>(a, b, c, d).
     (d, b + rol (a + rfc1321_f t b c d + X ! rfc1321_k t + rfc1321_T ! t) (rfc1321_s t), b, c))"

definition rfc1321_block :: "bytes \<Rightarrow> md5_regs \<Rightarrow> md5_regs" where
  "rfc1321_block blk = (\<lambda>(A, B, C, D).
     case fold (rfc1321_op (md5_words blk)) [0..<64] (A, B, C, D) of
       (a, b, c, d) \<Rightarrow> (A + a, B + b, C + c, D + d))"

definition rfc1321_blocks :: "bytes \<Rightarrow> md5_regs \<Rightarrow> md5_regs" where
  "rfc1321_blocks m = fold (\<lambda>i. rfc1321_block (take 64 (drop (64 * i) m))) [0..<length m div 64]"

definition rfc1321 :: "bytes \<Rightarrow> bytes" where
  "rfc1321 m = md5_digest (rfc1321_blocks (rfc1321_pad m) (0x67452301, 0xefcdab89, 0x98badcfe, 0x10325476))"

subsection \<open>Blocks\<close>

definition rfc1321_row :: "nat \<Rightarrow> nat \<times> nat \<times> u32" where
  "rfc1321_row t = (rfc1321_k t, rfc1321_s t, rfc1321_T ! t)"

text \<open>The unrolled rounds of the code are the rows the RFC describes.\<close>

lemma md5_rounds:
  "md5_round1 = map rfc1321_row [0..<16]" "md5_round2 = map rfc1321_row [16..<32]"
  "md5_round3 = map rfc1321_row [32..<48]" "md5_round4 = map rfc1321_row [48..<64]"
  by code_simp+

lemma md5_set_row:
  "(\<And>y z w. f y z w = rfc1321_f t y z w) \<Longrightarrow> md5_set f x (rfc1321_row t) = rfc1321_op x t"
  by (auto simp: fun_eq_iff md5_set_def rfc1321_row_def rfc1321_op_def Let_def add.commute)

lemma fold_rows:
  assumes "\<And>t y z w. lo \<le> t \<Longrightarrow> t < hi \<Longrightarrow> f y z w = rfc1321_f t y z w"
  shows "fold (md5_set f x) (map rfc1321_row [lo..<hi]) regs = fold (rfc1321_op x) [lo..<hi] regs"
  by (simp add: fold_map comp_def, rule fold_cong) (auto simp: assms intro!: md5_set_row)

lemma fold_upt_append: "lo \<le> mid \<Longrightarrow> mid \<le> hi \<Longrightarrow> fold f [mid..<hi] (fold f [lo..<mid] s) = fold f [lo..<hi] s"
  using fold_append [of f "[lo..<mid]" "[mid..<hi]"] upt_add_eq_append [of lo mid "hi - mid"] by simp

lemma process_block: "md5_process abcd data = rfc1321_block data abcd"
proof -
  let ?x = "md5_words data"
  have "fold (md5_set md5_F ?x) md5_round1 r = fold (rfc1321_op ?x) [0..<16] r"
    "fold (md5_set md5_G ?x) md5_round2 r = fold (rfc1321_op ?x) [16..<32] r"
    "fold (md5_set md5_H ?x) md5_round3 r = fold (rfc1321_op ?x) [32..<48] r"
    "fold (md5_set md5_I ?x) md5_round4 r = fold (rfc1321_op ?x) [48..<64] r" for r
    unfolding md5_rounds by (rule fold_rows; simp add: md5_F_def md5_G_def md5_H_def md5_I_def rfc1321_f_def)+
  moreover have "fold f [16..<32] (fold f [0..<16] r) = fold f [0..<32] r"
    "fold f [32..<48] (fold f [0..<32] r) = fold f [0..<48] r"
    "fold f [48..<64] (fold f [0..<48] r) = fold f [0..<64] r" for f :: "nat \<Rightarrow> md5_regs \<Rightarrow> md5_regs" and r
    by (rule fold_upt_append; simp)+
  ultimately have rounds: "fold (md5_set md5_I ?x) md5_round4 (fold (md5_set md5_H ?x) md5_round3
      (fold (md5_set md5_G ?x) md5_round2 (fold (md5_set md5_F ?x) md5_round1 r))) = fold (rfc1321_op ?x) [0..<64] r" for r
    by (simp only:)
  show ?thesis
    by (cases abcd) (simp only: md5_process_def rfc1321_block_def Let_def rounds prod.case)
qed

lemma blocks_Nil: "length p < 64 \<Longrightarrow> md5_blocks h p = (h, p)"
  by (simp add: md5_blocks.simps)

lemma blocks_append: "md5_blocks h (m @ d) = (let (h', r) = md5_blocks h m in md5_blocks h' (r @ d))"
proof (induction h m rule: md5_blocks.induct)
  case (1 h m)
  then show ?case
    by (cases "64 \<le> length m") (simp_all add: md5_blocks.simps [of h m] md5_blocks.simps [of h "m @ d"] blocks_Nil)
qed

lemma blocks_rest: "snd (md5_blocks h m) = drop (64 * (length m div 64)) m"
proof (induction h m rule: md5_blocks.induct)
  case (1 h m)
  then show ?case
    by (cases "64 \<le> length m")
      (simp_all add: md5_blocks.simps [of h m] blocks_Nil drop_drop le_div_geq add.commute)
qed

lemma blocks_rfc: "fst (md5_blocks h m) = rfc1321_blocks m h"
proof (induction h m rule: md5_blocks.induct)
  case (1 h m)
  show ?case
  proof (cases "64 \<le> length m")
    case True
    then have n: "length m div 64 = Suc (length (drop 64 m) div 64)" by (simp add: le_div_geq)
    have "[0..<Suc k] = 0 # map Suc [0..<k]" for k by (simp add: map_Suc_upt upt_conv_Cons del: upt_Suc)
    then have "rfc1321_blocks m h = rfc1321_blocks (drop 64 m) (rfc1321_block (take 64 m) h)"
      unfolding rfc1321_blocks_def n by (simp add: fold_map comp_def drop_drop add.commute del: upt_Suc)
    with 1 True show ?thesis by (simp add: md5_blocks.simps [of h m] process_block)
  qed (simp add: blocks_Nil rfc1321_blocks_def)
qed

subsection \<open>The state\<close>

text \<open>The state that has taken the message \<open>m\<close>.\<close>

definition md5_taken :: "bytes \<Rightarrow> md5_state \<Rightarrow> bool" where
  "md5_taken m pms \<longleftrightarrow> length (md5_buf pms) = 64
     \<and> md5_count pms = (word_of_nat (8 * length m), word_of_nat (8 * length m div 2 ^ 32))
     \<and> md5_blocks md5_start m = (md5_abcd pms, take (length m mod 64) (md5_buf pms))"

lemma md5_taken_init: "length buf = 64 \<Longrightarrow> md5_taken [] (md5_init buf)"
  by (simp add: md5_taken_def md5_init_def blocks_Nil)

lemma sum_wraps: "x < c \<Longrightarrow> y < c \<Longrightarrow> (x + y) mod c < y \<longleftrightarrow> c \<le> x + y" for x y c :: nat
  by (cases "x + y < c") (auto simp: le_mod_geq)

lemma carry_iff: "(a :: u32) + b < b \<longleftrightarrow> 2 ^ 32 \<le> unat a + unat b"
  using sum_wraps [of "unat a" "2 ^ 32" "unat b"] unsigned_less [of a] unsigned_less [of b]
  by (simp add: word_less_nat_alt unat_word_ariths)

lemma count_add:
  "md5_count_add n (word_of_nat (8 * k), word_of_nat (8 * k div 2 ^ 32)) =
     (word_of_nat (8 * (k + n)), word_of_nat (8 * (k + n) div 2 ^ 32))"
proof -
  let ?c = "2 ^ 32 :: nat"
  have "(8 * k + 8 * n) div ?c = 8 * k div ?c + 8 * n div ?c + (8 * k mod ?c + 8 * n mod ?c) div ?c"
    by (rule div_add1_eq)
  moreover have "8 * n div ?c = n div 2 ^ 29"
    using div_mult_mult1 [of 8 n "2 ^ 29 :: nat"] by simp
  moreover have "x div ?c = (if ?c \<le> x then 1 else 0)" if "x < ?c + ?c" for x
    using that by (auto simp: div_nat_eqI)
  ultimately have "8 * (k + n) div ?c = 8 * k div ?c + n div 2 ^ 29 + (if ?c \<le> 8 * k mod ?c + 8 * n mod ?c then 1 else 0)"
    by (simp add: distrib_left add_strict_mono)
  moreover have "unat (word_of_nat x :: u32) = x mod ?c" for x
    by (simp add: unsigned_of_nat take_bit_eq_mod)
  ultimately show ?thesis
    unfolding md5_count_add_def Let_def prod.case carry_iff by (simp add: algebra_simps del: of_nat_mult)
qed

lemma count_offset: "unat (drop_bit 3 (word_of_nat (8 * n) :: u32) AND 63) = n mod 64"
proof -
  have "w AND 63 = take_bit 6 w" for w :: u32 by (simp add: take_bit_eq_mask mask_eq_exp_minus_1)
  then have "unat (drop_bit 3 w AND 63) = unat w div 8 mod 64" for w :: u32
    by (simp only: unsigned_take_bit_eq unat_drop_bit_eq) (simp add: take_bit_eq_mod drop_bit_eq_div)
  moreover have "unat (word_of_nat (8 * n) :: u32) = 8 * (n mod 2 ^ 29)"
    using mult_mod_right [of 8 n "2 ^ 29 :: nat"] by (simp add: unsigned_of_nat take_bit_eq_mod del: of_nat_mult)
  ultimately show ?thesis by (simp add: mod_mod_cancel del: of_nat_mult)
qed

lemma length_copy_into [simp]: "offset + length p \<le> length buf \<Longrightarrow> length (copy_into offset p buf) = length buf"
  by (simp add: copy_into_def)

lemma take_copy_into: "offset + length p \<le> length buf \<Longrightarrow> take (offset + length p) (copy_into offset p buf) = take offset buf @ p"
  by (simp add: copy_into_def)

lemma length_blocks_rest: "md5_blocks h m = (h', r) \<Longrightarrow> length r = length m mod 64"
  using blocks_rest [of h m] by (simp add: minus_mult_div_eq_mod)

lemma md5_takenI:
  "md5_blocks md5_start m = (md5_abcd pms, p) \<Longrightarrow> take (length p) (md5_buf pms) = p \<Longrightarrow> length (md5_buf pms) = 64 \<Longrightarrow>
    md5_count pms = (word_of_nat (8 * length m), word_of_nat (8 * length m div 2 ^ 32)) \<Longrightarrow> md5_taken m pms"
  unfolding md5_taken_def using length_blocks_rest [of md5_start m "md5_abcd pms" p] by metis

text \<open>A state that has taken the message goes on to have taken what is appended.\<close>

lemma append_taken:
  assumes "md5_taken m pms"
  shows "md5_taken (m @ data) (md5_append pms data)"
proof (cases "data = []")
  case True
  with assms show ?thesis by (simp add: md5_append_def Let_def)
next
  case False
  let ?off = "length m mod 64" and ?h = "md5_abcd pms" and ?buf = "md5_buf pms"
  let ?copy = "if ?off + length data > 64 then 64 - ?off else length data"
  let ?count = "(word_of_nat (8 * length (m @ data)), word_of_nat (8 * length (m @ data) div 2 ^ 32)) :: u32 \<times> u32"
  have taken: "length ?buf = 64" "md5_count pms = (word_of_nat (8 * length m), word_of_nat (8 * length m div 2 ^ 32))"
    "md5_blocks md5_start m = (?h, take ?off ?buf)"
    using assms by (simp_all add: md5_taken_def del: of_nat_mult)
  have off: "unat (drop_bit 3 (fst (md5_count pms)) AND 63) = ?off"
    unfolding taken(2) fst_conv by (rule count_offset)
  have count: "md5_count_add (length data) (md5_count pms) = ?count"
    unfolding taken(2) count_add by simp
  have blocks: "md5_blocks md5_start (m @ data) = md5_blocks ?h (take ?off ?buf @ data)"
    unfolding blocks_append [of md5_start m] taken(3) by simp
  have full: "md5_taken (m @ data) (pms\<lparr>md5_count := ?count, md5_abcd := abcd, md5_buf := copy_into 0 p buf\<rparr>)"
    if "md5_blocks md5_start (m @ data) = (abcd, p)" and "length buf = 64" for abcd p buf
  proof -
    have "length p = length (m @ data) mod 64" using length_blocks_rest [OF that(1)] .
    then have "length p \<le> 64" using mod_less_divisor [of 64 "length (m @ data)"] by linarith
    with that(2) have buf: "take (length p) (copy_into 0 p buf) = p" "length (copy_into 0 p buf) = 64"
      using take_copy_into [of 0 p buf] by auto
    show ?thesis
      by (rule md5_takenI [where p = p]) (use that(1) buf in simp_all)
  qed
  show ?thesis
  proof (cases "?off + length data < 64")
    case True
    have b: "md5_blocks md5_start (m @ data) = (?h, take ?off ?buf @ data)"
      using True taken(1) by (simp add: blocks blocks_Nil)
    show ?thesis
    proof (cases "?off = 0")
      case False
      with True \<open>data \<noteq> []\<close> have "md5_append pms data = pms\<lparr>md5_count := ?count, md5_buf := copy_into ?off data ?buf\<rparr>"
        unfolding md5_append_def Let_def off count by simp
      with True taken(1) b take_copy_into [of ?off data ?buf] show ?thesis
        by (intro md5_takenI [where p = "take ?off ?buf @ data"]) (simp_all del: of_nat_mult length_append, simp_all)
    next
      case zero: True
      with b full [of ?h data ?buf] \<open>data \<noteq> []\<close> True taken(1) show ?thesis
        unfolding md5_append_def Let_def off count by (simp add: blocks_Nil del: of_nat_mult)
    qed
  next
    case big: False
    show ?thesis
    proof (cases "?off = 0")
      case False
      let ?buf' = "copy_into ?off (take (64 - ?off) data) ?buf"
      have buf': "?buf' = take 64 (take ?off ?buf @ data)" "length ?buf' = 64"
        using big taken(1) by (simp_all add: copy_into_def)
      obtain abcd p where ap: "md5_blocks (md5_process ?h ?buf') (drop (64 - ?off) data) = (abcd, p)" by fastforce
      have "md5_blocks ?h (take ?off ?buf @ data) = md5_blocks (md5_process ?h ?buf') (drop (64 - ?off) data)"
        using big taken(1) by (subst md5_blocks.simps) (simp add: buf'(1))
      with ap blocks have ap': "md5_blocks md5_start (m @ data) = (abcd, p)" by simp
      from big have copy: "?copy = 64 - ?off" by auto
      have "md5_append pms data = pms\<lparr>md5_count := ?count, md5_abcd := abcd, md5_buf := copy_into 0 p ?buf'\<rparr>"
        unfolding md5_append_def Let_def off count copy using False \<open>data \<noteq> []\<close> by (simp add: ap)
      with full [OF ap' buf'(2)] show ?thesis by simp
    next
      case True
      obtain abcd p where ap: "md5_blocks ?h data = (abcd, p)" by fastforce
      with True blocks full [OF _ taken(1)] \<open>data \<noteq> []\<close> show ?thesis
        unfolding md5_append_def Let_def off count by (simp del: of_nat_mult)
    qed
  qed
qed

text \<open>The digest.\<close>

lemma count_octets:
  "le_bytes 4 (word_of_nat n :: u32) @ le_bytes 4 (word_of_nat (n div 2 ^ 32) :: u32) = le_bytes 8 (word_of_nat n :: u64)"
proof (rule nth_equalityI)
  fix i assume "i < length (le_bytes 4 (word_of_nat n :: u32) @ le_bytes 4 (word_of_nat (n div 2 ^ 32) :: u32))"
  then have i: "i < 8" by simp
  have half: "bit (n div 4294967296) k = bit n (32 + k)" for k
    using drop_bit_eq_div [of 32 n] bit_drop_bit_eq [of 32 n] by (simp add: fun_eq_iff)
  have low: "32 + (8 * (i - 4) + k) = 8 * i + k" "8 * (i - 4) + k < 32" if "\<not> i < 4" "k < 8" for k
    using that i by linarith+
  show "(le_bytes 4 (word_of_nat n :: u32) @ le_bytes 4 (word_of_nat (n div 2 ^ 32) :: u32)) ! i = le_bytes 8 (word_of_nat n :: u64) ! i"
  proof (rule bit_word_eqI)
    fix k assume "k < LENGTH(8)"
    with i show "bit ((le_bytes 4 (word_of_nat n :: u32) @ le_bytes 4 (word_of_nat (n div 2 ^ 32) :: u32)) ! i) k
        = bit (le_bytes 8 (word_of_nat n :: u64) ! i) k"
      by (cases "i < 4") (simp_all add: nth_append bit_nth_le_bytes bit_of_nat_iff bit_nat_iff half low)
  qed
qed simp

lemma diff_mod_64: "x < 2 ^ 32 \<Longrightarrow> 55 < x \<Longrightarrow> (55 + 2 ^ 32 - x) mod 64 = (119 - x mod 64) mod 64" for x :: nat
proof -
  assume x: "x < 2 ^ 32" "55 < x"
  define q r where "q = x div 64" and "r = x mod 64"
  have "x = 64 * q + r" "r < 64" by (simp_all add: q_def r_def)
  moreover from this x have "q < 2 ^ 26" by simp
  ultimately have "55 + 2 ^ 32 - x = (119 - r) + 64 * (2 ^ 26 - 1 - q)" by simp
  then show ?thesis unfolding r_def [symmetric] by (simp only: mod_mult_self2)
qed

lemma pad_length: "unat (take_bit 6 (55 - w :: u32)) = (119 - unat w mod 64) mod 64"
proof (cases "unat w \<le> 55")
  case True
  then have "unat (55 - w) = 55 - unat w" by (simp add: unat_sub_if')
  moreover have "(55 - x) mod 64 = (119 - x) mod 64" if "x \<le> 55" for x :: nat
    using that by (simp add: mod_if)
  ultimately show ?thesis
    using True by (simp only: unsigned_take_bit_eq) (simp add: take_bit_eq_mod)
next
  case False
  then have "unat (55 - w) = 55 + 2 ^ 32 - unat w" by (simp add: unat_sub_if')
  then show ?thesis
    using False diff_mod_64 [of "unat w"] unsigned_less [of w] by (simp only: unsigned_take_bit_eq) (simp add: take_bit_eq_mod)
qed

lemma pad_octets:
  "take (unat (((55 - drop_bit 3 (word_of_nat (8 * n))) AND 63) + 1 :: u32)) md5_pad
     = 0x80 # replicate ((119 - n mod 64) mod 64) 0"
proof -
  let ?w = "drop_bit 3 (word_of_nat (8 * n)) :: u32"
  have mask: "w AND 63 = take_bit 6 w" for w :: u32 by (simp add: take_bit_eq_mask mask_eq_exp_minus_1)
  have "unat ?w mod 64 = n mod 64"
    using count_offset [of n] unfolding mask unsigned_take_bit_eq by (simp add: take_bit_eq_mod)
  then have "unat (take_bit 6 (55 - ?w)) = (119 - n mod 64) mod 64" unfolding pad_length by simp
  moreover have "(119 - n mod 64) mod 64 \<le> 63" using mod_less_divisor [of 64 "119 - n mod 64"] by linarith
  ultimately have "unat (take_bit 6 (55 - ?w) + 1) = Suc ((119 - n mod 64) mod 64)"
    and "(119 - n mod 64) mod 64 \<le> 63" by (simp_all add: unat_word_ariths del: of_nat_mult)
  then show ?thesis unfolding mask by (simp add: md5_pad_def take_Cons' del: of_nat_mult)
qed

lemma finish_taken:
  assumes "md5_taken m pms"
  shows "md5_finish pms = rfc1321 m"
proof -
  let ?n = "length m" and ?u = "word_of_nat (8 * length m) :: u64"
  let ?pad = "0x80 # replicate ((119 - ?n mod 64) mod 64) 0 :: bytes"
  have count: "md5_count pms = (word_of_nat (8 * ?n), word_of_nat (8 * ?n div 2 ^ 32))"
    using assms unfolding md5_taken_def by blast
  have "md5_taken (rfc1321_pad m) (md5_append (md5_append pms ?pad) (le_bytes 8 ?u))"
    using append_taken [OF append_taken [OF assms], of ?pad "le_bytes 8 ?u"]
    unfolding rfc1321_pad_def by simp
  then have "fst (md5_blocks md5_start (rfc1321_pad m)) = md5_abcd (md5_append (md5_append pms ?pad) (le_bytes 8 ?u))"
    by (simp add: md5_taken_def)
  moreover have "md5_start = (0x67452301, 0xefcdab89, 0x98badcfe, 0x10325476)" by (simp add: md5_start_def t_mask_def)
  ultimately show ?thesis
    unfolding md5_finish_def count prod.case Let_def count_octets pad_octets rfc1321_def blocks_rfc by simp
qed

subsection \<open>Properties\<close>

lemma hash_string_rfc: "length buf = 64 \<Longrightarrow> md5_hash_string buf s = rfc1321 s"
  using finish_taken [OF append_taken [OF md5_taken_init]] by (simp add: md5_hash_string_def)

lemma fold_append_taken: "md5_taken m pms \<Longrightarrow> md5_taken (m @ concat ds) (fold (\<lambda>d s. md5_append s d) ds pms)"
proof (induction ds arbitrary: m pms)
  case (Cons d ds)
  from Cons.IH [OF append_taken [OF Cons.prems, of d]] show ?case by simp
qed simp

text \<open>C17. The code computes the MD5 digest of RFC 1321 of every message, given to it in whatever pieces:
the unrolled rounds, the block buffer and the 64-bit count in two words implement the padding and the
blocks of the RFC, whatever the uninitialised buffer holds.\<close>

theorem md5_correct:
  assumes "length buf = 64"
  shows "md5_finish (fold (\<lambda>d pms. md5_append pms d) ds (md5_init buf)) = rfc1321 (concat ds)"
  using finish_taken [OF fold_append_taken [OF md5_taken_init [OF assms], of ds]] by simp

theorem md5_correct_witness:
  "md5_finish (fold (\<lambda>d pms. md5_append pms d) [[0x61], [], [0x62, 0x63]] (md5_init (replicate 64 7))) = rfc1321 [0x61, 0x62, 0x63]"
  using md5_correct [of "replicate 64 7" "[[0x61], [], [0x62, 0x63]]"] by simp

end
