(* ===== verification/WsFrame.thy ===== *)
theory WsFrame imports Octets begin

text \<open>
  WebSocket frames, \<open>websocketpp/frame.hpp\<close>: the two header structs, their bit fields and lengths,
  and the four masking routines. Opcodes are the values of an \<open>enum\<close>, here \<open>int\<close>.
\<close>

subsection \<open>Opcodes and limits\<close>

type_synonym opcode = int

abbreviation "op_continuation \<equiv> (0x0 :: opcode)"
abbreviation "op_text \<equiv> (0x1 :: opcode)"
abbreviation "op_binary \<equiv> (0x2 :: opcode)"
abbreviation "op_close \<equiv> (0x8 :: opcode)"
abbreviation "op_ping \<equiv> (0x9 :: opcode)"
abbreviation "op_pong \<equiv> (0xA :: opcode)"

definition reserved :: "opcode \<Rightarrow> bool" where
  "reserved v \<longleftrightarrow> (v \<ge> 0x3 \<and> v \<le> 0x7) \<or> (v \<ge> 0xB \<and> v \<le> 0xF)"

definition invalid :: "opcode \<Rightarrow> bool" where
  "invalid v \<longleftrightarrow> v > 0xF \<or> v < 0"

definition is_control :: "opcode \<Rightarrow> bool" where
  "is_control v \<longleftrightarrow> v \<ge> 0x8"

definition payload_size_basic :: u8 where "payload_size_basic = 125"
definition payload_size_extended :: u16 where "payload_size_extended = 0xFFFF"
definition payload_size_jumbo :: u64 where "payload_size_jumbo = 0x7FFFFFFFFFFFFFFF"
definition close_reason_size :: u8 where "close_reason_size = 123"

definition BASIC_HEADER_LENGTH :: nat where "BASIC_HEADER_LENGTH = 2"
definition MAX_HEADER_LENGTH :: nat where "MAX_HEADER_LENGTH = 14"
definition MAX_EXTENDED_HEADER_LENGTH :: nat where "MAX_EXTENDED_HEADER_LENGTH = 12"

definition BHB0_OPCODE :: u8 where "BHB0_OPCODE = 0x0F"
definition BHB0_RSV3 :: u8 where "BHB0_RSV3 = 0x10"
definition BHB0_RSV2 :: u8 where "BHB0_RSV2 = 0x20"
definition BHB0_RSV1 :: u8 where "BHB0_RSV1 = 0x40"
definition BHB0_FIN :: u8 where "BHB0_FIN = 0x80"
definition BHB1_PAYLOAD :: u8 where "BHB1_PAYLOAD = 0x7F"
definition BHB1_MASK :: u8 where "BHB1_MASK = 0x80"
definition payload_size_code_16bit :: u8 where "payload_size_code_16bit = 0x7E"
definition payload_size_code_64bit :: u8 where "payload_size_code_64bit = 0x7F"

lemmas limit_defs = payload_size_basic_def payload_size_extended_def payload_size_jumbo_def
  close_reason_size_def BASIC_HEADER_LENGTH_def MAX_HEADER_LENGTH_def MAX_EXTENDED_HEADER_LENGTH_def
  payload_size_code_16bit_def payload_size_code_64bit_def

lemmas bhb_defs = BHB0_OPCODE_def BHB0_RSV3_def BHB0_RSV2_def BHB0_RSV1_def BHB0_FIN_def
  BHB1_PAYLOAD_def BHB1_MASK_def

subsection \<open>Headers\<close>

record basic_header =
  b0 :: u8
  b1 :: u8

definition flag :: "bool \<Rightarrow> u8 \<Rightarrow> u8" where
  "flag b m = (if b then m else 0)"

definition basic_size_code :: "u64 \<Rightarrow> u8" where
  "basic_size_code sz =
     (if sz \<le> ucast payload_size_basic then ucast sz
      else if sz \<le> ucast payload_size_extended then payload_size_code_16bit
      else payload_size_code_64bit)"

definition new_basic_header ::
  "opcode \<Rightarrow> u64 \<Rightarrow> bool \<Rightarrow> bool \<Rightarrow> bool \<Rightarrow> bool \<Rightarrow> bool \<Rightarrow> basic_header" where
  "new_basic_header opc sz fin masked rsv1 rsv2 rsv3 =
     \<lparr>b0 = flag fin BHB0_FIN OR flag rsv1 BHB0_RSV1 OR flag rsv2 BHB0_RSV2 OR flag rsv3 BHB0_RSV3
           OR (word_of_int opc AND BHB0_OPCODE),
      b1 = flag masked BHB1_MASK OR basic_size_code sz\<rparr>"

text \<open>The \<open>bytes\<close> array of the \<open>extended_header\<close> struct, always 12 octets.\<close>

type_synonym extended_header = bytes

text \<open>\<open>std::copy\<close> onto an array at an offset.\<close>

definition copy_at :: "nat \<Rightarrow> bytes \<Rightarrow> bytes \<Rightarrow> bytes" where
  "copy_at off src dst = take off dst @ src @ drop (off + length src) dst"

definition copy_payload :: "u64 \<Rightarrow> bytes \<Rightarrow> nat \<times> bytes" where
  "copy_payload payload_size dst =
     (let payload_offset = (if payload_size \<le> ucast payload_size_basic then 8
                            else if payload_size \<le> ucast payload_size_extended then 6 else 0);
          c = le_bytes 8 (htonll payload_size)
      in (8 - payload_offset, copy_at 0 (drop payload_offset c) dst))"

definition empty_extended_header :: extended_header where
  "empty_extended_header = replicate MAX_EXTENDED_HEADER_LENGTH 0"

definition extended_header_of :: "u64 \<Rightarrow> extended_header" where
  "extended_header_of payload_size = snd (copy_payload payload_size empty_extended_header)"

definition extended_header_key :: "u64 \<Rightarrow> u32 \<Rightarrow> extended_header" where
  "extended_header_key payload_size masking_key =
     (let (off, bs) = copy_payload payload_size empty_extended_header
      in copy_at off (le_bytes 4 masking_key) bs)"

definition get_fin :: "basic_header \<Rightarrow> bool" where
  "get_fin h \<longleftrightarrow> b0 h AND BHB0_FIN = BHB0_FIN"
definition set_fin :: "basic_header \<Rightarrow> bool \<Rightarrow> basic_header" where
  "set_fin h v = h\<lparr>b0 := if v then b0 h OR BHB0_FIN else b0 h AND NOT BHB0_FIN\<rparr>"
definition get_rsv1 :: "basic_header \<Rightarrow> bool" where
  "get_rsv1 h \<longleftrightarrow> b0 h AND BHB0_RSV1 = BHB0_RSV1"
definition set_rsv1 :: "basic_header \<Rightarrow> bool \<Rightarrow> basic_header" where
  "set_rsv1 h v = h\<lparr>b0 := if v then b0 h OR BHB0_RSV1 else b0 h AND NOT BHB0_RSV1\<rparr>"
definition get_rsv2 :: "basic_header \<Rightarrow> bool" where
  "get_rsv2 h \<longleftrightarrow> b0 h AND BHB0_RSV2 = BHB0_RSV2"
definition set_rsv2 :: "basic_header \<Rightarrow> bool \<Rightarrow> basic_header" where
  "set_rsv2 h v = h\<lparr>b0 := if v then b0 h OR BHB0_RSV2 else b0 h AND NOT BHB0_RSV2\<rparr>"
definition get_rsv3 :: "basic_header \<Rightarrow> bool" where
  "get_rsv3 h \<longleftrightarrow> b0 h AND BHB0_RSV3 = BHB0_RSV3"
definition set_rsv3 :: "basic_header \<Rightarrow> bool \<Rightarrow> basic_header" where
  "set_rsv3 h v = h\<lparr>b0 := if v then b0 h OR BHB0_RSV3 else b0 h AND NOT BHB0_RSV3\<rparr>"

definition get_opcode :: "basic_header \<Rightarrow> opcode" where
  "get_opcode h = uint (b0 h AND BHB0_OPCODE)"
definition get_masked :: "basic_header \<Rightarrow> bool" where
  "get_masked h \<longleftrightarrow> b1 h AND BHB1_MASK = BHB1_MASK"
definition set_masked :: "basic_header \<Rightarrow> bool \<Rightarrow> basic_header" where
  "set_masked h v = h\<lparr>b1 := if v then b1 h OR BHB1_MASK else b1 h AND NOT BHB1_MASK\<rparr>"
definition get_basic_size :: "basic_header \<Rightarrow> u8" where
  "get_basic_size h = b1 h AND BHB1_PAYLOAD"

definition get_masking_key_offset :: "basic_header \<Rightarrow> nat" where
  "get_masking_key_offset h =
     (if get_basic_size h = payload_size_code_16bit then 2
      else if get_basic_size h = payload_size_code_64bit then 8 else 0)"

definition get_header_len :: "basic_header \<Rightarrow> nat" where
  "get_header_len h =
     (let sz = BASIC_HEADER_LENGTH + get_masking_key_offset h
      in if get_masked h then sz + 4 else sz)"

definition prepare_header :: "basic_header \<Rightarrow> extended_header \<Rightarrow> bytes" where
  "prepare_header h e = [b0 h, b1 h] @ take (get_header_len h - BASIC_HEADER_LENGTH) e"

text \<open>A masking key is the union \<open>uint32_converter\<close>, kept as its integer; \<open>key.c\<close> is \<open>le_bytes 4 key\<close>.\<close>

definition get_masking_key :: "basic_header \<Rightarrow> extended_header \<Rightarrow> u32" where
  "get_masking_key h e =
     (if \<not> get_masked h then 0
      else of_le (take 4 (drop (get_masking_key_offset h) e)))"

definition get_extended_size :: "extended_header \<Rightarrow> u16" where
  "get_extended_size e = ntohs (of_le (take 2 e))"

definition get_jumbo_size :: "extended_header \<Rightarrow> u64" where
  "get_jumbo_size e = ntohll (of_le (take 8 e))"

definition get_payload_size :: "basic_header \<Rightarrow> extended_header \<Rightarrow> u64" where
  "get_payload_size h e =
     (let val = get_basic_size h in
      if val \<le> payload_size_basic then ucast val
      else if val = payload_size_code_16bit then ucast (get_extended_size e)
      else get_jumbo_size e)"

subsection \<open>Masking\<close>

definition prepare_masking_key :: "u32 \<Rightarrow> u64" where
  "prepare_masking_key key =
     (let low_bits = ucast key; high_bits = ucast key
      in push_bit 32 high_bits OR low_bits)"

definition circshift_prepared_key :: "u64 \<Rightarrow> nat \<Rightarrow> u64" where
  "circshift_prepared_key prepared_key off =
     (if off = 0 then prepared_key
      else if is_little_endian then
        (let temp = push_bit ((8 - off) * 8) prepared_key
         in drop_bit (off * 8) prepared_key OR temp)
      else
        (let temp = drop_bit ((8 - off) * 8) prepared_key
         in push_bit (off * 8) prepared_key OR temp))"

text \<open>The iterator version reads from one sequence and writes to another.\<close>

fun byte_mask_from :: "bytes \<Rightarrow> u32 \<Rightarrow> nat \<Rightarrow> bytes" where
  "byte_mask_from [] key key_index = []"
| "byte_mask_from (b # bs) key key_index =
     (b XOR le_bytes 4 key ! key_index) # byte_mask_from bs key ((key_index + 1) mod 4)"

definition byte_mask :: "bytes \<Rightarrow> u32 \<Rightarrow> nat \<Rightarrow> bytes" where
  "byte_mask input key key_offset = byte_mask_from input key (key_offset mod 4)"

text \<open>
  The pointer versions: \<open>inp\<close> and \<open>out\<close> are addresses, equal when masking in place.
\<close>

definition mask_words :: "nat \<Rightarrow> nat \<Rightarrow> u64 \<Rightarrow> nat \<Rightarrow> memory \<Rightarrow> memory" where
  "mask_words inp out prepared_key n m =
     fold (\<lambda>i m. store64 (out + 8 * i) (load64 m (inp + 8 * i) XOR prepared_key) m) [0..<n] m"

definition mask_bytes :: "nat \<Rightarrow> nat \<Rightarrow> (nat \<Rightarrow> u8) \<Rightarrow> nat \<Rightarrow> nat \<Rightarrow> memory \<Rightarrow> memory" where
  "mask_bytes inp out key lo hi m =
     fold (\<lambda>i m. store8 (out + i) (m (inp + i) XOR key i) m) [lo..<hi] m"

definition word_mask_exact :: "nat \<Rightarrow> nat \<Rightarrow> nat \<Rightarrow> u32 \<Rightarrow> memory \<Rightarrow> memory" where
  "word_mask_exact inp out len key m =
     (let prepared_key = prepare_masking_key key;
          n = len div 8;
          m = mask_words inp out prepared_key n m
      in mask_bytes inp out (\<lambda>i. le_bytes 4 key ! (i mod 4)) (n * 8) len m)"

definition word_mask_circ :: "nat \<Rightarrow> nat \<Rightarrow> nat \<Rightarrow> u64 \<Rightarrow> memory \<Rightarrow> u64 \<times> memory" where
  "word_mask_circ inp out len prepared_key m =
     (let n = len div 8;
          l = len - n * 8;
          m = mask_words inp out prepared_key n m;
          start = len - l;
          m = mask_bytes (inp + start) (out + start) (\<lambda>i. le_bytes 8 prepared_key ! i) 0 l m
      in (circshift_prepared_key prepared_key l, m))"

definition byte_mask_circ :: "nat \<Rightarrow> nat \<Rightarrow> nat \<Rightarrow> u64 \<Rightarrow> memory \<Rightarrow> u64 \<times> memory" where
  "byte_mask_circ inp out len prepared_key m =
     (let key = (ucast prepared_key :: u32);
          m = mask_bytes inp out (\<lambda>i. le_bytes 4 key ! (i mod 4)) 0 len m
      in (circshift_prepared_key prepared_key (len mod 4), m))"

subsection \<open>Reading back a header\<close>

text \<open>
  The header of RFC 6455, section 5.2: the size in the basic header when it fits, else in the
  shortest big-endian field, and the octets of the key when the frame is masked.
\<close>

definition size_field :: "u64 \<Rightarrow> bytes" where
  "size_field sz = (if sz \<le> 125 then [] else if sz \<le> 65535 then rev (le_bytes 2 sz)
                    else rev (le_bytes 8 sz))"

definition spec_header :: "opcode \<Rightarrow> u64 \<Rightarrow> bool \<Rightarrow> u32 option \<Rightarrow> bool list \<Rightarrow> bytes" where
  "spec_header opc sz fin key rsv =
     [(if fin then 128 else 0) + (if rsv ! 0 then 64 else 0) + (if rsv ! 1 then 32 else 0)
        + (if rsv ! 2 then 16 else 0) + word_of_int opc,
      (if key = None then 0 else 128) + (if sz \<le> 125 then ucast sz else if sz \<le> 65535 then 126 else 127)]
     @ size_field sz @ (case key of None \<Rightarrow> [] | Some k \<Rightarrow> le_bytes 4 k)"

lemma size_limits:
  "ucast payload_size_basic = (125 :: u64)" "ucast payload_size_extended = (65535 :: u64)"
  by (simp_all add: limit_defs)

lemma first_byte_fields:
  assumes "0 \<le> opc" and "opc \<le> 15"
  shows "get_fin (new_basic_header opc sz fin msk r1 r2 r3) = fin
    \<and> get_rsv1 (new_basic_header opc sz fin msk r1 r2 r3) = r1
    \<and> get_rsv2 (new_basic_header opc sz fin msk r1 r2 r3) = r2
    \<and> get_rsv3 (new_basic_header opc sz fin msk r1 r2 r3) = r3
    \<and> get_opcode (new_basic_header opc sz fin msk r1 r2 r3) = opc
    \<and> b0 (new_basic_header opc sz fin msk r1 r2 r3) =
        (if fin then 128 else 0) + (if r1 then 64 else 0) + (if r2 then 32 else 0)
        + (if r3 then 16 else 0) + word_of_int opc"
proof -
  let ?b = "\<lambda>opc fin r1 r2 r3. flag fin BHB0_FIN OR flag r1 BHB0_RSV1 OR flag r2 BHB0_RSV2
              OR flag r3 BHB0_RSV3 OR (word_of_int opc AND BHB0_OPCODE)"
  have "\<forall>opc \<in> set [0..15]. \<forall>fin r1 r2 r3. let b = ?b opc fin r1 r2 r3 in
        (b AND BHB0_FIN = BHB0_FIN) = fin \<and> (b AND BHB0_RSV1 = BHB0_RSV1) = r1
      \<and> (b AND BHB0_RSV2 = BHB0_RSV2) = r2 \<and> (b AND BHB0_RSV3 = BHB0_RSV3) = r3
      \<and> uint (b AND BHB0_OPCODE) = opc
      \<and> b = (if fin then 128 else 0) + (if r1 then 64 else 0) + (if r2 then 32 else 0)
        + (if r3 then 16 else 0) + word_of_int opc"
    by code_simp
  moreover have "opc \<in> set [0..15]" using assms by simp
  ultimately show ?thesis
    unfolding new_basic_header_def get_fin_def get_rsv1_def get_rsv2_def get_rsv3_def get_opcode_def
    unfolding Let_def basic_header.select_convs by blast
qed

lemma small_size: "(sz :: u64) \<le> 125 \<Longrightarrow> (ucast sz :: u8) \<le> 125 \<and> ucast (ucast sz :: u8) = sz"
proof -
  assume "sz \<le> 125"
  then have "unat sz \<le> 125" by (simp add: word_le_nat_alt)
  then have "unat (ucast sz :: u8) = unat sz"
    by (simp add: unsigned_ucast_eq unsigned_take_bit_eq take_bit_nat_eq_self)
  moreover from this have "unat (ucast (ucast sz :: u8) :: u64) = unat sz"
    by (simp add: unsigned_ucast_eq unsigned_take_bit_eq take_bit_nat_eq_self)
  ultimately show ?thesis
    using \<open>unat sz \<le> 125\<close> unfolding word_le_nat_alt word_unat_eq_iff by simp
qed

lemma second_byte_table:
  "w \<le> 127 \<Longrightarrow> (flag b BHB1_MASK OR w) AND BHB1_PAYLOAD = w
     \<and> ((flag b BHB1_MASK OR w) AND BHB1_MASK = BHB1_MASK) = b
     \<and> flag b BHB1_MASK OR w = (if b then 128 else 0) + w"
proof -
  have "\<forall>n \<in> set [0..<2 ^ LENGTH(8)]. (\<lambda>w. w \<le> (127 :: u8) \<longrightarrow> (\<forall>b \<in> {True, False}.
       (flag b BHB1_MASK OR w) AND BHB1_PAYLOAD = w
     \<and> ((flag b BHB1_MASK OR w) AND BHB1_MASK = BHB1_MASK) = b
     \<and> flag b BHB1_MASK OR w = (if b then 128 else 0) + w)) (word_of_nat n)"
    by code_simp
  from word_all_below [OF this, of w] show "w \<le> 127 \<Longrightarrow> ?thesis" by blast
qed

lemma basic_size_code_eq:
  "basic_size_code sz = (if sz \<le> 125 then ucast sz else if sz \<le> 65535 then 126 else 127)"
  by (simp add: basic_size_code_def size_limits limit_defs)

lemma basic_size_code_le: "basic_size_code sz \<le> 127"
  using small_size [of sz] by (auto simp: basic_size_code_eq intro: order_trans)

lemma small_code: "(sz :: u64) \<le> 125 \<Longrightarrow> (ucast sz :: u8) \<noteq> 126 \<and> (ucast sz :: u8) \<noteq> 127"
  using small_size [of sz] by (auto simp: word_le_nat_alt)

lemma second_byte_fields:
  "get_masked (new_basic_header opc sz fin msk r1 r2 r3) = msk"
  "get_basic_size (new_basic_header opc sz fin msk r1 r2 r3) = basic_size_code sz"
  "b1 (new_basic_header opc sz fin msk r1 r2 r3) = (if msk then 128 else 0) + basic_size_code sz"
  using second_byte_table [OF basic_size_code_le, of msk sz]
  unfolding get_masked_def get_basic_size_def new_basic_header_def basic_header.select_convs
  by blast+

lemma size_field_length:
  "length (size_field sz) = get_masking_key_offset (new_basic_header opc sz fin msk r1 r2 r3)"
  using small_code [of sz]
  by (auto simp: size_field_def get_masking_key_offset_def second_byte_fields basic_size_code_eq
      limit_defs)

lemma take_le_bytes: "k \<le> n \<Longrightarrow> take k (le_bytes n w) = le_bytes k w"
  by (rule nth_equalityI) (simp_all add: nth_le_bytes)

lemma copy_payload_eq:
  "copy_payload sz empty_extended_header =
     (length (size_field sz), size_field sz @ replicate (12 - length (size_field sz)) 0)"
proof -
  have "drop 6 (rev (le_bytes 8 sz)) = rev (le_bytes 2 sz)"
    by (simp add: drop_rev take_le_bytes)
  moreover have "drop 8 (rev (le_bytes 8 sz)) = []" by simp
  moreover have "sz \<le> 65535" if "sz \<le> 125" using that by (auto intro: order_trans)
  ultimately show ?thesis
    by (auto simp: copy_payload_def Let_def size_limits htonll_bytes copy_at_def size_field_def
        empty_extended_header_def MAX_EXTENDED_HEADER_LENGTH_def)
qed

lemma extended_header_key_eq:
  "extended_header_key sz key =
     size_field sz @ le_bytes 4 key @ replicate (8 - length (size_field sz)) 0"
  by (simp add: extended_header_key_def copy_payload_eq copy_at_def)

lemma extended_header_of_eq:
  "extended_header_of sz = size_field sz @ replicate (12 - length (size_field sz)) 0"
  by (simp add: extended_header_of_def copy_payload_eq)

text \<open>Any extended header that starts with the size field gives the size back.\<close>

lemma get_payload_size_field:
  "get_payload_size (new_basic_header opc sz fin msk r1 r2 r3) (size_field sz @ rest) = sz"
proof -
  consider "sz \<le> 125" | "\<not> sz \<le> 125" "sz \<le> 65535" | "\<not> sz \<le> 125" "\<not> sz \<le> 65535" by blast
  then show ?thesis
  proof cases
    case 1
    then show ?thesis using small_size [OF 1]
      by (simp add: get_payload_size_def second_byte_fields basic_size_code_eq limit_defs)
  next
    case 2
    have "unat sz < 2 ^ 16" using 2 by (simp add: word_le_nat_alt)
    then have "unat (ucast (of_le (le_bytes 2 sz) :: u16) :: u64) = unat sz"
    proof -
      have "(of_le (le_bytes 2 sz) :: u16) = ucast sz"
        by (rule bit_word_eqI)
           (simp add: bit_of_le bit_nth_le_bytes bit_ucast_iff less_mult_imp_div_less)
      with \<open>unat sz < 2 ^ 16\<close> show ?thesis
        by (simp add: unsigned_ucast_eq unsigned_take_bit_eq take_bit_nat_eq_self)
    qed
    then have "ucast (of_le (le_bytes 2 sz) :: u16) = sz" by (simp add: word_unat_eq_iff)
    with 2 show ?thesis
      by (simp add: get_payload_size_def second_byte_fields basic_size_code_eq limit_defs
          size_field_def get_extended_size_def ntohs_of_le)
  next
    case 3
    then show ?thesis
      by (simp add: get_payload_size_def second_byte_fields basic_size_code_eq limit_defs
          size_field_def get_jumbo_size_def ntohll_of_le of_le_bytes)
  qed
qed

lemma get_masking_key_field:
  "get_masking_key (new_basic_header opc sz fin True r1 r2 r3) (size_field sz @ le_bytes 4 key @ rest)
     = key"
  using size_field_length [of sz opc fin True r1 r2 r3]
  by (simp add: get_masking_key_def second_byte_fields of_le_bytes)

subsection \<open>Effects of the masking loops\<close>

text \<open>Two ranges of the same length that coincide or do not meet.\<close>

definition same_or_apart :: "nat \<Rightarrow> nat \<Rightarrow> nat \<Rightarrow> bool" where
  "same_or_apart inp out len \<longleftrightarrow> inp = out \<or> inp + len \<le> out \<or> out + len \<le> inp"

lemma mask_words_effect:
  assumes "same_or_apart inp out (8 * n)"
  shows "mask_words inp out k n m a =
    (if out \<le> a \<and> a < out + 8 * n
     then m (inp + (a - out)) XOR le_bytes 8 k ! ((a - out) mod 8) else m a)"
proof -
  have "\<forall>a. mask_words inp out k i m a =
    (if out \<le> a \<and> a < out + 8 * i
     then m (inp + (a - out)) XOR le_bytes 8 k ! ((a - out) mod 8) else m a)" if "i \<le> n" for i
    using that
  proof (induction i)
    case (Suc i)
    let ?m = "mask_words inp out k i m"
    have step: "mask_words inp out k (Suc i) m =
        store64 (out + 8 * i) (load64 ?m (inp + 8 * i) XOR k) ?m"
      by (simp add: mask_words_def)
    have same: "?m (inp + 8 * i + j) = m (inp + 8 * i + j)" if "j < 8" for j
      using Suc assms that by (auto simp: same_or_apart_def)
    show ?case
    proof
      fix a
      show "mask_words inp out k (Suc i) m a =
        (if out \<le> a \<and> a < out + 8 * Suc i
         then m (inp + (a - out)) XOR le_bytes 8 k ! ((a - out) mod 8) else m a)"
      proof (cases "out + 8 * i \<le> a \<and> a < out + 8 * i + 8")
        case True
        then obtain j where j: "a = out + 8 * i + j" "j < 8"
          by (metis add_less_cancel_left le_Suc_ex)
        then have "mask_words inp out k (Suc i) m a
            = le_bytes 8 (load64 ?m (inp + 8 * i)) ! j XOR le_bytes 8 k ! j"
          by (simp add: step store64_def nth_le_bytes_xor)
        also have "\<dots> = m (inp + 8 * i + j) XOR le_bytes 8 k ! j"
          using j same by (simp add: nth_load64)
        finally show ?thesis using j by (simp add: add.assoc)
      next
        case False
        then show ?thesis using Suc by (auto simp: step store64_def)
      qed
    qed
  qed (auto simp: mask_words_def)
  then show ?thesis by blast
qed

lemma mask_bytes_effect:
  assumes "same_or_apart (inp + lo) (out + lo) (hi - lo)" and "lo \<le> hi"
  shows "mask_bytes inp out k lo hi m a =
    (if out + lo \<le> a \<and> a < out + hi then m (inp + (a - out)) XOR k (a - out) else m a)"
proof -
  have "\<forall>a. mask_bytes inp out k lo (lo + i) m a =
    (if out + lo \<le> a \<and> a < out + lo + i then m (inp + (a - out)) XOR k (a - out) else m a)"
    if "i \<le> hi - lo" for i
    using that
  proof (induction i)
    case (Suc i)
    let ?m = "mask_bytes inp out k lo (lo + i) m"
    have step: "mask_bytes inp out k lo (lo + Suc i) m =
        store8 (out + (lo + i)) (?m (inp + (lo + i)) XOR k (lo + i)) ?m"
      by (simp add: mask_bytes_def)
    have same: "?m (inp + (lo + i)) = m (inp + (lo + i))"
      using Suc assms by (auto simp: same_or_apart_def)
    show ?case
    proof
      fix a
      show "mask_bytes inp out k lo (lo + Suc i) m a =
        (if out + lo \<le> a \<and> a < out + lo + Suc i then m (inp + (a - out)) XOR k (a - out) else m a)"
        unfolding step same store8_def using Suc by auto
    qed
  qed (auto simp: mask_bytes_def)
  from this [of "hi - lo"] assms show ?thesis by simp
qed

lemma prepared_key_bytes: "i < 8 \<Longrightarrow> le_bytes 8 (prepare_masking_key key) ! i = le_bytes 4 key ! (i mod 4)"
proof (rule bit_word_eqI)
  fix k assume i: "i < 8" and k: "k < LENGTH(8)"
  show "bit (le_bytes 8 (prepare_masking_key key) ! i) k = bit (le_bytes 4 key ! (i mod 4)) k"
  proof (cases "i < 4")
    case True
    with k show ?thesis
      by (simp add: bit_nth_le_bytes prepare_masking_key_def bit_or_iff bit_push_bit_iff bit_ucast_iff)
  next
    case False
    then have "i mod 4 = i - 4" using i by (simp add: mod_if)
    then have "8 * i + k - 32 = 8 * (i mod 4) + k" "32 \<le> 8 * i + k" using False by auto
    moreover have "\<not> bit key (8 * i + k)"
      using False bit_imp_le_length [of key "8 * i + k"] by auto
    ultimately show ?thesis using i k False
      by (auto simp: bit_nth_le_bytes prepare_masking_key_def bit_or_iff bit_push_bit_iff bit_ucast_iff)
  qed
qed

lemma circshift_bytes:
  assumes "l < 8" and "i < 8"
  shows "le_bytes 8 (circshift_prepared_key k l) ! i = le_bytes 8 k ! ((i + l) mod 8)"
proof (rule bit_word_eqI)
  fix j assume j: "j < LENGTH(8)"
  show "bit (le_bytes 8 (circshift_prepared_key k l) ! i) j = bit (le_bytes 8 k ! ((i + l) mod 8)) j"
  proof (cases "i + l < 8")
    case True
    then have "\<not> (8 - l) * 8 \<le> 8 * i + j" using j by auto
    with True assms j show ?thesis
      by (auto simp: bit_nth_le_bytes circshift_prepared_key_def Let_def bit_or_iff bit_push_bit_iff
          bit_drop_bit_eq algebra_simps)
  next
    case False
    then have m: "(i + l) mod 8 = i + l - 8" using assms by (simp add: mod_if)
    from False have "8 * i + j - (8 - l) * 8 = 8 * ((i + l) mod 8) + j" "(8 - l) * 8 \<le> 8 * i + j"
      using assms unfolding m by auto
    moreover have "\<not> bit k (l * 8 + (8 * i + j))"
      using False bit_imp_le_length [of k "l * 8 + (8 * i + j)"] by auto
    moreover have "l \<noteq> 0" using False assms by auto
    ultimately show ?thesis using assms j m
      by (auto simp: bit_nth_le_bytes circshift_prepared_key_def Let_def bit_or_iff bit_push_bit_iff
          bit_drop_bit_eq)
  qed
qed

lemma nth_byte_mask_from:
  "j < 4 \<Longrightarrow> i < length bs \<Longrightarrow> byte_mask_from bs key j ! i = bs ! i XOR le_bytes 4 key ! ((j + i) mod 4)"
proof (induction bs arbitrary: j i)
  case (Cons b bs)
  have "(Suc j mod 4 + i) mod 4 = (j + Suc i) mod 4" for i by (simp add: mod_simps)
  with Cons show ?case by (cases i) auto
qed simp

lemma length_byte_mask [simp]: "length (byte_mask bs key off) = length bs"
proof -
  have "length (byte_mask_from bs key j) = length bs" for j by (induction bs arbitrary: j) simp_all
  then show ?thesis by (simp add: byte_mask_def)
qed

lemma nth_byte_mask:
  "i < length bs \<Longrightarrow> byte_mask bs key off ! i = bs ! i XOR le_bytes 4 key ! ((off + i) mod 4)"
  by (simp add: byte_mask_def nth_byte_mask_from mod_simps)

lemma same_or_apart_mono: "same_or_apart inp out len \<Longrightarrow> n + k \<le> len \<Longrightarrow> same_or_apart (inp + n) (out + n) k"
  by (auto simp: same_or_apart_def)

lemma mask_words_then_bytes:
  assumes "same_or_apart inp out len"
    and "\<And>i. i < len \<Longrightarrow> len div 8 * 8 \<le> i \<Longrightarrow> byte_key i = le_bytes 8 k ! (i mod 8)"
  shows "mask_bytes inp out byte_key (len div 8 * 8) len (mask_words inp out k (len div 8) m) a =
    (if out \<le> a \<and> a < out + len
     then m (inp + (a - out)) XOR le_bytes 8 k ! ((a - out) mod 8) else m a)"
proof -
  let ?n = "len div 8 * 8"
  have n: "?n \<le> len" by simp
  have apart: "same_or_apart inp out (8 * (len div 8))"
    using same_or_apart_mono [OF assms(1), of 0 "8 * (len div 8)"] n by simp
  note bytes = mask_bytes_effect [OF same_or_apart_mono [OF assms(1), of ?n "len - ?n"] n]
  have "mask_words inp out k (len div 8) m (inp + (a - out)) = m (inp + (a - out))"
    if "out + ?n \<le> a" "a < out + len"
    using that assms(1) by (auto simp: mask_words_effect [OF apart] same_or_apart_def)
  then show ?thesis
    using assms(2) [of "a - out"] n by (auto simp: bytes mask_words_effect [OF apart])
qed

lemma word_mask_exact_effect:
  assumes "same_or_apart inp out len"
  shows "word_mask_exact inp out len key m a =
    (if out \<le> a \<and> a < out + len
     then m (inp + (a - out)) XOR le_bytes 4 key ! ((a - out) mod 4) else m a)"
proof -
  have "le_bytes 8 (prepare_masking_key key) ! (i mod 8) = le_bytes 4 key ! (i mod 4)" for i
    using prepared_key_bytes [of "i mod 8" key] by (simp add: mod_mod_cancel)
  then show ?thesis
    unfolding word_mask_exact_def Let_def
    by (subst mask_words_then_bytes [OF assms]) simp_all
qed

lemma word_mask_circ_effect:
  assumes "same_or_apart inp out len"
  shows "snd (word_mask_circ inp out len k m) a =
    (if out \<le> a \<and> a < out + len
     then m (inp + (a - out)) XOR le_bytes 8 k ! ((a - out) mod 8) else m a)"
proof -
  let ?n = "len div 8 * 8"
  have n: "?n \<le> len" "len - (len - ?n) = ?n" by simp_all
  have shift: "mask_bytes (inp + n) (out + n) f 0 l m = mask_bytes inp out (\<lambda>i. f (i - n)) n (n + l) m"
    for n f l m
    by (induction l) (simp_all add: mask_bytes_def add.assoc)
  have "le_bytes 8 k ! (i - ?n) = le_bytes 8 k ! (i mod 8)" if "i < len" "?n \<le> i" for i
  proof -
    have "i div 8 = len div 8" using that by (metis div_le_mono div_mult_self_is_m le_antisym
        less_imp_le_nat zero_less_numeral)
    then show ?thesis by (simp add: modulo_nat_def mult.commute)
  qed
  from mask_words_then_bytes [OF assms this] show ?thesis
    unfolding word_mask_circ_def Let_def snd_conv n(2) shift using n(1) by simp
qed

lemma byte_mask_circ_effect:
  assumes "same_or_apart inp out len"
  shows "snd (byte_mask_circ inp out len k m) a =
    (if out \<le> a \<and> a < out + len
     then m (inp + (a - out)) XOR le_bytes 4 (ucast k :: u32) ! ((a - out) mod 4) else m a)"
  using assms by (simp add: byte_mask_circ_def Let_def mask_bytes_effect)

subsection \<open>Masking a stream\<close>

text \<open>
  What a receiver relies on when it masks a message piece by piece: each call XORs its range with
  the key stream of the key it is given, and returns a key whose stream goes on where it stopped.
\<close>

locale stream_mask =
  fixes step :: "nat \<Rightarrow> nat \<Rightarrow> nat \<Rightarrow> 'k \<Rightarrow> memory \<Rightarrow> 'k \<times> memory"
    and stream :: "'k \<Rightarrow> nat \<Rightarrow> u8"
    and good :: "'k \<Rightarrow> bool"
  assumes effect: "good k \<Longrightarrow> same_or_apart inp out len \<Longrightarrow> snd (step inp out len k m) a =
      (if out \<le> a \<and> a < out + len then m (inp + (a - out)) XOR stream k (a - out) else m a)"
    and keeps_good: "good k \<Longrightarrow> good (fst (step inp out len k m))"
    and advance: "good k \<Longrightarrow> stream (fst (step inp out len k m)) i = stream k (len + i)"

text \<open>Masking consecutive pieces of a buffer in place, as the frame processor does.\<close>

fun mask_pieces :: "(nat \<Rightarrow> nat \<Rightarrow> nat \<Rightarrow> 'k \<Rightarrow> memory \<Rightarrow> 'k \<times> memory) \<Rightarrow>
    nat \<Rightarrow> nat list \<Rightarrow> 'k \<Rightarrow> memory \<Rightarrow> 'k \<times> memory" where
  "mask_pieces f p [] k m = (k, m)"
| "mask_pieces f p (n # ns) k m = (let (k, m) = f p p n k m in mask_pieces f (p + n) ns k m)"

context stream_mask begin

lemma pieces_effect:
  assumes "good k"
  shows "snd (mask_pieces step p ns k m) a =
    (if p \<le> a \<and> a < p + sum_list ns then m a XOR stream k (a - p) else m a)"
  using assms
proof (induction ns arbitrary: p k m)
  case (Cons n ns)
  let ?k = "fst (step p p n k m)" and ?m = "snd (step p p n k m)"
  have "snd (mask_pieces step p (n # ns) k m) a = snd (mask_pieces step (p + n) ns ?k ?m) a"
    by (simp add: case_prod_beta)
  also have "\<dots> = (if p + n \<le> a \<and> a < p + n + sum_list ns
      then ?m a XOR stream ?k (a - (p + n)) else ?m a)"
    by (rule Cons.IH) (rule keeps_good [OF Cons.prems])
  finally show ?case
    using effect [OF Cons.prems, of p p n m] advance [OF Cons.prems, of p p n m "a - (p + n)"]
    by (auto simp: same_or_apart_def)
qed auto

lemma pieces_key:
  assumes "good k"
  shows "good (fst (mask_pieces step p ns k m))
     \<and> stream (fst (mask_pieces step p ns k m)) i = stream k (sum_list ns + i)"
  using assms
proof (induction ns arbitrary: p k m i)
  case (Cons n ns)
  then show ?case
    using Cons.IH [OF keeps_good [OF Cons.prems], of _ p p n m]
      advance [OF Cons.prems, of p p n m] by (simp add: case_prod_beta add.assoc)
qed simp

lemma pieces_twice:
  assumes "good k" and "good k'" and "stream k = stream k'" and "sum_list ns = sum_list ns'"
  shows "snd (mask_pieces step p ns' k' (snd (mask_pieces step p ns k m))) = m"
proof
  fix a
  have "(x XOR y) XOR y = x" for x y :: u8 by (simp add: xor.assoc)
  with assms show "snd (mask_pieces step p ns' k' (snd (mask_pieces step p ns k m))) a = m a"
    by (simp add: pieces_effect)
qed

end

definition periodic :: "u64 \<Rightarrow> bool" where
  "periodic k \<longleftrightarrow> (\<forall>i < 8. le_bytes 8 k ! i = le_bytes 8 k ! (i mod 4))"

lemma prepared_periodic [simp]: "periodic (prepare_masking_key key)"
  by (simp add: periodic_def prepared_key_bytes)

lemma circshift_stream:
  "l < 8 \<Longrightarrow> le_bytes 8 (circshift_prepared_key k l) ! (i mod 8) = le_bytes 8 k ! ((l + i) mod 8)"
  by (simp add: circshift_bytes mod_simps add.commute)

lemma periodic_low:
  assumes "periodic k"
  shows "le_bytes 4 (ucast k :: u32) ! (i mod 4) = le_bytes 8 k ! (i mod 8)"
proof -
  have "le_bytes 8 k ! (i mod 8) = le_bytes 8 k ! (i mod 4)"
    using assms [unfolded periodic_def, rule_format, of "i mod 8"] by (simp add: mod_mod_cancel)
  also have "\<dots> = le_bytes 4 (ucast k :: u32) ! (i mod 4)"
    by (rule bit_word_eqI) (use mod_less_divisor [of 4 i] in \<open>auto simp: bit_nth_le_bytes bit_ucast_iff\<close>)
  finally show ?thesis by simp
qed

lemma circshift_periodic:
  assumes "periodic k" and "l < 8"
  shows "periodic (circshift_prepared_key k l)"
    and "le_bytes 8 (circshift_prepared_key k l) ! (i mod 8) = le_bytes 8 k ! ((l mod 4 + i) mod 8)"
proof -
  have p: "le_bytes 8 k ! (i mod 8) = le_bytes 8 k ! (i mod 4)" for i
    using assms(1) [unfolded periodic_def, rule_format, of "i mod 8"] by (simp add: mod_mod_cancel)
  have q: "le_bytes 8 k ! ((i + l) mod 8) = le_bytes 8 k ! ((i mod 4 + l) mod 8)" for i
    using p [of "i + l"] p [of "i mod 4 + l"] by (simp add: mod_simps)
  show "periodic (circshift_prepared_key k l)"
    unfolding periodic_def
  proof (intro allI impI)
    fix i :: nat assume "i < 8"
    moreover have "i mod 4 < 8" by (rule less_trans [of _ 4]) simp_all
    ultimately show "le_bytes 8 (circshift_prepared_key k l) ! i =
        le_bytes 8 (circshift_prepared_key k l) ! (i mod 4)"
      by (simp only: circshift_bytes [OF assms(2)] q [of i])
  qed
  show "le_bytes 8 (circshift_prepared_key k l) ! (i mod 8) = le_bytes 8 k ! ((l mod 4 + i) mod 8)"
    using p [of "l + i"] p [of "l mod 4 + i"] circshift_stream [OF assms(2), of k i]
    by (simp add: mod_simps)
qed

interpretation word_stream: stream_mask word_mask_circ "\<lambda>k i. le_bytes 8 k ! (i mod 8)" "\<lambda>_. True"
proof
  fix inp out len i :: nat and m and k :: u64
  have "len - len div 8 * 8 = len mod 8" by (simp add: modulo_nat_def)
  then have "fst (word_mask_circ inp out len k m) = circshift_prepared_key k (len mod 8)"
    by (simp add: word_mask_circ_def Let_def)
  then show "le_bytes 8 (fst (word_mask_circ inp out len k m)) ! (i mod 8) = le_bytes 8 k ! ((len + i) mod 8)"
    using circshift_stream [of "len mod 8" k i] by (simp add: mod_simps)
qed (simp_all add: word_mask_circ_effect)

interpretation byte_stream: stream_mask byte_mask_circ "\<lambda>k i. le_bytes 8 k ! (i mod 8)" periodic
proof
  fix inp out len i a :: nat and m and k :: u64
  assume k: "periodic k"
  have f: "fst (byte_mask_circ inp out len k m) = circshift_prepared_key k (len mod 4)"
    by (simp add: byte_mask_circ_def Let_def)
  show "periodic (fst (byte_mask_circ inp out len k m))"
    unfolding f by (rule circshift_periodic [OF k]) (simp add: less_trans [OF mod_less_divisor])
  have "le_bytes 8 k ! ((len mod 4 + i) mod 8) = le_bytes 8 k ! ((len + i) mod 8)"
    using periodic_low [OF k, of "len mod 4 + i"] periodic_low [OF k, of "len + i"]
    by (simp add: mod_simps)
  then show "le_bytes 8 (fst (byte_mask_circ inp out len k m)) ! (i mod 8) = le_bytes 8 k ! ((len + i) mod 8)"
    unfolding f using circshift_stream [of "len mod 4" k i]
    by (simp add: less_trans [OF mod_less_divisor])
  show "same_or_apart inp out len \<Longrightarrow> snd (byte_mask_circ inp out len k m) a =
      (if out \<le> a \<and> a < out + len then m (inp + (a - out)) XOR le_bytes 8 k ! ((a - out) mod 8) else m a)"
    by (simp add: byte_mask_circ_effect periodic_low [OF k])
qed

subsection \<open>Properties\<close>

lemma prepare_header_bytes:
  assumes "take (get_header_len h - BASIC_HEADER_LENGTH) e = ext"
  shows "prepare_header h e = b0 h # b1 h # ext"
  using assms by (simp add: prepare_header_def)

lemma header_tail_length:
  "get_header_len (new_basic_header opc sz fin msk r1 r2 r3) - BASIC_HEADER_LENGTH
     = length (size_field sz) + (if msk then 4 else 0)"
  by (simp add: get_header_len_def size_field_length [of sz opc fin msk r1 r2 r3] second_byte_fields
      BASIC_HEADER_LENGTH_def Let_def)

text \<open>The header a sender writes is the one RFC 6455 prescribes, for every opcode, payload size
  and key: the flags and the opcode in the first octet, the mask bit and the size or size code in
  the second, then the shortest size field in network order, then the key.\<close>
theorem header_on_wire:
  assumes "0 \<le> opc" and "opc \<le> 15"
  shows "prepare_header (new_basic_header opc sz fin True r1 r2 r3) (extended_header_key sz key)
           = spec_header opc sz fin (Some key) [r1, r2, r3]
       \<and> prepare_header (new_basic_header opc sz fin False r1 r2 r3) (extended_header_of sz)
           = spec_header opc sz fin None [r1, r2, r3]"
  using first_byte_fields [OF assms, of sz fin True r1 r2 r3]
    first_byte_fields [OF assms, of sz fin False r1 r2 r3]
  by (simp add: prepare_header_def header_tail_length extended_header_key_eq extended_header_of_eq
      spec_header_def second_byte_fields basic_size_code_eq)

theorem header_on_wire_witness:
  "prepare_header (new_basic_header op_text 300 True True False False False) (extended_header_key 300 7)
     = spec_header 1 300 True (Some 7) [False, False, False]"
  using header_on_wire [of op_text] by simp

text \<open>Reading a header back gives the fields it was built from: flags, opcode, mask bit, the
  full 64-bit payload size, the key; and its length is the one computed from the first two octets,
  never above the 14 octets the buffers reserve.\<close>
theorem header_roundtrip:
  assumes "0 \<le> opc" and "opc \<le> 15"
  shows "let h = new_basic_header opc sz fin msk r1 r2 r3;
             e = (if msk then extended_header_key sz key else extended_header_of sz)
         in get_fin h = fin \<and> get_rsv1 h = r1 \<and> get_rsv2 h = r2 \<and> get_rsv3 h = r3
          \<and> get_opcode h = opc \<and> get_masked h = msk \<and> get_payload_size h e = sz
          \<and> get_masking_key h e = (if msk then key else 0)
          \<and> length (prepare_header h e) = get_header_len h \<and> get_header_len h \<le> MAX_HEADER_LENGTH"
proof -
  have len: "length (size_field sz) \<le> 8" by (simp add: size_field_def)
  have "get_payload_size (new_basic_header opc sz fin msk r1 r2 r3)
      (if msk then extended_header_key sz key else extended_header_of sz) = sz"
    by (simp add: extended_header_key_eq extended_header_of_eq get_payload_size_field)
  moreover have "get_masking_key (new_basic_header opc sz fin msk r1 r2 r3)
      (if msk then extended_header_key sz key else extended_header_of sz) = (if msk then key else 0)"
  proof (cases msk)
    case True
    then show ?thesis by (simp only: if_True extended_header_key_eq get_masking_key_field)
  qed (simp add: get_masking_key_def second_byte_fields)
  moreover have "get_header_len (new_basic_header opc sz fin msk r1 r2 r3)
      = 2 + length (size_field sz) + (if msk then 4 else 0)"
    by (simp add: get_header_len_def size_field_length [of sz opc fin msk r1 r2 r3]
        second_byte_fields BASIC_HEADER_LENGTH_def Let_def)
  ultimately show ?thesis
    using first_byte_fields [OF assms, of sz fin msk r1 r2 r3] len
    by (auto simp: Let_def second_byte_fields prepare_header_def BASIC_HEADER_LENGTH_def
        MAX_HEADER_LENGTH_def extended_header_key_eq extended_header_of_eq)
qed

theorem header_roundtrip_witness:
  "get_payload_size (new_basic_header 2 70000 True True False False False)
     (extended_header_key 70000 5) = 70000"
  using header_roundtrip [of op_binary 70000 True True False False False 5]
  by (simp add: Let_def)

text \<open>Masking a whole buffer word by word is masking it byte by byte: when the input and output
  ranges coincide or do not meet, \<open>word_mask_exact\<close> writes what \<open>byte_mask\<close> computes, for every
  length, and changes no byte outside the output range.\<close>
theorem word_mask_exact_is_byte_mask:
  assumes "same_or_apart inp out len"
  shows "peek (word_mask_exact inp out len key m) out len = byte_mask (peek m inp len) key 0
       \<and> (\<forall>a. a < out \<or> out + len \<le> a \<longrightarrow> word_mask_exact inp out len key m a = m a)"
proof
  show "peek (word_mask_exact inp out len key m) out len = byte_mask (peek m inp len) key 0"
    by (rule nth_equalityI) (simp_all add: nth_byte_mask word_mask_exact_effect [OF assms])
qed (auto simp: word_mask_exact_effect [OF assms])

theorem word_mask_exact_is_byte_mask_witness:
  "peek (word_mask_exact 0 0 11 9 (poke 0 [1,2,3,4,5,6,7,8,9,10,11] (\<lambda>_. 0))) 0 11
     = byte_mask [1,2,3,4,5,6,7,8,9,10,11] 9 0"
proof -
  have "peek (poke 0 [1,2,3,4,5,6,7,8,9,10,11] (\<lambda>_. 0)) 0 11 = [1,2,3,4,5,6,7,8,9,10,11]"
    by code_simp
  with word_mask_exact_is_byte_mask [of 0 0 11 9 "poke 0 [1,2,3,4,5,6,7,8,9,10,11] (\<lambda>_. 0)"]
  show ?thesis by (simp add: same_or_apart_def)
qed

text \<open>C39. A message that arrives in pieces of any lengths and is unmasked in place piece by piece,
  each call given the key the last one returned, comes out as if it had been unmasked at once byte by
  byte; with the word routine and with the byte routine alike, and nothing around it is touched.\<close>
theorem pieces_unmask_message:
  "peek (snd (mask_pieces word_mask_circ p ns (prepare_masking_key key) m)) p (sum_list ns)
     = byte_mask (peek m p (sum_list ns)) key 0
   \<and> snd (mask_pieces byte_mask_circ p ns (prepare_masking_key key) m)
     = snd (mask_pieces word_mask_circ p ns (prepare_masking_key key) m)
   \<and> (\<forall>a. a < p \<or> p + sum_list ns \<le> a \<longrightarrow>
        snd (mask_pieces word_mask_circ p ns (prepare_masking_key key) m) a = m a)"
proof (intro conjI allI impI ext nth_equalityI)
  have *: "le_bytes 8 (prepare_masking_key key) ! (i mod 8) = le_bytes 4 key ! (i mod 4)" for i
    using prepared_key_bytes [of "i mod 8" key] by (simp add: mod_mod_cancel)
  fix i assume "i < length (peek (snd (mask_pieces word_mask_circ p ns (prepare_masking_key key) m)) p (sum_list ns))"
  then show "peek (snd (mask_pieces word_mask_circ p ns (prepare_masking_key key) m)) p (sum_list ns) ! i
     = byte_mask (peek m p (sum_list ns)) key 0 ! i"
    by (simp add: word_stream.pieces_effect nth_byte_mask *)
qed (auto simp: word_stream.pieces_effect byte_stream.pieces_effect)

theorem pieces_unmask_message_witness:
  "peek (snd (mask_pieces word_mask_circ 3 [5, 0, 9] (prepare_masking_key 0x01020304) (\<lambda>a. word_of_nat a))) 3 14
     = byte_mask (peek (\<lambda>a. word_of_nat a) 3 14) 0x01020304 0
   \<and> snd (mask_pieces word_mask_circ 3 [5, 0, 9] (prepare_masking_key 0x01020304) (\<lambda>a. word_of_nat a)) 17 = 17"
  using pieces_unmask_message [where p = 3 and ns = "[5, 0, 9]" and key = "0x01020304" and m = "\<lambda>a. word_of_nat a"] by simp

text \<open>Masking is its own inverse across different splits: whatever pieces the sender masked and
  the receiver unmasks with the same key, the buffer is what it was.\<close>
theorem mask_involution:
  assumes "sum_list ns = sum_list ns'"
  shows "snd (mask_pieces word_mask_circ p ns' (prepare_masking_key key)
           (snd (mask_pieces word_mask_circ p ns (prepare_masking_key key) m))) = m"
  using assms by (simp add: word_stream.pieces_twice)

theorem mask_involution_witness:
  "snd (mask_pieces word_mask_circ 4 [1, 9, 2] (prepare_masking_key 77)
     (snd (mask_pieces word_mask_circ 4 [12] (prepare_masking_key 77) (\<lambda>a. word_of_nat a)))) = (\<lambda>a. word_of_nat a)"
  by (rule mask_involution) simp

end
