(* ===== verification/WsHybi13.thy ===== *)
theory WsHybi13 imports WsFrame WsClose begin

text \<open>
  Framing of WebSocket messages, \<open>websocketpp/processors/hybi13.hpp\<close>, with the message buffer of
  \<open>message_buffer/message.hpp\<close> and the compression stub \<open>extensions/permessage_deflate/disabled.hpp\<close>
  the configuration of the robot uses. \<open>size_t\<close> members are 64-bit words; the lengths of buffers
  that exist in memory are \<open>nat\<close>. Received bytes lie in a memory because they are unmasked in place.
\<close>

subsection \<open>Messages\<close>

record ws_message =
  m_header :: bytes
  m_extension_data :: bytes
  m_payload :: bytes
  m_opcode :: opcode
  m_prepared :: bool
  m_fin :: bool
  m_terminal :: bool
  m_compressed :: bool

definition get_message_op :: "opcode \<Rightarrow> ws_message" where
  "get_message_op opc = \<lparr>m_header = [], m_extension_data = [], m_payload = [], m_opcode = opc,
     m_prepared = False, m_fin = True, m_terminal = False, m_compressed = False\<rparr>"

subsection \<open>Compression\<close>

definition pmd_is_implemented :: bool where "pmd_is_implemented = False"
definition pmd_is_enabled :: bool where "pmd_is_enabled = False"
definition pmd_compress :: "bytes \<Rightarrow> bytes \<Rightarrow> error_code option \<times> bytes" where
  "pmd_compress inp out = (Some Ext_disabled, out)"
definition pmd_decompress :: "bytes \<Rightarrow> bytes \<Rightarrow> error_code option \<times> bytes" where
  "pmd_decompress buf out = (Some Ext_disabled, out)"

subsection \<open>State\<close>

datatype hybi13_state = HEADER_BASIC | HEADER_EXTENDED | EXTENSION | APPLICATION | READY | FATAL_ERROR

record msg_metadata =
  msg_ptr :: "ws_message option"
  prepared_key :: u64
  md_validator :: validator

text \<open>The key of a default constructed \<open>msg_metadata\<close> is not initialised; it is never read.\<close>

definition msg_metadata_empty :: msg_metadata where
  "msg_metadata_empty = \<lparr>msg_ptr = None, prepared_key = 0, md_validator = validator_new\<rparr>"

definition msg_metadata_new :: "ws_message \<Rightarrow> u32 \<Rightarrow> msg_metadata" where
  "msg_metadata_new msg key =
     \<lparr>msg_ptr = Some msg, prepared_key = prepare_masking_key key, md_validator = validator_new\<rparr>"

text \<open>\<open>m_current_msg\<close> points to nothing yet or to one of the two metadata members.\<close>

datatype current_msg = NoMsg | DataMsg | ControlMsg

record hybi13 =
  m_server :: bool
  m_max_message_size :: u64
  m_basic_header :: basic_header
  m_bytes_needed :: u64
  m_cursor :: nat
  m_data_msg :: msg_metadata
  m_control_msg :: msg_metadata
  m_current_msg :: current_msg
  m_extended_header :: extended_header
  m_hstate :: hybi13_state

definition reset_headers :: "hybi13 \<Rightarrow> hybi13" where
  "reset_headers h = h\<lparr>m_hstate := HEADER_BASIC, m_bytes_needed := word_of_nat BASIC_HEADER_LENGTH,
     m_basic_header := \<lparr>b0 = 0, b1 = 0\<rparr>,
     m_extended_header := replicate MAX_EXTENDED_HEADER_LENGTH 0\<rparr>"

definition hybi13_new :: "bool \<Rightarrow> u64 \<Rightarrow> hybi13" where
  "hybi13_new p_is_server max_message_size = reset_headers
     \<lparr>m_server = p_is_server, m_max_message_size = max_message_size,
      m_basic_header = \<lparr>b0 = 0, b1 = 0\<rparr>, m_bytes_needed = 0, m_cursor = 0,
      m_data_msg = msg_metadata_empty, m_control_msg = msg_metadata_empty, m_current_msg = NoMsg,
      m_extended_header = empty_extended_header, m_hstate = HEADER_BASIC\<rparr>"

definition current_metadata :: "hybi13 \<Rightarrow> msg_metadata option" where
  "current_metadata h = (case m_current_msg h of NoMsg \<Rightarrow> None | DataMsg \<Rightarrow> Some (m_data_msg h)
                         | ControlMsg \<Rightarrow> Some (m_control_msg h))"

definition update_current :: "msg_metadata \<Rightarrow> hybi13 \<Rightarrow> hybi13" where
  "update_current md h = (case m_current_msg h of NoMsg \<Rightarrow> h | DataMsg \<Rightarrow> h\<lparr>m_data_msg := md\<rparr>
                          | ControlMsg \<Rightarrow> h\<lparr>m_control_msg := md\<rparr>)"

subsection \<open>Receiving\<close>

definition copy_basic_header_bytes :: "memory \<Rightarrow> nat \<Rightarrow> nat \<Rightarrow> hybi13 \<Rightarrow> nat \<times> hybi13" where
  "copy_basic_header_bytes m buf len h =
     (if len = 0 \<or> m_bytes_needed h = 0 then (0, h)
      else if len > 1 then
        (if m_bytes_needed h = 2 then
           (2, h\<lparr>m_basic_header := \<lparr>b0 = m buf, b1 = m (buf + 1)\<rparr>, m_bytes_needed := m_bytes_needed h - 2\<rparr>)
         else (1, h\<lparr>m_basic_header := (m_basic_header h)\<lparr>b1 := m buf\<rparr>, m_bytes_needed := m_bytes_needed h - 1\<rparr>))
      else
        (if m_bytes_needed h = 2 then
           (1, h\<lparr>m_basic_header := (m_basic_header h)\<lparr>b0 := m buf\<rparr>, m_bytes_needed := m_bytes_needed h - 1\<rparr>)
         else (1, h\<lparr>m_basic_header := (m_basic_header h)\<lparr>b1 := m buf\<rparr>, m_bytes_needed := m_bytes_needed h - 1\<rparr>)))"

definition copy_extended_header_bytes :: "memory \<Rightarrow> nat \<Rightarrow> nat \<Rightarrow> hybi13 \<Rightarrow> nat \<times> hybi13" where
  "copy_extended_header_bytes m buf len h =
     (let bytes_to_read = min (unat (m_bytes_needed h)) len in
      (bytes_to_read,
       h\<lparr>m_extended_header := copy_at (m_cursor h) (peek m buf bytes_to_read) (m_extended_header h),
         m_cursor := m_cursor h + bytes_to_read,
         m_bytes_needed := m_bytes_needed h - word_of_nat bytes_to_read\<rparr>))"

text \<open>
  The number of bytes processed, the error, the processor and the memory; \<open>None\<close> when there is no
  current message, where the code follows a null pointer.
\<close>

definition process_payload_bytes ::
  "nat \<Rightarrow> nat \<Rightarrow> hybi13 \<Rightarrow> memory \<Rightarrow> (nat \<times> error_code option \<times> hybi13 \<times> memory) option" where
  "process_payload_bytes buf len h m =
     (case current_metadata h of None \<Rightarrow> None | Some md \<Rightarrow>
      (case msg_ptr md of None \<Rightarrow> None | Some msg \<Rightarrow>
       let (key, m) = (if get_masked (m_basic_header h) then byte_mask_circ buf buf len (prepared_key md) m
                       else (prepared_key md, m));
           out = m_payload msg;
           off = length out;
           (ec, out) = (if pmd_is_enabled \<and> m_compressed msg then pmd_decompress (peek m buf len) out
                        else (None, out @ peek m buf len));
           md = md\<lparr>prepared_key := key, msg_ptr := Some (msg\<lparr>m_payload := out\<rparr>)\<rparr>
       in if ec \<noteq> None then Some (0, ec, update_current md h, m)
          else
            let (ok, v) = (if m_opcode msg = op_text then validator_decode (drop off out) (md_validator md)
                           else (True, md_validator md));
                h = update_current (md\<lparr>md_validator := v\<rparr>) h
            in if \<not> ok then Some (0, Some (Proc proc_invalid_utf8), h, m)
               else Some (len, None, h\<lparr>m_bytes_needed := m_bytes_needed h - word_of_nat len\<rparr>, m)))"

definition validate_incoming_basic_header :: "basic_header \<Rightarrow> bool \<Rightarrow> bool \<Rightarrow> error_code option" where
  "validate_incoming_basic_header h is_server new_msg =
     (let opc = get_opcode h in
      if is_control opc \<and> get_basic_size h > payload_size_basic then Some (Proc proc_control_too_big)
      else if get_rsv1 h \<and> (\<not> pmd_is_enabled \<or> is_control opc) then Some (Proc proc_invalid_rsv_bit)
      else if get_rsv2 h \<or> get_rsv3 h then Some (Proc proc_invalid_rsv_bit)
      else if reserved opc then Some (Proc proc_invalid_opcode)
      else if invalid opc then Some (Proc proc_invalid_opcode)
      else if is_control opc \<and> \<not> get_fin h then Some (Proc proc_fragmented_control)
      else if new_msg \<and> opc = op_continuation then Some (Proc proc_invalid_continuation)
      else if \<not> new_msg \<and> \<not> is_control opc \<and> opc \<noteq> op_continuation then Some (Proc proc_invalid_continuation)
      else if is_server \<and> \<not> get_masked h then Some (Proc proc_masking_required)
      else if \<not> is_server \<and> get_masked h then Some (Proc proc_masking_forbidden)
      else None)"

definition validate_incoming_extended_header :: "basic_header \<Rightarrow> extended_header \<Rightarrow> error_code option" where
  "validate_incoming_extended_header h e =
     (let basic_size = get_basic_size h; payload_size = get_payload_size h e in
      if basic_size = payload_size_code_16bit \<and> payload_size \<le> ucast payload_size_basic
      then Some (Proc proc_non_minimal_encoding)
      else if basic_size = payload_size_code_64bit \<and> payload_size \<le> ucast payload_size_extended
      then Some (Proc proc_non_minimal_encoding)
      else None)"

definition finalize_message :: "hybi13 \<Rightarrow> (error_code option \<times> hybi13) option" where
  "finalize_message h =
     (case current_metadata h of None \<Rightarrow> None | Some md \<Rightarrow>
      (case msg_ptr md of None \<Rightarrow> None | Some msg \<Rightarrow>
       let (ec, out) = (if pmd_is_enabled \<and> m_compressed msg then pmd_decompress [0, 0, 0xff, 0xff] (m_payload msg)
                        else (None, m_payload msg));
           h = update_current (md\<lparr>msg_ptr := Some (msg\<lparr>m_payload := out\<rparr>)\<rparr>) h
       in if ec \<noteq> None then Some (ec, h)
          else if get_opcode (m_basic_header h) = op_text \<and> \<not> validator_complete (md_validator md)
          then Some (Some (Proc proc_invalid_utf8), h)
          else Some (None, h\<lparr>m_hstate := READY\<rparr>)))"

text \<open>
  One turn of the loop of \<open>consume\<close>: it goes on, it ends the call with a return value and an error,
  or it follows a null pointer.
\<close>

datatype consume_turn =
    More nat hybi13 memory
  | Done nat "error_code option" hybi13 memory
  | Crash

definition start_frame :: "hybi13 \<Rightarrow> error_code option \<times> hybi13" where
  "start_frame h =
     (let h = h\<lparr>m_hstate := APPLICATION,
                m_bytes_needed := get_payload_size (m_basic_header h) (m_extended_header h)\<rparr>;
          opc = get_opcode (m_basic_header h);
          key = get_masking_key (m_basic_header h) (m_extended_header h)
      in if is_control opc then
           (None, h\<lparr>m_control_msg := msg_metadata_new (get_message_op opc) key, m_current_msg := ControlMsg\<rparr>)
         else (case msg_ptr (m_data_msg h) of
             None \<Rightarrow>
               if m_bytes_needed h > m_max_message_size h then (Some (Proc proc_message_too_big), h)
               else
                 let msg = get_message_op opc;
                     msg = (if pmd_is_enabled then msg\<lparr>m_compressed := get_rsv1 (m_basic_header h)\<rparr> else msg)
                 in (None, h\<lparr>m_data_msg := msg_metadata_new msg key, m_current_msg := DataMsg\<rparr>)
           | Some msg \<Rightarrow>
               if word_of_nat (length (m_payload msg)) + m_bytes_needed h > m_max_message_size h
               then (Some (Proc proc_message_too_big), h)
               else (None, h\<lparr>m_data_msg := (m_data_msg h)\<lparr>prepared_key := prepare_masking_key key\<rparr>,
                              m_current_msg := DataMsg\<rparr>)))"

definition consume_turn :: "nat \<Rightarrow> nat \<Rightarrow> nat \<Rightarrow> hybi13 \<Rightarrow> memory \<Rightarrow> consume_turn" where
  "consume_turn buf len p h m =
     (case m_hstate h of
        HEADER_BASIC \<Rightarrow>
          let (n, h) = copy_basic_header_bytes m (buf + p) (len - p) h; p = p + n in
          if m_bytes_needed h > 0 then More p h m
          else (case validate_incoming_basic_header (m_basic_header h) (m_server h)
                       (msg_ptr (m_data_msg h) = None) of
                  Some ec \<Rightarrow> Done p (Some ec) h m
                | None \<Rightarrow> More p (h\<lparr>m_hstate := HEADER_EXTENDED, m_cursor := 0,
                     m_bytes_needed := word_of_nat (get_header_len (m_basic_header h) - BASIC_HEADER_LENGTH)\<rparr>) m)
      | HEADER_EXTENDED \<Rightarrow>
          let (n, h) = copy_extended_header_bytes m (buf + p) (len - p) h; p = p + n in
          if m_bytes_needed h > 0 then More p h m
          else (case validate_incoming_extended_header (m_basic_header h) (m_extended_header h) of
                  Some ec \<Rightarrow> Done p (Some ec) h m
                | None \<Rightarrow> (case start_frame h of
                      (Some ec, h) \<Rightarrow> Done p (Some ec) h m
                    | (None, h) \<Rightarrow> More p h m))
      | EXTENSION \<Rightarrow> More p (h\<lparr>m_hstate := APPLICATION\<rparr>) m
      | APPLICATION \<Rightarrow>
          let bytes_to_process = min (unat (m_bytes_needed h)) (len - p) in
          (case (if bytes_to_process > 0 then process_payload_bytes (buf + p) bytes_to_process h m
                 else Some (0, None, h, m)) of
             None \<Rightarrow> Crash
           | Some (n, ec, h, m) \<Rightarrow>
               let p = p + n in
               if ec \<noteq> None then Done p ec h m
               else if m_bytes_needed h > 0 then More p h m
               else if get_fin (m_basic_header h) then
                 (case finalize_message h of
                    None \<Rightarrow> Crash
                  | Some (Some ec, h) \<Rightarrow> Done p (Some ec) h m
                  | Some (None, h) \<Rightarrow> More p h m)
               else More p (reset_headers h) m)
      | _ \<Rightarrow> Done 0 (Some (Proc proc_general)) h m)"

text \<open>
  The loop. Between two bytes of input the state only moves forward, from the headers to the
  payload to a new header that needs input: this rank with the remaining input bounds the turns.
\<close>

definition turn_rank :: "hybi13 \<Rightarrow> nat" where
  "turn_rank h = (case m_hstate h of
      HEADER_BASIC \<Rightarrow> if m_bytes_needed h = 0 then 5 else 1
    | HEADER_EXTENDED \<Rightarrow> 4 | EXTENSION \<Rightarrow> 3 | APPLICATION \<Rightarrow> 2 | _ \<Rightarrow> 0)"

definition consume_more :: "nat \<Rightarrow> nat \<Rightarrow> hybi13 \<Rightarrow> bool" where
  "consume_more len p h \<longleftrightarrow> m_hstate h \<noteq> READY \<and> m_hstate h \<noteq> FATAL_ERROR \<and> (p < len \<or> m_bytes_needed h = 0)"

lemma update_current_fields [simp]:
  "m_hstate (update_current md h) = m_hstate h" "m_bytes_needed (update_current md h) = m_bytes_needed h"
  "m_basic_header (update_current md h) = m_basic_header h" "m_server (update_current md h) = m_server h"
  "m_extended_header (update_current md h) = m_extended_header h" "m_cursor (update_current md h) = m_cursor h"
  "m_max_message_size (update_current md h) = m_max_message_size h"
  "m_current_msg (update_current md h) = m_current_msg h"
  by (simp_all add: update_current_def split: current_msg.splits)

lemma reset_headers_fields [simp]:
  "m_hstate (reset_headers h) = HEADER_BASIC" "m_bytes_needed (reset_headers h) = 2"
  "m_server (reset_headers h) = m_server h" "m_max_message_size (reset_headers h) = m_max_message_size h"
  "m_data_msg (reset_headers h) = m_data_msg h" "m_control_msg (reset_headers h) = m_control_msg h"
  "m_current_msg (reset_headers h) = m_current_msg h"
  by (simp_all add: reset_headers_def BASIC_HEADER_LENGTH_def)

lemma process_payload_fields:
  assumes "process_payload_bytes buf len h m = Some (n, ec, h', m')"
  shows "m_hstate h' = m_hstate h" and "m_basic_header h' = m_basic_header h"
    and "ec = None \<Longrightarrow> n = len \<and> m_bytes_needed h' = m_bytes_needed h - word_of_nat len"
  using assms by (auto simp: process_payload_bytes_def Let_def case_prod_beta split: option.splits if_splits)

lemma start_frame_state: "start_frame h = (ec, h') \<Longrightarrow> m_hstate h' = APPLICATION"
  by (auto simp: start_frame_def Let_def split: option.splits if_splits)

lemma unat_pos: "0 < unat w \<longleftrightarrow> w \<noteq> 0"
  by (simp add: unat_eq_0 flip: neq0_conv)

lemma turn_progress:
  assumes "consume_turn buf len p h m = More p' h' m'" and "consume_more len p h" and "consume_more len p' h'"
  shows "p \<le> p' \<and> (p < p' \<and> p < len \<or> p' = p \<and> turn_rank h' < turn_rank h)"
proof (cases "m_hstate h")
  case HEADER_BASIC
  with assms show ?thesis
    by (auto simp: consume_turn_def copy_basic_header_bytes_def Let_def consume_more_def turn_rank_def
        split: if_splits option.splits prod.splits)
next
  case HEADER_EXTENDED
  with assms show ?thesis
    by (auto simp: consume_turn_def copy_extended_header_bytes_def Let_def consume_more_def turn_rank_def
        unat_pos split: if_splits option.splits prod.splits dest: start_frame_state)
next
  case EXTENSION
  with assms show ?thesis by (auto simp: consume_turn_def turn_rank_def)
next
  case APPLICATION
  with assms show ?thesis
    by (auto simp: consume_turn_def Let_def consume_more_def turn_rank_def finalize_message_def unat_eq_0
        split: if_splits option.splits prod.splits dest: process_payload_fields)
qed (use assms in \<open>auto simp: consume_turn_def\<close>)

definition turn_measure :: "nat \<Rightarrow> nat \<Rightarrow> hybi13 \<Rightarrow> nat" where
  "turn_measure len p h = (if consume_more len p h then (len - p) * 6 + turn_rank h + 1 else 0)"

lemma turn_measure_decreases:
  assumes "consume_more len p h" and "consume_turn buf len p h m = More p' h' m'"
  shows "turn_measure len p' h' < turn_measure len p h"
proof (cases "consume_more len p' h'")
  case True
  have "turn_rank h' \<le> 5" by (simp add: turn_rank_def split: hybi13_state.splits)
  with turn_progress [OF assms(2,1) True] True assms(1) show ?thesis by (auto simp: turn_measure_def)
qed (use assms(1) in \<open>simp add: turn_measure_def\<close>)

function consume_loop :: "nat \<Rightarrow> nat \<Rightarrow> nat \<Rightarrow> hybi13 \<Rightarrow> memory \<Rightarrow>
    (nat \<times> error_code option \<times> hybi13 \<times> memory) option" where
  "consume_loop buf len p h m =
     (if consume_more len p h then
        (case consume_turn buf len p h m of
           More p h m \<Rightarrow> consume_loop buf len p h m
         | Done p ec h m \<Rightarrow> Some (p, ec, h, m)
         | Crash \<Rightarrow> None)
      else Some (p, None, h, m))"
  by auto
termination
  by (relation "measure (\<lambda>(buf, len, p, h, m). turn_measure len p h)") (auto dest: turn_measure_decreases)

declare consume_loop.simps [simp del]

definition consume :: "nat \<Rightarrow> nat \<Rightarrow> hybi13 \<Rightarrow> memory \<Rightarrow>
    (nat \<times> error_code option \<times> hybi13 \<times> memory) option" where
  "consume buf len h m = consume_loop buf len 0 h m"

definition hybi13_ready :: "hybi13 \<Rightarrow> bool" where
  "hybi13_ready h \<longleftrightarrow> m_hstate h = READY"

text \<open>The message handed over and the processor; the outer option is the null pointer again.\<close>

definition hybi13_get_message :: "hybi13 \<Rightarrow> (ws_message option \<times> hybi13) option" where
  "hybi13_get_message h =
     (if \<not> hybi13_ready h then Some (None, h)
      else (case current_metadata h of None \<Rightarrow> None | Some md \<Rightarrow>
        let h = update_current (md\<lparr>msg_ptr := None\<rparr>) h in
        (case msg_ptr md of
           None \<Rightarrow> None
         | Some ret \<Rightarrow>
             let h = (if is_control (m_opcode ret)
                      then h\<lparr>m_control_msg := (m_control_msg h)\<lparr>msg_ptr := None\<rparr>\<rparr>
                      else h\<lparr>m_data_msg := (m_data_msg h)\<lparr>msg_ptr := None\<rparr>\<rparr>)
             in Some (Some ret, reset_headers h))))"

definition hybi13_get_error :: "hybi13 \<Rightarrow> bool" where
  "hybi13_get_error h \<longleftrightarrow> m_hstate h = FATAL_ERROR"

subsection \<open>Sending\<close>

text \<open>\<open>masked_copy\<close> into a string resized to the length of the input.\<close>

definition masked_copy :: "bytes \<Rightarrow> u32 \<Rightarrow> bytes" where
  "masked_copy i key = byte_mask i key 0"

text \<open>The next value of the random number generator is an argument.\<close>

definition prepare_data_frame :: "u32 \<Rightarrow> hybi13 \<Rightarrow> ws_message option \<Rightarrow> ws_message option \<Rightarrow>
    error_code option \<times> ws_message option" where
  "prepare_data_frame rng h inp out =
     (case (inp, out) of
        (Some inp, Some out) \<Rightarrow>
          let opc = m_opcode inp in
          if is_control opc then (Some (Proc proc_invalid_opcode), Some out)
          else
            let i = m_payload inp in
            if opc = op_text \<and> \<not> validate i then (Some (Proc proc_invalid_payload), Some out)
            else
              let masked = \<not> m_server h;
                  compressed = (pmd_is_enabled \<and> m_compressed inp);
                  fin = m_fin inp;
                  key = (if masked then rng else 0);
                  (ec, o') =
                    (if compressed then
                       let o' = snd (pmd_compress i (m_payload out)) in
                       if length o' < 4 then (Some (Proc proc_general), o')
                       else
                         let o' = take (length o' - 4) o'
                         in (None, if masked then masked_copy o' key else o')
                     else (None, if masked then masked_copy i key else i))
              in if ec \<noteq> None then (ec, Some (out\<lparr>m_payload := o'\<rparr>))
                 else
                   let bh = new_basic_header opc (word_of_nat (length o')) fin masked compressed False False;
                       hdr = (if masked then prepare_header bh (extended_header_key (word_of_nat (length o')) key)
                              else prepare_header bh (extended_header_of (word_of_nat (length o'))))
                   in (None, Some (out\<lparr>m_payload := o', m_header := hdr, m_prepared := True, m_opcode := opc\<rparr>))
      | _ \<Rightarrow> (Some (Proc proc_invalid_arguments), out))"

definition prepare_control :: "u32 \<Rightarrow> hybi13 \<Rightarrow> opcode \<Rightarrow> bytes \<Rightarrow> ws_message option \<Rightarrow>
    error_code option \<times> ws_message option" where
  "prepare_control rng h opc payload out =
     (case out of None \<Rightarrow> (Some (Proc proc_invalid_arguments), None)
      | Some out \<Rightarrow>
         if \<not> is_control opc then (Some (Proc proc_invalid_opcode), Some out)
         else if length payload > unat payload_size_basic then (Some (Proc proc_control_too_big), Some out)
         else
           let masked = \<not> m_server h;
               sz = word_of_nat (length payload);
               bh = new_basic_header opc sz True masked False False False;
               out = (if masked then
                        out\<lparr>m_header := prepare_header bh (extended_header_key sz rng),
                            m_payload := masked_copy payload rng\<rparr>
                      else out\<lparr>m_header := prepare_header bh (extended_header_of sz), m_payload := payload\<rparr>)
           in (None, Some (out\<lparr>m_opcode := opc, m_prepared := True\<rparr>)))"

definition prepare_ping :: "u32 \<Rightarrow> hybi13 \<Rightarrow> bytes \<Rightarrow> ws_message option \<Rightarrow> error_code option \<times> ws_message option" where
  "prepare_ping rng h payload out = prepare_control rng h op_ping payload out"

definition prepare_pong :: "u32 \<Rightarrow> hybi13 \<Rightarrow> bytes \<Rightarrow> ws_message option \<Rightarrow> error_code option \<times> ws_message option" where
  "prepare_pong rng h payload out = prepare_control rng h op_pong payload out"

definition prepare_close :: "u32 \<Rightarrow> hybi13 \<Rightarrow> u16 \<Rightarrow> bytes \<Rightarrow> ws_message option \<Rightarrow>
    error_code option \<times> ws_message option" where
  "prepare_close rng h code reason out =
     (if close_reserved code then (Some (Proc proc_reserved_close_code), out)
      else if close_invalid code \<and> code \<noteq> status_no_status then (Some (Proc proc_invalid_close_code), out)
      else if code = status_no_status \<and> length reason > 0 then (Some (Proc proc_reason_requires_code), out)
      else if length reason > unat payload_size_basic - 2 then (Some (Proc proc_control_too_big), out)
      else
        let payload = (if code \<noteq> status_no_status then le_bytes 2 (htons code) @ reason else [])
        in prepare_control rng h op_close payload out)"

end
