(* ===== verification/WsHybi00.thy ===== *)
theory WsHybi00 imports WsMd5 WsHandshake WsHybi13 begin

text \<open>
  The processor of draft 76 of the protocol, \<open>websocketpp/processors/hybi00.hpp\<close>: its handshake, with the
  challenge that MD5 answers, and its frames, which are a zero octet, the payload and the octet 255. A
  client without the header \<open>Sec-WebSocket-Version\<close> gets it.
\<close>

subsection \<open>The handshake\<close>

definition hybi00_validate_handshake :: "request \<Rightarrow> error_code option" where
  "hybi00_validate_handshake r =
     (if q_method r \<noteq> ''GET'' then Some (Proc proc_invalid_http_method)
      else if h_version r \<noteq> ''HTTP/1.1'' then Some (Proc proc_invalid_http_version)
      else if get_header ''Sec-WebSocket-Key1'' r = [] \<or> get_header ''Sec-WebSocket-Key2'' r = []
            \<or> get_header ''Sec-WebSocket-Key3'' r = [] then Some (Proc proc_missing_required_header)
      else None)"

text \<open>\<open>htonl\<close> and the octets it has in memory: the number, high octet first.\<close>

definition htonl :: "u32 \<Rightarrow> u32" where "htonl w = of_le (rev (le_bytes 4 w))"

definition decode_client_key :: "string \<Rightarrow> bytes" where
  "decode_client_key key =
     (let spaces = word_of_nat (length (filter (\<lambda>c. c = CHR '' '') key)) :: u32;
          digits = filter (\<lambda>c. c \<noteq> CHR '' '' \<and> is_digit c) key;
          num = word_of_nat (strtoul digits) :: u32
      in if spaces > 0 \<and> num > 0 then le_bytes 4 (htonl (num div spaces)) else [0, 0, 0, 0])"

definition hybi00_get_uri :: "bool \<Rightarrow> request \<Rightarrow> uri" where
  "hybi00_get_uri secure request =
     (let h = get_header ''Host'' request; scheme = (if secure then ''wss'' else ''ws'') in
      case rfind (CHR '':'') h of
        None \<Rightarrow> uri_of scheme h (q_uri request)
      | Some last_colon \<Rightarrow>
          if (case rfind (CHR '']'') h of None \<Rightarrow> False | Some last_sbrace \<Rightarrow> last_sbrace > last_colon)
          then uri_of scheme h (q_uri request)
          else uri_of_port scheme (take last_colon h) (drop (last_colon + 1) h) (q_uri request))"

text \<open>The challenge; \<open>key_final\<close> is the array of 16 octets, which the code does not initialise.\<close>

definition final_key :: "bytes \<Rightarrow> request \<Rightarrow> bytes" where
  "final_key key_final req =
     (let key_final = copy_into 0 (decode_client_key (get_header ''Sec-WebSocket-Key1'' req)) key_final;
          key_final = copy_into 4 (decode_client_key (get_header ''Sec-WebSocket-Key2'' req)) key_final
      in copy_into 8 (take 8 (octets_of (get_header ''Sec-WebSocket-Key3'' req))) key_final)"

text \<open>\<open>buf\<close> is the block buffer of the hash.\<close>

definition hybi00_process_handshake :: "bytes \<Rightarrow> bool \<Rightarrow> bytes \<Rightarrow> request \<Rightarrow> string \<Rightarrow> response \<Rightarrow> response parsed" where
  "hybi00_process_handshake buf secure key_final req subprotocol res =
     and_then (append_header ''Sec-WebSocket-Key3'' (text_of (md5_hash_string buf (final_key key_final req))) res) (\<lambda>res.
     and_then (append_header ''Upgrade'' ''WebSocket'' res) (\<lambda>res.
     and_then (append_header ''Connection'' ''Upgrade'' res) (\<lambda>res.
     and_then (if get_header ''Sec-WebSocket-Origin'' res = []
               then append_header ''Sec-WebSocket-Origin'' (get_header ''Origin'' req) res else Parsed res) (\<lambda>res.
     and_then (if get_header ''Sec-WebSocket-Location'' res = []
               then append_header ''Sec-WebSocket-Location'' (uri_str (hybi00_get_uri secure req)) res else Parsed res) (\<lambda>res.
       Parsed (if subprotocol \<noteq> [] then replace_header ''Sec-WebSocket-Protocol'' subprotocol res else res))))))"

definition hybi00_client_handshake_request :: "request \<Rightarrow> error_code option" where
  "hybi00_client_handshake_request req = Some (Proc proc_no_protocol_support)"

definition hybi00_validate_server_handshake_response :: "request \<Rightarrow> response \<Rightarrow> error_code option" where
  "hybi00_validate_server_handshake_response req res = Some (Proc proc_no_protocol_support)"

definition hybi00_get_raw :: "response \<Rightarrow> string" where
  "hybi00_get_raw res =
     (let temp = remove_header ''Sec-WebSocket-Key3'' res in response_raw temp @ get_header ''Sec-WebSocket-Key3'' res)"

definition hybi00_get_origin :: "request \<Rightarrow> string" where "hybi00_get_origin r = get_header ''Origin'' r"

definition hybi00_extract_subprotocols :: "request \<Rightarrow> string list \<Rightarrow> error_code option \<times> string list" where
  "hybi00_extract_subprotocols req subprotocol_list =
     (if get_header ''Sec-WebSocket-Protocol'' req \<noteq> [] then
        (case get_header_as_plist ''Sec-WebSocket-Protocol'' req of
           (True, _) \<Rightarrow> (Some (Proc proc_subprotocol_parse_error), subprotocol_list)
         | (False, p) \<Rightarrow> (None, subprotocol_list @ map fst p))
      else (None, subprotocol_list))"

text \<open>The version of \<open>processor.hpp\<close>, which this processor does not override.\<close>

definition base_negotiate_extensions :: "'r http_parser_scheme \<Rightarrow> error_code option \<times> string" where
  "base_negotiate_extensions header = (None, [])"

subsection \<open>Frames\<close>

datatype hybi00_state = HEADER00 | PAYLOAD00 | READY00 | FATAL00

record hybi00 =
  h00_state :: hybi00_state
  h00_msg :: "ws_message option"

definition hybi00_new :: hybi00 where "hybi00_new = \<lparr>h00_state = HEADER00, h00_msg = None\<rparr>"

definition msg_hdr :: u8 where "msg_hdr = 0x00"
definition msg_ftr :: u8 where "msg_ftr = 0xff"

text \<open>The message manager never refuses.\<close>

definition hybi00_get_buffer :: "ws_message option" where "hybi00_get_buffer = Some (get_message_op op_text)"

text \<open>
  The octets processed, the error and the processor: \<open>p\<close> are processed, \<open>buf\<close> are left. \<open>None\<close> is a
  payload without a message, a null pointer.
\<close>

function hybi00_loop :: "nat \<Rightarrow> bytes \<Rightarrow> error_code option \<Rightarrow> hybi00 \<Rightarrow> (nat \<times> error_code option \<times> hybi00) option" where
  "hybi00_loop p buf ec h =
     (if buf = [] then Some (p, ec, h)
      else (case h00_state h of
              HEADER00 \<Rightarrow>
                if hd buf = msg_hdr then
                  (case hybi00_get_buffer of
                     None \<Rightarrow> hybi00_loop (p + 1) (tl buf) (Some (Lib lib_no_incoming_buffers)) (h\<lparr>h00_msg := None, h00_state := FATAL00\<rparr>)
                   | Some msg \<Rightarrow> hybi00_loop (p + 1) (tl buf) ec (h\<lparr>h00_msg := Some msg, h00_state := PAYLOAD00\<rparr>))
                else hybi00_loop p buf (Some (Proc proc_protocol_violation)) (h\<lparr>h00_state := FATAL00\<rparr>)
            | PAYLOAD00 \<Rightarrow>
                let payload = takeWhile (\<lambda>b. b \<noteq> msg_ftr) buf; rest = dropWhile (\<lambda>b. b \<noteq> msg_ftr) buf; l = length payload in
                (case h00_msg h of
                   None \<Rightarrow> None
                 | Some msg \<Rightarrow>
                     let h = h\<lparr>h00_msg := Some (msg\<lparr>m_payload := m_payload msg @ payload\<rparr>)\<rparr> in
                     if rest \<noteq> [] then hybi00_loop (p + l + 1) (tl rest) ec (h\<lparr>h00_state := READY00\<rparr>)
                     else hybi00_loop (p + l) [] ec h)
            | _ \<Rightarrow> Some (p, ec, h)))"
  by auto
termination
proof (relation "measure (\<lambda>(p, buf, ec, h). 2 * length buf + (if h00_state h = HEADER00 then 1 else 0))", goal_cases)
  case (5 p buf ec h payload rest l msg h')
  then show ?case using length_dropWhile_le [of "\<lambda>b. b \<noteq> msg_ftr" buf] by (cases buf) auto
qed auto

declare hybi00_loop.simps [simp del]

definition hybi00_consume :: "bytes \<Rightarrow> hybi00 \<Rightarrow> (nat \<times> error_code option \<times> hybi00) option" where
  "hybi00_consume buf h = hybi00_loop 0 buf None h"

definition hybi00_ready :: "hybi00 \<Rightarrow> bool" where "hybi00_ready h \<longleftrightarrow> h00_state h = READY00"
definition hybi00_get_error :: "hybi00 \<Rightarrow> bool" where "hybi00_get_error h = False"

definition hybi00_get_message :: "hybi00 \<Rightarrow> ws_message option \<times> hybi00" where
  "hybi00_get_message h = (h00_msg h, h\<lparr>h00_msg := None, h00_state := HEADER00\<rparr>)"

definition hybi00_prepare_data_frame :: "ws_message option \<Rightarrow> ws_message option \<Rightarrow> error_code option \<times> ws_message option" where
  "hybi00_prepare_data_frame inp out =
     (case (inp, out) of
        (Some inp, Some out) \<Rightarrow>
          if m_opcode inp \<noteq> op_text then (Some (Proc proc_invalid_opcode), Some out)
          else
            let i = m_payload inp in
            if \<not> validate i then (Some (Proc proc_invalid_payload), Some out)
            else (None, Some (out\<lparr>m_header := [msg_hdr], m_payload := i @ [msg_ftr], m_prepared := True\<rparr>))
      | _ \<Rightarrow> (Some (Proc proc_invalid_arguments), out))"

definition hybi00_prepare_ping :: "bytes \<Rightarrow> ws_message option \<Rightarrow> error_code option" where
  "hybi00_prepare_ping payload out = Some (Proc proc_no_protocol_support)"

definition hybi00_prepare_pong :: "bytes \<Rightarrow> ws_message option \<Rightarrow> error_code option" where
  "hybi00_prepare_pong payload out = Some (Proc proc_no_protocol_support)"

definition hybi00_prepare_close :: "u16 \<Rightarrow> bytes \<Rightarrow> ws_message option \<Rightarrow> error_code option \<times> ws_message option" where
  "hybi00_prepare_close code reason out =
     (case out of
        None \<Rightarrow> (Some (Proc proc_invalid_arguments), None)
      | Some out \<Rightarrow> (None, Some (out\<lparr>m_payload := [0xff, 0x00], m_prepared := True\<rparr>)))"

subsection \<open>Reading a stream\<close>

text \<open>The loop that takes a message whenever one is ready; \<open>None\<close> is a null pointer or a loop that stands
still.\<close>

function hybi00_read :: "bytes \<Rightarrow> hybi00 \<Rightarrow> (ws_message list \<times> error_code option \<times> hybi00) option" where
  "hybi00_read buf h =
     (if buf = [] then Some ([], None, h)
      else (case hybi00_consume buf h of
              None \<Rightarrow> None
            | Some (k, Some ec, h) \<Rightarrow> Some ([], Some ec, h)
            | Some (k, None, h) \<Rightarrow>
                if k = 0 then None
                else if hybi00_ready h then
                  (case hybi00_get_message h of
                     (None, h) \<Rightarrow> None
                   | (Some msg, h) \<Rightarrow> map_option (\<lambda>(ms, r). (msg # ms, r)) (hybi00_read (drop k buf) h))
                else hybi00_read (drop k buf) h))"
  by pat_completeness auto
termination by (relation "measure (\<lambda>(buf, h). length buf)") auto

declare hybi00_read.simps [simp del]

text \<open>What the octets mean: the payloads that end in them and the beginning of the next; \<open>None\<close> is a
violation of the protocol.\<close>

fun draft_scan :: "bytes \<Rightarrow> bytes option \<Rightarrow> (bytes list \<times> bytes option) option" where
  "draft_scan [] s = Some ([], s)"
| "draft_scan (b # bs) None = (if b = 0x00 then draft_scan bs (Some []) else None)"
| "draft_scan (b # bs) (Some s) =
     (if b = 0xff then map_option (\<lambda>(ms, r). (s # ms, r)) (draft_scan bs None) else draft_scan bs (Some (s @ [b])))"

text \<open>A processor that has read the beginning \<open>s\<close> of a payload, or waits for one.\<close>

definition reads_draft :: "hybi00 \<Rightarrow> bytes option \<Rightarrow> bool" where
  "reads_draft h s \<longleftrightarrow> (case s of None \<Rightarrow> h00_state h = HEADER00
     | Some bs \<Rightarrow> h00_state h = PAYLOAD00 \<and> h00_msg h = Some ((get_message_op op_text)\<lparr>m_payload := bs\<rparr>))"

lemma scan_payload:
  "draft_scan bs (Some s) = (if 0xff \<in> set bs
     then map_option (\<lambda>(ms, r). ((s @ takeWhile (\<lambda>b. b \<noteq> 0xff) bs) # ms, r)) (draft_scan (tl (dropWhile (\<lambda>b. b \<noteq> 0xff) bs)) None)
     else Some ([], Some (s @ bs)))"
  by (induction bs arbitrary: s) auto

lemma scan_append:
  "draft_scan (a @ b) s = Option.bind (draft_scan a s) (\<lambda>(ms, s'). map_option (\<lambda>(ms', r). (ms @ ms', r)) (draft_scan b s'))"
  by (induction a s rule: draft_scan.induct)
     (auto simp: map_option_case option.map_comp split: Option.bind_splits option.splits prod.splits)

lemma loop_stops: "h00_state h = READY00 \<or> h00_state h = FATAL00 \<Longrightarrow> hybi00_loop p buf ec h = Some (p, ec, h)"
  by (auto simp: hybi00_loop.simps [of p buf])

lemma loop_empty: "hybi00_loop p [] ec h = Some (p, ec, h)"
  by (simp add: hybi00_loop.simps [of p "[]"])

lemma loop_header:
  "h00_state h = HEADER00 \<Longrightarrow> hybi00_loop p (b # bs) ec h = (if b = 0x00
     then hybi00_loop (p + 1) bs ec \<lparr>h00_state = PAYLOAD00, h00_msg = Some (get_message_op op_text)\<rparr>
     else Some (p, Some (Proc proc_protocol_violation), h\<lparr>h00_state := FATAL00\<rparr>))"
  by (cases h) (simp add: hybi00_loop.simps [of p "b # bs"] msg_hdr_def hybi00_get_buffer_def loop_stops)

lemma loop_payload:
  assumes "reads_draft h (Some s)"
  shows "hybi00_loop p buf ec h = (if 0xff \<in> set buf
     then Some (p + length (takeWhile (\<lambda>b. b \<noteq> 0xff) buf) + 1, ec, \<lparr>h00_state = READY00,
       h00_msg = Some ((get_message_op op_text)\<lparr>m_payload := s @ takeWhile (\<lambda>b. b \<noteq> 0xff) buf\<rparr>)\<rparr>)
     else Some (p + length buf, ec, \<lparr>h00_state = PAYLOAD00, h00_msg = Some ((get_message_op op_text)\<lparr>m_payload := s @ buf\<rparr>)\<rparr>))"
proof -
  have h: "h = \<lparr>h00_state = PAYLOAD00, h00_msg = Some ((get_message_op op_text)\<lparr>m_payload := s\<rparr>)\<rparr>"
    using assms by (cases h) (simp add: reads_draft_def)
  have "0xff \<notin> set buf \<Longrightarrow> takeWhile (\<lambda>b. b \<noteq> 0xff) buf = buf" "0xff \<notin> set buf \<Longrightarrow> length (takeWhile (\<lambda>b. b \<noteq> 0xff) buf) = length buf"
    by (induction buf) auto
  then show ?thesis
    by (cases "0xff \<in> set buf") (auto simp: h msg_ftr_def hybi00_loop.simps [of p buf] loop_empty loop_stops Let_def)
qed

text \<open>What a call of the loop leaves, against what the octets mean.\<close>

lemma consume_draft:
  assumes "reads_draft h s" and "buf \<noteq> []"
  obtains (whole) k m where "hybi00_consume buf h = Some (k, None, \<lparr>h00_state = READY00, h00_msg = Some m\<rparr>)" "0 < k" "m_opcode m = op_text"
      "draft_scan buf s = map_option (\<lambda>(ms, r). (m_payload m # ms, r)) (draft_scan (drop k buf) None)"
  | (more) h' s' where "hybi00_consume buf h = Some (length buf, None, h')" "reads_draft h' (Some s')" "draft_scan buf s = Some ([], Some s')"
  | (bad) k h' where "hybi00_consume buf h = Some (k, Some (Proc proc_protocol_violation), h')" "draft_scan buf s = None"
proof -
  have payload: thesis
    if r: "reads_draft h1 (Some s1)" and c: "hybi00_consume buf h = hybi00_loop p bs None h1" and b: "buf = pre @ bs" "length pre = p"
      and d: "draft_scan buf s = draft_scan bs (Some s1)" for h1 s1 p bs pre
  proof (cases "0xff \<in> set bs")
    case True
    have "drop (p + length (takeWhile (\<lambda>b. b \<noteq> 0xff) bs) + 1) buf = tl (dropWhile (\<lambda>b. b \<noteq> 0xff) bs)"
      using dropWhile_eq_drop [of "\<lambda>b. b \<noteq> 0xff" bs] b by (simp add: drop_Suc tl_drop)
    with True c d show thesis
      by (intro whole [of "p + length (takeWhile (\<lambda>b. b \<noteq> 0xff) bs) + 1"
              "(get_message_op op_text)\<lparr>m_payload := s1 @ takeWhile (\<lambda>b. b \<noteq> 0xff) bs\<rparr>"])
         (simp_all add: loop_payload [OF r] scan_payload get_message_op_def)
  next
    case False
    with c d b show thesis
      by (intro more [of "\<lparr>h00_state = PAYLOAD00, h00_msg = Some ((get_message_op op_text)\<lparr>m_payload := s1 @ bs\<rparr>)\<rparr>" "s1 @ bs"])
         (simp_all add: loop_payload [OF r] scan_payload reads_draft_def)
  qed
  show thesis
  proof (cases s)
    case (Some s1)
    then show thesis using payload [of h s1 0 buf "[]"] assms(1) by (simp add: hybi00_consume_def)
  next
    case None
    then have h: "h00_state h = HEADER00" using assms(1) by (simp add: reads_draft_def)
    obtain b bs where b: "buf = b # bs" using assms(2) by (cases buf) auto
    show thesis
    proof (cases "b = 0x00")
      case True
      have "reads_draft \<lparr>h00_state = PAYLOAD00, h00_msg = Some (get_message_op op_text)\<rparr> (Some [])"
        by (simp add: reads_draft_def get_message_op_def)
      from payload [OF this, of 1 bs "[b]"] True None b h show thesis
        by (simp add: hybi00_consume_def loop_header)
    next
      case False
      then show thesis using bad [of 0 "h\<lparr>h00_state := FATAL00\<rparr>"] None b h by (simp add: hybi00_consume_def loop_header)
    qed
  qed
qed

lemma read_draft:
  assumes "reads_draft h s"
  shows "case draft_scan buf s of
      None \<Rightarrow> \<exists>ms h'. hybi00_read buf h = Some (ms, Some (Proc proc_protocol_violation), h')
    | Some (ps, s') \<Rightarrow> \<exists>ms h'. hybi00_read buf h = Some (ms, None, h') \<and> reads_draft h' s'
        \<and> map (\<lambda>m. (m_opcode m, m_payload m)) ms = map (Pair op_text) ps"
  using assms
proof (induction buf h arbitrary: s rule: hybi00_read.induct)
  case (1 buf h)
  show ?case
  proof (cases "buf = []")
    case True
    then show ?thesis using 1(3) by (simp add: hybi00_read.simps [of "[]"])
  next
    case False
    from 1(3) False show ?thesis
    proof (cases rule: consume_draft)
      case (whole k m)
      let ?h = "\<lparr>h00_state = READY00, h00_msg = Some m\<rparr>"
      have g: "hybi00_get_message ?h = (Some m, \<lparr>h00_state = HEADER00, h00_msg = None\<rparr>)" by (simp add: hybi00_get_message_def)
      have ready: "hybi00_ready ?h" by (simp add: hybi00_ready_def)
      have "hybi00_read buf h = map_option (\<lambda>(ms, r). (m # ms, r)) (hybi00_read (drop k buf) \<lparr>h00_state = HEADER00, h00_msg = None\<rparr>)"
        using False whole(1,2) by (simp add: hybi00_read.simps [of buf] g ready)
      moreover have "reads_draft \<lparr>h00_state = HEADER00, h00_msg = None\<rparr> None" by (simp add: reads_draft_def)
      moreover note 1(1) [OF False whole(1) refl refl refl _ ready g [symmetric] refl this]
      ultimately show ?thesis using whole(2-4)
        by (fastforce split: option.splits)
    next
      case (more h' s')
      then have "\<not> hybi00_ready h'" by (simp add: hybi00_ready_def reads_draft_def)
      with more False have "hybi00_read buf h = Some ([], None, h')"
        by (simp add: hybi00_read.simps [of buf] hybi00_read.simps [of "[]"])
      with more show ?thesis by simp
    next
      case (bad k h')
      with False show ?thesis by (simp add: hybi00_read.simps [of buf])
    qed
  qed
qed

lemma hybi00_new_waits: "reads_draft hybi00_new None"
  by (simp add: reads_draft_def hybi00_new_def)

text \<open>Successive reads, up to the first error.\<close>

fun hybi00_reads :: "bytes list \<Rightarrow> hybi00 \<Rightarrow> (ws_message list \<times> error_code option \<times> hybi00) option" where
  "hybi00_reads [] h = Some ([], None, h)"
| "hybi00_reads (c # cs) h =
     (case hybi00_read c h of
        None \<Rightarrow> None
      | Some (ms, Some ec, h) \<Rightarrow> Some (ms, Some ec, h)
      | Some (ms, None, h) \<Rightarrow> map_option (\<lambda>(ms', r). (ms @ ms', r)) (hybi00_reads cs h))"

lemma reads_draft_all:
  assumes "reads_draft h s"
  shows "case draft_scan (concat cs) s of
      None \<Rightarrow> \<exists>ms h'. hybi00_reads cs h = Some (ms, Some (Proc proc_protocol_violation), h')
    | Some (ps, s') \<Rightarrow> \<exists>ms h'. hybi00_reads cs h = Some (ms, None, h') \<and> reads_draft h' s'
        \<and> map (\<lambda>m. (m_opcode m, m_payload m)) ms = map (Pair op_text) ps"
  using assms
proof (induction cs arbitrary: h s)
  case (Cons c cs)
  show ?case
  proof (cases "draft_scan c s")
    case None
    then show ?thesis using read_draft [OF Cons.prems, of c] by (auto simp: scan_append)
  next
    case (Some x)
    obtain ps1 s1 where x: "x = (ps1, s1)" by fastforce
    then obtain ms1 h1 where h1: "hybi00_read c h = Some (ms1, None, h1)" "reads_draft h1 s1"
      "map (\<lambda>m. (m_opcode m, m_payload m)) ms1 = map (Pair op_text) ps1"
      using read_draft [OF Cons.prems, of c] Some by auto
    show ?thesis using Cons.IH [OF h1(2)] h1 Some x
      by (auto simp: scan_append split: option.splits prod.splits)
  qed
qed simp

subsection \<open>Sending\<close>

lemma run_255: "utf8_run st (ns @ 255 # ms) \<noteq> 0"
proof -
  have "state_next k 255 = 1" for k by (simp add: state_next_def)
  then show ?thesis by (simp add: utf8_run_append)
qed

text \<open>No text has the octet that ends a frame.\<close>

lemma validate_no_ff: "validate p \<Longrightarrow> 0xff \<notin> set p"
proof
  assume "validate p" "0xff \<in> set p"
  then obtain a b where "p = a @ 0xff # b" by (meson split_list)
  with \<open>validate p\<close> run_255 [of 0 "map unat a" "map unat b"] show False by (simp add: validate_run)
qed

lemma scan_frames: "\<forall>p \<in> set ps. 0xff \<notin> set p \<Longrightarrow> draft_scan (concat (map (\<lambda>p. 0x00 # p @ [0xff]) ps)) None = Some (ps, None)"
proof (induction ps)
  case (Cons p ps)
  then have p: "0xff \<notin> set p" by simp
  then have "takeWhile (\<lambda>b. b \<noteq> 0xff) (p @ 0xff # r) = p" "dropWhile (\<lambda>b. b \<noteq> 0xff) (p @ 0xff # r) = 0xff # r" for r
    by (induction p) auto
  with Cons show ?case by (simp add: scan_payload)
qed simp

text \<open>The octets of the frames of messages, as the connection writes them.\<close>

fun hybi00_transmit :: "ws_message list \<Rightarrow> bytes option" where
  "hybi00_transmit [] = Some []"
| "hybi00_transmit (msg # msgs) =
     (case hybi00_prepare_data_frame (Some msg) (Some (get_message_op 0)) of
        (None, Some out) \<Rightarrow> map_option (\<lambda>r. m_header out @ m_payload out @ r) (hybi00_transmit msgs)
      | _ \<Rightarrow> None)"

lemma draft_frames:
  "hybi00_transmit msgs = Some bs \<Longrightarrow> bs = concat (map (\<lambda>p. 0x00 # p @ [0xff]) (map m_payload msgs))
    \<and> (\<forall>msg \<in> set msgs. m_opcode msg = op_text \<and> validate (m_payload msg))"
  by (induction msgs arbitrary: bs)
     (auto simp: hybi00_prepare_data_frame_def Let_def msg_hdr_def msg_ftr_def split: if_splits option.splits)

subsection \<open>Properties\<close>

text \<open>C18. Messages sent over a connection of draft 76 arrive: whatever the network does to the cuts of the frames
the processor of one side prepares, the processor of the other gives back the messages in order, with no
error, and waits for the next frame.\<close>

theorem hybi00_roundtrip:
  assumes "hybi00_transmit msgs = Some (concat cs)"
  shows "\<exists>ms h. hybi00_reads cs hybi00_new = Some (ms, None, h) \<and> h00_state h = HEADER00
    \<and> map (\<lambda>m. (m_opcode m, m_payload m)) ms = map (\<lambda>m. (m_opcode m, m_payload m)) msgs"
proof -
  note t = draft_frames [OF assms]
  then have "draft_scan (concat cs) None = Some (map m_payload msgs, None)"
    using scan_frames [of "map m_payload msgs"] validate_no_ff by auto
  moreover have "map (Pair op_text) (map m_payload msgs) = map (\<lambda>m. (m_opcode m, m_payload m)) msgs" using t by simp
  ultimately show ?thesis using reads_draft_all [OF hybi00_new_waits, of cs] by (auto simp: reads_draft_def)
qed

theorem hybi00_roundtrip_witness:
  "\<exists>ms h. hybi00_reads [[0x00, 0x68], [], [0x69, 0xff, 0x00], [0xff]] hybi00_new = Some (ms, None, h)
    \<and> map (\<lambda>m. (m_opcode m, m_payload m)) ms = [(op_text, [0x68, 0x69]), (op_text, [])]"
proof -
  let ?msgs = "map (\<lambda>p. (get_message_op op_text)\<lparr>m_payload := p\<rparr>) [[0x68, 0x69], []]"
  have "hybi00_transmit ?msgs = Some (concat [[0x00, 0x68], [], [0x69, 0xff, 0x00], [0xff]])" by code_simp
  from hybi00_roundtrip [OF this] show ?thesis by (auto simp: get_message_op_def)
qed

subsection \<open>The challenge\<close>

text \<open>A key of draft 76 for the number \<open>n\<close>: with some spaces, and digits that are \<open>n\<close> times their number,
among other characters.\<close>

definition draft_key :: "string \<Rightarrow> nat \<Rightarrow> bool" where
  "draft_key key n \<longleftrightarrow> (let spaces = length (filter (\<lambda>c. c = CHR '' '') key) in
     0 < spaces \<and> 0 < n \<and> n * spaces < 2 ^ 32 \<and> filter is_digit key = decimal (n * spaces))"

lemma htonl_octets: "le_bytes 4 (htonl w) = rev (le_bytes 4 w)"
  using le_bytes_of_le [of "rev (le_bytes 4 w)", where 'a = 32] by (simp add: htonl_def)

lemma decode_draft_key:
  assumes "draft_key key n"
  shows "decode_client_key key = rev (le_bytes 4 (word_of_nat n :: u32))"
proof -
  define s where "s = length (filter (\<lambda>c. c = CHR '' '') key)"
  have s: "0 < s" "0 < n" "n * s < 2 ^ 32" and ds: "filter is_digit key = decimal (n * s)"
    using assms by (simp_all add: draft_key_def s_def Let_def)
  have "n * 1 \<le> n * s" "1 * s \<le> n * s" by (rule mult_le_mono; use s in simp)+
  with s(3) have le: "n < 2 ^ 32" "s < 2 ^ 32" by linarith+
  have "filter (\<lambda>c. c \<noteq> CHR '' '' \<and> is_digit c) key = filter is_digit key"
    by (rule filter_cong) (auto simp: is_digit_def)
  then have v: "strtoul (filter (\<lambda>c. c \<noteq> CHR '' '' \<and> is_digit c) key) = n * s"
    using strtoul_decimal [of "n * s"] s(3) ds by simp
  have u: "unat (word_of_nat s :: u32) = s" "unat (word_of_nat (n * s) :: u32) = n * s" "unat (word_of_nat n :: u32) = n"
    using s(3) le by (simp_all add: unat_of_nat del: of_nat_mult)
  have "word_of_nat (n * s) div word_of_nat s = (word_of_nat n :: u32)"
    using u s(1) by (simp add: word_unat_eq_iff unat_div del: of_nat_mult)
  moreover have "0 < (word_of_nat s :: u32)" "0 < (word_of_nat (n * s) :: u32)"
    using u s by (simp_all add: word_less_nat_alt del: of_nat_mult)
  ultimately show ?thesis
    unfolding decode_client_key_def v s_def [symmetric] Let_def by (simp add: htonl_octets del: of_nat_mult)
qed

lemma draft_tokens: "list_ex is_not_token_char ''Sec-WebSocket-Key3'' = False" "list_ex is_not_token_char ''Sec-WebSocket-Origin'' = False"
  "list_ex is_not_token_char ''Sec-WebSocket-Location'' = False"
  by code_simp+

lemma draft_ci: "ci_eq ''Upgrade'' ''Sec-WebSocket-Key3'' = False" "ci_eq ''Connection'' ''Sec-WebSocket-Key3'' = False"
  "ci_eq ''Sec-WebSocket-Origin'' ''Sec-WebSocket-Key3'' = False" "ci_eq ''Sec-WebSocket-Location'' ''Sec-WebSocket-Key3'' = False"
  "ci_eq ''Sec-WebSocket-Protocol'' ''Sec-WebSocket-Key3'' = False"
  by (simp_all add: ci_eq_key ci_key_def tolower_def)

lemma length_decode_key [simp]: "length (decode_client_key key) = 4"
  by (simp add: decode_client_key_def Let_def)

lemma final_key_octets:
  assumes "length k = 16" and "length (get_header ''Sec-WebSocket-Key3'' req) = 8"
  shows "final_key k req = decode_client_key (get_header ''Sec-WebSocket-Key1'' req)
    @ decode_client_key (get_header ''Sec-WebSocket-Key2'' req) @ octets_of (get_header ''Sec-WebSocket-Key3'' req)"
  using assms by (simp add: final_key_def copy_into_def Let_def)

lemma append_header_keeps:
  assumes "list_ex is_not_token_char k = False"
  shows "\<exists>r'. append_header k v r = Parsed r' \<and> s_status_code r' = s_status_code r
    \<and> (\<forall>k'. \<not> ci_eq k k' \<longrightarrow> get_header k' r' = get_header k' r) \<and> (get_header k r = [] \<longrightarrow> get_header k r' = v)"
proof -
  obtain pre where p: "append_header k v r = Parsed (replace_header k (pre @ v) r)" "get_header k r = [] \<Longrightarrow> pre = []"
    using append_header_value [OF assms, of v r] by blast
  then show ?thesis by (auto simp: get_header_update) (simp_all add: replace_header_def)
qed

lemma hybi00_process_total:
  "\<exists>r. hybi00_process_handshake buf secure k req subprotocol res = Parsed r \<and> s_status_code r = s_status_code res
    \<and> (get_header ''Sec-WebSocket-Key3'' res = [] \<longrightarrow> get_header ''Sec-WebSocket-Key3'' r = text_of (md5_hash_string buf (final_key k req)))"
proof -
  let ?d = "text_of (md5_hash_string buf (final_key k req))"
  obtain r1 where r1: "append_header ''Sec-WebSocket-Key3'' ?d res = Parsed r1" "s_status_code r1 = s_status_code res"
    "get_header ''Sec-WebSocket-Key3'' res = [] \<Longrightarrow> get_header ''Sec-WebSocket-Key3'' r1 = ?d"
    using append_header_keeps [OF draft_tokens(1), of ?d res] by blast
  obtain r2 where r2: "append_header ''Upgrade'' ''WebSocket'' r1 = Parsed r2" "s_status_code r2 = s_status_code r1"
    "get_header ''Sec-WebSocket-Key3'' r2 = get_header ''Sec-WebSocket-Key3'' r1"
    using append_header_keeps [OF handshake_tokens(1), of "''WebSocket''" r1] draft_ci by blast
  obtain r3 where r3: "append_header ''Connection'' ''Upgrade'' r2 = Parsed r3" "s_status_code r3 = s_status_code r2"
    "get_header ''Sec-WebSocket-Key3'' r3 = get_header ''Sec-WebSocket-Key3'' r2"
    using append_header_keeps [OF handshake_tokens(2), of "''Upgrade''" r2] draft_ci by blast
  obtain r4 where r4: "(if get_header ''Sec-WebSocket-Origin'' r3 = []
      then append_header ''Sec-WebSocket-Origin'' (get_header ''Origin'' req) r3 else Parsed r3) = Parsed r4"
    "s_status_code r4 = s_status_code r3" "get_header ''Sec-WebSocket-Key3'' r4 = get_header ''Sec-WebSocket-Key3'' r3"
    using append_header_keeps [OF draft_tokens(2), of "get_header ''Origin'' req" r3] draft_ci
    by (cases "get_header ''Sec-WebSocket-Origin'' r3 = []") auto
  obtain r5 where r5: "(if get_header ''Sec-WebSocket-Location'' r4 = []
      then append_header ''Sec-WebSocket-Location'' (uri_str (hybi00_get_uri secure req)) r4 else Parsed r4) = Parsed r5"
    "s_status_code r5 = s_status_code r4" "get_header ''Sec-WebSocket-Key3'' r5 = get_header ''Sec-WebSocket-Key3'' r4"
    using append_header_keeps [OF draft_tokens(3), of "uri_str (hybi00_get_uri secure req)" r4] draft_ci
    by (cases "get_header ''Sec-WebSocket-Location'' r4 = []") auto
  show ?thesis
    unfolding hybi00_process_handshake_def r1(1) r2(1) r3(1) and_then.simps r4(1) r5(1)
    using r1(2,3) r2(2,3) r3(2,3) r4(2,3) r5(2,3) by (simp add: get_header_update draft_ci) (simp add: replace_header_def)
qed

text \<open>C19. The server answers the challenge of draft 76: for keys that stand for two numbers and eight octets behind
the request, what it writes ends with the MD5 digest of the numbers, high octet first, and the octets.\<close>

theorem hybi00_answers_challenge:
  assumes "length buf = 64" and "length k = 16" and "draft_key (get_header ''Sec-WebSocket-Key1'' req) n"
    and "draft_key (get_header ''Sec-WebSocket-Key2'' req) m" and "length (get_header ''Sec-WebSocket-Key3'' req) = 8"
    and "get_header ''Sec-WebSocket-Key3'' res = []"
  shows "\<exists>r. hybi00_process_handshake buf secure k req subprotocol res = Parsed r
    \<and> hybi00_get_raw r = response_raw (remove_header ''Sec-WebSocket-Key3'' r) @ text_of (rfc1321
        (rev (le_bytes 4 (word_of_nat n :: u32)) @ rev (le_bytes 4 (word_of_nat m :: u32)) @ octets_of (get_header ''Sec-WebSocket-Key3'' req)))"
  using hybi00_process_total [of buf secure k req subprotocol res] assms(6)
  by (auto simp: hybi00_get_raw_def hash_string_rfc [OF assms(1)] final_key_octets [OF assms(2,5)] decode_draft_key [OF assms(3)]
      decode_draft_key [OF assms(4)])

text \<open>The example of the draft.\<close>

definition draft_request :: request where
  "draft_request = request_new\<lparr>q_method := ''GET'', q_uri := ''/demo'', h_version := ''HTTP/1.1'', h_headers :=
     [(''Sec-WebSocket-Key1'', ''18x 6]8vM;54 *(5:  {   U1]8  z [  8''), (''Sec-WebSocket-Key2'', ''1_ tx7X d  <  nw  334J702) 7]o}` 0''),
      (''Sec-WebSocket-Key3'', ''Tm[K T2u'')]\<rparr>"

theorem hybi00_answers_challenge_witness:
  "\<exists>r. hybi00_process_handshake (replicate 64 1) False (replicate 16 2) draft_request [] response_new = Parsed r
    \<and> hybi00_get_raw r = response_raw (remove_header ''Sec-WebSocket-Key3'' r) @ text_of (rfc1321
        (rev (le_bytes 4 (155712099 :: u32)) @ rev (le_bytes 4 (173347027 :: u32)) @ octets_of ''Tm[K T2u''))"
proof -
  have k: "get_header ''Sec-WebSocket-Key1'' draft_request = ''18x 6]8vM;54 *(5:  {   U1]8  z [  8''"
    "get_header ''Sec-WebSocket-Key2'' draft_request = ''1_ tx7X d  <  nw  334J702) 7]o}` 0''"
    "get_header ''Sec-WebSocket-Key3'' draft_request = ''Tm[K T2u''" "get_header ''Sec-WebSocket-Key3'' response_new = []"
    by (simp_all add: draft_request_def get_header_def response_new_def ci_eq_key ci_key_def tolower_def)
  have d: "draft_key ''18x 6]8vM;54 *(5:  {   U1]8  z [  8'' 155712099" "draft_key ''1_ tx7X d  <  nw  334J702) 7]o}` 0'' 173347027"
    by (simp add: draft_key_def is_digit_def decimal.simps, code_simp)+
  from hybi00_answers_challenge [of "replicate 64 1" "replicate 16 2" draft_request 155712099 173347027 response_new] show ?thesis
    by (simp add: k d)
qed

end
