(* ===== verification/WsFraming.thy ===== *)
theory WsFraming imports WsHybi13 begin

text \<open>
  What the frame processor does with whole frames and with a stream: the abstract frames, the
  states it passes through while it reads one (with any number of bytes available per call), the
  message it ends with, and the loop of \<open>handle_read_frame\<close> that collects messages.
\<close>

subsection \<open>Frames\<close>

record ws_frame =
  fr_op :: opcode
  fr_fin :: bool
  fr_key :: "u32 option"
  fr_payload :: bytes

definition frame_size :: "ws_frame \<Rightarrow> u64" where
  "frame_size fr = word_of_nat (length (fr_payload fr))"

definition frame_header :: "ws_frame \<Rightarrow> basic_header" where
  "frame_header fr = new_basic_header (fr_op fr) (frame_size fr) (fr_fin fr) (fr_key fr \<noteq> None) False False False"

text \<open>The octets after the two of the basic header.\<close>

definition frame_ext :: "ws_frame \<Rightarrow> bytes" where
  "frame_ext fr = size_field (frame_size fr) @ (case fr_key fr of None \<Rightarrow> [] | Some k \<Rightarrow> le_bytes 4 k)"

definition frame_body :: "ws_frame \<Rightarrow> bytes" where
  "frame_body fr = (case fr_key fr of None \<Rightarrow> fr_payload fr | Some k \<Rightarrow> byte_mask (fr_payload fr) k 0)"

definition frame_wire :: "ws_frame \<Rightarrow> bytes" where
  "frame_wire fr = b0 (frame_header fr) # b1 (frame_header fr) # frame_ext fr @ frame_body fr"

lemma length_frame_body [simp]: "length (frame_body fr) = length (fr_payload fr)"
  by (simp add: frame_body_def split: option.splits)

lemma length_frame_ext:
  "length (frame_ext fr) = get_header_len (frame_header fr) - BASIC_HEADER_LENGTH"
  "length (frame_ext fr) \<le> 12"
  using header_tail_length [of "fr_op fr" "frame_size fr" "fr_fin fr" "fr_key fr \<noteq> None" False False False]
  by (auto simp: frame_ext_def frame_header_def size_field_def split: option.splits)

lemma length_frame_wire: "length (frame_wire fr) = 2 + length (frame_ext fr) + length (fr_payload fr)"
  by (simp add: frame_wire_def)

lemma frame_wire_nth:
  "frame_wire fr ! 0 = b0 (frame_header fr)" "frame_wire fr ! 1 = b1 (frame_header fr)"
  "i < length (frame_ext fr) \<Longrightarrow> frame_wire fr ! (2 + i) = frame_ext fr ! i"
  "j < length (fr_payload fr) \<Longrightarrow> frame_wire fr ! (2 + length (frame_ext fr) + j) = frame_body fr ! j"
  by (simp_all add: frame_wire_def nth_append)

subsection \<open>What a frame must satisfy to be taken\<close>

text \<open>The message a data frame continues: opcode, payload so far and validator.\<close>

definition open_message :: "hybi13 \<Rightarrow> (opcode \<times> bytes \<times> validator) option" where
  "open_message h = (case msg_ptr (m_data_msg h) of None \<Rightarrow> None
     | Some msg \<Rightarrow> Some (m_opcode msg, m_payload msg, md_validator (m_data_msg h)))"

text \<open>The message a frame adds to, with the opcode of the message it belongs to.\<close>

definition message_of :: "(opcode \<times> bytes \<times> validator) option \<Rightarrow> ws_frame \<Rightarrow> opcode \<times> bytes \<times> validator" where
  "message_of opn fr = (if is_control (fr_op fr) then (fr_op fr, [], validator_new)
     else case opn of None \<Rightarrow> (fr_op fr, [], validator_new) | Some x \<Rightarrow> x)"

definition base_message :: "hybi13 \<Rightarrow> ws_frame \<Rightarrow> opcode \<times> bytes \<times> validator" where
  "base_message h fr = message_of (open_message h) fr"

definition text_verdict :: "opcode \<Rightarrow> bytes \<Rightarrow> validator \<Rightarrow> bool \<times> validator" where
  "text_verdict opc bs v = (if opc = op_text then validator_decode bs v else (True, v))"

definition accepts :: "bool \<Rightarrow> u64 \<Rightarrow> (opcode \<times> bytes \<times> validator) option \<Rightarrow> ws_frame \<Rightarrow> bool" where
  "accepts server max_size opn fr \<longleftrightarrow>
     0 \<le> fr_op fr \<and> fr_op fr \<le> 15 \<and> \<not> reserved (fr_op fr)
   \<and> (is_control (fr_op fr) \<longrightarrow> length (fr_payload fr) \<le> 125 \<and> fr_fin fr)
   \<and> (\<not> is_control (fr_op fr) \<longrightarrow> (fr_op fr = op_continuation \<longleftrightarrow> opn \<noteq> None)
        \<and> length (fst (snd (message_of opn fr))) + length (fr_payload fr) \<le> unat max_size)
   \<and> (server \<longleftrightarrow> fr_key fr \<noteq> None)
   \<and> length (fr_payload fr) < 2 ^ 63
   \<and> (case message_of opn fr of (opc, _, v) \<Rightarrow>
        fst (text_verdict opc (fr_payload fr) v)
        \<and> (fr_fin fr \<and> fr_op fr = op_text \<longrightarrow> validator_complete (snd (text_verdict opc (fr_payload fr) v))))"

definition accepts_frame :: "hybi13 \<Rightarrow> ws_frame \<Rightarrow> bool" where
  "accepts_frame h fr \<longleftrightarrow> accepts (m_server h) (m_max_message_size h) (open_message h) fr"

lemma accepts_frame_iff:
  "accepts_frame h fr \<longleftrightarrow>
     0 \<le> fr_op fr \<and> fr_op fr \<le> 15 \<and> \<not> reserved (fr_op fr)
   \<and> (is_control (fr_op fr) \<longrightarrow> length (fr_payload fr) \<le> 125 \<and> fr_fin fr)
   \<and> (\<not> is_control (fr_op fr) \<longrightarrow> (fr_op fr = op_continuation \<longleftrightarrow> open_message h \<noteq> None)
        \<and> length (fst (snd (base_message h fr))) + length (fr_payload fr) \<le> unat (m_max_message_size h))
   \<and> (m_server h \<longleftrightarrow> fr_key fr \<noteq> None)
   \<and> length (fr_payload fr) < 2 ^ 63
   \<and> (case base_message h fr of (opc, _, v) \<Rightarrow>
        fst (text_verdict opc (fr_payload fr) v)
        \<and> (fr_fin fr \<and> fr_op fr = op_text \<longrightarrow> validator_complete (snd (text_verdict opc (fr_payload fr) v))))"
  unfolding accepts_frame_def accepts_def base_message_def ..

lemma base_message_eq:
  "base_message h fr = (if is_control (fr_op fr) then (fr_op fr, [], validator_new)
     else case open_message h of None \<Rightarrow> (fr_op fr, [], validator_new) | Some x \<Rightarrow> x)"
  by (simp add: base_message_def message_of_def)

text \<open>The processor between two frames.\<close>

definition idle :: "hybi13 \<Rightarrow> bool" where
  "idle h \<longleftrightarrow> m_hstate h = HEADER_BASIC \<and> m_bytes_needed h = 2 \<and> length (m_extended_header h) = 12"

subsection \<open>Stages of a frame\<close>

definition basic_at :: "hybi13 \<Rightarrow> ws_frame \<Rightarrow> nat \<Rightarrow> hybi13 \<Rightarrow> bool" where
  "basic_at h0 fr k h \<longleftrightarrow> (k = 0 \<and> h = h0)
     \<or> (k = 1 \<and> h = h0\<lparr>m_basic_header := (m_basic_header h0)\<lparr>b0 := b0 (frame_header fr)\<rparr>, m_bytes_needed := 1\<rparr>)"

definition ext_at :: "hybi13 \<Rightarrow> ws_frame \<Rightarrow> nat \<Rightarrow> hybi13 \<Rightarrow> bool" where
  "ext_at h0 fr k h \<longleftrightarrow> k \<le> length (frame_ext fr) \<and>
     h = h0\<lparr>m_basic_header := frame_header fr, m_hstate := HEADER_EXTENDED, m_cursor := k,
            m_bytes_needed := word_of_nat (length (frame_ext fr) - k),
            m_extended_header := take k (frame_ext fr) @ drop k (m_extended_header h0)\<rparr>"

text \<open>After \<open>j\<close> octets of the payload; the masking key goes on where the octets so far left it.\<close>

definition metadata_at :: "hybi13 \<Rightarrow> ws_frame \<Rightarrow> nat \<Rightarrow> msg_metadata \<Rightarrow> bool" where
  "metadata_at h0 fr j md \<longleftrightarrow>
     (case base_message h0 fr of (opc, bs, v) \<Rightarrow>
        (\<exists>msg. msg_ptr md = Some msg \<and> m_opcode msg = opc \<and> m_payload msg = bs @ take j (fr_payload fr)
           \<and> \<not> (pmd_is_enabled \<and> m_compressed msg))
        \<and> md_validator md = snd (text_verdict opc (take j (fr_payload fr)) v))
   \<and> (case fr_key fr of None \<Rightarrow> True
      | Some k \<Rightarrow> periodic (prepared_key md)
          \<and> (\<forall>i. le_bytes 8 (prepared_key md) ! (i mod 8) = le_bytes 4 k ! ((j + i) mod 4)))"

definition app_at :: "hybi13 \<Rightarrow> ws_frame \<Rightarrow> nat \<Rightarrow> hybi13 \<Rightarrow> bool" where
  "app_at h0 fr j h \<longleftrightarrow> j \<le> length (fr_payload fr) \<and> m_hstate h = APPLICATION
   \<and> m_basic_header h = frame_header fr \<and> m_bytes_needed h = word_of_nat (length (fr_payload fr) - j)
   \<and> m_server h = m_server h0 \<and> m_max_message_size h = m_max_message_size h0
   \<and> length (m_extended_header h) = 12
   \<and> (if is_control (fr_op fr) then m_current_msg h = ControlMsg \<and> m_data_msg h = m_data_msg h0
        \<and> metadata_at h0 fr j (m_control_msg h)
      else m_current_msg h = DataMsg \<and> metadata_at h0 fr j (m_data_msg h))"

text \<open>The end of the frame: a message to hand over, or the next frame of a fragmented one.\<close>

definition frame_end :: "hybi13 \<Rightarrow> ws_frame \<Rightarrow> hybi13 \<Rightarrow> bool" where
  "frame_end h0 fr h \<longleftrightarrow>
     m_server h = m_server h0 \<and> m_max_message_size h = m_max_message_size h0
   \<and> length (m_extended_header h) = 12
   \<and> (if is_control (fr_op fr) then m_current_msg h = ControlMsg \<and> m_data_msg h = m_data_msg h0
        \<and> metadata_at h0 fr (length (fr_payload fr)) (m_control_msg h)
      else m_current_msg h = DataMsg \<and> metadata_at h0 fr (length (fr_payload fr)) (m_data_msg h))
   \<and> (if fr_fin fr then m_hstate h = READY else m_hstate h = HEADER_BASIC \<and> m_bytes_needed h = 2)"

definition stage :: "hybi13 \<Rightarrow> ws_frame \<Rightarrow> nat \<Rightarrow> hybi13 \<Rightarrow> bool" where
  "stage h0 fr k h \<longleftrightarrow> (k < 2 \<and> basic_at h0 fr k h)
     \<or> (2 \<le> k \<and> ext_at h0 fr (k - 2) h)
     \<or> (2 + length (frame_ext fr) \<le> k \<and> app_at h0 fr (k - (2 + length (frame_ext fr))) h)"

subsection \<open>The headers\<close>

lemma frame_fields:
  assumes "0 \<le> fr_op fr" and "fr_op fr \<le> 15"
  shows "get_fin (frame_header fr) = fr_fin fr" "\<not> get_rsv1 (frame_header fr)" "\<not> get_rsv2 (frame_header fr)"
    "\<not> get_rsv3 (frame_header fr)" "get_opcode (frame_header fr) = fr_op fr"
    "get_masked (frame_header fr) \<longleftrightarrow> fr_key fr \<noteq> None"
    "get_payload_size (frame_header fr) (frame_ext fr @ rest) = frame_size fr"
    "fr_key fr = Some k \<Longrightarrow> get_masking_key (frame_header fr) (frame_ext fr @ rest) = k"
  using first_byte_fields [OF assms, of "frame_size fr" "fr_fin fr" "fr_key fr \<noteq> None" False False False]
  by (auto simp: frame_header_def second_byte_fields frame_ext_def get_payload_size_field get_masking_key_field)

lemma header_valid:
  assumes "accepts_frame h0 fr"
  shows "validate_incoming_basic_header (frame_header fr) (m_server h0) (msg_ptr (m_data_msg h0) = None) = None"
proof -
  have r: "0 \<le> fr_op fr" "fr_op fr \<le> 15" using assms by (simp_all add: accepts_frame_iff)
  note f = frame_fields [OF r]
  have "is_control (fr_op fr) \<Longrightarrow> get_basic_size (frame_header fr) \<le> payload_size_basic"
  proof -
    assume "is_control (fr_op fr)"
    then have "length (fr_payload fr) \<le> 125" using assms by (simp add: accepts_frame_iff)
    then have "frame_size fr \<le> 125"
      by (simp add: frame_size_def word_le_nat_alt unat_of_nat take_bit_nat_eq_self)
    then show ?thesis
      using small_size [of "frame_size fr"]
      by (simp add: frame_header_def second_byte_fields basic_size_code_eq limit_defs)
  qed
  moreover have "open_message h0 = None \<longleftrightarrow> msg_ptr (m_data_msg h0) = None"
    by (simp add: open_message_def split: option.splits)
  ultimately show ?thesis
    using assms f r unfolding accepts_frame_iff validate_incoming_basic_header_def Let_def
    by (auto simp: invalid_def is_control_def not_less)
qed

lemma extended_valid:
  "validate_incoming_extended_header (frame_header fr) (frame_ext fr @ rest) = None"
proof -
  have "get_payload_size (frame_header fr) (frame_ext fr @ rest) = frame_size fr"
    by (simp add: frame_ext_def frame_header_def get_payload_size_field)
  then show ?thesis
    using small_code [of "frame_size fr"]
    by (auto simp: validate_incoming_extended_header_def Let_def frame_header_def second_byte_fields
        basic_size_code_eq size_limits limit_defs)
qed

subsection \<open>One turn of the loop\<close>

text \<open>From \<open>p\<close> on the buffer holds the frame from its octet \<open>k\<close> on, as far as both go.\<close>

definition fed :: "memory \<Rightarrow> nat \<Rightarrow> nat \<Rightarrow> nat \<Rightarrow> ws_frame \<Rightarrow> nat \<Rightarrow> bool" where
  "fed m buf len p fr k \<longleftrightarrow>
     (\<forall>i. p + i < len \<longrightarrow> k + i < length (frame_wire fr) \<longrightarrow> m (buf + p + i) = frame_wire fr ! (k + i))"

definition unchanged_outside :: "nat \<Rightarrow> nat \<Rightarrow> memory \<Rightarrow> memory \<Rightarrow> bool" where
  "unchanged_outside a n m m' \<longleftrightarrow> (\<forall>x. x < a \<or> a + n \<le> x \<longrightarrow> m' x = m x)"

lemma unchanged_same [simp]: "unchanged_outside a n m m"
  by (simp add: unchanged_outside_def)

definition turn_ok :: "hybi13 \<Rightarrow> ws_frame \<Rightarrow> nat \<Rightarrow> nat \<Rightarrow> nat \<Rightarrow> nat \<Rightarrow> hybi13 \<Rightarrow> memory \<Rightarrow> bool" where
  "turn_ok h0 fr buf len p k h m \<longleftrightarrow> (\<exists>n h' m'. consume_turn buf len p h m = More (p + n) h' m' \<and> p + n \<le> len
     \<and> k + n \<le> length (frame_wire fr)
     \<and> (stage h0 fr (k + n) h' \<or> k + n = length (frame_wire fr) \<and> frame_end h0 fr h')
     \<and> unchanged_outside (buf + p) n m m')"

lemma basic_header_eta [simp]: "\<lparr>b0 = b0 h, b1 = b1 h\<rparr> = (h :: basic_header)"
  by simp

lemma basic_header_set [simp]: "x\<lparr>b0 := b0 h, b1 := b1 h\<rparr> = (h :: basic_header)"
  by (cases x; cases h) simp

lemma unat_small: "n < 2 ^ LENGTH('a) \<Longrightarrow> unat (word_of_nat n :: 'a::len word) = n"
  by (simp add: unat_of_nat take_bit_nat_eq_self)

lemma turn_basic:
  assumes ok: "accepts_frame h0 fr" and h0: "idle h0" and b: "basic_at h0 fr k h" and k: "k < 2"
    and more: "consume_more len p h" and fed: "fed m buf len p fr k" and p: "p \<le> len"
  shows "turn_ok h0 fr buf len p k h m"
proof -
  note valid = header_valid [OF ok]
  have W: "2 \<le> length (frame_wire fr)" by (simp add: length_frame_wire)
  have ext: "ext_at h0 fr 0 (h0\<lparr>m_basic_header := frame_header fr, m_bytes_needed := 0, m_hstate := HEADER_EXTENDED,
      m_cursor := 0, m_bytes_needed := word_of_nat (get_header_len (frame_header fr) - BASIC_HEADER_LENGTH)\<rparr>)"
    by (simp add: ext_at_def length_frame_ext)
  consider "k = 0" "h = h0" | "k = 1"
      "h = h0\<lparr>m_basic_header := (m_basic_header h0)\<lparr>b0 := b0 (frame_header fr)\<rparr>, m_bytes_needed := 1\<rparr>"
    using b by (auto simp: basic_at_def)
  then show ?thesis
  proof cases
    case 1
    have lt: "p < len" using more h0 1 by (auto simp: consume_more_def idle_def)
    have b0: "m (buf + p) = b0 (frame_header fr)"
      using fed 1 lt W frame_wire_nth(1) [of fr] by (auto simp: fed_def dest: spec [of _ 0])
    show ?thesis
    proof (cases "len - p > 1")
      case True
      then have "m (buf + p + 1) = b1 (frame_header fr)"
        using fed 1 W frame_wire_nth(2) [of fr] by (auto simp: fed_def dest: spec [of _ 1])
      then have "consume_turn buf len p h m = More (p + 2) (h0\<lparr>m_basic_header := frame_header fr, m_bytes_needed := 0,
          m_hstate := HEADER_EXTENDED, m_cursor := 0,
          m_bytes_needed := word_of_nat (get_header_len (frame_header fr) - BASIC_HEADER_LENGTH)\<rparr>) m"
        using True h0 1 b0 valid lt
        by (simp add: consume_turn_def copy_basic_header_bytes_def idle_def Let_def)
      then show ?thesis unfolding turn_ok_def
        using ext True lt W 1
        by (intro exI [of _ 2] exI conjI) (auto simp: stage_def)
    next
      case False
      then have "consume_turn buf len p h m = More (p + 1)
          (h0\<lparr>m_basic_header := (m_basic_header h0)\<lparr>b0 := b0 (frame_header fr)\<rparr>, m_bytes_needed := 1\<rparr>) m"
        using h0 1 b0 lt by (simp add: consume_turn_def copy_basic_header_bytes_def idle_def Let_def)
      then show ?thesis unfolding turn_ok_def
        using lt W 1 by (intro exI [of _ 1] exI conjI) (auto simp: stage_def basic_at_def)
    qed
  next
    case 2
    have lt: "p < len" using more h0 2 by (auto simp: consume_more_def idle_def)
    have b1: "m (buf + p) = b1 (frame_header fr)"
      using fed 2 lt W frame_wire_nth(2) [of fr] by (auto simp: fed_def dest: spec [of _ 0])
    have "consume_turn buf len p h m = More (p + 1) (h0\<lparr>m_basic_header := frame_header fr, m_bytes_needed := 0,
          m_hstate := HEADER_EXTENDED, m_cursor := 0,
          m_bytes_needed := word_of_nat (get_header_len (frame_header fr) - BASIC_HEADER_LENGTH)\<rparr>) m"
      using h0 2 b1 valid lt
      by (simp add: consume_turn_def copy_basic_header_bytes_def idle_def Let_def)
    then show ?thesis unfolding turn_ok_def
      using ext lt W 2 by (intro exI [of _ 1] exI conjI) (auto simp: stage_def)
  qed
qed

lemma copy_at_prefix:
  assumes "j + n \<le> length ext" and "length ext \<le> length old"
  shows "copy_at j (take n (drop j ext)) (take j ext @ drop j old) = take (j + n) ext @ drop (j + n) old"
  using assms by (simp add: copy_at_def take_add min_absorb1 add.commute)

lemma peek_fed:
  assumes "fed m buf len p fr k" and "p + n \<le> len" and "k + n \<le> length (frame_wire fr)"
  shows "peek m (buf + p) n = take n (drop k (frame_wire fr))"
  using assms by (intro nth_equalityI) (auto simp: fed_def)

lemma frame_wire_drop:
  "drop (2 + j) (frame_wire fr) = drop j (frame_ext fr) @ drop (j - length (frame_ext fr)) (frame_body fr)"
  by (simp add: frame_wire_def)

lemma app_at_update:
  "start_frame h = (None, h') \<Longrightarrow> m_server h' = m_server h \<and> m_max_message_size h' = m_max_message_size h
     \<and> m_basic_header h' = m_basic_header h \<and> m_extended_header h' = m_extended_header h"
  by (auto simp: start_frame_def Let_def split: option.splits if_splits)

lemma metadata_start:
  assumes "msg_ptr md = Some msg" and "m_opcode msg = opc" and "m_payload msg = bs" and "md_validator md = v"
    and "base_message h0 fr = (opc, bs, v)"
    and "\<And>k. fr_key fr = Some k \<Longrightarrow> prepared_key md = prepare_masking_key k"
  shows "metadata_at h0 fr 0 md"
proof -
  have "le_bytes 8 (prepare_masking_key k) ! (i mod 8) = le_bytes 4 k ! (i mod 4)" for i k
    using prepared_key_bytes [of "i mod 8" k] by (simp add: mod_mod_cancel)
  then show ?thesis
    using assms by (auto simp: metadata_at_def pmd_is_enabled_def text_verdict_def split: option.splits)
qed

lemma start_frame_ok:
  assumes ok: "accepts_frame h0 fr" and h: "m_basic_header h = frame_header fr"
    "m_extended_header h = frame_ext fr @ rest" "length (m_extended_header h) = 12"
    "m_server h = m_server h0" "m_max_message_size h = m_max_message_size h0" "m_data_msg h = m_data_msg h0"
  shows "\<exists>h'. start_frame h = (None, h') \<and> app_at h0 fr 0 h'"
proof -
  have r: "0 \<le> fr_op fr" "fr_op fr \<le> 15" using ok by (simp_all add: accepts_frame_iff)
  note f = frame_fields [OF r]
  have size: "get_payload_size (m_basic_header h) (m_extended_header h) = frame_size fr"
    using h(1,2) f by simp
  have key: "fr_key fr = Some k \<Longrightarrow> get_masking_key (m_basic_header h) (m_extended_header h) = k" for k
    using h(1,2) f by simp
  have sz: "unat (frame_size fr) = length (fr_payload fr)"
    using ok by (simp add: frame_size_def accepts_frame_iff unat_small)
  show ?thesis
  proof (cases "is_control (fr_op fr)")
    case True
    have "metadata_at h0 fr 0 (msg_metadata_new (get_message_op (fr_op fr)) (get_masking_key (m_basic_header h) (m_extended_header h)))"
      by (rule metadata_start) (use True key in \<open>auto simp: msg_metadata_new_def get_message_op_def base_message_eq\<close>)
    with True h f size show ?thesis
      by (simp add: start_frame_def Let_def app_at_def frame_size_def)
  next
    case data: False
    show ?thesis
    proof (cases "msg_ptr (m_data_msg h0)")
      case None
      then have base: "base_message h0 fr = (fr_op fr, [], validator_new)"
        using data by (simp add: base_message_eq open_message_def)
      have "\<not> frame_size fr > m_max_message_size h"
        using ok data base h(5) sz by (simp add: accepts_frame_iff not_less word_le_nat_alt)
      moreover have "metadata_at h0 fr 0 (msg_metadata_new (get_message_op (fr_op fr)) (get_masking_key (m_basic_header h) (m_extended_header h)))"
        by (rule metadata_start) (use base key in \<open>auto simp: msg_metadata_new_def get_message_op_def\<close>)
      ultimately show ?thesis
        using data h f size None
        by (simp add: start_frame_def Let_def app_at_def frame_size_def pmd_is_enabled_def)
    next
      case (Some msg)
      then have base: "base_message h0 fr = (m_opcode msg, m_payload msg, md_validator (m_data_msg h0))"
        using data by (simp add: base_message_eq open_message_def)
      have le: "length (m_payload msg) + length (fr_payload fr) \<le> unat (m_max_message_size h0)"
        using ok data base by (simp add: accepts_frame_iff)
      have "unat (m_max_message_size h0) < 2 ^ LENGTH(64)" by (rule unsigned_less)
      with le have lt: "length (m_payload msg) + length (fr_payload fr) < 2 ^ 64" by simp
      have "unat (word_of_nat (length (m_payload msg)) + frame_size fr) = length (m_payload msg) + length (fr_payload fr)"
        using lt by (simp add: unat_word_ariths sz unat_small)
      then have "\<not> word_of_nat (length (m_payload msg)) + frame_size fr > m_max_message_size h"
        using le h(5) by (simp add: not_less word_le_nat_alt)
      moreover have "metadata_at h0 fr 0 ((m_data_msg h)\<lparr>prepared_key :=
          prepare_masking_key (get_masking_key (m_basic_header h) (m_extended_header h))\<rparr>)"
        by (rule metadata_start) (use base key Some h(6) in auto)
      ultimately show ?thesis
        using data h f size Some
        by (simp add: start_frame_def Let_def app_at_def frame_size_def)
    qed
  qed
qed

lemma turn_extended:
  assumes ok: "accepts_frame h0 fr" and h0: "idle h0" and e: "ext_at h0 fr j h" and k: "k = 2 + j"
    and more: "consume_more len p h" and fed: "fed m buf len p fr k" and p: "p \<le> len"
  shows "turn_ok h0 fr buf len p k h m"
proof -
  let ?E = "length (frame_ext fr)"
  have E: "?E \<le> 12" "length (m_extended_header h0) = 12" using length_frame_ext(2) h0 by (auto simp: idle_def)
  have j: "j \<le> ?E" and h: "h = h0\<lparr>m_basic_header := frame_header fr, m_hstate := HEADER_EXTENDED, m_cursor := j,
            m_bytes_needed := word_of_nat (?E - j),
            m_extended_header := take j (frame_ext fr) @ drop j (m_extended_header h0)\<rparr>"
    using e by (simp_all add: ext_at_def)
  define n where "n = min (?E - j) (len - p)"
  have un: "unat (m_bytes_needed h) = ?E - j" using E by (simp add: h unat_small)
  have n: "p + n \<le> len" "j + n \<le> ?E" using p j by (auto simp: n_def)
  have "peek m (buf + p) n = take n (drop j (frame_ext fr))"
    using peek_fed [OF fed n(1)] n(2) unfolding k frame_wire_drop by (simp add: length_frame_wire)
  then have ext: "copy_at j (peek m (buf + p) n) (take j (frame_ext fr) @ drop j (m_extended_header h0))
      = take (j + n) (frame_ext fr) @ drop (j + n) (m_extended_header h0)"
    using copy_at_prefix [OF n(2)] E by simp
  have sub: "m_bytes_needed h - word_of_nat n = word_of_nat (?E - (j + n))"
    using n by (simp add: h of_nat_diff)
  let ?h = "h0\<lparr>m_basic_header := frame_header fr, m_hstate := HEADER_EXTENDED, m_cursor := j + n,
            m_bytes_needed := word_of_nat (?E - (j + n)),
            m_extended_header := take (j + n) (frame_ext fr) @ drop (j + n) (m_extended_header h0)\<rparr>"
  have copy: "copy_extended_header_bytes m (buf + p) (len - p) h = (n, ?h)"
    unfolding copy_extended_header_bytes_def un Let_def n_def [symmetric] sub
    using ext by (simp add: h)
  have W: "k + n \<le> length (frame_wire fr)" using n k by (simp add: length_frame_wire)
  show ?thesis
  proof (cases "j + n = ?E")
    case False
    have "unat (word_of_nat (?E - (j + n)) :: u64) = ?E - (j + n)" by (rule unat_small) (use E in simp)
    then have "0 < unat (word_of_nat (?E - (j + n)) :: u64)" using n False by linarith
    then have "word_of_nat (?E - (j + n)) > (0 :: u64)" by (simp add: word_less_nat_alt)
    then have "consume_turn buf len p h m = More (p + n) ?h m"
      using copy by (simp add: consume_turn_def h)
    moreover have "ext_at h0 fr (j + n) ?h" using n by (simp add: ext_at_def)
    ultimately show ?thesis unfolding turn_ok_def
      using n W k by (intro exI [of _ n] exI conjI) (auto simp: stage_def)
  next
    case True
    let ?h' = "?h"
    have "validate_incoming_extended_header (frame_header fr) (m_extended_header ?h) = None"
      using extended_valid True by simp
    moreover obtain h' where h': "start_frame ?h = (None, h')" "app_at h0 fr 0 h'"
      using start_frame_ok [OF ok, of ?h "drop ?E (m_extended_header h0)"] True E by auto
    ultimately have "consume_turn buf len p h m = More (p + n) h' m"
      using copy True by (simp add: consume_turn_def h)
    then show ?thesis unfolding turn_ok_def
      using n W k h'(2) True by (intro exI [of _ n] exI conjI) (auto simp: stage_def)
  qed
qed

lemma text_verdict_append:
  assumes "fst (text_verdict opc (s @ t) v)"
  shows "fst (text_verdict opc s v)"
    and "text_verdict opc t (snd (text_verdict opc s v)) = text_verdict opc (s @ t) v"
  using assms validator_streams [of s t v]
  by (auto simp: text_verdict_def Let_def case_prod_beta split: if_splits)

lemma masked_take:
  assumes "fr_key fr = Some k" and "j + n \<le> length (fr_payload fr)" and "i < n"
  shows "frame_body fr ! (j + i) XOR le_bytes 4 k ! ((j + i) mod 4) = fr_payload fr ! (j + i)"
proof -
  have "(x XOR y) XOR y = x" for x y :: u8 by (simp add: xor.assoc)
  then show ?thesis using assms by (simp add: frame_body_def nth_byte_mask)
qed

text \<open>The payload bytes of a turn, unmasked in place when the frame is masked.\<close>

lemma unmask_turn:
  assumes key: "fr_key fr = Some k" and pk: "periodic pk"
    and stream: "\<And>i. le_bytes 8 pk ! (i mod 8) = le_bytes 4 k ! ((j + i) mod 4)"
    and body: "peek m a n = take n (drop j (frame_body fr))" and le: "j + n \<le> length (fr_payload fr)"
  shows "peek (snd (byte_mask_circ a a n pk m)) a n = take n (drop j (fr_payload fr))"
    and "unchanged_outside a n m (snd (byte_mask_circ a a n pk m))"
    and "periodic (fst (byte_mask_circ a a n pk m))"
    and "le_bytes 8 (fst (byte_mask_circ a a n pk m)) ! (i mod 8) = le_bytes 4 k ! ((j + n + i) mod 4)"
proof -
  have same: "same_or_apart a a n" by (simp add: same_or_apart_def)
  note eff = byte_stream.effect [OF pk same, of m]
  have "m (a + i) = frame_body fr ! (j + i)" if "i < n" for i
  proof -
    have "m (a + i) = peek m a n ! i" using that by simp
    then show ?thesis unfolding body using that le by simp
  qed
  then show "peek (snd (byte_mask_circ a a n pk m)) a n = take n (drop j (fr_payload fr))"
    using le masked_take [OF key le] by (intro nth_equalityI) (simp_all add: eff stream)
  show "unchanged_outside a n m (snd (byte_mask_circ a a n pk m))"
    by (auto simp: unchanged_outside_def eff)
  show "periodic (fst (byte_mask_circ a a n pk m))" by (rule byte_stream.keeps_good [OF pk])
  show "le_bytes 8 (fst (byte_mask_circ a a n pk m)) ! (i mod 8) = le_bytes 4 k ! ((j + n + i) mod 4)"
    using byte_stream.advance [OF pk, of a a n m i] stream [of "n + i"] by (simp add: add.assoc)
qed

lemma process_payload_ok:
  assumes ok: "accepts_frame h0 fr" and a: "app_at h0 fr j h" and le: "j + n \<le> length (fr_payload fr)"
    and body: "peek m a n = take n (drop j (frame_body fr))"
  shows "\<exists>h' m'. process_payload_bytes a n h m = Some (n, None, h', m')
     \<and> app_at h0 fr (j + n) h' \<and> unchanged_outside a n m m'"
proof -
  have r: "0 \<le> fr_op fr" "fr_op fr \<le> 15" using ok by (simp_all add: accepts_frame_iff)
  note f = frame_fields [OF r]
  obtain opc bs v where base: "base_message h0 fr = (opc, bs, v)" by (metis prod.collapse)
  define md where "md = (if is_control (fr_op fr) then m_control_msg h else m_data_msg h)"
  have cur: "current_metadata h = Some md" and at: "metadata_at h0 fr j md"
    using a by (auto simp: app_at_def current_metadata_def md_def)
  obtain msg where msg: "msg_ptr md = Some msg" "m_opcode msg = opc" "m_payload msg = bs @ take j (fr_payload fr)"
    using at base by (auto simp: metadata_at_def)
  have v: "md_validator md = snd (text_verdict opc (take j (fr_payload fr)) v)"
    using at base by (simp add: metadata_at_def)
  define new where "new = take n (drop j (fr_payload fr))"
  have take: "take (j + n) (fr_payload fr) = take j (fr_payload fr) @ new"
    by (simp add: new_def take_add)
  obtain key m' where km: "(if get_masked (m_basic_header h) then byte_mask_circ a a n (prepared_key md) m
                       else (prepared_key md, m)) = (key, m')" by (metis prod.collapse)
  have key: "peek m' a n = new \<and> unchanged_outside a n m m' \<and> (case fr_key fr of None \<Rightarrow> True
      | Some k \<Rightarrow> periodic key \<and> (\<forall>i. le_bytes 8 key ! (i mod 8) = le_bytes 4 k ! ((j + n + i) mod 4)))"
  proof (cases "fr_key fr")
    case None
    then show ?thesis using km f a body by (auto simp: app_at_def new_def frame_body_def)
  next
    case (Some k)
    have "periodic (prepared_key md)"
      "\<And>i. le_bytes 8 (prepared_key md) ! (i mod 8) = le_bytes 4 k ! ((j + i) mod 4)"
      using at Some by (simp_all add: metadata_at_def)
    note unmask = unmask_turn [OF Some this body le]
    have "get_masked (m_basic_header h)" using a f Some by (simp add: app_at_def)
    then have "byte_mask_circ a a n (prepared_key md) m = (key, m')" using km by simp
    with unmask Some show ?thesis by (simp add: new_def)
  qed
  have verdict: "fst (text_verdict opc (fr_payload fr) v)"
    using ok base by (simp add: accepts_frame_iff)
  have whole: "fr_payload fr = (take j (fr_payload fr) @ new) @ drop (j + n) (fr_payload fr)"
    unfolding take [symmetric] by simp
  have part: "fst (text_verdict opc (take j (fr_payload fr) @ new) v)"
    using text_verdict_append(1) [of opc "take j (fr_payload fr) @ new" "drop (j + n) (fr_payload fr)" v]
      verdict unfolding whole [symmetric] by blast
  note piece = text_verdict_append(2) [OF part]
  define md' where "md' = md\<lparr>prepared_key := key, msg_ptr := Some (msg\<lparr>m_payload := m_payload msg @ new\<rparr>),
      md_validator := snd (text_verdict opc (take j (fr_payload fr) @ new) v)\<rparr>"
  have proc: "process_payload_bytes a n h m
      = Some (n, None, (update_current md' h)\<lparr>m_bytes_needed := m_bytes_needed h - word_of_nat n\<rparr>, m')"
    using cur msg key km part piece v
    by (simp add: process_payload_bytes_def pmd_is_enabled_def Let_def text_verdict_def case_prod_beta md'_def
        split: if_splits)
  have "metadata_at h0 fr (j + n) md'"
    using key base msg by (simp add: metadata_at_def md'_def take pmd_is_enabled_def split: option.splits)
  moreover have "m_bytes_needed h - word_of_nat n = word_of_nat (length (fr_payload fr) - (j + n))"
    using a le by (simp add: app_at_def of_nat_diff)
  ultimately have "app_at h0 fr (j + n) ((update_current md' h)\<lparr>m_bytes_needed := m_bytes_needed h - word_of_nat n\<rparr>)"
    using a le by (simp add: app_at_def update_current_def)
  with proc key show ?thesis by blast
qed

lemma app_at_current:
  assumes "app_at h0 fr j h"
  obtains md where "current_metadata h = Some md" and "metadata_at h0 fr j md"
    and "update_current md h = h"
  using assms by (cases "is_control (fr_op fr)") (auto simp: app_at_def current_metadata_def update_current_def)

lemma end_of_frame:
  assumes ok: "accepts_frame h0 fr" and a: "app_at h0 fr (length (fr_payload fr)) h"
  shows "if fr_fin fr then finalize_message h = Some (None, h\<lparr>m_hstate := READY\<rparr>) \<and> frame_end h0 fr (h\<lparr>m_hstate := READY\<rparr>)
         else frame_end h0 fr (reset_headers h)"
proof -
  have r: "0 \<le> fr_op fr" "fr_op fr \<le> 15" using ok by (simp_all add: accepts_frame_iff)
  note f = frame_fields [OF r]
  obtain opc bs v where base: "base_message h0 fr = (opc, bs, v)" by (metis prod.collapse)
  obtain md where md: "current_metadata h = Some md" "metadata_at h0 fr (length (fr_payload fr)) md"
    "update_current md h = h" using app_at_current [OF a] .
  then obtain msg where msg: "msg_ptr md = Some msg" "md_validator md = snd (text_verdict opc (fr_payload fr) v)"
    using base by (auto simp: metadata_at_def)
  have hdr: "m_basic_header h = frame_header fr" using a by (simp add: app_at_def)
  have "validator_complete (md_validator md)" if "fr_fin fr" "fr_op fr = op_text"
    using ok that base msg(2) by (simp add: accepts_frame_iff)
  moreover have "md\<lparr>msg_ptr := Some msg\<rparr> = md" by (cases md) (use msg(1) in simp)
  with md(3) have upd: "update_current (md\<lparr>msg_ptr := Some msg\<rparr>) h = h" by (simp only:)
  ultimately have "fr_fin fr \<Longrightarrow> finalize_message h = Some (None, h\<lparr>m_hstate := READY\<rparr>)"
    using md(1) msg(1) f hdr upd unfolding finalize_message_def Let_def by (simp add: pmd_is_enabled_def)
  then show ?thesis
    using a by (auto simp: frame_end_def app_at_def reset_headers_def MAX_EXTENDED_HEADER_LENGTH_def
        BASIC_HEADER_LENGTH_def)
qed

lemma turn_app:
  assumes ok: "accepts_frame h0 fr" and a: "app_at h0 fr j h" and k: "k = 2 + length (frame_ext fr) + j"
    and more: "consume_more len p h" and fed: "fed m buf len p fr k" and p: "p \<le> len"
  shows "turn_ok h0 fr buf len p k h m"
proof -
  let ?L = "length (fr_payload fr)"
  have r: "0 \<le> fr_op fr" "fr_op fr \<le> 15" and L: "?L < 2 ^ 63" using ok by (simp_all add: accepts_frame_iff)
  note f = frame_fields [OF r]
  have j: "j \<le> ?L" and st: "m_hstate h = APPLICATION" and hdr: "m_basic_header h = frame_header fr"
    and need: "m_bytes_needed h = word_of_nat (?L - j)" using a by (simp_all add: app_at_def)
  define n where "n = min (?L - j) (len - p)"
  have un: "unat (m_bytes_needed h) = ?L - j" unfolding need by (rule unat_small) (use L in simp)
  have n: "p + n \<le> len" "j + n \<le> ?L" using p j by (auto simp: n_def)
  have W: "k + n \<le> length (frame_wire fr)" using n k by (simp add: length_frame_wire)
  have body: "peek m (buf + p) n = take n (drop j (frame_body fr))"
    using peek_fed [OF fed n(1) W] unfolding k by (simp add: frame_wire_def)
  have "\<exists>h' m'. (if n > 0 then process_payload_bytes (buf + p) n h m else Some (0, None, h, m)) = Some (n, None, h', m')
     \<and> app_at h0 fr (j + n) h' \<and> unchanged_outside (buf + p) n m m'"
    using process_payload_ok [OF ok a n(2) body] a by (cases "n > 0") auto
  then obtain h' m' where h': "(if n > 0 then process_payload_bytes (buf + p) n h m else Some (0, None, h, m)) = Some (n, None, h', m')"
    "app_at h0 fr (j + n) h'" "unchanged_outside (buf + p) n m m'" by blast
  have need': "m_bytes_needed h' = word_of_nat (?L - (j + n))" "m_basic_header h' = frame_header fr"
    using h'(2) by (simp_all add: app_at_def)
  have un': "unat (word_of_nat (?L - (j + n)) :: u64) = ?L - (j + n)" by (rule unat_small) (use L in simp)
  show ?thesis
  proof (cases "j + n = ?L")
    case False
    then have "m_bytes_needed h' > 0" using n(2) un' unfolding need' word_less_nat_alt by simp
    then have "consume_turn buf len p h m = More (p + n) h' m'"
      using h'(1) by (simp add: consume_turn_def st un n_def [symmetric])
    then show ?thesis unfolding turn_ok_def
      using n W k h'(2,3) by (intro exI [of _ n] exI conjI) (auto simp: stage_def add.assoc)
  next
    case True
    note fin = end_of_frame [OF ok, of h'] 
    have z: "m_bytes_needed h' = 0" using need' True by simp
    have end_W: "k + n = length (frame_wire fr)" using True k by (simp add: length_frame_wire)
    show ?thesis
    proof (cases "fr_fin fr")
      case fin': True
      then have "consume_turn buf len p h m = More (p + n) (h'\<lparr>m_hstate := READY\<rparr>) m'"
        using h' fin True z need' f by (simp add: consume_turn_def st un n_def [symmetric])
      then show ?thesis unfolding turn_ok_def
        using n W h' fin fin' True end_W by (intro exI [of _ n] exI conjI) auto
    next
      case fin': False
      then have "consume_turn buf len p h m = More (p + n) (reset_headers h') m'"
        using h' fin True z need' f by (simp add: consume_turn_def st un n_def [symmetric])
      then show ?thesis unfolding turn_ok_def
        using n W h' fin fin' True end_W by (intro exI [of _ n] exI conjI) auto
    qed
  qed
qed

lemma stage_turn:
  assumes "accepts_frame h0 fr" and "idle h0" and "stage h0 fr k h" and "consume_more len p h"
    and "fed m buf len p fr k" and "p \<le> len"
  shows "turn_ok h0 fr buf len p k h m"
  using assms turn_basic [OF assms(1,2) _ _ assms(4-6)] turn_extended [OF assms(1,2) _ _ assms(4-6)]
    turn_app [OF assms(1) _ _ assms(4-6)]
  unfolding stage_def by (metis le_add_diff_inverse)

lemma fed_advance:
  assumes "fed m buf len p fr k" and "unchanged_outside (buf + p) n m m'"
  shows "fed m' buf len (p + n) fr (k + n)"
  using assms unfolding fed_def unchanged_outside_def
proof (intro allI impI)
  fix i assume "p + n + i < len" "k + n + i < length (frame_wire fr)"
  moreover assume *: "\<forall>i. p + i < len \<longrightarrow> k + i < length (frame_wire fr) \<longrightarrow> m (buf + p + i) = frame_wire fr ! (k + i)"
    "\<forall>x. x < buf + p \<or> buf + p + n \<le> x \<longrightarrow> m' x = m x"
  ultimately show "m' (buf + (p + n) + i) = frame_wire fr ! (k + n + i)"
    using *(1)[rule_format, of "n + i"] by (simp add: add.assoc)
qed

lemma unchanged_trans:
  "unchanged_outside a n m m' \<Longrightarrow> unchanged_outside (a + n) n' m' m'' \<Longrightarrow> unchanged_outside a (n + n') m m''"
  by (simp add: unchanged_outside_def)

text \<open>
  Reading a frame: either the call gets to its end and goes on with what follows, or the input runs
  out inside the frame and the next call can take it up.
\<close>

lemma frame_run:
  assumes "accepts_frame h0 fr" and "idle h0" and "stage h0 fr k h" and "fed m buf len p fr k" and "p \<le> len"
    and "k \<le> length (frame_wire fr)"
  shows "(\<exists>n h' m'. k + n = length (frame_wire fr) \<and> p + n \<le> len \<and> frame_end h0 fr h'
            \<and> consume_loop buf len p h m = consume_loop buf len (p + n) h' m'
            \<and> unchanged_outside (buf + p) n m m')
       \<or> (\<exists>h' m'. k + (len - p) \<le> length (frame_wire fr) \<and> stage h0 fr (k + (len - p)) h'
            \<and> \<not> consume_more len len h' \<and> consume_loop buf len p h m = Some (len, None, h', m')
            \<and> unchanged_outside (buf + p) (len - p) m m')"
  using assms(3-)
proof (induction "turn_measure len p h" arbitrary: p k h m rule: less_induct)
  case less
  have active: "m_hstate h \<noteq> READY \<and> m_hstate h \<noteq> FATAL_ERROR"
    using less.prems(1) assms(2) by (auto simp: stage_def basic_at_def ext_at_def app_at_def idle_def)
  show ?case
  proof (cases "consume_more len p h")
    case False
    then have "p = len" using less.prems(3) active by (auto simp: consume_more_def)
    with False less.prems show ?thesis
      by (intro disjI2 exI [of _ h] exI [of _ m]) (simp add: consume_loop.simps)
  next
    case True
    obtain n h' m' where t: "consume_turn buf len p h m = More (p + n) h' m'" "p + n \<le> len"
      "k + n \<le> length (frame_wire fr)"
      "stage h0 fr (k + n) h' \<or> k + n = length (frame_wire fr) \<and> frame_end h0 fr h'"
      "unchanged_outside (buf + p) n m m'"
      using stage_turn [OF assms(1,2) less.prems(1) True less.prems(2,3)] unfolding turn_ok_def by blast
    have step: "consume_loop buf len p h m = consume_loop buf len (p + n) h' m'"
      using True t(1) by (simp add: consume_loop.simps [of buf len p])
    show ?thesis
    proof (cases "stage h0 fr (k + n) h'")
      case False
      with t step show ?thesis by (intro disjI1 exI [of _ n] exI [of _ h'] exI [of _ m']) simp
    next
      case stage: True
      have dec: "turn_measure len (p + n) h' < turn_measure len p h"
        using turn_measure_decreases [OF True t(1)] .
      note IH = less.hyps [OF dec stage fed_advance [OF less.prems(2) t(5)] t(2,3)]
      from IH show ?thesis
      proof (elim disjE exE conjE)
        fix n' h'' m''
        assume "k + n + n' = length (frame_wire fr)" "p + n + n' \<le> len" "frame_end h0 fr h''"
          "consume_loop buf len (p + n) h' m' = consume_loop buf len (p + n + n') h'' m''"
          "unchanged_outside (buf + (p + n)) n' m' m''"
        with step t(5) show ?thesis
          by (intro disjI1 exI [of _ "n + n'"] exI [of _ h''] exI [of _ m''])
             (auto simp: add.assoc intro: unchanged_trans)
      next
        fix h'' m''
        assume *: "k + n + (len - (p + n)) \<le> length (frame_wire fr)" "stage h0 fr (k + n + (len - (p + n))) h''"
          "\<not> consume_more len len h''" "consume_loop buf len (p + n) h' m' = Some (len, None, h'', m'')"
          "unchanged_outside (buf + (p + n)) (len - (p + n)) m' m''"
        have e: "n + (len - (p + n)) = len - p" using t(2) by simp
        have "unchanged_outside (buf + p) (len - p) m m''"
          using unchanged_trans [OF t(5), of "len - (p + n)" m''] *(5) unfolding e by (simp only: add.assoc)
        moreover have "k + (len - p) \<le> length (frame_wire fr)" "stage h0 fr (k + (len - p)) h''"
          using *(1,2) unfolding add.assoc e by blast+
        ultimately show ?thesis using step *(3,4) by (intro disjI2 exI [of _ h''] exI [of _ m'']) simp
      qed
    qed
  qed
qed

end
