(* ===== verification/WsStream.thy ===== *)
theory WsStream imports WsFraming begin

text \<open>
  Streams of frames: the loop of \<open>connection::handle_read_frame\<close> (\<open>impl/connection_impl.hpp\<close>) that
  feeds what a read returned to the frame processor and collects the messages, the abstract reading
  of a sequence of frames, and the theorems that tie sender, chunked transport and receiver together.
\<close>

subsection \<open>The loop of \<open>handle_read_frame\<close>\<close>

text \<open>
  \<open>buf\<close> is the address of \<open>m_buf\<close>, \<open>n\<close> the bytes transferred. The result lists the messages in
  the order they are dispatched and the error that ended the loop, if any. The loop has no bound of
  its own, so it is a partial function; \<open>None\<close> is a null pointer or a loop that never ends.
\<close>

partial_function (option) read_loop ::
  "nat \<Rightarrow> nat \<Rightarrow> nat \<Rightarrow> hybi13 \<Rightarrow> memory \<Rightarrow> (ws_message list \<times> error_code option \<times> hybi13 \<times> memory) option" where
  "read_loop buf n p h m =
     (if p < n then
        Option.bind (consume (buf + p) (n - p) h m) (\<lambda>(c, ec, h, m).
          if ec \<noteq> None then Some ([], ec, h, m)
          else if hybi13_ready h then
            Option.bind (hybi13_get_message h) (\<lambda>(msg, h).
              Option.bind (read_loop buf n (p + c) h m) (\<lambda>(ms, r).
                Some ((case msg of None \<Rightarrow> ms | Some x \<Rightarrow> x # ms), r)))
          else read_loop buf n (p + c) h m)
      else Some ([], None, h, m))"

text \<open>Successive reads, each into the same buffer; what is behind the bytes read does not matter.\<close>

fun read_chunks :: "memory \<Rightarrow> bytes list \<Rightarrow> hybi13 \<Rightarrow> (ws_message list \<times> error_code option \<times> hybi13) option" where
  "read_chunks m [] h = Some ([], None, h)"
| "read_chunks m (c # cs) h =
     Option.bind (read_loop 0 (length c) 0 h (poke 0 c m)) (\<lambda>(ms, ec, h, m).
       if ec \<noteq> None then Some (ms, ec, h)
       else Option.bind (read_chunks m cs h) (\<lambda>(ms', r). Some (ms @ ms', r)))"

subsection \<open>The messages of a sequence of frames\<close>

definition verdict_after :: "(opcode \<times> bytes \<times> validator) option \<Rightarrow> ws_frame \<Rightarrow> opcode \<times> bytes \<times> validator" where
  "verdict_after opn fr = (case message_of opn fr of (opc, bs, v) \<Rightarrow>
     (opc, bs @ fr_payload fr, snd (text_verdict opc (fr_payload fr) v)))"

definition open_after :: "(opcode \<times> bytes \<times> validator) option \<Rightarrow> ws_frame \<Rightarrow> (opcode \<times> bytes \<times> validator) option" where
  "open_after opn fr = (if is_control (fr_op fr) then opn
     else if fr_fin fr then None else Some (verdict_after opn fr))"

fun accepts_stream :: "bool \<Rightarrow> u64 \<Rightarrow> (opcode \<times> bytes \<times> validator) option \<Rightarrow> ws_frame list \<Rightarrow> bool" where
  "accepts_stream server mx opn [] \<longleftrightarrow> True"
| "accepts_stream server mx opn (fr # frs) \<longleftrightarrow>
     accepts server mx opn fr \<and> accepts_stream server mx (open_after opn fr) frs"

fun frame_messages :: "(opcode \<times> bytes \<times> validator) option \<Rightarrow> ws_frame list \<Rightarrow> (opcode \<times> bytes) list" where
  "frame_messages opn [] = []"
| "frame_messages opn (fr # frs) =
     (if fr_fin fr then [(fst (verdict_after opn fr), fst (snd (verdict_after opn fr)))] else [])
     @ frame_messages (open_after opn fr) frs"

definition wire :: "ws_frame list \<Rightarrow> bytes" where
  "wire frs = concat (map frame_wire frs)"

definition message_view :: "ws_message \<Rightarrow> opcode \<times> bytes" where
  "message_view msg = (m_opcode msg, m_payload msg)"

subsection \<open>The end of a frame\<close>

lemma frame_end_message:
  assumes "frame_end h0 fr h"
  obtains md msg where "current_metadata h = Some md" and "msg_ptr md = Some msg"
    and "message_view msg = (fst (verdict_after (open_message h0) fr), fst (snd (verdict_after (open_message h0) fr)))"
    and "md_validator md = snd (snd (verdict_after (open_message h0) fr))"
proof -
  let ?md = "if is_control (fr_op fr) then m_control_msg h else m_data_msg h"
  have cur: "current_metadata h = Some ?md" and at: "metadata_at h0 fr (length (fr_payload fr)) ?md"
    using assms by (auto simp: frame_end_def current_metadata_def)
  obtain opc bs v where base: "base_message h0 fr = (opc, bs, v)" by (metis prod.collapse)
  then have "verdict_after (open_message h0) fr = (opc, bs @ fr_payload fr, snd (text_verdict opc (fr_payload fr) v))"
    by (simp add: verdict_after_def base_message_def)
  with at base that [OF cur] show thesis
    by (auto simp: metadata_at_def message_view_def)
qed

lemma frame_end_continue:
  assumes "frame_end h0 fr h" and "\<not> fr_fin fr" and "accepts_frame h0 fr"
  shows "idle h \<and> m_server h = m_server h0 \<and> m_max_message_size h = m_max_message_size h0
    \<and> open_message h = open_after (open_message h0) fr"
proof -
  have data: "\<not> is_control (fr_op fr)" using assms(2,3) by (auto simp: accepts_frame_iff)
  obtain md msg where md: "current_metadata h = Some md" "msg_ptr md = Some msg"
    "message_view msg = (fst (verdict_after (open_message h0) fr), fst (snd (verdict_after (open_message h0) fr)))"
    "md_validator md = snd (snd (verdict_after (open_message h0) fr))"
    using frame_end_message [OF assms(1)] .
  have "m_data_msg h = md" using assms(1) data md(1) by (auto simp: frame_end_def current_metadata_def)
  with md data assms(1,2) show ?thesis
    by (auto simp: frame_end_def idle_def open_message_def open_after_def message_view_def)
qed

lemma opcode_of_message:
  assumes "accepts server mx opn fr" and "\<forall>x. opn = Some x \<longrightarrow> \<not> is_control (fst x)"
  shows "is_control (fst (verdict_after opn fr)) \<longleftrightarrow> is_control (fr_op fr)"
  using assms by (auto simp: verdict_after_def message_of_def split: option.splits)

lemma frame_end_ready:
  assumes "frame_end h0 fr h" and "fr_fin fr" and "accepts_frame h0 fr"
    and opn: "\<forall>x. open_message h0 = Some x \<longrightarrow> \<not> is_control (fst x)"
  shows "\<exists>msg h'. hybi13_ready h \<and> hybi13_get_message h = Some (Some msg, h')
    \<and> message_view msg = (fst (verdict_after (open_message h0) fr), fst (snd (verdict_after (open_message h0) fr)))
    \<and> idle h' \<and> m_server h' = m_server h0 \<and> m_max_message_size h' = m_max_message_size h0
    \<and> open_message h' = open_after (open_message h0) fr"
proof -
  obtain md msg where md: "current_metadata h = Some md" "msg_ptr md = Some msg"
    "message_view msg = (fst (verdict_after (open_message h0) fr), fst (snd (verdict_after (open_message h0) fr)))"
    using frame_end_message [OF assms(1)] .
  have ctl: "is_control (m_opcode msg) \<longleftrightarrow> is_control (fr_op fr)"
    using opcode_of_message [OF assms(3) [unfolded accepts_frame_def] opn] md(3) by (simp add: message_view_def)
  have ready: "hybi13_ready h" using assms(1,2) by (simp add: frame_end_def hybi13_ready_def)
  show ?thesis
  proof (cases "is_control (fr_op fr)")
    case True
    then show ?thesis
      using md ctl ready assms(1)
      by (auto simp: hybi13_get_message_def Let_def frame_end_def update_current_def idle_def open_message_def
          open_after_def reset_headers_def BASIC_HEADER_LENGTH_def MAX_EXTENDED_HEADER_LENGTH_def
          split: option.split)
  next
    case False
    then show ?thesis
      using md ctl ready assms(1,2)
      by (auto simp: hybi13_get_message_def Let_def frame_end_def update_current_def idle_def open_message_def
          open_after_def reset_headers_def BASIC_HEADER_LENGTH_def MAX_EXTENDED_HEADER_LENGTH_def)
  qed
qed

subsection \<open>Reading a stream\<close>

text \<open>The processor has read \<open>k\<close> octets of the first of the frames still to come.\<close>

definition at_pos :: "hybi13 \<Rightarrow> ws_frame list \<Rightarrow> nat \<Rightarrow> hybi13 \<Rightarrow> bool" where
  "at_pos h0 frs k h \<longleftrightarrow> idle h0
     \<and> (\<forall>x. open_message h0 = Some x \<longrightarrow> \<not> is_control (fst x))
     \<and> accepts_stream (m_server h0) (m_max_message_size h0) (open_message h0) frs
     \<and> (case frs of [] \<Rightarrow> k = 0 \<and> h = h0
        | fr # _ \<Rightarrow> stage h0 fr k h \<and> k < length (frame_wire fr))"

lemma at_pos_start:
  "idle h \<Longrightarrow> \<forall>x. open_message h = Some x \<longrightarrow> \<not> is_control (fst x) \<Longrightarrow>
   accepts_stream (m_server h) (m_max_message_size h) (open_message h) frs \<Longrightarrow> at_pos h frs 0 h"
  by (auto simp: at_pos_def stage_def basic_at_def length_frame_wire split: list.splits)

lemma open_after_data:
  assumes "accepts server mx opn fr" and "\<forall>x. opn = Some x \<longrightarrow> \<not> is_control (fst x)"
  shows "\<forall>x. open_after opn fr = Some x \<longrightarrow> \<not> is_control (fst x)"
  using opcode_of_message [OF assms] assms by (auto simp: open_after_def)

text \<open>A stage in which a call can end needs more octets of the frame.\<close>

lemma stage_incomplete:
  assumes "stage h0 fr k h" and "idle h0" and "\<not> consume_more len len h" and "k \<le> length (frame_wire fr)"
  shows "k < length (frame_wire fr)"
proof (rule ccontr)
  assume "\<not> k < length (frame_wire fr)"
  then have k: "k = 2 + length (frame_ext fr) + length (fr_payload fr)"
    using assms(4) by (simp add: length_frame_wire)
  from assms(1) consider "ext_at h0 fr (k - 2) h" | "app_at h0 fr (k - (2 + length (frame_ext fr))) h"
    using k by (auto simp: stage_def)
  then have "m_bytes_needed h = 0 \<and> m_hstate h \<noteq> READY \<and> m_hstate h \<noteq> FATAL_ERROR"
  proof cases
    case 1
    then show ?thesis using k by (auto simp: ext_at_def)
  next
    case 2
    then show ?thesis using k by (simp add: app_at_def)
  qed
  then show False using assms(3) by (simp add: consume_more_def)
qed

text \<open>From \<open>p\<close> on the buffer holds the stream from octet \<open>k\<close> of its first frame on.\<close>

definition holds_stream :: "memory \<Rightarrow> nat \<Rightarrow> nat \<Rightarrow> nat \<Rightarrow> bytes \<Rightarrow> nat \<Rightarrow> bool" where
  "holds_stream m buf len p w k \<longleftrightarrow> k + (len - p) \<le> length w
     \<and> (\<forall>i. p + i < len \<longrightarrow> m (buf + p + i) = w ! (k + i))"

lemma holds_fed: "holds_stream m buf len p (wire (fr # frs)) k \<Longrightarrow> fed m buf len p fr k"
  by (auto simp: holds_stream_def fed_def wire_def nth_append)

lemma holds_advance:
  assumes "holds_stream m buf len p (frame_wire fr @ w) k" and "k + n = length (frame_wire fr)" and "p + n \<le> len"
    and "unchanged_outside (buf + p) n m m'"
  shows "holds_stream m' buf len (p + n) w 0"
  unfolding holds_stream_def
proof (intro conjI allI impI)
  show "0 + (len - (p + n)) \<le> length w" using assms by (auto simp: holds_stream_def)
  fix i assume i: "p + n + i < len"
  then have "m (buf + p + (n + i)) = (frame_wire fr @ w) ! (k + (n + i))"
    using assms(1) by (simp add: holds_stream_def add.assoc)
  also have "\<dots> = w ! i" using assms(2) [symmetric] by (simp add: nth_append)
  finally show "m' (buf + (p + n) + i) = w ! (0 + i)"
    using assms(4) by (simp add: unchanged_outside_def add.assoc)
qed

text \<open>
  One call of \<open>consume\<close> on a stream: it ends with a message, or with the input, inside a frame or
  between two frames of a fragmented message.
\<close>

lemma consume_stream:
  assumes "at_pos h0 frs k h" and "holds_stream m buf len p (wire frs) k" and "p \<le> len"
  shows "(\<exists>msg h' h'' m' n frs'. consume_loop buf len p h m = Some (p + n, None, h', m') \<and> p + n \<le> len
            \<and> hybi13_ready h' \<and> hybi13_get_message h' = Some (Some msg, h'') \<and> at_pos h'' frs' 0 h''
            \<and> frame_messages (open_message h0) frs = message_view msg # frame_messages (open_message h'') frs'
            \<and> holds_stream m' buf len (p + n) (wire frs') 0 \<and> length frs' < length frs
            \<and> drop (k + n) (wire frs) = wire frs')
       \<or> (\<exists>h' m' h0' frs' k'. consume_loop buf len p h m = Some (len, None, h', m') \<and> \<not> hybi13_ready h'
            \<and> at_pos h0' frs' k' h' \<and> frame_messages (open_message h0) frs = frame_messages (open_message h0') frs'
            \<and> drop k' (wire frs') = drop (k + (len - p)) (wire frs))"
  using assms
proof (induction frs arbitrary: h0 k h m p)
  case Nil
  then have "p = len" "h = h0" "k = 0" by (auto simp: at_pos_def holds_stream_def wire_def)
  moreover from Nil this have "\<not> consume_more len p h" "\<not> hybi13_ready h"
    by (auto simp: at_pos_def idle_def consume_more_def hybi13_ready_def)
  ultimately show ?case
    using Nil by (intro disjI2 exI [of _ h0] exI [of _ m] exI [of _ h0] exI [of _ "[]"] exI [of _ 0])
      (simp add: consume_loop.simps)
next
  case (Cons fr frs)
  have pos: "idle h0" "stage h0 fr k h" "k < length (frame_wire fr)" "accepts_frame h0 fr"
    "\<forall>x. open_message h0 = Some x \<longrightarrow> \<not> is_control (fst x)"
    "accepts_stream (m_server h0) (m_max_message_size h0) (open_after (open_message h0) fr) frs"
    using Cons.prems(1) by (simp_all add: at_pos_def accepts_frame_def)
  have wire: "wire (fr # frs) = frame_wire fr @ wire frs" by (simp add: wire_def)
  from frame_run [OF pos(4,1,2) holds_fed [OF Cons.prems(2)] Cons.prems(3)] pos(3)
  consider (finished) n h' m' where "k + n = length (frame_wire fr)" "p + n \<le> len" "frame_end h0 fr h'"
      "consume_loop buf len p h m = consume_loop buf len (p + n) h' m'" "unchanged_outside (buf + p) n m m'"
    | (inside) h' m' where "k + (len - p) \<le> length (frame_wire fr)" "stage h0 fr (k + (len - p)) h'"
      "\<not> consume_more len len h'" "consume_loop buf len p h m = Some (len, None, h', m')"
    by (auto simp: less_imp_le)
  then show ?case
  proof cases
    case inside
    then have "at_pos h0 (fr # frs) (k + (len - p)) h'"
      using Cons.prems(1) stage_incomplete [OF inside(2) pos(1) inside(3,1)] by (simp add: at_pos_def)
    moreover have "\<not> hybi13_ready h'"
      using inside(2) pos(1) by (auto simp: stage_def basic_at_def ext_at_def app_at_def idle_def hybi13_ready_def)
    ultimately show ?thesis using inside by blast
  next
    case finished
    have hold: "holds_stream m' buf len (p + n) (wire frs) 0"
      using holds_advance [OF Cons.prems(2) [unfolded wire] finished(1,2,5)] .
    show ?thesis
    proof (cases "fr_fin fr")
      case True
      obtain msg h'' where r: "hybi13_ready h'" "hybi13_get_message h' = Some (Some msg, h'')"
        "message_view msg = (fst (verdict_after (open_message h0) fr), fst (snd (verdict_after (open_message h0) fr)))"
        "idle h''" "m_server h'' = m_server h0" "m_max_message_size h'' = m_max_message_size h0"
        "open_message h'' = open_after (open_message h0) fr"
        using frame_end_ready [OF finished(3) True pos(4,5)] by blast
      have "consume_loop buf len (p + n) h' m' = Some (p + n, None, h', m')"
        using r(1) by (simp add: consume_loop.simps consume_more_def hybi13_ready_def)
      moreover have "at_pos h'' frs 0 h''"
        using r pos open_after_data [OF pos(4) [unfolded accepts_frame_def] pos(5)] by (intro at_pos_start) auto
      moreover have "drop (k + n) (wire (fr # frs)) = wire frs" using finished(1) by (simp add: wire)
      ultimately show ?thesis using finished(2,4) r hold True
        by (intro disjI1 exI [of _ msg] exI [of _ h'] exI [of _ h''] exI [of _ m'] exI [of _ n] exI [of _ frs]) simp
    next
      case False
      note c = frame_end_continue [OF finished(3) False pos(4)]
      have "at_pos h' frs 0 h'"
        using c pos open_after_data [OF pos(4) [unfolded accepts_frame_def] pos(5)] by (intro at_pos_start) auto
      note IH = Cons.IH [OF this hold finished(2)]
      have msgs: "frame_messages (open_message h0) (fr # frs) = frame_messages (open_message h') frs"
        using False c by simp
      have drop: "drop (0 + (len - (p + n))) (wire frs) = drop (k + (len - p)) (wire (fr # frs))"
      proof -
        have "k + (len - p) = length (frame_wire fr) + (len - (p + n))" using finished(1,2) by simp
        then show ?thesis by (simp add: wire)
      qed
      from IH show ?thesis
      proof (elim disjE exE conjE)
        fix msg g g' m2 n' frs'
        assume *: "consume_loop buf len (p + n) h' m' = Some (p + n + n', None, g, m2)" "p + n + n' \<le> len"
          "hybi13_ready g" "hybi13_get_message g = Some (Some msg, g')" "at_pos g' frs' 0 g'"
          "frame_messages (open_message h') frs = message_view msg # frame_messages (open_message g') frs'"
          "holds_stream m2 buf len (p + n + n') (wire frs') 0" "length frs' < length frs"
          "drop (0 + n') (wire frs) = wire frs'"
        moreover have "drop (k + (n + n')) (wire (fr # frs)) = drop n' (wire frs)"
          using finished(1) by (simp add: wire add.assoc [symmetric])
        ultimately show ?thesis
          using finished(4) msgs
          by (intro disjI1 exI [of _ msg] exI [of _ g] exI [of _ g'] exI [of _ m2] exI [of _ "n + n'"] exI [of _ frs'])
             (auto simp: add.assoc)
      next
        fix g m2 h0' frs' k'
        assume "consume_loop buf len (p + n) h' m' = Some (len, None, g, m2)" "\<not> hybi13_ready g"
          "at_pos h0' frs' k' g" "frame_messages (open_message h') frs = frame_messages (open_message h0') frs'"
          "drop k' (wire frs') = drop (0 + (len - (p + n))) (wire frs)"
        then show ?thesis using finished(4) msgs drop by metis
      qed
    qed
  qed
qed


subsection \<open>The loop of reads\<close>

lemma read_loop_end [simp]: "n \<le> p \<Longrightarrow> read_loop buf n p h m = Some ([], None, h, m)"
  by (simp add: read_loop.simps)

lemma holds_shift: "holds_stream m (buf + p) (len - p) q w k \<longleftrightarrow> holds_stream m buf len (p + q) w k"
  by (simp add: holds_stream_def ac_simps less_diff_conv)

lemma read_loop_stream:
  assumes "at_pos h0 frs k h" and "holds_stream m buf len p (wire frs) k" and "p \<le> len"
  shows "\<exists>ms h' m' h0' frs' k'. read_loop buf len p h m = Some (ms, None, h', m') \<and> at_pos h0' frs' k' h'
    \<and> frame_messages (open_message h0) frs = map message_view ms @ frame_messages (open_message h0') frs'
    \<and> drop k' (wire frs') = drop (k + (len - p)) (wire frs)"
  using assms
proof (induction "length frs" arbitrary: h0 frs k h m p rule: less_induct)
  case less
  show ?case
  proof (cases "p < len")
    case False
    with less.prems show ?thesis
      by (intro exI [of _ "[]"] exI [of _ h] exI [of _ m] exI [of _ h0] exI [of _ frs] exI [of _ k]) simp
  next
    case p: True
    have "holds_stream m (buf + p) (len - p) 0 (wire frs) k" using less.prems(2) by (simp add: holds_shift)
    from consume_stream [OF less.prems(1) this le0] show ?thesis
    proof (elim disjE exE conjE)
      fix msg h' h'' m' n frs'
      assume *: "consume_loop (buf + p) (len - p) 0 h m = Some (0 + n, None, h', m')" "0 + n \<le> len - p"
        "hybi13_ready h'" "hybi13_get_message h' = Some (Some msg, h'')" "at_pos h'' frs' 0 h''"
        "frame_messages (open_message h0) frs = message_view msg # frame_messages (open_message h'') frs'"
        "holds_stream m' (buf + p) (len - p) (0 + n) (wire frs') 0" "length frs' < length frs"
        "drop (k + n) (wire frs) = wire frs'"
      have hold: "holds_stream m' buf len (p + n) (wire frs') 0" using *(7) by (simp add: holds_shift)
      have "p + n \<le> len" using *(2) p by simp
      from less.hyps [OF *(8,5) hold this] obtain ms g m2 h0' frs2 k' where r:
        "read_loop buf len (p + n) h'' m' = Some (ms, None, g, m2)" "at_pos h0' frs2 k' g"
        "frame_messages (open_message h'') frs' = map message_view ms @ frame_messages (open_message h0') frs2"
        "drop k' (wire frs2) = drop (0 + (len - (p + n))) (wire frs')" by blast
      have "drop k' (wire frs2) = drop (k + (len - p)) (wire frs)"
        unfolding r(4) *(9) [symmetric] drop_drop
        by (rule arg_cong [of _ _ "\<lambda>i. drop i (wire frs)"]) (use *(2) p in simp)
      moreover have "read_loop buf len p h m = Some (msg # ms, None, g, m2)"
        using p *(1,3,4) r(1) by (simp add: read_loop.simps [of buf len p] consume_def)
      ultimately show ?thesis using r(2,3) *(6)
        by (intro exI [of _ "msg # ms"] exI [of _ g] exI [of _ m2] exI [of _ h0'] exI [of _ frs2] exI [of _ k']) simp
    next
      fix h' m' h0' frs' k'
      assume *: "consume_loop (buf + p) (len - p) 0 h m = Some (len - p, None, h', m')" "\<not> hybi13_ready h'"
        "at_pos h0' frs' k' h'" "frame_messages (open_message h0) frs = frame_messages (open_message h0') frs'"
        "drop k' (wire frs') = drop (k + (len - p - 0)) (wire frs)"
      then have "read_loop buf len p h m = Some ([], None, h', m')"
        using p by (simp add: read_loop.simps [of buf len p] consume_def)
      with * show ?thesis
        by (intro exI [of _ "[]"] exI [of _ h'] exI [of _ m'] exI [of _ h0'] exI [of _ frs'] exI [of _ k']) simp
    qed
  qed
qed

lemma holds_poke:
  assumes "drop k w = c @ r" and "k \<le> length w"
  shows "holds_stream (poke 0 c m) 0 (length c) 0 w k"
proof -
  have "w = take k w @ c @ r" using assms(1) by (metis append_take_drop_id)
  then have "w ! (k + i) = c ! i" if "i < length c" for i
    using that assms(2) by (metis add_diff_cancel_left' assms(1) nth_append nth_drop)
  moreover have "k + length c \<le> length w" using arg_cong [OF assms(1), of length] assms(2) by simp
  ultimately show ?thesis by (simp add: holds_stream_def poke_def)
qed

lemma read_chunks_stream:
  assumes "at_pos h0 frs k h" and "concat cs = drop k (wire frs)"
  shows "\<exists>ms h'. read_chunks m cs h = Some (ms, None, h') \<and> at_pos h' [] 0 h'
    \<and> map message_view ms = frame_messages (open_message h0) frs"
  using assms
proof (induction cs arbitrary: h0 frs k h m)
  case Nil
  then have "length (wire frs) \<le> k" by simp
  then have "frs = []"
    using Nil.prems(1) by (auto simp: at_pos_def wire_def split: list.splits)
  with Nil show ?case by (auto simp: at_pos_def)
next
  case (Cons c cs)
  have le: "k \<le> length (wire frs)"
    using Cons.prems(1) by (auto simp: at_pos_def wire_def split: list.splits)
  have c: "drop k (wire frs) = c @ concat cs" using Cons.prems(2) by simp
  have hold: "holds_stream (poke 0 c m) 0 (length c) 0 (wire frs) k"
    by (rule holds_poke [OF c le])
  obtain ms h' m' h0' frs' k' where r: "read_loop 0 (length c) 0 h (poke 0 c m) = Some (ms, None, h', m')"
    "at_pos h0' frs' k' h'"
    "frame_messages (open_message h0) frs = map message_view ms @ frame_messages (open_message h0') frs'"
    "drop k' (wire frs') = drop (k + (length c - 0)) (wire frs)"
    using read_loop_stream [OF Cons.prems(1) hold] by blast
  have "concat cs = drop k' (wire frs')"
    using arg_cong [OF c, of "drop (length c)"] r(4) by (simp add: add.commute)
  from Cons.IH [OF r(2) this, of m'] obtain ms' g where "read_chunks m' cs h' = Some (ms', None, g)" "at_pos g [] 0 g"
    "map message_view ms' = frame_messages (open_message h0') frs'" by blast
  with r(1,3) show ?case by simp
qed


subsection \<open>Delivery\<close>

text \<open>C5. Delivery of a stream: a processor that is between frames and is fed the octets of frames it
accepts, cut into any chunks at any places (a chunk may end inside a header, a masking key or a
payload), reports no error, dispatches exactly the messages of the frames in order, with the
masking removed and fragments joined around interleaved control frames, and is between frames
again with no octet lost.\<close>

theorem stream_delivers:
  assumes "idle h" and "\<forall>x. open_message h = Some x \<longrightarrow> \<not> is_control (fst x)"
    and "accepts_stream (m_server h) (m_max_message_size h) (open_message h) frs" and "concat cs = wire frs"
  shows "\<exists>ms h'. read_chunks m cs h = Some (ms, None, h') \<and> idle h'
    \<and> map message_view ms = frame_messages (open_message h) frs"
proof -
  have "concat cs = drop 0 (wire frs)" using assms(4) by simp
  from read_chunks_stream [OF at_pos_start [OF assms(1-3)] this, of m] show ?thesis by (auto simp: at_pos_def)
qed

definition sample_frames :: "ws_frame list" where
  "sample_frames =
     [\<lparr>fr_op = op_text, fr_fin = False, fr_key = Some 0x12345678, fr_payload = [72, 195]\<rparr>,
      \<lparr>fr_op = op_ping, fr_fin = True, fr_key = Some 7, fr_payload = [1]\<rparr>,
      \<lparr>fr_op = op_continuation, fr_fin = True, fr_key = Some 9, fr_payload = [169]\<rparr>]"

lemma sample_accepted: "accepts_stream (m_server (hybi13_new True 100)) (m_max_message_size (hybi13_new True 100)) None sample_frames"
proof -
  have v: "fst (validator_decode [72, 195] validator_new)"
    "fst (validator_decode [169] (snd (validator_decode [72, 195] validator_new)))" by code_simp+
  show ?thesis
    by (simp add: sample_frames_def hybi13_new_def reset_headers_def accepts_def message_of_def text_verdict_def
        open_after_def verdict_after_def v reserved_def is_control_def del: validator_decode.simps)
qed

theorem stream_delivers_witness:
  "\<exists>ms h'. read_chunks (\<lambda>a. 0) [take 3 (wire sample_frames), [], drop 3 (wire sample_frames)]
       (hybi13_new True 100) = Some (ms, None, h') \<and> idle h'
     \<and> map message_view ms = [(op_ping, [1]), (op_text, [72, 195, 169])]"
proof -
  let ?h = "hybi13_new True 100"
  have o: "open_message ?h = None" by (simp add: open_message_def hybi13_new_def msg_metadata_empty_def)
  have i: "idle ?h" by (simp add: idle_def hybi13_new_def msg_metadata_empty_def reset_headers_def
      MAX_EXTENDED_HEADER_LENGTH_def BASIC_HEADER_LENGTH_def)
  have a: "accepts_stream (m_server ?h) (m_max_message_size ?h) (open_message ?h) sample_frames" unfolding o by (rule sample_accepted)
  have c: "concat [take 3 (wire sample_frames), [], drop 3 (wire sample_frames)] = wire sample_frames" by simp
  have f: "frame_messages (open_message ?h) sample_frames = [(op_ping, [1]), (op_text, [72, 195, 169])]" by code_simp
  have "\<forall>x. open_message ?h = Some x \<longrightarrow> \<not> is_control (fst x)" unfolding o by simp
  from stream_delivers [OF i this a c] show ?thesis unfolding f .
qed

end
