(* ===== verification/WsSafety.thy ===== *)
theory WsSafety imports WsStream begin

text \<open>
  What the frame processor keeps whatever bytes arrive, well formed or hostile: it never follows a
  null pointer, never writes outside the extended header or the bytes it was given, hands over only
  messages of a legal shape, and the read loop around it always ends.
\<close>

subsection \<open>The invariant\<close>

text \<open>A data message under construction: its opcode, and for text the validator that has read it.\<close>

definition data_ok :: "msg_metadata \<Rightarrow> bool" where
  "data_ok md \<longleftrightarrow> (\<forall>msg. msg_ptr md = Some msg \<longrightarrow> (m_opcode msg = op_text \<or> m_opcode msg = op_binary)
     \<and> (m_opcode msg = op_text \<longrightarrow> validator_decode (m_payload msg) validator_new = (True, md_validator md)))"

definition control_ok :: "nat \<Rightarrow> msg_metadata \<Rightarrow> bool" where
  "control_ok n md \<longleftrightarrow> (\<exists>msg. msg_ptr md = Some msg \<and> m_opcode msg \<in> {op_close, op_ping, op_pong}
     \<and> length (m_payload msg) + n \<le> 125)"

definition header_ok :: "hybi13 \<Rightarrow> bool" where
  "header_ok h \<longleftrightarrow> validate_incoming_basic_header (m_basic_header h) (m_server h) (msg_ptr (m_data_msg h) = None) = None
     \<and> m_cursor h + unat (m_bytes_needed h) = get_header_len (m_basic_header h) - 2"

definition current_ok :: "nat \<Rightarrow> hybi13 \<Rightarrow> bool" where
  "current_ok n h \<longleftrightarrow> (case m_current_msg h of NoMsg \<Rightarrow> False | DataMsg \<Rightarrow> msg_ptr (m_data_msg h) \<noteq> None
     | ControlMsg \<Rightarrow> control_ok n (m_control_msg h) \<and> get_fin (m_basic_header h))"

definition hybi13_ok :: "hybi13 \<Rightarrow> bool" where
  "hybi13_ok h \<longleftrightarrow> length (m_extended_header h) = 12 \<and> data_ok (m_data_msg h)
     \<and> (case m_hstate h of
          HEADER_BASIC \<Rightarrow> m_bytes_needed h = 1 \<or> m_bytes_needed h = 2
        | HEADER_EXTENDED \<Rightarrow> header_ok h
        | EXTENSION \<Rightarrow> False
        | APPLICATION \<Rightarrow> current_ok (unat (m_bytes_needed h)) h
        | READY \<Rightarrow> current_ok 0 h
        | FATAL_ERROR \<Rightarrow> False)"

text \<open>Between two reads the processor waits for input.\<close>

definition reading_ok :: "hybi13 \<Rightarrow> bool" where
  "reading_ok h \<longleftrightarrow> hybi13_ok h \<and> m_hstate h \<noteq> READY \<and> m_bytes_needed h \<noteq> 0"

lemma reading_new: "reading_ok (hybi13_new server mx)"
  by (simp add: reading_ok_def hybi13_ok_def hybi13_new_def reset_headers_def data_ok_def msg_metadata_empty_def
      MAX_EXTENDED_HEADER_LENGTH_def BASIC_HEADER_LENGTH_def)

text \<open>What a delivered message looks like.\<close>

definition message_ok :: "ws_message \<Rightarrow> bool" where
  "message_ok msg \<longleftrightarrow> m_opcode msg \<in> {op_text, op_binary, op_close, op_ping, op_pong}
     \<and> (is_control (m_opcode msg) \<longrightarrow> length (m_payload msg) \<le> 125)
     \<and> (m_opcode msg = op_text \<longrightarrow> fst (validator_decode (m_payload msg) validator_new))"

subsection \<open>One turn\<close>

text \<open>What a turn from position \<open>p\<close> may do.\<close>

fun turn_safe :: "nat \<Rightarrow> nat \<Rightarrow> nat \<Rightarrow> memory \<Rightarrow> consume_turn \<Rightarrow> bool" where
  "turn_safe buf len p m (More q h m') \<longleftrightarrow> p \<le> q \<and> q \<le> len \<and> hybi13_ok h \<and> unchanged_outside buf len m m'"
| "turn_safe buf len p m (Done q ec h m') \<longleftrightarrow> q \<le> len \<and> ec \<noteq> None \<and> unchanged_outside buf len m m'"
| "turn_safe buf len p m Crash \<longleftrightarrow> False"

lemma header_len_le: "get_header_len h \<le> 14 \<and> 2 \<le> get_header_len h"
  by (simp add: get_header_len_def get_masking_key_offset_def Let_def BASIC_HEADER_LENGTH_def)

lemma turn_safe_basic:
  assumes "hybi13_ok h" and "m_hstate h = HEADER_BASIC" and "consume_more len p h" and "p \<le> len"
  shows "turn_safe buf len p m (consume_turn buf len p h m)"
proof -
  have p: "p < len" using assms by (auto simp: consume_more_def hybi13_ok_def)
  have cursor: "unat (word_of_nat (get_header_len b - 2) :: u64) = get_header_len b - 2" for b
    by (rule unat_small, simp) (use header_len_le [of b] in linarith)
  show ?thesis
    using assms p cursor
    by (auto simp: consume_turn_def copy_basic_header_bytes_def Let_def hybi13_ok_def header_ok_def
        BASIC_HEADER_LENGTH_def split: option.splits)
qed


lemma unat_sub_small:
  assumes "n \<le> unat w"
  shows "unat (w - word_of_nat n) = unat (w :: u64) - n"
proof -
  have "unat w < 2 ^ LENGTH(64)" by (rule unsigned_less)
  then have "unat (word_of_nat n :: u64) = n" using assms by (intro unat_small) simp
  then show ?thesis using assms by (simp add: unat_sub word_le_nat_alt)
qed

lemma header_opcode:
  assumes "validate_incoming_basic_header b server new_msg = None"
  shows "is_control (get_opcode b) \<Longrightarrow> get_opcode b \<in> {op_close, op_ping, op_pong} \<and> get_fin b
           \<and> get_basic_size b \<le> 125"
    and "\<not> is_control (get_opcode b) \<Longrightarrow> new_msg \<Longrightarrow> get_opcode b = op_text \<or> get_opcode b = op_binary"
proof -
  have "0 \<le> get_opcode b" by (simp add: get_opcode_def)
  with assms show "is_control (get_opcode b) \<Longrightarrow> get_opcode b \<in> {op_close, op_ping, op_pong} \<and> get_fin b
      \<and> get_basic_size b \<le> 125"
    by (auto simp: validate_incoming_basic_header_def Let_def reserved_def invalid_def is_control_def
        limit_defs split: if_splits)
  show "\<not> is_control (get_opcode b) \<Longrightarrow> new_msg \<Longrightarrow> get_opcode b = op_text \<or> get_opcode b = op_binary"
    using assms \<open>0 \<le> get_opcode b\<close>
    by (auto simp: validate_incoming_basic_header_def Let_def reserved_def invalid_def is_control_def
        split: if_splits)
qed

lemma small_payload_size: "get_basic_size b \<le> 125 \<Longrightarrow> unat (get_payload_size b e) \<le> 125"
  by (auto simp: get_payload_size_def Let_def limit_defs word_le_nat_alt unsigned_ucast_eq
      intro: le_trans [OF take_bit_nat_less_eq_self])

lemma start_frame_safe:
  assumes "start_frame h = (None, h')" and "length (m_extended_header h) = 12" and "data_ok (m_data_msg h)"
    and "validate_incoming_basic_header (m_basic_header h) (m_server h) (msg_ptr (m_data_msg h) = None) = None"
  shows "hybi13_ok h'"
proof (cases "is_control (get_opcode (m_basic_header h))")
  case True
  have "control_ok (unat (get_payload_size (m_basic_header h) (m_extended_header h)))
      (msg_metadata_new (get_message_op (get_opcode (m_basic_header h))) k)" for k
    using header_opcode(1) [OF assms(4) True] small_payload_size [of "m_basic_header h" "m_extended_header h"]
    by (auto simp: control_ok_def msg_metadata_new_def get_message_op_def)
  moreover have "get_fin (m_basic_header h)" using header_opcode(1) [OF assms(4) True] by simp
  ultimately show ?thesis
    using assms True by (auto simp: start_frame_def Let_def hybi13_ok_def current_ok_def)
next
  case False
  have "msg_ptr (m_data_msg h) = None \<Longrightarrow> data_ok (msg_metadata_new (get_message_op (get_opcode (m_basic_header h))) k)" for k
    using header_opcode(2) [OF assms(4) False]
    by (auto simp: data_ok_def msg_metadata_new_def get_message_op_def)
  then show ?thesis
    using assms False
    by (auto simp: start_frame_def Let_def hybi13_ok_def current_ok_def msg_metadata_new_def pmd_is_enabled_def data_ok_def
        split: option.splits if_splits)
qed

lemma turn_safe_extended:
  assumes "hybi13_ok h" and "m_hstate h = HEADER_EXTENDED" and "p \<le> len"
  shows "turn_safe buf len p m (consume_turn buf len p h m)"
proof -
  define n where "n = min (unat (m_bytes_needed h)) (len - p)"
  have ok: "length (m_extended_header h) = 12" "data_ok (m_data_msg h)" "header_ok h"
    using assms by (simp_all add: hybi13_ok_def)
  have n: "n \<le> unat (m_bytes_needed h)" "p + n \<le> len" using assms(3) by (simp_all add: n_def)
  have "m_cursor h + n \<le> 12" using ok(3) n header_len_le [of "m_basic_header h"] by (auto simp: header_ok_def)
  then have len: "length (copy_at (m_cursor h) (peek m (buf + p) n) (m_extended_header h)) = 12"
    using ok(1) by (simp add: copy_at_def)
  define h1 where "h1 = h\<lparr>m_extended_header := copy_at (m_cursor h) (peek m (buf + p) n) (m_extended_header h),
    m_cursor := m_cursor h + n, m_bytes_needed := m_bytes_needed h - word_of_nat n\<rparr>"
  have copy: "copy_extended_header_bytes m (buf + p) (len - p) h = (n, h1)"
    by (simp add: copy_extended_header_bytes_def Let_def n_def h1_def)
  have head: "header_ok h1" using ok(3) n(1) unat_sub_small [OF n(1)] by (simp add: header_ok_def h1_def)
  then have ok1: "hybi13_ok h1" using ok len assms(2) by (simp add: hybi13_ok_def h1_def)
  have safe: "start_frame h1 = (None, h') \<Longrightarrow> hybi13_ok h'" for h'
    using start_frame_safe [of h1 h'] ok head len by (simp add: header_ok_def h1_def)
  show ?thesis
    using n(2) copy ok1 safe assms(2)
    by (auto simp: consume_turn_def Let_def split: option.splits prod.splits)
qed


lemma masked_bytes_only:
  "(if b then byte_mask_circ a a n k m else (k, m)) = (k', m') \<Longrightarrow> unchanged_outside a n m m'"
  using byte_mask_circ_effect [of a a n k m] by (auto simp: unchanged_outside_def same_or_apart_def split: if_splits)

text \<open>The metadata after \<open>bs\<close> was appended, and what the code keeps of it.\<close>

lemma process_payload_result:
  assumes "current_metadata h = Some md" and "msg_ptr md = Some msg"
  obtains key m' v ok where "unchanged_outside a n m m'"
    and "m_opcode msg = op_text \<longrightarrow> validator_decode (peek m' a n) (md_validator md) = (ok, v)"
    and "process_payload_bytes a n h m = (let h' = update_current
           \<lparr>msg_ptr = Some (msg\<lparr>m_payload := m_payload msg @ peek m' a n\<rparr>), prepared_key = key, md_validator = v\<rparr> h
         in if ok then Some (n, None, h'\<lparr>m_bytes_needed := m_bytes_needed h - word_of_nat n\<rparr>, m')
            else Some (0, Some (Proc proc_invalid_utf8), h', m'))"
proof -
  obtain key m' where km: "(if get_masked (m_basic_header h) then byte_mask_circ a a n (prepared_key md) m
      else (prepared_key md, m)) = (key, m')" by (metis prod.collapse)
  obtain ok v where ov: "(if m_opcode msg = op_text then validator_decode (peek m' a n) (md_validator md)
      else (True, md_validator md)) = (ok, v)" by (metis prod.collapse)
  show thesis
  proof (rule that)
    show "unchanged_outside a n m m'" by (rule masked_bytes_only [OF km])
    show "m_opcode msg = op_text \<longrightarrow> validator_decode (peek m' a n) (md_validator md) = (ok, v)" using ov by (auto split: if_splits)
    have md: "md\<lparr>prepared_key := key, msg_ptr := x, md_validator := v\<rparr> = \<lparr>msg_ptr = x, prepared_key = key, md_validator = v\<rparr>" for x
      by (cases md) simp
    show "process_payload_bytes a n h m = (let h' = update_current
           \<lparr>msg_ptr = Some (msg\<lparr>m_payload := m_payload msg @ peek m' a n\<rparr>), prepared_key = key, md_validator = v\<rparr> h
         in if ok then Some (n, None, h'\<lparr>m_bytes_needed := m_bytes_needed h - word_of_nat n\<rparr>, m')
            else Some (0, Some (Proc proc_invalid_utf8), h', m'))"
      using assms km ov
      by (cases "m_opcode msg = op_text") (auto simp: process_payload_bytes_def pmd_is_enabled_def Let_def md)
  qed
qed

lemma process_payload_safe:
  assumes "hybi13_ok h" and "m_hstate h = APPLICATION" and "n \<le> unat (m_bytes_needed h)"
  shows "\<exists>k ec h' m'. process_payload_bytes a n h m = Some (k, ec, h', m') \<and> k \<le> n \<and> unchanged_outside a n m m'
    \<and> (ec = None \<longrightarrow> k = n \<and> hybi13_ok h' \<and> m_hstate h' = APPLICATION)"
proof -
  obtain md msg where md: "current_metadata h = Some md" "msg_ptr md = Some msg"
    using assms(1,2) by (auto simp: hybi13_ok_def current_ok_def current_metadata_def control_ok_def split: current_msg.splits)
  obtain key m' v ok where r: "unchanged_outside a n m m'"
    "m_opcode msg = op_text \<longrightarrow> validator_decode (peek m' a n) (md_validator md) = (ok, v)"
    "process_payload_bytes a n h m = (let h' = update_current
       \<lparr>msg_ptr = Some (msg\<lparr>m_payload := m_payload msg @ peek m' a n\<rparr>), prepared_key = key, md_validator = v\<rparr> h
     in if ok then Some (n, None, h'\<lparr>m_bytes_needed := m_bytes_needed h - word_of_nat n\<rparr>, m')
        else Some (0, Some (Proc proc_invalid_utf8), h', m'))"
    by (rule process_payload_result [OF md, of a n m], rule that)
  let ?md = "\<lparr>msg_ptr = Some (msg\<lparr>m_payload := m_payload msg @ peek m' a n\<rparr>), prepared_key = key, md_validator = v\<rparr>"
  have "hybi13_ok ((update_current ?md h)\<lparr>m_bytes_needed := m_bytes_needed h - word_of_nat n\<rparr>)" if "ok"
  proof (cases "m_current_msg h")
    case DataMsg
    then have "data_ok md" using md assms(1) by (simp add: hybi13_ok_def current_metadata_def)
    then have "data_ok ?md" using md(2) r(2) that by (auto simp: data_ok_def validator_streams)
    then show ?thesis
      using assms(1,2) DataMsg by (simp add: hybi13_ok_def current_ok_def update_current_def)
  next
    case ControlMsg
    then have "control_ok (unat (m_bytes_needed h)) md" using md assms(1,2) by (simp add: hybi13_ok_def current_ok_def current_metadata_def)
    then have "control_ok (unat (m_bytes_needed h - word_of_nat n)) ?md"
      using md(2) assms(3) by (auto simp: control_ok_def unat_sub_small)
    then show ?thesis
      using assms(1,2) ControlMsg by (simp add: hybi13_ok_def current_ok_def update_current_def)
  qed (use assms(1,2) in \<open>simp add: hybi13_ok_def current_ok_def\<close>)
  then show ?thesis
    using r(1,3) assms(2) by (auto simp: Let_def)
qed

lemma turn_safe_app:
  assumes "hybi13_ok h" and "m_hstate h = APPLICATION" and "p \<le> len"
  shows "turn_safe buf len p m (consume_turn buf len p h m)"
proof -
  define n where "n = min (unat (m_bytes_needed h)) (len - p)"
  have n: "n \<le> unat (m_bytes_needed h)" "p + n \<le> len" using assms(3) by (simp_all add: n_def)
  obtain k ec h' m' where r: "(if n > 0 then process_payload_bytes (buf + p) n h m else Some (0, None, h, m)) = Some (k, ec, h', m')"
    "k \<le> n" "unchanged_outside (buf + p) n m m'" "ec = None \<Longrightarrow> k = n \<and> hybi13_ok h' \<and> m_hstate h' = APPLICATION"
    using process_payload_safe [OF assms(1,2) n(1), of "buf + p" m] assms(1,2)
    by (cases "n > 0") auto
  have out: "unchanged_outside buf len m m'"
    using r(3) n(2) by (auto simp: unchanged_outside_def)
  show ?thesis
  proof (cases "ec = None \<and> m_bytes_needed h' = 0")
    case False
    then show ?thesis
      using r n(2) out assms(2)
      by (auto simp: consume_turn_def n_def [symmetric] word_gt_0 Let_def)
  next
    case True
    then have ok: "k = n" "hybi13_ok h'" "m_hstate h' = APPLICATION" using r(4) by simp_all
    then obtain md msg where md: "current_metadata h' = Some md" "msg_ptr md = Some msg"
      by (auto simp: hybi13_ok_def current_ok_def current_metadata_def control_ok_def split: current_msg.splits)
    have same: "md\<lparr>msg_ptr := Some msg\<rparr> = md" by (cases md) (use md(2) in simp)
    have upd: "update_current (md\<lparr>msg_ptr := Some msg\<rparr>) h' = h'"
      unfolding same using md(1) by (cases h') (auto simp: update_current_def current_metadata_def split: current_msg.splits)
    have fin: "finalize_message h' = Some (Some (Proc proc_invalid_utf8), h')
        \<or> finalize_message h' = Some (None, h'\<lparr>m_hstate := READY\<rparr>)"
      using md upd unfolding finalize_message_def Let_def by (simp add: pmd_is_enabled_def)
    have "hybi13_ok (h'\<lparr>m_hstate := READY\<rparr>)"
      using ok True by (auto simp: hybi13_ok_def current_ok_def split: current_msg.splits)
    moreover have "hybi13_ok (reset_headers h')"
      using ok by (simp add: hybi13_ok_def) (simp add: reset_headers_def MAX_EXTENDED_HEADER_LENGTH_def)
    ultimately show ?thesis
      using r n(2) out assms(2) True ok fin
      by (auto simp: consume_turn_def n_def [symmetric] Let_def)
  qed
qed

lemma turn_is_safe:
  assumes "hybi13_ok h" and "consume_more len p h" and "p \<le> len"
  shows "turn_safe buf len p m (consume_turn buf len p h m)"
proof (cases "m_hstate h")
  case HEADER_BASIC
  then show ?thesis using turn_safe_basic assms by blast
next
  case HEADER_EXTENDED
  then show ?thesis using turn_safe_extended assms by blast
next
  case APPLICATION
  then show ?thesis using turn_safe_app assms by blast
qed (use assms in \<open>auto simp: hybi13_ok_def consume_more_def\<close>)


subsection \<open>A call, and the loop of reads\<close>

lemma consume_loop_safe:
  assumes "hybi13_ok h" and "p \<le> len"
  shows "\<exists>q ec h' m'. consume_loop buf len p h m = Some (q, ec, h', m') \<and> q \<le> len \<and> unchanged_outside buf len m m'
    \<and> (ec = None \<longrightarrow> p \<le> q \<and> hybi13_ok h' \<and> \<not> consume_more len q h')"
  using assms
proof (induction "turn_measure len p h" arbitrary: p h m rule: less_induct)
  case less
  show ?case
  proof (cases "consume_more len p h")
    case False
    with less.prems show ?thesis by (simp add: consume_loop.simps)
  next
    case True
    note safe = turn_is_safe [OF less.prems(1) True less.prems(2), of buf m]
    show ?thesis
    proof (cases "consume_turn buf len p h m")
      case (More p' h' m')
      with safe have s: "p \<le> p'" "p' \<le> len" "hybi13_ok h'" "unchanged_outside buf len m m'" by simp_all
      from less.hyps [OF turn_measure_decreases [OF True More] s(3,2)] obtain q ec h2 m2 where
        "consume_loop buf len p' h' m' = Some (q, ec, h2, m2)" "q \<le> len" "unchanged_outside buf len m' m2"
        "ec = None \<longrightarrow> p' \<le> q \<and> hybi13_ok h2 \<and> \<not> consume_more len q h2" by blast
      with s More True show ?thesis by (simp add: consume_loop.simps [of buf len p h m]) (auto simp: unchanged_outside_def)
    next
      case (Done q ec h' m')
      with safe True show ?thesis by (auto simp: consume_loop.simps [of buf len p h m])
    qed (use safe in simp)
  qed
qed

lemma first_turn_reads:
  assumes "reading_ok h" and "p < len" and "consume_turn buf len p h m = More q h' m'"
  shows "p < q"
proof (cases "m_hstate h")
  case HEADER_BASIC
  with assms show ?thesis
    by (auto simp: reading_ok_def hybi13_ok_def consume_turn_def copy_basic_header_bytes_def Let_def split: if_splits option.splits)
next
  case HEADER_EXTENDED
  then have "0 < min (unat (m_bytes_needed h)) (len - p)" using assms by (simp add: reading_ok_def unat_pos)
  with HEADER_EXTENDED assms(3) show ?thesis
    by (auto simp: consume_turn_def copy_extended_header_bytes_def Let_def split: if_splits option.splits prod.splits)
next
  case APPLICATION
  then have "0 < min (unat (m_bytes_needed h)) (len - p)" using assms by (simp add: reading_ok_def unat_pos)
  with APPLICATION assms(3) show ?thesis
    by (auto simp: consume_turn_def Let_def split: if_splits option.splits prod.splits dest: process_payload_fields(3))
qed (use assms in \<open>auto simp: reading_ok_def hybi13_ok_def\<close>)

lemma consume_safe:
  assumes "reading_ok h" and "0 < len"
  shows "\<exists>q ec h' m'. consume buf len h m = Some (q, ec, h', m') \<and> q \<le> len \<and> unchanged_outside buf len m m'
    \<and> (ec = None \<longrightarrow> 0 < q \<and> hybi13_ok h' \<and> (hybi13_ready h' \<or> reading_ok h'))"
proof -
  have ok: "hybi13_ok h" and more: "consume_more len 0 h"
    using assms by (auto simp: reading_ok_def consume_more_def hybi13_ok_def)
  have rest: "hybi13_ready g \<or> reading_ok g" if "hybi13_ok g" "\<not> consume_more len q g" for g q
    using that by (auto simp: consume_more_def reading_ok_def hybi13_ready_def hybi13_ok_def)
  show ?thesis
  proof (cases "consume_turn buf len 0 h m")
    case (More p' h' m')
    have s: "p' \<le> len" "hybi13_ok h'" "unchanged_outside buf len m m'"
      using turn_is_safe [OF ok more, of buf m] More by simp_all
    have "0 < p'" by (rule first_turn_reads [OF assms More])
    with consume_loop_safe [OF s(2,1), of buf m'] More more s(3) rest show ?thesis
      by (simp add: consume_def consume_loop.simps [of buf len 0 h m]) (fastforce simp: unchanged_outside_def)
  qed (use turn_is_safe [OF ok more, of buf m] more in \<open>auto simp: consume_def consume_loop.simps [of buf len 0 h m]\<close>)
qed

lemma get_message_safe:
  assumes "hybi13_ok h" and "hybi13_ready h"
  shows "\<exists>msg h'. hybi13_get_message h = Some (Some msg, h') \<and> message_ok msg \<and> reading_ok h'"
  using assms
  by (auto simp: hybi13_get_message_def hybi13_ready_def hybi13_ok_def current_ok_def current_metadata_def
      control_ok_def data_ok_def message_ok_def reading_ok_def update_current_def is_control_def reset_headers_def
      MAX_EXTENDED_HEADER_LENGTH_def BASIC_HEADER_LENGTH_def split: current_msg.splits)

lemma read_loop_safe:
  assumes "reading_ok h"
  shows "\<exists>ms ec h' m'. read_loop buf n p h m = Some (ms, ec, h', m') \<and> (\<forall>msg \<in> set ms. message_ok msg)
    \<and> unchanged_outside buf n m m' \<and> (ec = None \<longrightarrow> reading_ok h')"
  using assms
proof (induction "n - p" arbitrary: p h m rule: less_induct)
  case less
  show ?case
  proof (cases "p < n")
    case True
    then have "0 < n - p" by simp
    from consume_safe [OF less.prems this, of "buf + p" m] obtain q ec h' m' where
      c: "consume (buf + p) (n - p) h m = Some (q, ec, h', m')" "unchanged_outside (buf + p) (n - p) m m'"
      "ec = None \<longrightarrow> 0 < q \<and> hybi13_ok h' \<and> (hybi13_ready h' \<or> reading_ok h')" by blast
    have out: "unchanged_outside buf n m m'" using c(2) True by (auto simp: unchanged_outside_def)
    show ?thesis
    proof (cases "ec = None")
      case False
      with c(1) out True show ?thesis by (auto simp: read_loop.simps [of buf n p])
    next
      case none: True
      then have dec: "n - (p + q) < n - p" using c(3) True by auto
      show ?thesis
      proof (cases "hybi13_ready h'")
        case ready: True
        then obtain msg h2 where g: "hybi13_get_message h' = Some (Some msg, h2)" "message_ok msg" "reading_ok h2"
          using get_message_safe none c(3) by blast
        from less.hyps [OF dec g(3), of m'] c(1) g ready none out True show ?thesis
          by (auto simp: read_loop.simps [of buf n p] unchanged_outside_def)
      next
        case False
        then have "reading_ok h'" using none c(3) by blast
        from less.hyps [OF dec this, of m'] c(1) False none out True show ?thesis
          by (auto simp: read_loop.simps [of buf n p] unchanged_outside_def)
      qed
    qed
  qed (use less.prems in simp)
qed

lemma read_chunks_safe:
  "reading_ok h \<Longrightarrow> \<exists>ms ec h'. read_chunks m cs h = Some (ms, ec, h') \<and> (\<forall>msg \<in> set ms. message_ok msg)
    \<and> (ec = None \<longrightarrow> reading_ok h')"
proof (induction cs arbitrary: h m)
  case (Cons c cs)
  from read_loop_safe [OF Cons.prems, of 0 "length c" 0 "poke 0 c m"] obtain ms ec h' m' where
    r: "read_loop 0 (length c) 0 h (poke 0 c m) = Some (ms, ec, h', m')" "\<forall>msg \<in> set ms. message_ok msg"
    "ec = None \<longrightarrow> reading_ok h'" by blast
  show ?case
  proof (cases "ec = None")
    case True
    with r Cons.IH [of h' m'] show ?thesis by fastforce
  qed (use r in simp)
qed simp


subsection \<open>Properties\<close>

text \<open>C35. Reading terminates and never goes wrong, whatever the peer sends: for every sequence of
reads with any contents, the loop over a new processor returns (it neither runs for ever nor follows a
null pointer). Every message it hands over has a legal opcode, control messages carry at most 125
octets, and the payload of a text message is the beginning of some UTF-8 text.\<close>

theorem reading_returns:
  "\<exists>ms ec h'. read_chunks m cs (hybi13_new server mx) = Some (ms, ec, h') \<and> (\<forall>msg \<in> set ms. message_ok msg)"
  using read_chunks_safe [OF reading_new] by blast

theorem reading_returns_witness:
  "\<exists>ms ec h'. read_chunks (\<lambda>_. 0) [[0x81, 0x82], [1, 2, 3, 4, 0], [9, 9]] (hybi13_new True 100) = Some (ms, ec, h')
     \<and> (\<forall>msg \<in> set ms. message_ok msg)"
  by (rule reading_returns)

text \<open>C38. A call on any input keeps the invariant of the processor and the memory around the input: it
returns, reads no more than it was given, writes only to the bytes it was given, and without an error it
has read at least one byte and leaves a processor with a complete message or one that waits for input.\<close>

theorem consume_keeps_invariant:
  assumes "reading_ok h" and "0 < len"
  shows "\<exists>q ec h' m'. consume buf len h m = Some (q, ec, h', m') \<and> q \<le> len \<and> unchanged_outside buf len m m'
    \<and> (ec = None \<longrightarrow> 0 < q \<and> hybi13_ok h' \<and> (hybi13_ready h' \<or> reading_ok h'))"
  by (rule consume_safe [OF assms])

theorem consume_keeps_invariant_witness:
  "\<exists>q ec h' m'. consume 16 3 (hybi13_new True 100) (\<lambda>a. 255) = Some (q, ec, h', m') \<and> q \<le> 3
    \<and> unchanged_outside 16 3 (\<lambda>a. 255) m' \<and> (ec = None \<longrightarrow> 0 < q \<and> hybi13_ok h' \<and> (hybi13_ready h' \<or> reading_ok h'))"
  using consume_keeps_invariant [OF reading_new [of True 100], of 3 16 "\<lambda>a. 255"] by simp

text \<open>Where the code departs from RFC 6455: the last check of a text message looks at the opcode of
its last frame, so a fragmented text message, whose last frame is a continuation, is handed over even
when it ends in the middle of a code point.\<close>

theorem fragmented_text_unchecked:
  "\<exists>ms h'. read_chunks m [wire [\<lparr>fr_op = op_text, fr_fin = False, fr_key = None, fr_payload = [0xC3]\<rparr>,
                              \<lparr>fr_op = op_continuation, fr_fin = True, fr_key = None, fr_payload = []\<rparr>]]
      (hybi13_new False 100) = Some (ms, None, h') \<and> map message_view ms = [(op_text, [0xC3])] \<and> \<not> validate [0xC3]"
proof -
  let ?frs = "[\<lparr>fr_op = op_text, fr_fin = False, fr_key = None, fr_payload = [0xC3]\<rparr>,
               \<lparr>fr_op = op_continuation, fr_fin = True, fr_key = None, fr_payload = []\<rparr>]"
  let ?h = "hybi13_new False 100"
  have v: "fst (validator_decode [0xC3] validator_new)" "\<not> validate [0xC3]" by code_simp+
  have o: "open_message ?h = None" and f: "m_server ?h = False" "m_max_message_size ?h = 100"
    by (simp_all add: open_message_def hybi13_new_def msg_metadata_empty_def)
  have i: "idle ?h" by (simp add: idle_def hybi13_new_def reset_headers_def MAX_EXTENDED_HEADER_LENGTH_def BASIC_HEADER_LENGTH_def)
  have "accepts_stream (m_server ?h) (m_max_message_size ?h) (open_message ?h) ?frs"
    unfolding o f using v
    by (simp add: accepts_def message_of_def text_verdict_def open_after_def verdict_after_def reserved_def
        is_control_def del: validator_decode.simps) (simp add: validator_decode.simps(1))
  moreover have "\<forall>x. open_message ?h = Some x \<longrightarrow> \<not> is_control (fst x)" by (simp add: o)
  ultimately have "at_pos ?h ?frs 0 ?h" using i by (intro at_pos_start)
  from read_chunks_stream [OF this, of "[wire ?frs]" m] v(2) show ?thesis
    by (auto simp: o message_of_def open_after_def verdict_after_def is_control_def)
qed

text \<open>Where the size limit fails: the size of the message so far and the size of a continuation
frame are added as 64-bit integers, so a continuation frame that announces 2^64 - 1 octets passes the
check of a message that is not empty, however small the limit is.\<close>

theorem size_limit_wraps:
  assumes "msg_ptr (m_data_msg h) = Some msg" and "m_payload msg \<noteq> []"
    and "length (m_payload msg) - 1 \<le> unat (m_max_message_size h)"
    and "get_opcode (m_basic_header h) = op_continuation"
    and "get_payload_size (m_basic_header h) (m_extended_header h) = - 1"
  shows "\<exists>h'. start_frame h = (None, h') \<and> unat (m_bytes_needed h') = 2 ^ 64 - 1"
proof -
  have lt: "length (m_payload msg) - 1 < 2 ^ LENGTH(64)" using assms(3) by (rule le_less_trans) (rule unsigned_less)
  have "word_of_nat (length (m_payload msg)) + (- 1 :: u64) = word_of_nat (length (m_payload msg) - 1)"
    using assms(2) by (cases "m_payload msg") simp_all
  then have "\<not> word_of_nat (length (m_payload msg)) + (- 1) > m_max_message_size h"
    using assms(3) unat_small [OF lt] by (simp add: not_less word_le_nat_alt)
  then show ?thesis
    using assms(1,4,5) by (simp add: start_frame_def Let_def is_control_def unsigned_minus_1_eq_mask mask_eq_exp_minus_1)
qed

theorem size_limit_wraps_witness:
  "\<exists>h'. start_frame ((hybi13_new False 1)\<lparr>m_data_msg := msg_metadata_new ((get_message_op op_binary)\<lparr>m_payload := [7]\<rparr>) 0,
       m_basic_header := \<lparr>b0 = 0x80, b1 = 127\<rparr>, m_extended_header := replicate 12 255\<rparr>) = (None, h')
     \<and> unat (m_bytes_needed h') = 2 ^ 64 - 1"
  by (rule size_limit_wraps) (simp add: msg_metadata_new_def, simp, simp, code_simp, code_simp)

end
