(* ===== verification/WsPeer.thy ===== *)
theory WsPeer imports WsSafety begin

text \<open>
  Two peers: what a processor prepares for the wire is what the processor at the other end hands
  over, for data messages, pings, pongs and close frames, in any mix and cut anywhere by the
  transport.
\<close>

subsection \<open>What is sent\<close>

text \<open>
  The calls of \<open>connection::send\<close>, \<open>ping\<close>, \<open>pong\<close> and \<open>send_close_frame\<close> on the processor. Each fills
  a fresh message buffer \<open>out\<close>, and takes the next random number when it masks.
\<close>

datatype outgoing = Data ws_message | Ping bytes | Pong bytes | Close u16 bytes

fun prepare_item :: "u32 \<Rightarrow> hybi13 \<Rightarrow> ws_message \<Rightarrow> outgoing \<Rightarrow> error_code option \<times> ws_message option" where
  "prepare_item rng h out (Data inp) = prepare_data_frame rng h (Some inp) (Some out)"
| "prepare_item rng h out (Ping payload) = prepare_ping rng h payload (Some out)"
| "prepare_item rng h out (Pong payload) = prepare_pong rng h payload (Some out)"
| "prepare_item rng h out (Close code reason) = prepare_close rng h code reason (Some out)"

text \<open>The transport writes the header and then the payload.\<close>

definition wire_of :: "ws_message \<Rightarrow> bytes" where
  "wire_of msg = m_header msg @ m_payload msg"

text \<open>What the other end should see of it.\<close>

fun item_view :: "outgoing \<Rightarrow> opcode \<times> bytes" where
  "item_view (Data inp) = (m_opcode inp, m_payload inp)"
| "item_view (Ping payload) = (op_ping, payload)"
| "item_view (Pong payload) = (op_pong, payload)"
| "item_view (Close code reason) =
     (op_close, if code \<noteq> status_no_status then le_bytes 2 (htons code) @ reason else [])"

definition item_frame :: "u32 \<Rightarrow> hybi13 \<Rightarrow> outgoing \<Rightarrow> ws_frame" where
  "item_frame rng h item = \<lparr>fr_op = fst (item_view item),
     fr_fin = (case item of Data inp \<Rightarrow> m_fin inp | _ \<Rightarrow> True),
     fr_key = (if m_server h then None else Some rng), fr_payload = snd (item_view item)\<rparr>"

text \<open>The data messages an application sends: whole, text or binary, within the receiver's limit.\<close>

fun sendable :: "u64 \<Rightarrow> outgoing \<Rightarrow> bool" where
  "sendable mx (Data inp) \<longleftrightarrow> (m_opcode inp = op_text \<or> m_opcode inp = op_binary) \<and> m_fin inp
     \<and> length (m_payload inp) \<le> unat mx \<and> length (m_payload inp) < 2 ^ 63"
| "sendable mx (Ping _) \<longleftrightarrow> True"
| "sendable mx (Pong _) \<longleftrightarrow> True"
| "sendable mx (Close _ _) \<longleftrightarrow> True"

subsection \<open>A prepared frame\<close>

lemma prepared_header:
  "prepare_header (new_basic_header opc sz fin True False False False) (extended_header_key sz key)
     = b0 (new_basic_header opc sz fin True False False False) # b1 (new_basic_header opc sz fin True False False False)
       # size_field sz @ le_bytes 4 key"
  "prepare_header (new_basic_header opc sz fin False False False False) (extended_header_of sz)
     = b0 (new_basic_header opc sz fin False False False False) # b1 (new_basic_header opc sz fin False False False False)
       # size_field sz"
  by (rule prepare_header_bytes, simp add: header_tail_length extended_header_key_eq extended_header_of_eq)+

lemma data_on_wire:
  assumes "prepare_data_frame rng h (Some inp) (Some out) = (None, Some msg)"
  shows "wire_of msg = frame_wire \<lparr>fr_op = m_opcode inp, fr_fin = m_fin inp,
      fr_key = (if m_server h then None else Some rng), fr_payload = m_payload inp\<rparr>"
    and "m_opcode inp = op_text \<longrightarrow> validate (m_payload inp)"
  using assms
  by (auto simp: prepare_data_frame_def Let_def pmd_is_enabled_def wire_of_def frame_wire_def frame_header_def
      frame_ext_def frame_body_def frame_size_def prepared_header masked_copy_def split: if_splits)

lemma control_on_wire:
  assumes "prepare_control rng h opc payload (Some out) = (None, Some msg)"
  shows "wire_of msg = frame_wire \<lparr>fr_op = opc, fr_fin = True,
      fr_key = (if m_server h then None else Some rng), fr_payload = payload\<rparr>"
    and "length payload \<le> 125"
  using assms
  by (auto simp: prepare_control_def Let_def wire_of_def frame_wire_def frame_header_def limit_defs
      frame_ext_def frame_body_def frame_size_def prepared_header masked_copy_def split: if_splits)

lemma close_is_control:
  assumes "prepare_close rng h code reason (Some out) = (None, Some msg)"
  shows "prepare_control rng h op_close (snd (item_view (Close code reason))) (Some out) = (None, Some msg)"
    and "code \<noteq> status_no_status \<longrightarrow> \<not> close_invalid code \<and> \<not> close_reserved code"
  using assms by (auto simp: prepare_close_def Let_def split: if_splits)

lemma item_on_wire:
  assumes "prepare_item rng h out item = (None, Some msg)"
  shows "wire_of msg = frame_wire (item_frame rng h item)"
  using assms
  by (cases item) (auto simp: item_frame_def prepare_ping_def prepare_pong_def data_on_wire control_on_wire
      dest: close_is_control(1) control_on_wire)


lemma text_of_validate:
  "validate s \<Longrightarrow> fst (validator_decode s validator_new) \<and> validator_complete (snd (validator_decode s validator_new))"
  by (auto simp: validate_def Let_def case_prod_beta split: if_splits)

lemma item_control_length:
  assumes "prepare_item rng h out item = (None, Some msg)" and "is_control (fst (item_view item))"
  shows "length (snd (item_view item)) \<le> 125"
proof (cases item)
  case (Data inp)
  with assms show ?thesis by (simp add: prepare_data_frame_def Let_def)
next
  case (Close code reason)
  with assms show ?thesis using control_on_wire(2) [OF close_is_control(1)] by simp
qed (use assms in \<open>auto simp: prepare_ping_def prepare_pong_def dest: control_on_wire(2)\<close>)

lemma item_accepted:
  assumes "prepare_item rng h out item = (None, Some msg)" and "sendable mx item"
  shows "accepts (\<not> m_server h) mx None (item_frame rng h item)"
    and "verdict_after None (item_frame rng h item) = (fst (item_view item), snd (item_view item),
      snd (text_verdict (fst (item_view item)) (snd (item_view item)) validator_new))"
    and "open_after None (item_frame rng h item) = None"
proof -
  have op: "fst (item_view item) \<in> {op_text, op_binary, op_close, op_ping, op_pong}"
    using assms(2) by (cases item) auto
  have fin: "fr_fin (item_frame rng h item)" using assms(2) by (cases item) (auto simp: item_frame_def)
  have base: "message_of None (item_frame rng h item) = (fst (item_view item), [], validator_new)"
    by (simp add: message_of_def item_frame_def)
  show "verdict_after None (item_frame rng h item) = (fst (item_view item), snd (item_view item),
      snd (text_verdict (fst (item_view item)) (snd (item_view item)) validator_new))"
    by (simp add: verdict_after_def base) (simp add: item_frame_def)
  show "open_after None (item_frame rng h item) = None" using fin by (simp add: open_after_def)
  have utf8: "fst (item_view item) = op_text \<Longrightarrow> validate (snd (item_view item))"
    using assms data_on_wire(2) by (cases item) auto
  have len: "is_control (fst (item_view item)) \<Longrightarrow> length (snd (item_view item)) \<le> 125"
    by (rule item_control_length [OF assms(1)])
  have data: "\<not> is_control (fst (item_view item)) \<Longrightarrow>
      length (snd (item_view item)) \<le> unat mx \<and> length (snd (item_view item)) < 2 ^ 63"
    using assms(2) by (cases item) (auto simp: is_control_def)
  have "length (snd (item_view item)) < 2 ^ 63"
    using len data by (cases "is_control (fst (item_view item))") auto
  with op fin base text_of_validate [OF utf8] len data
  show "accepts (\<not> m_server h) mx None (item_frame rng h item)"
    unfolding accepts_def base
    by (auto simp: item_frame_def text_verdict_def reserved_def is_control_def)
qed

subsection \<open>A conversation\<close>

fun transmit :: "hybi13 \<Rightarrow> (u32 \<times> ws_message \<times> outgoing) list \<Rightarrow> bytes option" where
  "transmit h [] = Some []"
| "transmit h ((rng, out, item) # items) =
     (case prepare_item rng h out item of
        (None, Some msg) \<Rightarrow> map_option (\<lambda>bs. wire_of msg @ bs) (transmit h items)
      | _ \<Rightarrow> None)"

lemma transmit_frames:
  assumes "transmit h items = Some bs" and "\<forall>(rng, out, item) \<in> set items. sendable mx item"
  shows "bs = wire (map (\<lambda>(rng, out, item). item_frame rng h item) items)
    \<and> accepts_stream (\<not> m_server h) mx None (map (\<lambda>(rng, out, item). item_frame rng h item) items)
    \<and> frame_messages None (map (\<lambda>(rng, out, item). item_frame rng h item) items) = map (\<lambda>(_, _, item). item_view item) items"
  using assms
proof (induction items arbitrary: bs)
  case Nil
  then show ?case by (simp add: wire_def)
next
  case (Cons x items)
  obtain rng out item where x: "x = (rng, out, item)" by (metis prod.collapse)
  obtain msg bs' where r: "prepare_item rng h out item = (None, Some msg)" "transmit h items = Some bs'"
    "bs = wire_of msg @ bs'"
    using Cons.prems(1) x by (auto split: option.splits prod.splits)
  have s: "sendable mx item" using Cons.prems(2) x by simp
  have "fr_fin (item_frame rng h item)" using s by (cases item) (auto simp: item_frame_def)
  with Cons.IH [OF r(2)] Cons.prems(2) item_on_wire [OF r(1)] item_accepted [OF r(1) s] r(3) x show ?case
    by (simp add: wire_def)
qed

lemma conversation:
  assumes "idle hr" and "open_message hr = None" and "m_server hr = (\<not> m_server hs)"
    and "\<forall>(rng, out, item) \<in> set items. sendable (m_max_message_size hr) item"
    and "transmit hs items = Some (concat cs)"
  shows "\<exists>ms h'. read_chunks m cs hr = Some (ms, None, h') \<and> idle h'
    \<and> map message_view ms = map (\<lambda>(_, _, item). item_view item) items"
proof -
  let ?frs = "map (\<lambda>(rng, out, item). item_frame rng hs item) items"
  note t = transmit_frames [OF assms(5,4)]
  then have "at_pos hr ?frs 0 hr" using assms(1-3) by (intro at_pos_start) auto
  moreover have "concat cs = drop 0 (wire ?frs)" using t by simp
  ultimately show ?thesis
    using read_chunks_stream [of hr ?frs 0 hr cs m] t assms(2) by (auto simp: at_pos_def)
qed


subsection \<open>Properties\<close>

text \<open>Two peers understand each other: whatever a processor prepares, any mix of whole text and binary
messages within the other's size limit, pings, pongs and close frames, masked or not as its role asks,
is handed over by the processor of the other role as the same messages in the same order, with no
error, however the transport cuts the octets.\<close>

theorem peers_agree:
  assumes "idle hr" and "open_message hr = None" and "m_server hr = (\<not> m_server hs)"
    and "\<forall>(rng, out, item) \<in> set items. sendable (m_max_message_size hr) item"
    and "transmit hs items = Some (concat cs)"
  shows "\<exists>ms h'. read_chunks m cs hr = Some (ms, None, h') \<and> idle h'
    \<and> map message_view ms = map (\<lambda>(_, _, item). item_view item) items"
  by (rule conversation [OF assms])

lemma new_idle: "idle (hybi13_new server mx)" "open_message (hybi13_new server mx) = None"
  "m_server (hybi13_new server mx) = server" "m_max_message_size (hybi13_new server mx) = mx"
  by (simp_all add: idle_def open_message_def hybi13_new_def msg_metadata_empty_def reset_headers_def
      MAX_EXTENDED_HEADER_LENGTH_def BASIC_HEADER_LENGTH_def)

definition sample_items :: "(u32 \<times> ws_message \<times> outgoing) list" where
  "sample_items = [(5, get_message_op 0, Data ((get_message_op op_binary)\<lparr>m_payload := [1, 2, 3]\<rparr>)),
     (6, get_message_op 0, Close status_normal [98, 121])]"

lemma sample_sent: "transmit (hybi13_new False 10) sample_items \<noteq> None"
  by code_simp

theorem peers_agree_witness:
  "\<exists>bs ms h'. transmit (hybi13_new False 10) sample_items = Some bs
     \<and> read_chunks (\<lambda>a. 0) [take 2 bs, drop 2 bs] (hybi13_new True 10) = Some (ms, None, h')
     \<and> map message_view ms = [(op_binary, [1, 2, 3]), (op_close, [3, 232, 98, 121])]"
proof -
  obtain bs where bs: "transmit (hybi13_new False 10) sample_items = Some (concat [take 2 bs, drop 2 bs])"
    using sample_sent by auto
  have views: "map (\<lambda>(_, _, item). item_view item) sample_items
      = [(op_binary, [1, 2, 3]), (op_close, [3, 232, 98, 121])]" by code_simp
  have "\<forall>(rng, out, item) \<in> set sample_items. sendable (m_max_message_size (hybi13_new True 10)) item"
    by (simp add: sample_items_def new_idle get_message_op_def)
  from peers_agree [OF new_idle(1) new_idle(2) _ this bs, of "\<lambda>a. 0"] bs show ?thesis
    unfolding views by (auto simp: new_idle(3) simp del: read_chunks.simps)
qed

text \<open>A close frame carries its code and reason to the other side: when \<open>prepare_close\<close> succeeds, the
other processor hands over one close message from which \<open>extract_code\<close> and \<open>extract_reason\<close> read the
same code, without error, and the same reason.\<close>

theorem close_roundtrip:
  assumes "idle hr" and "open_message hr = None" and "m_server hr = (\<not> m_server hs)"
    and "prepare_close rng hs code reason (Some out) = (None, Some o')" and "concat cs = wire_of o'"
  shows "\<exists>x h'. read_chunks m cs hr = Some ([x], None, h') \<and> m_opcode x = op_close
    \<and> extract_code (m_payload x) = (code, None) \<and> fst (extract_reason (m_payload x)) = reason"
proof -
  have "transmit hs [(rng, out, Close code reason)] = Some (concat cs)" using assms(4,5) by simp
  from conversation [OF assms(1-3) _ this, of m] obtain ms h' where
    r: "read_chunks m cs hr = Some (ms, None, h')" "map message_view ms = [item_view (Close code reason)]"
    by auto
  then obtain x where x: "ms = [x]" "message_view x = item_view (Close code reason)" by auto
  have code: "code \<noteq> status_no_status \<longrightarrow> \<not> close_invalid code \<and> \<not> close_reserved code"
    by (rule close_is_control(2) [OF assms(4)])
  have none: "code = status_no_status \<longrightarrow> reason = []"
    using assms(4) by (auto simp: prepare_close_def split: if_splits)
  have two: "length (le_bytes 2 (htons code)) = 2" by simp
  then obtain a b where ab: "le_bytes 2 (htons code) = [a, b]" by (auto simp del: length_le_bytes simp: length_Suc_conv numeral_2_eq_2)
  have "ntohs (of_le [a, b]) = code" unfolding ab [symmetric] by (simp add: htons_def ntohs_of_le of_le_bytes)
  with code none ab x r(1) show ?thesis
    by (auto simp: message_view_def extract_code_def extract_reason_def Let_def)
qed

theorem close_roundtrip_witness:
  "\<exists>o' x h'. prepare_close 9 (hybi13_new False 10) status_going_away [98] (Some (get_message_op 0)) = (None, Some o')
     \<and> read_chunks (\<lambda>a. 0) [wire_of o'] (hybi13_new True 10) = Some ([x], None, h')
     \<and> extract_code (m_payload x) = (status_going_away, None) \<and> fst (extract_reason (m_payload x)) = [98]"
proof -
  have "case prepare_close 9 (hybi13_new False 10) status_going_away [98] (Some (get_message_op 0)) of
      (None, Some _) \<Rightarrow> True | _ \<Rightarrow> False" by code_simp
  then have "\<exists>o'. prepare_close 9 (hybi13_new False 10) status_going_away [98] (Some (get_message_op 0)) = (None, Some o')"
    by (auto split: prod.splits option.splits)
  then obtain o' where o': "prepare_close 9 (hybi13_new False 10) status_going_away [98] (Some (get_message_op 0)) = (None, Some o')" ..
  from close_roundtrip [OF new_idle(1) new_idle(2) _ o', of True 10 "[wire_of o']" "\<lambda>a. 0"] o' show ?thesis
    by (auto simp: new_idle(3) simp del: read_chunks.simps)
qed

end
