(* ===== verification/WsConnection.thy ===== *)
theory WsConnection imports WsPeer begin

text \<open>
  A WebSocket connection after its opening handshake: \<open>websocketpp/connection.hpp\<close> and
  \<open>impl/connection_impl.hpp\<close>, with the message manager of \<open>message_buffer/alloc.hpp\<close>. The transport
  is asio: the operations the connection asks of it are kept as the list \<open>c_pending\<close>, and each of
  them ends in the handler the code passes, at any later time and with any error. The transport runs
  the handlers of a connection one at a time (its strand), so a handler is one step. Logging is left
  out. The handlers of the application are parameters that may change the connection.
\<close>

subsection \<open>State\<close>

datatype session_state = S_connecting | S_open | S_closing | S_closed

datatype istate = USER_INIT | TRANSPORT_INIT | READ_HTTP_REQUEST | WRITE_HTTP_REQUEST
  | READ_HTTP_RESPONSE | WRITE_HTTP_RESPONSE | PROCESS_HTTP_REQUEST | PROCESS_CONNECTION

datatype http_state = http_init | http_deferred | http_headers_written | http_body_written | http_closed

datatype terminate_status = t_failed | t_closed | t_unknown

text \<open>Operations the transport has accepted and not completed.\<close>

datatype pending_op = P_write_frame | P_write | P_read | P_shutdown terminate_status
  | P_close_timer | P_open_timer | P_pong_timer bytes | P_pause | P_resume | P_interrupt
  | P_init | P_read_handshake | P_write_response | P_send_request | P_read_response

text \<open>What the application and the endpoint are told, in order.\<close>

datatype app_event = Opened | Got_message ws_message | Got_ping bytes | Got_pong bytes
  | Pong_timed_out bytes | Interrupted | Closed | Failed | Terminated

text \<open>
  \<open>c_pushed\<close>, \<open>c_wire\<close> and \<open>c_received\<close> are not in the code: they record the messages that entered the
  send queue, the octets that were given to \<open>async_write\<close> and the messages taken from the processor. \<open>c_random n\<close> is the \<open>n\<close>-th value of \<open>m_rng\<close>.
\<close>

record connection =
  c_is_server :: bool
  c_state :: session_state
  c_internal :: istate
  c_processor :: "hybi13 option"
  c_buf :: memory
  c_send_queue :: "ws_message list"
  c_send_buffer_size :: u64
  c_write_flag :: bool
  c_current_msgs :: "ws_message list"
  c_read_flag :: bool
  c_local_close_code :: u16
  c_local_close_reason :: bytes
  c_remote_close_code :: u16
  c_remote_close_reason :: bytes
  c_ec :: "error_code option"
  c_was_clean :: bool
  c_is_http :: bool
  c_http_state :: http_state
  c_handshake_timer :: bool
  c_ping_timer :: bool
  c_open_handshake_timeout_dur :: int
  c_close_handshake_timeout_dur :: int
  c_pong_timeout_dur :: int
  c_max_message_size :: u64
  c_random :: "nat \<Rightarrow> u32"
  c_drawn :: nat
  c_pending :: "pending_op list"
  c_events :: "app_event list"
  c_pushed :: "ws_message list"
  c_wire :: bytes
  c_crashed :: bool
  c_received :: "ws_message list"

text \<open>\<open>config::core\<close>: time-outs of five seconds and messages of at most 32000000 octets.\<close>

definition connection_new :: "bool \<Rightarrow> (nat \<Rightarrow> u32) \<Rightarrow> connection" where
  "connection_new p_is_server rng =
     \<lparr>c_is_server = p_is_server, c_state = S_connecting, c_internal = USER_INIT, c_processor = None,
      c_buf = (\<lambda>_. 0), c_send_queue = [], c_send_buffer_size = 0, c_write_flag = False, c_current_msgs = [],
      c_read_flag = True, c_local_close_code = status_abnormal_close, c_local_close_reason = [],
      c_remote_close_code = status_abnormal_close, c_remote_close_reason = [], c_ec = None,
      c_was_clean = False, c_is_http = False, c_http_state = http_init, c_handshake_timer = False,
      c_ping_timer = False, c_open_handshake_timeout_dur = 5000, c_close_handshake_timeout_dur = 5000,
      c_pong_timeout_dur = 5000, c_max_message_size = 32000000, c_random = rng, c_drawn = 0,
      c_pending = [], c_events = [], c_pushed = [], c_wire = [], c_crashed = False, c_received = []\<rparr>"

text \<open>The handlers an application has set.\<close>

record 'c application =
  on_open :: "('c \<Rightarrow> 'c) option"
  on_close :: "('c \<Rightarrow> 'c) option"
  on_fail :: "('c \<Rightarrow> 'c) option"
  on_message :: "(ws_message \<Rightarrow> 'c \<Rightarrow> 'c) option"
  on_ping :: "(bytes \<Rightarrow> 'c \<Rightarrow> bool \<times> 'c) option"
  on_pong :: "(bytes \<Rightarrow> 'c \<Rightarrow> 'c) option"
  on_pong_timeout :: "(bytes \<Rightarrow> 'c \<Rightarrow> 'c) option"
  on_interrupt :: "('c \<Rightarrow> 'c) option"

type_synonym con_app = "connection application"

definition tell :: "app_event \<Rightarrow> connection \<Rightarrow> connection" where
  "tell e c = c\<lparr>c_events := c_events c @ [e]\<rparr>"

definition async :: "pending_op \<Rightarrow> connection \<Rightarrow> connection" where
  "async p c = c\<lparr>c_pending := c_pending c @ [p]\<rparr>"

subsection \<open>The write queue\<close>

definition write_push :: "ws_message \<Rightarrow> connection \<Rightarrow> connection" where
  "write_push msg c = c\<lparr>c_send_buffer_size := c_send_buffer_size c + word_of_nat (length (m_payload msg)),
     c_send_queue := c_send_queue c @ [msg], c_pushed := c_pushed c @ [msg]\<rparr>"

definition write_pop :: "connection \<Rightarrow> ws_message option \<times> connection" where
  "write_pop c = (case c_send_queue c of [] \<Rightarrow> (None, c)
     | msg # rest \<Rightarrow> (Some msg, c\<lparr>c_send_buffer_size := c_send_buffer_size c - word_of_nat (length (m_payload msg)),
                                 c_send_queue := rest\<rparr>))"

definition get_buffered_amount :: "connection \<Rightarrow> u64" where
  "get_buffered_amount c = c_send_buffer_size c"

text \<open>After a push: \<open>needs_writing\<close>, computed under the write lock, and the dispatch of \<open>write_frame\<close>.\<close>

definition push_and_dispatch :: "ws_message \<Rightarrow> connection \<Rightarrow> connection" where
  "push_and_dispatch msg c =
     (let c = write_push msg c in
      if \<not> c_write_flag c \<and> c_send_queue c \<noteq> [] then async P_write_frame c else c)"

text \<open>The messages \<open>write_frame\<close> takes from the queue: all of them, or up to the first terminal one.\<close>

function pop_messages :: "connection \<Rightarrow> connection" where
  "pop_messages c =
     (case write_pop c of
        (None, c) \<Rightarrow> c
      | (Some msg, c) \<Rightarrow>
          let c = c\<lparr>c_current_msgs := c_current_msgs c @ [msg]\<rparr> in
          if m_terminal msg then c else pop_messages c)"
  by pat_completeness auto
termination
  by (relation "measure (\<lambda>c. length (c_send_queue c))") (auto simp: write_pop_def split: list.splits)

declare pop_messages.simps [simp del]

definition write_frame :: "connection \<Rightarrow> connection" where
  "write_frame c =
     (if c_write_flag c then c
      else
        let c = pop_messages c in
        if c_current_msgs c = [] then c
        else
          let c = c\<lparr>c_write_flag := True\<rparr>
          in async P_write (c\<lparr>c_wire := c_wire c @ concat (map wire_of (c_current_msgs c))\<rparr>))"


subsection \<open>Ending the connection\<close>

definition cancel_handshake_timer :: "connection \<Rightarrow> connection" where
  "cancel_handshake_timer c = (if c_handshake_timer c then c\<lparr>c_handshake_timer := False\<rparr> else c)"

definition terminate :: "error_code option \<Rightarrow> connection \<Rightarrow> connection" where
  "terminate ec c =
     (let c = cancel_handshake_timer c;
          c = (case ec of None \<Rightarrow> c
               | Some e \<Rightarrow> c\<lparr>c_ec := ec, c_local_close_code := status_abnormal_close,
                             c_local_close_reason := error_message e\<rparr>);
          c = (if c_is_http c then c\<lparr>c_http_state := http_closed\<rparr> else c)
      in if c_state c = S_connecting then async (P_shutdown t_failed) (c\<lparr>c_state := S_closed\<rparr>)
         else if c_state c \<noteq> S_closed then async (P_shutdown t_closed) (c\<lparr>c_state := S_closed\<rparr>)
         else c)"

text \<open>The error of the shutdown is only logged. The termination handler belongs to the endpoint.\<close>

definition handle_terminate :: "con_app \<Rightarrow> terminate_status \<Rightarrow> connection \<Rightarrow> connection" where
  "handle_terminate app tstat c =
     (let c = (if tstat = t_failed then
                 (if c_ec c \<noteq> Some (Lib lib_http_connection_ended) then
                    (case on_fail app of None \<Rightarrow> c | Some f \<Rightarrow> f (tell Failed c))
                  else c)
               else if tstat = t_closed then
                 (case on_close app of None \<Rightarrow> c | Some f \<Rightarrow> f (tell Closed c))
               else c)
      in tell Terminated c)"

definition handle_open_handshake_timeout :: "error_code option \<Rightarrow> connection \<Rightarrow> connection" where
  "handle_open_handshake_timeout ec c =
     (if ec = Some (Trans trans_operation_aborted) then c
      else if ec \<noteq> None then c
      else terminate (Some (Lib lib_open_handshake_timeout)) c)"

definition handle_close_handshake_timeout :: "error_code option \<Rightarrow> connection \<Rightarrow> connection" where
  "handle_close_handshake_timeout ec c =
     (if ec = Some (Trans trans_operation_aborted) then c
      else if ec \<noteq> None then c
      else terminate (Some (Lib lib_close_handshake_timeout)) c)"

definition handle_write_frame :: "error_code option \<Rightarrow> connection \<Rightarrow> connection" where
  "handle_write_frame ec c =
     (if c_current_msgs c = [] then c\<lparr>c_crashed := True\<rparr>
      else
        let terminal = m_terminal (last (c_current_msgs c));
            c = c\<lparr>c_current_msgs := []\<rparr>
        in if ec \<noteq> None then terminate ec c
           else if terminal then terminate None c
           else
             let c = c\<lparr>c_write_flag := False\<rparr>
             in if c_send_queue c \<noteq> [] then async P_write_frame c else c)"

subsection \<open>Sending\<close>

text \<open>\<open>con_msg_manager::get_message ()\<close>; the opcode of the new message is set when it is prepared.\<close>

definition mgr_get_message :: "ws_message option" where
  "mgr_get_message = Some (get_message_op 0)"

definition random_value :: "connection \<Rightarrow> u32" where
  "random_value c = c_random c (c_drawn c)"

definition draw_key :: "connection \<Rightarrow> connection" where
  "draw_key c = (case c_processor c of None \<Rightarrow> c
     | Some h \<Rightarrow> if m_server h then c else c\<lparr>c_drawn := c_drawn c + 1\<rparr>)"

definition con_send :: "ws_message \<Rightarrow> connection \<Rightarrow> error_code option \<times> connection" where
  "con_send msg c =
     (if c_state c \<noteq> S_open then (Some (Lib lib_invalid_state), c)
      else if m_prepared msg then (None, push_and_dispatch msg c)
      else (case mgr_get_message of
              None \<Rightarrow> (Some (Lib lib_no_outgoing_buffers), c)
            | Some outgoing_msg \<Rightarrow>
                (case c_processor c of
                   None \<Rightarrow> (None, c\<lparr>c_crashed := True\<rparr>)
                 | Some h \<Rightarrow>
                     (case prepare_data_frame (random_value c) h (Some msg) (Some outgoing_msg) of
                        (Some ec, _) \<Rightarrow> (Some ec, c)
                      | (None, None) \<Rightarrow> (None, c)
                      | (None, Some outgoing_msg) \<Rightarrow> (None, push_and_dispatch outgoing_msg (draw_key c))))))"

definition con_send_payload :: "bytes \<Rightarrow> opcode \<Rightarrow> connection \<Rightarrow> error_code option \<times> connection" where
  "con_send_payload payload opc c =
     con_send ((get_message_op opc)\<lparr>m_payload := payload, m_compressed := True\<rparr>) c"

definition con_ping :: "con_app \<Rightarrow> bytes \<Rightarrow> connection \<Rightarrow> error_code option \<times> connection" where
  "con_ping app payload c =
     (if c_state c \<noteq> S_open then (Some (Lib lib_invalid_state), c)
      else (case (mgr_get_message, c_processor c) of
              (None, _) \<Rightarrow> (Some (Lib lib_no_outgoing_buffers), c)
            | (_, None) \<Rightarrow> (None, c\<lparr>c_crashed := True\<rparr>)
            | (Some msg, Some h) \<Rightarrow>
                (case prepare_ping (random_value c) h payload (Some msg) of
                   (Some ec, _) \<Rightarrow> (Some ec, c)
                 | (None, None) \<Rightarrow> (None, c)
                 | (None, Some msg) \<Rightarrow>
                     let c = draw_key c;
                         c = (if on_pong_timeout app \<noteq> None \<and> c_pong_timeout_dur c > 0
                              then async (P_pong_timer payload) (c\<lparr>c_ping_timer := True\<rparr>) else c)
                     in (None, push_and_dispatch msg c))))"

definition con_pong :: "bytes \<Rightarrow> connection \<Rightarrow> error_code option \<times> connection" where
  "con_pong payload c =
     (if c_state c \<noteq> S_open then (Some (Lib lib_invalid_state), c)
      else (case (mgr_get_message, c_processor c) of
              (None, _) \<Rightarrow> (Some (Lib lib_no_outgoing_buffers), c)
            | (_, None) \<Rightarrow> (None, c\<lparr>c_crashed := True\<rparr>)
            | (Some msg, Some h) \<Rightarrow>
                (case prepare_pong (random_value c) h payload (Some msg) of
                   (Some ec, _) \<Rightarrow> (Some ec, c)
                 | (None, None) \<Rightarrow> (None, c)
                 | (None, Some msg) \<Rightarrow> (None, push_and_dispatch msg (draw_key c)))))"

definition handle_pong_timeout :: "con_app \<Rightarrow> bytes \<Rightarrow> error_code option \<Rightarrow> connection \<Rightarrow> connection" where
  "handle_pong_timeout app payload ec c =
     (if ec \<noteq> None then c
      else (case on_pong_timeout app of None \<Rightarrow> c | Some f \<Rightarrow> f payload (tell (Pong_timed_out payload) c)))"

definition silent_close :: bool where "silent_close = False"
definition drop_on_protocol_error :: bool where "drop_on_protocol_error = False"

text \<open>The close code and reason chosen for the frame.\<close>

definition choose_close :: "u16 \<Rightarrow> bytes \<Rightarrow> bool \<Rightarrow> connection \<Rightarrow> u16 \<times> bytes" where
  "choose_close code reason ack c =
     (if silent_close then (status_no_status, [])
      else if code \<noteq> status_blank then (code, reason)
      else if \<not> ack then (status_no_status, [])
      else if c_remote_close_code c = status_no_status then (status_normal, [])
      else (c_remote_close_code c, c_remote_close_reason c))"

definition send_close_frame :: "u16 \<Rightarrow> bytes \<Rightarrow> bool \<Rightarrow> bool \<Rightarrow> connection \<Rightarrow> error_code option \<times> connection" where
  "send_close_frame code reason ack terminal c =
     (let (local_code, local_reason) = choose_close code reason ack c;
          c = c\<lparr>c_local_close_code := local_code, c_local_close_reason := local_reason\<rparr>
      in case (mgr_get_message, c_processor c) of
           (None, _) \<Rightarrow> (Some (Lib lib_no_outgoing_buffers), c)
         | (_, None) \<Rightarrow> (None, c\<lparr>c_crashed := True\<rparr>)
         | (Some msg, Some h) \<Rightarrow>
             (case prepare_close (random_value c) h local_code local_reason (Some msg) of
                (Some ec, _) \<Rightarrow> (Some ec, c)
              | (None, None) \<Rightarrow> (None, c)
              | (None, Some msg) \<Rightarrow>
                  let c = draw_key c;
                      msg = (if terminal then msg\<lparr>m_terminal := True\<rparr> else msg);
                      c = c\<lparr>c_state := S_closing\<rparr>;
                      c = (if ack then c\<lparr>c_was_clean := True\<rparr> else c);
                      c = (if c_close_handshake_timeout_dur c > 0
                           then async P_close_timer (c\<lparr>c_handshake_timer := True\<rparr>) else c)
                  in (None, push_and_dispatch msg c)))"

definition send_close_ack :: "u16 \<Rightarrow> bytes \<Rightarrow> connection \<Rightarrow> error_code option \<times> connection" where
  "send_close_ack code reason c = send_close_frame code reason True (c_is_server c) c"

definition con_close :: "u16 \<Rightarrow> bytes \<Rightarrow> connection \<Rightarrow> error_code option \<times> connection" where
  "con_close code reason c =
     (let tr = take (min (length reason) (unat close_reason_size)) reason in
      if c_state c \<noteq> S_open then (Some (Lib lib_invalid_state), c)
      else send_close_frame code tr False (close_terminal code) c)"


subsection \<open>Receiving\<close>

definition receive_ping :: "con_app \<Rightarrow> ws_message \<Rightarrow> connection \<Rightarrow> connection" where
  "receive_ping app msg c =
     (let (should_reply, c) =
        (case on_ping app of None \<Rightarrow> (True, c) | Some f \<Rightarrow> f (m_payload msg) (tell (Got_ping (m_payload msg)) c))
      in if should_reply then snd (con_pong (m_payload msg) c) else c)"

definition receive_pong :: "con_app \<Rightarrow> ws_message \<Rightarrow> connection \<Rightarrow> connection" where
  "receive_pong app msg c =
     (case on_pong app of None \<Rightarrow> c | Some f \<Rightarrow> f (m_payload msg) (tell (Got_pong (m_payload msg)) c))"

definition receive_close :: "ws_message \<Rightarrow> connection \<Rightarrow> connection" where
  "receive_close msg c =
     (let (code, ec) = extract_code (m_payload msg);
          c = c\<lparr>c_remote_close_code := code\<rparr>
      in if ec \<noteq> None then
           (if drop_on_protocol_error then terminate ec c
            else snd (send_close_ack status_protocol_error (octets_of ''Invalid close code'') c))
         else
           let (reason, ec) = extract_reason (m_payload msg);
               c = c\<lparr>c_remote_close_reason := reason\<rparr>
           in if ec \<noteq> None then
                (if drop_on_protocol_error then terminate ec c
                 else snd (send_close_ack status_protocol_error (octets_of ''Invalid close reason'') c))
              else if c_state c = S_open then snd (send_close_ack status_blank [] c)
              else if c_state c = S_closing \<and> \<not> c_was_clean c then
                let c = c\<lparr>c_was_clean := True\<rparr>
                in if c_is_server c then terminate None c else c
              else c)"

definition process_control_frame :: "con_app \<Rightarrow> ws_message \<Rightarrow> connection \<Rightarrow> connection" where
  "process_control_frame app msg c =
     (let opc = m_opcode msg in
      if c_state c = S_closed then c
      else if opc \<noteq> op_close \<and> c_state c \<noteq> S_open then c
      else if opc = op_ping then receive_ping app msg c
      else if opc = op_pong then receive_pong app msg c
      else if opc = op_close then receive_close msg c
      else c)"

text \<open>A complete message, in the loop of \<open>handle_read_frame\<close>.\<close>

definition dispatch_message :: "con_app \<Rightarrow> ws_message \<Rightarrow> connection \<Rightarrow> connection" where
  "dispatch_message app msg c =
     (if \<not> is_control (m_opcode msg) then
        (if c_state c \<noteq> S_open then c
         else (case on_message app of None \<Rightarrow> c | Some f \<Rightarrow> f msg (tell (Got_message msg) c)))
      else process_control_frame app msg c)"

definition read_failed :: "error_code \<Rightarrow> connection \<Rightarrow> connection" where
  "read_failed consume_ec c =
     (if drop_on_protocol_error then terminate (Some consume_ec) c
      else
        let (close_ec, c) = con_close (to_ws consume_ec) (error_message consume_ec) c
        in if close_ec \<noteq> None then terminate close_ec c else c)"

definition read_frame :: "connection \<Rightarrow> connection" where
  "read_frame c = (if \<not> c_read_flag c then c else async P_read c)"

text \<open>
  The loop of \<open>handle_read_frame\<close>: whether it ran to its end, and the connection. A handler of the
  application runs inside it, so the loop bound \<open>n\<close> is all that is fixed; \<open>None\<close> is a loop that never
  ends.
\<close>

partial_function (option) frame_loop ::
  "con_app \<Rightarrow> nat \<Rightarrow> nat \<Rightarrow> connection \<Rightarrow> (bool \<times> connection) option" where
  "frame_loop app n p c =
     (if p < n then
        (case c_processor c of
           None \<Rightarrow> Some (False, c\<lparr>c_crashed := True\<rparr>)
         | Some h \<Rightarrow>
             (case consume p (n - p) h (c_buf c) of
                None \<Rightarrow> Some (False, c\<lparr>c_crashed := True\<rparr>)
              | Some (k, consume_ec, h, m) \<Rightarrow>
                  let c = c\<lparr>c_processor := Some h, c_buf := m\<rparr>; p = p + k in
                  (case consume_ec of
                     Some ec \<Rightarrow> Some (False, read_failed ec c)
                   | None \<Rightarrow>
                       if hybi13_ready h then
                         (case hybi13_get_message h of
                            None \<Rightarrow> Some (False, c\<lparr>c_crashed := True\<rparr>)
                          | Some (msg, h) \<Rightarrow>
                              let c = c\<lparr>c_processor := Some h\<rparr> in
                              frame_loop app n p
                                (case msg of None \<Rightarrow> c
                                 | Some msg \<Rightarrow> dispatch_message app msg (c\<lparr>c_received := c_received c @ [msg]\<rparr>)))
                       else frame_loop app n p c)))
      else Some (True, c))"

text \<open>The bytes of a completed read are in \<open>m_buf\<close>.\<close>

definition handle_read_frame :: "con_app \<Rightarrow> error_code option \<Rightarrow> nat \<Rightarrow> connection \<Rightarrow> connection option" where
  "handle_read_frame app ec bytes_transferred c =
     (let ecm = (if ec = None \<and> c_internal c \<noteq> PROCESS_CONNECTION then Some (Lib lib_invalid_state) else ec)
      in if ecm \<noteq> None then
           (if ecm = Some (Trans trans_eof) \<and> c_state c = S_closed then Some c
            else if ecm = Some (Trans trans_eof) \<and> c_state c = S_closing \<and> \<not> c_is_server c
            then Some (terminate None c)
            else if ecm = Some (Lib lib_invalid_state) \<and> c_state c = S_closed then Some c
            else Some (terminate ecm c))
         else
           (case frame_loop app bytes_transferred 0 c of
              None \<Rightarrow> None
            | Some (True, c) \<Rightarrow> Some (read_frame c)
            | Some (False, c) \<Rightarrow> Some c))"

definition read_done :: "con_app \<Rightarrow> error_code option \<Rightarrow> bytes \<Rightarrow> connection \<Rightarrow> connection option" where
  "read_done app ec data c = handle_read_frame app ec (length data) (c\<lparr>c_buf := poke 0 data (c_buf c)\<rparr>)"

definition pause_reading :: "connection \<Rightarrow> connection" where "pause_reading c = async P_pause c"
definition handle_pause_reading :: "connection \<Rightarrow> connection" where
  "handle_pause_reading c = c\<lparr>c_read_flag := False\<rparr>"
definition resume_reading :: "connection \<Rightarrow> connection" where "resume_reading c = async P_resume c"
definition handle_resume_reading :: "connection \<Rightarrow> connection" where
  "handle_resume_reading c = read_frame (c\<lparr>c_read_flag := True\<rparr>)"
definition interrupt :: "connection \<Rightarrow> connection" where "interrupt c = async P_interrupt c"
definition handle_interrupt :: "con_app \<Rightarrow> connection \<Rightarrow> connection" where
  "handle_interrupt app c = (case on_interrupt app of None \<Rightarrow> c | Some f \<Rightarrow> f (tell Interrupted c))"

subsection \<open>Steps\<close>

text \<open>
  What an application may do with a connection, from outside or inside its handlers; \<open>resumes\<close> says
  whether it ever calls \<open>resume_reading\<close>. A message it has prepared itself must be a data message.
\<close>

inductive api_step :: "con_app \<Rightarrow> bool \<Rightarrow> connection \<Rightarrow> connection \<Rightarrow> bool" for app resumes where
  api_send: "(m_prepared msg \<Longrightarrow> \<not> is_control (m_opcode msg)) \<Longrightarrow> api_step app resumes c (snd (con_send msg c))"
| api_ping: "api_step app resumes c (snd (con_ping app payload c))"
| api_pong: "api_step app resumes c (snd (con_pong payload c))"
| api_close: "api_step app resumes c (snd (con_close code reason c))"
| api_pause: "api_step app resumes c (pause_reading c)"
| api_resume: "resumes \<Longrightarrow> api_step app resumes c (resume_reading c)"
| api_interrupt: "api_step app resumes c (interrupt c)"

text \<open>The completion of an operation of the transport takes it off the list.\<close>

definition complete :: "pending_op \<Rightarrow> connection \<Rightarrow> connection" where
  "complete p c = c\<lparr>c_pending := remove1 p (c_pending c)\<rparr>"

text \<open>
  A step of an open connection: a call of the application or the completion of one of the pending
  operations. A read that succeeds has transferred at least one and at most 16384 octets, a timer ends
  with success or \<open>operation_aborted\<close>.
\<close>

inductive con_step :: "con_app \<Rightarrow> bool \<Rightarrow> connection \<Rightarrow> connection \<Rightarrow> bool" for app resumes where
  step_api: "api_step app resumes c c' \<Longrightarrow> con_step app resumes c c'"
| step_write_frame: "P_write_frame \<in> set (c_pending c) \<Longrightarrow> con_step app resumes c (write_frame (complete P_write_frame c))"
| step_written: "P_write \<in> set (c_pending c) \<Longrightarrow> con_step app resumes c (handle_write_frame ec (complete P_write c))"
| step_read: "P_read \<in> set (c_pending c) \<Longrightarrow> ec = None \<Longrightarrow> 0 < length data \<Longrightarrow> length data \<le> 16384 \<Longrightarrow>
    read_done app ec data (complete P_read c) = Some c' \<Longrightarrow> con_step app resumes c c'"
| step_read_error: "P_read \<in> set (c_pending c) \<Longrightarrow> ec \<noteq> None \<Longrightarrow>
    read_done app ec [] (complete P_read c) = Some c' \<Longrightarrow> con_step app resumes c c'"
| step_shutdown: "P_shutdown tstat \<in> set (c_pending c) \<Longrightarrow>
    con_step app resumes c (handle_terminate app tstat (complete (P_shutdown tstat) c))"
| step_close_timer: "P_close_timer \<in> set (c_pending c) \<Longrightarrow>
    con_step app resumes c (handle_close_handshake_timeout ec (complete P_close_timer c))"
| step_open_timer: "P_open_timer \<in> set (c_pending c) \<Longrightarrow>
    con_step app resumes c (handle_open_handshake_timeout ec (complete P_open_timer c))"
| step_pong_timer: "P_pong_timer payload \<in> set (c_pending c) \<Longrightarrow>
    con_step app resumes c (handle_pong_timeout app payload ec (complete (P_pong_timer payload) c))"
| step_pause: "P_pause \<in> set (c_pending c) \<Longrightarrow> con_step app resumes c (handle_pause_reading (complete P_pause c))"
| step_resume: "P_resume \<in> set (c_pending c) \<Longrightarrow> con_step app resumes c (handle_resume_reading (complete P_resume c))"
| step_interrupt: "P_interrupt \<in> set (c_pending c) \<Longrightarrow> con_step app resumes c (handle_interrupt app (complete P_interrupt c))"


text \<open>
  The end of a successful opening handshake (\<open>handle_write_http_response\<close>, \<open>handle_read_http_response\<close>):
  the connection is open, the handler of the application has run, and the bytes read behind the
  handshake are processed like a read. From there on it takes steps. The read buffer \<open>m\<close> is what the
  handshake has left in it, and the cancelled handshake timer may still be to complete (\<open>timer\<close>).
\<close>

definition opened :: "con_app \<Rightarrow> bool \<Rightarrow> (nat \<Rightarrow> u32) \<Rightarrow> memory \<Rightarrow> bool \<Rightarrow> connection" where
  "opened app server rng m timer =
     (let c = (connection_new server rng)\<lparr>c_internal := PROCESS_CONNECTION, c_state := S_open,
                c_processor := Some (hybi13_new server 32000000),
      c_buf := m, c_pending := (if timer then [P_open_timer] else [])\<rparr>
      in case on_open app of None \<Rightarrow> c | Some f \<Rightarrow> f (tell Opened c))"

inductive reach :: "con_app \<Rightarrow> bool \<Rightarrow> bool \<Rightarrow> (nat \<Rightarrow> u32) \<Rightarrow> connection \<Rightarrow> bool" for app resumes server rng where
  reach_open: "length data \<le> 16384 \<Longrightarrow> read_done app None data (opened app server rng m timer) = Some c \<Longrightarrow> reach app resumes server rng c"
| reach_step: "reach app resumes server rng c \<Longrightarrow> con_step app resumes c c' \<Longrightarrow> reach app resumes server rng c'"

text \<open>Handlers that touch the connection only through its interface.\<close>

definition api_only :: "con_app \<Rightarrow> bool \<Rightarrow> bool" where
  "api_only app resumes \<longleftrightarrow>
     (\<forall>f c. (on_open app = Some f \<or> on_close app = Some f \<or> on_fail app = Some f \<or> on_interrupt app = Some f) \<longrightarrow>
        (api_step app resumes)\<^sup>*\<^sup>* c (f c))
   \<and> (\<forall>f msg c. on_message app = Some f \<longrightarrow> (api_step app resumes)\<^sup>*\<^sup>* c (f msg c))
   \<and> (\<forall>f bs c. on_ping app = Some f \<longrightarrow> (api_step app resumes)\<^sup>*\<^sup>* c (snd (f bs c)))
   \<and> (\<forall>f bs c. (on_pong app = Some f \<or> on_pong_timeout app = Some f) \<longrightarrow> (api_step app resumes)\<^sup>*\<^sup>* c (f bs c))"

end
