(* ===== verification/WsOpening.thy ===== *)
theory WsOpening imports WsHandshake WsHybi00 WsConnection begin

text \<open>
  The opening handshake of a connection: the part of \<open>impl/connection_impl.hpp\<close> that runs before the
  connection is open, on the server and on the client, with the interface the handlers of the application
  have to it. The parts of the object that only the handshake uses are kept beside the connection of
  \<open>WsConnection\<close>. The transport is the one of the program's configuration, without TLS.
\<close>

subsection \<open>State\<close>

text \<open>
  \<open>o_version\<close> is the version of \<open>m_processor\<close>, \<open>None\<close> while it is null; \<open>o_sent\<close> is not in the code: it
  records the texts given to \<open>async_write\<close>. A null pointer dereference or undefined text sets the flag
  \<open>c_crashed\<close> of the connection.
\<close>

record handshake =
  o_con :: connection
  o_request :: request
  o_response :: response
  o_uri :: "uri option"
  o_requested_subprotocols :: "string list"
  o_subprotocol :: string
  o_version :: "int option"
  o_buf_cursor :: nat
  o_handshake_buffer :: string
  o_user_agent :: string
  o_sent :: "string list"

definition user_agent :: string where "user_agent = ''WebSocket++/0.8.2''"
definition connection_read_buffer_size :: nat where "connection_read_buffer_size = 16384"
definition client_version :: int where "client_version = 13"
definition versions_supported :: "nat list" where "versions_supported = [0, 7, 8, 13]"

definition opening_new :: "bool \<Rightarrow> (nat \<Rightarrow> u32) \<Rightarrow> handshake" where
  "opening_new p_is_server rng =
     \<lparr>o_con = connection_new p_is_server rng, o_request = request_new, o_response = response_new, o_uri = None,
      o_requested_subprotocols = [], o_subprotocol = [], o_version = None, o_buf_cursor = 0,
      o_handshake_buffer = [], o_user_agent = user_agent, o_sent = []\<rparr>"

text \<open>The handlers an application has set for the handshake of a server.\<close>

record opening_handlers =
  on_validate :: "(handshake \<Rightarrow> bool \<times> handshake) option"
  on_http :: "(handshake \<Rightarrow> handshake) option"

definition on_con :: "(connection \<Rightarrow> connection) \<Rightarrow> handshake \<Rightarrow> handshake" where
  "on_con f o' = o'\<lparr>o_con := f (o_con o')\<rparr>"

definition on_response :: "(response \<Rightarrow> response) \<Rightarrow> handshake \<Rightarrow> handshake" where
  "on_response f o' = o'\<lparr>o_response := f (o_response o')\<rparr>"

definition crash_opening :: "handshake \<Rightarrow> handshake" where
  "crash_opening = on_con (\<lambda>c. c\<lparr>c_crashed := True\<rparr>)"

subsection \<open>The interface of the application\<close>

text \<open>The exceptions of these functions are \<open>Inl\<close>.\<close>

definition con_set_status :: "status_code \<Rightarrow> handshake \<Rightarrow> error_code + handshake" where
  "con_set_status code o' =
     (if c_internal (o_con o') \<noteq> PROCESS_HTTP_REQUEST then Inl (Lib lib_invalid_state)
      else Inr (on_response (set_status code) o'))"

definition con_set_status_msg :: "status_code \<Rightarrow> string \<Rightarrow> handshake \<Rightarrow> error_code + handshake" where
  "con_set_status_msg code msg o' =
     (if c_internal (o_con o') \<noteq> PROCESS_HTTP_REQUEST then Inl (Lib lib_invalid_state)
      else Inr (on_response (set_status_msg code msg) o'))"

definition con_set_body :: "string \<Rightarrow> handshake \<Rightarrow> error_code + handshake" where
  "con_set_body value o' =
     (if c_internal (o_con o') \<noteq> PROCESS_HTTP_REQUEST then Inl (Lib lib_invalid_state)
      else Inr (on_response (set_body value) o'))"

text \<open>The exception of a header name that is no token is \<open>Threw\<close>.\<close>

definition con_append_header :: "string \<Rightarrow> string \<Rightarrow> handshake \<Rightarrow> error_code + handshake parsed" where
  "con_append_header key val o' =
     (if c_is_server (o_con o') then
        (if c_internal (o_con o') = PROCESS_HTTP_REQUEST then
           Inr (and_then (append_header key val (o_response o')) (\<lambda>r. Parsed (o'\<lparr>o_response := r\<rparr>)))
         else Inl (Lib lib_invalid_state))
      else
        (if c_internal (o_con o') = USER_INIT then
           Inr (and_then (append_header key val (o_request o')) (\<lambda>r. Parsed (o'\<lparr>o_request := r\<rparr>)))
         else Inl (Lib lib_invalid_state)))"

definition con_replace_header :: "string \<Rightarrow> string \<Rightarrow> handshake \<Rightarrow> error_code + handshake" where
  "con_replace_header key val o' =
     (if c_is_server (o_con o') then
        (if c_internal (o_con o') = PROCESS_HTTP_REQUEST then Inr (on_response (replace_header key val) o')
         else Inl (Lib lib_invalid_state))
      else
        (if c_internal (o_con o') = USER_INIT then Inr (o'\<lparr>o_request := replace_header key val (o_request o')\<rparr>)
         else Inl (Lib lib_invalid_state)))"

definition con_remove_header :: "string \<Rightarrow> handshake \<Rightarrow> error_code + handshake" where
  "con_remove_header key o' =
     (if c_is_server (o_con o') then
        (if c_internal (o_con o') = PROCESS_HTTP_REQUEST then Inr (on_response (remove_header key) o')
         else Inl (Lib lib_invalid_state))
      else
        (if c_internal (o_con o') = USER_INIT then Inr (o'\<lparr>o_request := remove_header key (o_request o')\<rparr>)
         else Inl (Lib lib_invalid_state)))"

definition add_subprotocol :: "string \<Rightarrow> handshake \<Rightarrow> error_code option \<times> handshake" where
  "add_subprotocol value o' =
     (if c_is_server (o_con o') then (Some (Lib lib_client_only), o')
      else if value = [] \<or> list_ex is_not_token_char value then (Some (Lib lib_invalid_subprotocol), o')
      else (None, o'\<lparr>o_requested_subprotocols := o_requested_subprotocols o' @ [value]\<rparr>))"

definition select_subprotocol :: "string \<Rightarrow> handshake \<Rightarrow> error_code option \<times> handshake" where
  "select_subprotocol value o' =
     (if \<not> c_is_server (o_con o') then (Some (Lib lib_server_only), o')
      else if value = [] then (None, o')
      else if value \<notin> set (o_requested_subprotocols o') then (Some (Lib lib_unrequested_subprotocol), o')
      else (None, o'\<lparr>o_subprotocol := value\<rparr>))"

definition defer_http_response :: "handshake \<Rightarrow> error_code option \<times> handshake" where
  "defer_http_response o' =
     (None, on_con (\<lambda>c. (cancel_handshake_timer c)\<lparr>c_http_state := http_deferred\<rparr>) o')"

subsection \<open>Processors\<close>

text \<open>
  The processor of a version with its limit set. The versions 7, 8 and 13 share the model of \<open>WsHybi13\<close>;
  version 0 is the draft processor of \<open>WsHybi00\<close>, of which the handshake uses functions without a state.
\<close>

definition get_processor :: "int \<Rightarrow> connection \<Rightarrow> (int \<times> hybi13 option) option" where
  "get_processor version c =
     (if version = 0 then Some (0, None)
      else if version = 7 \<or> version = 8 \<or> version = 13
      then Some (version, Some (hybi13_new (c_is_server c) (c_max_message_size c)))
      else None)"

definition set_processor :: "(int \<times> hybi13 option) option \<Rightarrow> handshake \<Rightarrow> handshake" where
  "set_processor p o' =
     on_con (\<lambda>c. c\<lparr>c_processor := (case p of None \<Rightarrow> None | Some (_, h) \<Rightarrow> h)\<rparr>) (o'\<lparr>o_version := map_option fst p\<rparr>)"

text \<open>The versions, with \<open>sep\<close> before each but the first.\<close>

fun join_versions :: "string \<Rightarrow> nat list \<Rightarrow> string" where
  "join_versions sep [] = []"
| "join_versions sep (v # vs) = sep @ decimal v @ join_versions '','' vs"

definition initialize_processor :: "handshake \<Rightarrow> error_code option \<times> handshake" where
  "initialize_processor o' =
     (if \<not> is_websocket_handshake (o_request o') then (None, o')
      else
        let version = get_websocket_version (o_request o') in
        if version < 0 then (Some (Lib lib_invalid_version), on_response (set_status sc_bad_request) o')
        else
          let o' = set_processor (get_processor version (o_con o')) o' in
          if o_version o' \<noteq> None then (None, o')
          else (Some (Lib lib_unsupported_version),
                on_response (\<lambda>r. replace_header ''Sec-WebSocket-Version'' (join_versions [] versions_supported)
                                   (set_status sc_bad_request r)) o'))"

text \<open>
  The virtual functions of \<open>m_processor\<close>, by its version. The arrays that the draft processor leaves
  uninitialised are zeros here: \<open>final_key_octets\<close> and \<open>hash_string_rfc\<close> show that nothing depends on them.
\<close>

definition pr_validate_handshake :: "int \<Rightarrow> request \<Rightarrow> error_code option" where
  "pr_validate_handshake version r = (if version = 0 then hybi00_validate_handshake r else validate_handshake r)"

definition pr_negotiate_extensions :: "int \<Rightarrow> bool \<Rightarrow> 'r http_parser_scheme \<Rightarrow> error_code option \<times> string" where
  "pr_negotiate_extensions version server header =
     (if version = 0 then base_negotiate_extensions header else negotiate_extensions server header)"

definition pr_get_uri :: "int \<Rightarrow> bool \<Rightarrow> request \<Rightarrow> uri" where
  "pr_get_uri version secure r = (if version = 0 then hybi00_get_uri secure r else hybi13_get_uri secure r)"

definition pr_extract_subprotocols :: "int \<Rightarrow> request \<Rightarrow> string list \<Rightarrow> error_code option \<times> string list" where
  "pr_extract_subprotocols version req ps =
     (if version = 0 then hybi00_extract_subprotocols req ps else extract_subprotocols req ps)"

definition pr_process_handshake :: "int \<Rightarrow> u32 list \<Rightarrow> request \<Rightarrow> string \<Rightarrow> response \<Rightarrow> response parsed" where
  "pr_process_handshake version w req subprotocol res =
     (if version = 0 then hybi00_process_handshake (replicate 64 0) False (replicate 16 0) req subprotocol res
      else process_handshake w req subprotocol res)"

definition pr_get_raw :: "int option \<Rightarrow> response \<Rightarrow> string" where
  "pr_get_raw version res = (if version = Some 0 then hybi00_get_raw res else response_raw res)"

subsection \<open>The server\<close>

definition start_opening :: "handshake \<Rightarrow> handshake" where
  "start_opening o' =
     (if c_internal (o_con o') \<noteq> USER_INIT then on_con (terminate (Some (Lib lib_invalid_state))) o'
      else on_con (\<lambda>c. async P_init (c\<lparr>c_internal := TRANSPORT_INIT\<rparr>)) o')"

definition set_open_timer :: "connection \<Rightarrow> connection" where
  "set_open_timer c =
     (if c_open_handshake_timeout_dur c > 0 then async P_open_timer (c\<lparr>c_handshake_timer := True\<rparr>) else c)"

definition read_handshake :: "handshake \<Rightarrow> handshake" where
  "read_handshake = on_con (\<lambda>c. async P_read_handshake (set_open_timer c))"

text \<open>
  The test four handlers begin with: the handler goes on, ignores its call because the connection is
  closed, or terminates the connection.
\<close>

datatype guard = Go_on | Ignore | Stop error_code

definition handshake_guard :: "istate \<Rightarrow> error_code option \<Rightarrow> connection \<Rightarrow> guard" where
  "handshake_guard st ec c =
     (case ec of
        None \<Rightarrow>
          if c_state c = S_connecting then (if c_internal c \<noteq> st then Stop (Lib lib_invalid_state) else Go_on)
          else if c_state c = S_closed then Ignore
          else Stop (Lib lib_invalid_state)
      | Some e \<Rightarrow> if e = Trans trans_eof \<and> c_state c = S_closed then Ignore else Stop e)"

definition write_http_response :: "error_code option \<Rightarrow> handshake \<Rightarrow> handshake" where
  "write_http_response ec o' =
     (if ec = Some (Lib lib_http_connection_ended) then o'
      else
        let o' = (if s_status_code (o_response o') = sc_uninitialized then
                    on_con (\<lambda>c. c\<lparr>c_ec := Some (Lib lib_general)\<rparr>) (on_response (set_status sc_internal_server_error) o')
                  else on_con (\<lambda>c. c\<lparr>c_ec := ec\<rparr>) o');
            o' = on_response (\<lambda>r. r\<lparr>h_version := ''HTTP/1.1''\<rparr>) o';
            o' = (if get_header ''Server'' (o_response o') = [] then
                    (if o_user_agent o' \<noteq> [] then on_response (replace_header ''Server'' (o_user_agent o')) o'
                     else on_response (remove_header ''Server'') o')
                  else o');
            raw = pr_get_raw (o_version o') (o_response o')
        in on_con (async P_write_response) (o'\<lparr>o_handshake_buffer := raw, o_sent := o_sent o' @ [raw]\<rparr>))"

definition write_http_response_error :: "error_code option \<Rightarrow> handshake \<Rightarrow> handshake" where
  "write_http_response_error ec o' =
     (if c_internal (o_con o') \<noteq> READ_HTTP_REQUEST then on_con (terminate (Some (Lib lib_invalid_state))) o'
      else write_http_response ec (on_con (\<lambda>c. c\<lparr>c_internal := PROCESS_HTTP_REQUEST\<rparr>) o'))"

text \<open>A refusal: the status is set and an error returned.\<close>

definition refuse :: "status_code \<Rightarrow> error_code \<Rightarrow> handshake \<Rightarrow> error_code option \<times> handshake" where
  "refuse code ec o' = (Some ec, on_response (set_status code) o')"

text \<open>The plain HTTP part of \<open>process_handshake_request\<close>.\<close>

definition process_http_request :: "opening_handlers \<Rightarrow> handshake \<Rightarrow> error_code option \<times> handshake" where
  "process_http_request H o' =
     (let u = get_uri_from_host (o_request o') ''http''; o' = o'\<lparr>o_uri := Some u\<rparr> in
      if \<not> u_valid u then refuse sc_bad_request (Lib lib_invalid_uri) o'
      else (case on_http H of
              Some f \<Rightarrow>
                let o' = f (on_con (\<lambda>c. c\<lparr>c_is_http := True\<rparr>) o') in
                if c_state (o_con o') = S_closed then (Some (Lib lib_http_connection_ended), o') else (None, o')
            | None \<Rightarrow>
                (case con_set_status sc_upgrade_required o' of
                   Inl e \<Rightarrow> (Some e, crash_opening o')
                 | Inr o' \<Rightarrow> (Some (Lib lib_upgrade_required), o'))))"

text \<open>The end of \<open>process_handshake_request\<close>, where the application decides.\<close>

definition ask_application :: "opening_handlers \<Rightarrow> int \<Rightarrow> u32 list \<Rightarrow> handshake \<Rightarrow> error_code option \<times> handshake" where
  "ask_application H version w o' =
     (let (accepted, o') = (case on_validate H of None \<Rightarrow> (True, o') | Some f \<Rightarrow> f o') in
      if accepted then
        let o' = on_response (set_status sc_switching_protocols) o' in
        (case pr_process_handshake version w (o_request o') (o_subprotocol o') (o_response o') of
           Parsed r \<Rightarrow> (None, o'\<lparr>o_response := r\<rparr>)
         | _ \<Rightarrow> (None, crash_opening o'))
      else
        (Some (Lib lib_rejected),
         if s_status_code (o_response o') = sc_uninitialized then on_response (set_status sc_bad_request) o' else o'))"

definition process_handshake_request ::
  "opening_handlers \<Rightarrow> u32 list \<Rightarrow> handshake \<Rightarrow> error_code option \<times> handshake" where
  "process_handshake_request H w o' =
     (if \<not> is_websocket_handshake (o_request o') then process_http_request H o'
      else (case o_version o' of
              None \<Rightarrow> (None, crash_opening o')
            | Some version \<Rightarrow>
                (case pr_validate_handshake version (o_request o') of
                   Some ec \<Rightarrow> refuse sc_bad_request ec o'
                 | None \<Rightarrow>
                     let (neg_ec, reply) = pr_negotiate_extensions version (c_is_server (o_con o')) (o_request o') in
                     if neg_ec = Some (Proc proc_extension_parse_error) then
                       refuse sc_bad_request (Proc proc_extension_parse_error) o'
                     else
                       let o' = (if neg_ec = None \<and> reply \<noteq> [] then on_response (replace_header ''Sec-WebSocket-Extensions'' reply) o'
                                 else o');
                           u = pr_get_uri version False (o_request o');
                           o' = o'\<lparr>o_uri := Some u\<rparr>
                       in if \<not> u_valid u then refuse sc_bad_request (Lib lib_invalid_uri) o'
                          else
                            let (subp_ec, ps) = pr_extract_subprotocols version (o_request o') (o_requested_subprotocols o')
                            in ask_application H version w (o'\<lparr>o_requested_subprotocols := ps\<rparr>))))"

text \<open>
  The rest of \<open>handle_read_handshake\<close> once the request is complete: \<open>rest\<close> is what was read behind it. A
  handshake of draft 76 takes eight octets more, of this read.
\<close>

definition take_key3 :: "bytes \<Rightarrow> handshake \<Rightarrow> handshake" where
  "take_key3 rest o' = o'\<lparr>o_request := replace_header ''Sec-WebSocket-Key3'' (text_of (take 8 rest)) (o_request o')\<rparr>"

definition process_request :: "opening_handlers \<Rightarrow> u32 list \<Rightarrow> bytes \<Rightarrow> handshake \<Rightarrow> handshake" where
  "process_request H w rest o' =
     (let o' = on_con (\<lambda>c. c\<lparr>c_buf := poke 0 rest (c_buf c), c_internal := PROCESS_HTTP_REQUEST\<rparr>)
                 (o'\<lparr>o_buf_cursor := length rest\<rparr>);
          (handshake_ec, o') = process_handshake_request H w o'
      in if \<not> c_is_http (o_con o') \<or> c_http_state (o_con o') = http_init then write_http_response handshake_ec o' else o')"

definition request_complete :: "opening_handlers \<Rightarrow> u32 list \<Rightarrow> bytes \<Rightarrow> handshake \<Rightarrow> handshake" where
  "request_complete H w rest o' =
     (let (processor_ec, o') = initialize_processor o' in
      if processor_ec \<noteq> None then write_http_response_error processor_ec o'
      else if o_version o' = Some 0 then
        (if length rest \<ge> 8 then process_request H w (drop 8 rest) (take_key3 rest o')
         else write_http_response_error (Some (Proc proc_short_key3)) (on_response (set_status sc_internal_server_error) o'))
      else process_request H w rest o')"

text \<open>The completion of a read with the octets \<open>data\<close>. A request whose parser has thrown is not used again.\<close>

definition handle_read_handshake ::
  "opening_handlers \<Rightarrow> u32 list \<Rightarrow> error_code option \<Rightarrow> bytes \<Rightarrow> handshake \<Rightarrow> handshake" where
  "handle_read_handshake H w ec data o' =
     (case handshake_guard READ_HTTP_REQUEST ec (o_con o') of
        Ignore \<Rightarrow> o'
      | Stop e \<Rightarrow> on_con (terminate (Some e)) o'
      | Go_on \<Rightarrow>
          let o' = on_con (\<lambda>c. c\<lparr>c_buf := poke 0 data (c_buf c)\<rparr>) o' in
          if length data > connection_read_buffer_size then on_con (terminate (Some (Lib lib_general))) o'
          else (case request_consume (text_of data) (o_request o') of
                  Undefined_text \<Rightarrow> crash_opening o'
                | Threw code \<Rightarrow>
                    write_http_response_error (Some (Lib lib_http_parse_error)) (on_response (set_status_msg code []) o')
                | Parsed (n, r) \<Rightarrow>
                    let o' = o'\<lparr>o_request := r\<rparr> in
                    if n > length data then on_con (terminate (Some (Lib lib_general))) o'
                    else if q_ready r then request_complete H w (drop n data) o'
                    else on_con (async P_read_handshake) o'))"

text \<open>
  \<open>None\<close> is a loop of the open connection that never ends, or the opening of a connection of draft 76: the
  model of open connections is that of the later versions, so \<open>opening_step\<close> has no step that opens one and the
  properties of handshakes say nothing of what comes after it.
\<close>

definition handle_write_http_response :: "con_app \<Rightarrow> error_code option \<Rightarrow> handshake \<Rightarrow> handshake option" where
  "handle_write_http_response app ec o' =
     (case handshake_guard PROCESS_HTTP_REQUEST ec (o_con o') of
        Ignore \<Rightarrow> Some o'
      | Stop e \<Rightarrow> Some (on_con (terminate (Some e)) o')
      | Go_on \<Rightarrow>
          let c = cancel_handshake_timer (o_con o') in
          if s_status_code (o_response o') = sc_switching_protocols \<and> o_version o' = Some 0 then None
          else if s_status_code (o_response o') \<noteq> sc_switching_protocols then
            let c = (if \<not> c_is_http c then c else c\<lparr>c_ec := Some (Lib lib_http_connection_ended)\<rparr>)
            in Some (o'\<lparr>o_con := terminate (c_ec c) c\<rparr>)
          else
            let c = c\<lparr>c_internal := PROCESS_CONNECTION, c_state := S_open\<rparr>;
                c = (case on_open app of None \<Rightarrow> c | Some f \<Rightarrow> f (tell Opened c))
            in map_option (\<lambda>c. o'\<lparr>o_con := c\<rparr>) (handle_read_frame app None (o_buf_cursor o') c))"

definition send_http_response :: "handshake \<Rightarrow> error_code option \<times> handshake" where
  "send_http_response o' =
     (if c_http_state (o_con o') \<noteq> http_deferred then (Some (Lib lib_invalid_state), o')
      else (None, write_http_response None (on_con (\<lambda>c. c\<lparr>c_http_state := http_body_written\<rparr>) o')))"

subsection \<open>The client\<close>

text \<open>The random values of the key, and the request of the processor; only version 13 makes one.\<close>

definition draw_handshake_key :: "connection \<Rightarrow> u32 list" where
  "draw_handshake_key c = map (c_random c) [c_drawn c..<c_drawn c + 4]"

definition send_http_request :: "handshake \<Rightarrow> handshake" where
  "send_http_request o' =
     (case (o_version o', o_uri o') of
        (None, _) \<Rightarrow> o'
      | (Some version, u) \<Rightarrow>
          if version \<noteq> 13 then o'
          else (case u of
                  None \<Rightarrow> crash_opening o'
                | Some u \<Rightarrow>
                    let rs = draw_handshake_key (o_con o'); o' = on_con (\<lambda>c. c\<lparr>c_drawn := c_drawn c + 4\<rparr>) o' in
                    (case client_handshake_request rs u (o_requested_subprotocols o') (o_request o') of
                       Parsed req \<Rightarrow>
                         let req = (if get_header ''User-Agent'' req = [] then
                                      (if o_user_agent o' \<noteq> [] then replace_header ''User-Agent'' (o_user_agent o') req
                                       else remove_header ''User-Agent'' req)
                                    else req);
                             raw = request_raw req
                         in on_con (\<lambda>c. async P_send_request (set_open_timer c))
                              (o'\<lparr>o_request := req, o_handshake_buffer := raw, o_sent := o_sent o' @ [raw]\<rparr>)
                     | _ \<Rightarrow> crash_opening o')))"

definition handle_transport_init :: "error_code option \<Rightarrow> handshake \<Rightarrow> handshake" where
  "handle_transport_init ec o' =
     (let ecm = (if c_internal (o_con o') \<noteq> TRANSPORT_INIT then Some (Lib lib_invalid_state) else ec) in
      if ecm \<noteq> None then on_con (terminate ecm) o'
      else if c_is_server (o_con o') then read_handshake (on_con (\<lambda>c. c\<lparr>c_internal := READ_HTTP_REQUEST\<rparr>) o')
      else
        let o' = on_con (\<lambda>c. c\<lparr>c_internal := WRITE_HTTP_REQUEST\<rparr>) o'
        in send_http_request (set_processor (get_processor client_version (o_con o')) o'))"

definition handle_send_http_request :: "error_code option \<Rightarrow> handshake \<Rightarrow> handshake" where
  "handle_send_http_request ec o' =
     (case handshake_guard WRITE_HTTP_REQUEST ec (o_con o') of
        Ignore \<Rightarrow> o'
      | Stop e \<Rightarrow> on_con (terminate (Some e)) o'
      | Go_on \<Rightarrow> on_con (\<lambda>c. async P_read_response (c\<lparr>c_internal := READ_HTTP_RESPONSE\<rparr>)) o')"

text \<open>
  The end of \<open>handle_read_http_response\<close> for a response that is valid. An extension that cannot be
  negotiated terminates the connection, and then the function goes on.
\<close>

definition open_client :: "con_app \<Rightarrow> bytes \<Rightarrow> handshake \<Rightarrow> handshake option" where
  "open_client app rest o' =
     (let (neg_ec, reply) = negotiate_extensions (c_is_server (o_con o')) (o_response o');
          c = (if neg_ec \<noteq> None then terminate (Some (Lib lib_extension_neg_failed)) (o_con o') else o_con o');
          c = c\<lparr>c_internal := PROCESS_CONNECTION, c_state := S_open\<rparr>;
          c = (case on_open app of None \<Rightarrow> c | Some f \<Rightarrow> f (tell Opened c));
          c = c\<lparr>c_buf := poke 0 rest (c_buf c)\<rparr>
      in map_option (\<lambda>c. o'\<lparr>o_con := c, o_buf_cursor := length rest\<rparr>) (handle_read_frame app None (length rest) c))"

definition handle_read_http_response ::
  "con_app \<Rightarrow> u32 list \<Rightarrow> error_code option \<Rightarrow> bytes \<Rightarrow> handshake \<Rightarrow> handshake option" where
  "handle_read_http_response app w ec data o' =
     (case handshake_guard READ_HTTP_RESPONSE ec (o_con o') of
        Ignore \<Rightarrow> Some o'
      | Stop e \<Rightarrow> Some (on_con (terminate (Some e)) o')
      | Go_on \<Rightarrow>
          let o' = on_con (\<lambda>c. c\<lparr>c_buf := poke 0 data (c_buf c)\<rparr>) o' in
          (case response_consume (text_of data) (o_response o') of
             Undefined_text \<Rightarrow> Some (crash_opening o')
           | Threw code \<Rightarrow> Some (on_con (terminate (Some (Lib lib_general))) o')
           | Parsed (n, r) \<Rightarrow>
               let o' = o'\<lparr>o_response := r\<rparr> in
               if headers_ready r then
                 let o' = on_con cancel_handshake_timer o' in
                 if o_version o' = None then Some (crash_opening o')
                 else (case validate_server_handshake_response w (o_request o') r of
                         Some e \<Rightarrow> Some (on_con (terminate (Some e)) o')
                       | None \<Rightarrow> open_client app (drop n data) o')
               else Some (on_con (async P_read_response) o')))"

subsection \<open>Steps\<close>

definition finish :: "pending_op \<Rightarrow> handshake \<Rightarrow> handshake" where
  "finish p = on_con (complete p)"

text \<open>
  The completions of what the handshake of a server has asked of the transport; \<open>w\<close>, the round buffer of
  SHA-1, holds anything.
\<close>

inductive opening_step :: "con_app \<Rightarrow> opening_handlers \<Rightarrow> handshake \<Rightarrow> handshake \<Rightarrow> bool" for app H where
  os_init: "P_init \<in> set (c_pending (o_con o')) \<Longrightarrow>
    opening_step app H o' (handle_transport_init ec (finish P_init o'))"
| os_read: "P_read_handshake \<in> set (c_pending (o_con o')) \<Longrightarrow> 0 < length data \<Longrightarrow> length data \<le> 16384 \<Longrightarrow> length w = 80 \<Longrightarrow>
    opening_step app H o' (handle_read_handshake H w None data (finish P_read_handshake o'))"
| os_read_error: "P_read_handshake \<in> set (c_pending (o_con o')) \<Longrightarrow> ec \<noteq> None \<Longrightarrow>
    opening_step app H o' (handle_read_handshake H w ec [] (finish P_read_handshake o'))"
| os_written: "P_write_response \<in> set (c_pending (o_con o')) \<Longrightarrow>
    handle_write_http_response app ec (finish P_write_response o') = Some o'' \<Longrightarrow> opening_step app H o' o''"
| os_timer: "P_open_timer \<in> set (c_pending (o_con o')) \<Longrightarrow>
    opening_step app H o' (on_con (handle_open_handshake_timeout ec) (finish P_open_timer o'))"
| os_shutdown: "P_shutdown tstat \<in> set (c_pending (o_con o')) \<Longrightarrow>
    opening_step app H o' (on_con (handle_terminate app tstat) (finish (P_shutdown tstat) o'))"

text \<open>The states a server's connection goes through from its start until it is open or closed.\<close>

inductive opening_reach :: "con_app \<Rightarrow> opening_handlers \<Rightarrow> (nat \<Rightarrow> u32) \<Rightarrow> handshake \<Rightarrow> bool" for app H rng where
  or_start: "opening_reach app H rng (start_opening (opening_new True rng))"
| or_step: "opening_reach app H rng o' \<Longrightarrow> c_state (o_con o') = S_connecting \<Longrightarrow> opening_step app H o' o'' \<Longrightarrow>
    opening_reach app H rng o''"

end
