(* ===== verification/WsLifecycle.thy ===== *)
theory WsLifecycle imports WsConnection begin

text \<open>
  The life of a connection: every operation is broken down into elementary steps on the state the
  invariants speak of, an invariant is an interpretation of one locale over these steps, and the
  properties hold in every state a connection can reach.
\<close>

subsection \<open>Elementary steps\<close>

definition quiet_op :: "pending_op \<Rightarrow> bool" where
  "quiet_op p \<longleftrightarrow> p \<noteq> P_write_frame \<and> p \<noteq> P_write \<and> (\<forall>t. p \<noteq> P_shutdown t)"

definition quiet_event :: "app_event \<Rightarrow> bool" where
  "quiet_event e \<longleftrightarrow> e \<noteq> Closed \<and> e \<noteq> Failed \<and> e \<noteq> Terminated"

text \<open>What stays the same in a step that only concerns reading, timers, codes or the handlers.\<close>

definition same_core :: "connection \<Rightarrow> connection \<Rightarrow> bool" where
  "same_core c c' \<longleftrightarrow> c_is_server c' = c_is_server c \<and> c_state c' = c_state c \<and> c_internal c' = c_internal c
     \<and> c_send_queue c' = c_send_queue c \<and> c_send_buffer_size c' = c_send_buffer_size c
     \<and> c_write_flag c' = c_write_flag c \<and> c_current_msgs c' = c_current_msgs c
     \<and> filter (\<lambda>p. \<not> quiet_op p) (c_pending c') = filter (\<lambda>p. \<not> quiet_op p) (c_pending c)
     \<and> filter (\<lambda>e. \<not> quiet_event e) (c_events c') = filter (\<lambda>e. \<not> quiet_event e) (c_events c)
     \<and> c_pushed c' = c_pushed c \<and> c_wire c' = c_wire c"

lemma same_core_refl [simp]: "same_core c c"
  by (simp add: same_core_def)

inductive basic_step :: "connection \<Rightarrow> connection \<Rightarrow> bool" where
  b_quiet: "same_core c c' \<Longrightarrow> basic_step c c'"
| b_push: "c_state c = S_open \<Longrightarrow> m_opcode msg \<noteq> op_close \<Longrightarrow> basic_step c (push_and_dispatch msg c)"
| b_close: "c_state c = S_open \<or> c_state c = S_closing \<Longrightarrow> m_opcode msg = op_close \<Longrightarrow>
    basic_step c (push_and_dispatch msg (c\<lparr>c_state := S_closing\<rparr>))"
| b_terminate: "basic_step c (terminate ec c)"

abbreviation basics :: "connection \<Rightarrow> connection \<Rightarrow> bool" where "basics \<equiv> basic_step\<^sup>*\<^sup>*"

lemma quiet [intro]: "same_core c c' \<Longrightarrow> basics c c'"
  by (rule r_into_rtranclp, rule b_quiet)

lemma basics_then: "basic_step a b \<Longrightarrow> same_core b c \<Longrightarrow> basics a c"
  by (meson b_quiet rtranclp.rtrancl_into_rtrancl r_into_rtranclp)

lemma then_basics: "same_core a b \<Longrightarrow> basic_step b c \<Longrightarrow> basics a c"
  by (meson b_quiet rtranclp.rtrancl_into_rtrancl r_into_rtranclp)

lemma basics_trans: "basics a b \<Longrightarrow> basics b c \<Longrightarrow> basics a c"
  by (rule rtranclp_trans)

subsection \<open>The operations in elementary steps\<close>

lemma same_core_async: "quiet_op p \<Longrightarrow> same_core c (async p c)"
  by (simp add: same_core_def async_def)

lemma same_core_tell: "quiet_event e \<Longrightarrow> same_core c (tell e c)"
  by (simp add: same_core_def tell_def)

lemma draw_key_core: "same_core c (draw_key c)" "c_state (draw_key c) = c_state c"
  by (simp_all add: draw_key_def same_core_def split: option.splits)

lemma prepared_opcode:
  "prepare_control rng h opc payload (Some out) = (None, Some msg) \<Longrightarrow> m_opcode msg = opc"
  "prepare_data_frame rng h (Some inp) (Some out) = (None, Some msg) \<Longrightarrow> m_opcode msg = m_opcode inp \<and> \<not> is_control (m_opcode msg)"
  by (auto simp: prepare_control_def prepare_data_frame_def Let_def split: if_splits prod.splits)

lemma close_opcode: "prepare_close rng h code reason (Some out) = (None, Some msg) \<Longrightarrow> m_opcode msg = op_close"
  using close_is_control(1) prepared_opcode(1) by blast

lemma push_basic:
  "c_state c = S_open \<Longrightarrow> m_opcode msg \<noteq> op_close \<Longrightarrow> basics c (push_and_dispatch msg (draw_key c))"
  by (rule then_basics [OF draw_key_core(1)], rule b_push) (simp_all add: draw_key_core)

lemma push_plain: "c_state c = S_open \<Longrightarrow> m_opcode msg \<noteq> op_close \<Longrightarrow> basics c (push_and_dispatch msg c)"
  by (rule r_into_rtranclp, rule b_push)

lemma crash_basic: "basics c (c\<lparr>c_crashed := True\<rparr>)"
  by (rule quiet) (simp add: same_core_def)

lemma send_basic:
  assumes "m_prepared msg \<Longrightarrow> \<not> is_control (m_opcode msg)"
  shows "basics c (snd (con_send msg c))"
proof -
  have data: "\<not> is_control opc \<Longrightarrow> opc \<noteq> op_close" for opc by (auto simp: is_control_def)
  have new: "basics c (push_and_dispatch out (draw_key c))"
    if "prepare_data_frame rng h (Some msg) (Some g) = (None, Some out)" "c_state c = S_open" for rng h g out
    using prepared_opcode(2) [OF that(1)] that(2) data by (intro push_basic) auto
  show ?thesis
    using assms data
    by (auto simp: con_send_def mgr_get_message_def intro: push_plain new crash_basic split: option.splits prod.splits)
qed

lemma pong_basic: "basics c (snd (con_pong payload c))"
  by (auto simp: con_pong_def prepare_pong_def mgr_get_message_def same_core_def intro!: push_basic
      dest!: prepared_opcode(1) split: option.splits prod.splits)

lemma ping_basic: "basics c (snd (con_ping app payload c))"
proof -
  have "basics c (push_and_dispatch msg (async (P_pong_timer payload) ((draw_key c)\<lparr>c_ping_timer := True\<rparr>)))"
    if "c_state c = S_open" "m_opcode msg \<noteq> op_close" for msg
  proof (rule then_basics)
    show "same_core c (async (P_pong_timer payload) ((draw_key c)\<lparr>c_ping_timer := True\<rparr>))"
      using draw_key_core(1) [of c] by (simp add: same_core_def async_def quiet_op_def)
  qed (rule b_push, use that in \<open>simp_all add: async_def draw_key_core\<close>)
  then show ?thesis
    by (auto simp: con_ping_def prepare_ping_def mgr_get_message_def same_core_def Let_def intro!: push_basic
        dest!: prepared_opcode(1) split: option.splits prod.splits)
qed

lemma send_close_frame_basic:
  assumes "c_state c = S_open \<or> c_state c = S_closing"
  shows "basics c (snd (send_close_frame code reason ack terminal c))"
proof -
  obtain lc lr where ch: "choose_close code reason ack c = (lc, lr)" by (metis prod.collapse)
  define c1 where "c1 = c\<lparr>c_local_close_code := lc, c_local_close_reason := lr\<rparr>"
  have q: "same_core c c1" by (simp add: c1_def same_core_def)
  have push: "basics c (push_and_dispatch (if terminal then msg\<lparr>m_terminal := True\<rparr> else msg) c2)"
    if "same_core (c1\<lparr>c_state := S_closing\<rparr>) c2" "m_opcode msg = op_close" for msg c2
  proof -
    let ?c3 = "c2\<lparr>c_state := c_state c\<rparr>"
    have "same_core c ?c3" using that(1) by (simp add: same_core_def c1_def)
    moreover have "?c3\<lparr>c_state := S_closing\<rparr> = c2" using that(1) by (cases c2) (simp add: same_core_def)
    moreover have "basic_step ?c3 (push_and_dispatch (if terminal then msg\<lparr>m_terminal := True\<rparr> else msg) (?c3\<lparr>c_state := S_closing\<rparr>))"
      using assms that(2) by (intro b_close) auto
    ultimately show ?thesis using then_basics by metis
  qed
  have p: "c_processor c1 = c_processor c" by (simp add: c1_def)
  show ?thesis
  proof (cases "c_processor c")
    case None
    then show ?thesis using q ch by (auto simp: send_close_frame_def mgr_get_message_def c1_def same_core_def intro!: quiet)
  next
    case (Some h)
    obtain ec out where prep: "prepare_close (random_value c1) h lc lr (Some (get_message_op 0)) = (ec, out)" by (metis prod.collapse)
    show ?thesis
    proof (cases "ec = None \<and> out \<noteq> None")
      case False
      then show ?thesis
        using q ch Some prep
        by (cases ec; cases out) (auto simp: send_close_frame_def mgr_get_message_def c1_def [symmetric])
    next
      case True
      then obtain msg where msg: "out = Some msg" "m_opcode msg = op_close" using prep close_opcode by fastforce
      have "same_core c1 (draw_key c1)" by (rule draw_key_core)
      then have "same_core (c1\<lparr>c_state := S_closing\<rparr>) ((draw_key c1)\<lparr>c_state := S_closing\<rparr>)" by (simp add: same_core_def)
      then have timed: "same_core (c1\<lparr>c_state := S_closing\<rparr>)
          (let c = (draw_key c1)\<lparr>c_state := S_closing\<rparr>; c = (if ack then c\<lparr>c_was_clean := True\<rparr> else c)
           in if c_close_handshake_timeout_dur c > 0 then async P_close_timer (c\<lparr>c_handshake_timer := True\<rparr>) else c)"
        by (simp add: same_core_def async_def quiet_op_def Let_def)
      from push [OF this msg(2)] show ?thesis
        using ch Some prep True msg
        by (simp add: send_close_frame_def mgr_get_message_def c1_def [symmetric] Let_def)
    qed
  qed
qed

lemma close_basic: "basics c (snd (con_close code reason c))"
  using send_close_frame_basic [of c] by (auto simp: con_close_def Let_def)

lemma api_basic: "api_step app resumes c c' \<Longrightarrow> basics c c'"
proof (induction rule: api_step.induct)
  case (api_send msg c)
  then show ?case using send_basic by blast
next
  case (api_pause c)
  then show ?case unfolding pause_reading_def by (rule quiet, intro same_core_async) (simp add: quiet_op_def)
next
  case (api_resume c)
  then show ?case unfolding resume_reading_def by (intro quiet same_core_async) (simp add: quiet_op_def)
next
  case (api_interrupt c)
  then show ?case unfolding interrupt_def by (intro quiet same_core_async) (simp add: quiet_op_def)
qed (rule ping_basic pong_basic close_basic)+

lemma apis_basic: "(api_step app resumes)\<^sup>*\<^sup>* c c' \<Longrightarrow> basics c c'"
  by (induction rule: rtranclp.induct) (auto intro: basics_trans api_basic)


subsection \<open>Receiving in elementary steps\<close>

lemma terminate_state: "c_state (terminate ec c) = S_closed"
  by (simp add: terminate_def cancel_handshake_timer_def async_def Let_def split: option.splits)

lemma push_state [simp]: "c_state (push_and_dispatch msg c) = c_state c"
  by (simp add: push_and_dispatch_def write_push_def async_def Let_def)

text \<open>The states are passed through in order.\<close>

fun state_rank :: "session_state \<Rightarrow> nat" where
  "state_rank S_connecting = 0" | "state_rank S_open = 1" | "state_rank S_closing = 2" | "state_rank S_closed = 3"

lemma basic_rank: "basic_step c c' \<Longrightarrow> state_rank (c_state c) \<le> state_rank (c_state c')"
proof (induction rule: basic_step.induct)
  case (b_terminate c ec)
  then show ?case by (cases "c_state c") (simp_all add: terminate_state)
qed (auto simp: same_core_def)

lemma basics_rank: "basics c c' \<Longrightarrow> state_rank (c_state c) \<le> state_rank (c_state c')"
  by (induction rule: rtranclp.induct) (auto intro: le_trans basic_rank)

lemma state_rank_0 [simp]: "state_rank s = 0 \<longleftrightarrow> s = S_connecting"
  by (cases s) simp_all

lemma basics_connected: "basics c c' \<Longrightarrow> c_state c \<noteq> S_connecting \<Longrightarrow> c_state c' \<noteq> S_connecting"
  using basics_rank [of c c'] by (metis le_zero_eq state_rank_0)

lemma api_onlyD:
  assumes "api_only app resumes"
  shows "on_open app = Some f \<Longrightarrow> basics c (f c)" and "on_close app = Some f \<Longrightarrow> basics c (f c)"
    and "on_fail app = Some f \<Longrightarrow> basics c (f c)" and "on_interrupt app = Some f \<Longrightarrow> basics c (f c)"
    and "on_message app = Some g \<Longrightarrow> basics c (g msg c)" and "on_ping app = Some k \<Longrightarrow> basics c (snd (k bs c))"
    and "on_pong app = Some d \<Longrightarrow> basics c (d bs c)" and "on_pong_timeout app = Some d \<Longrightarrow> basics c (d bs c)"
  using assms unfolding api_only_def by (blast intro: apis_basic)+

lemma tell_then: "quiet_event e \<Longrightarrow> basics (tell e c) c' \<Longrightarrow> basics c c'"
  by (rule basics_trans [OF quiet [OF same_core_tell]])

lemma receive_ping_basic:
  assumes "api_only app resumes"
  shows "basics c (receive_ping app msg c)"
proof (cases "on_ping app")
  case None
  then show ?thesis by (simp add: receive_ping_def pong_basic)
next
  case (Some f)
  have "basics c (snd (f (m_payload msg) (tell (Got_ping (m_payload msg)) c)))"
    by (rule tell_then [of "Got_ping (m_payload msg)"]) (simp_all add: quiet_event_def api_onlyD(6) [OF assms Some])
  with Some show ?thesis
    by (auto simp: receive_ping_def case_prod_beta intro: basics_trans pong_basic)
qed

lemma receive_pong_basic: "api_only app resumes \<Longrightarrow> basics c (receive_pong app msg c)"
  by (auto simp: receive_pong_def quiet_event_def intro: tell_then api_onlyD split: option.split)

lemma receive_close_basic:
  assumes "c_state c = S_open \<or> c_state c = S_closing"
  shows "basics c (receive_close msg c)"
proof -
  have ack: "basics c (snd (send_close_ack code reason c'))" if "same_core c c'" for c' code reason
  proof -
    have "c_state c' = S_open \<or> c_state c' = S_closing" using assms that by (simp add: same_core_def)
    then show ?thesis unfolding send_close_ack_def by (intro basics_trans [OF quiet [OF that]] send_close_frame_basic)
  qed
  have ending: "basics c (terminate ec c')" if "same_core c c'" for ec c'
    by (rule then_basics [OF that b_terminate])
  obtain code ec reason rc where ex: "extract_code (m_payload msg) = (code, ec)" "extract_reason (m_payload msg) = (reason, rc)"
    by (metis prod.collapse)
  define c1 where "c1 = c\<lparr>c_remote_close_code := code\<rparr>"
  define c2 where "c2 = c1\<lparr>c_remote_close_reason := reason\<rparr>"
  have core: "same_core c c1" "same_core c c2" "same_core c (c2\<lparr>c_was_clean := True\<rparr>)"
    by (simp_all add: c1_def c2_def same_core_def)
  have "receive_close msg c = (if ec \<noteq> None then snd (send_close_ack status_protocol_error (octets_of ''Invalid close code'') c1)
      else if rc \<noteq> None then snd (send_close_ack status_protocol_error (octets_of ''Invalid close reason'') c2)
      else if c_state c2 = S_open then snd (send_close_ack status_blank [] c2)
      else if c_state c2 = S_closing \<and> \<not> c_was_clean c2
      then (if c_is_server c2 then terminate None (c2\<lparr>c_was_clean := True\<rparr>) else c2\<lparr>c_was_clean := True\<rparr>)
      else c2)"
    unfolding receive_close_def ex Let_def prod.case drop_on_protocol_error_def c1_def [symmetric] c2_def [symmetric]
    by (simp add: c2_def)
  then show ?thesis
    using ack [OF core(1)] ack [OF core(2)] ending [OF core(3)] quiet [OF core(2)] quiet [OF core(3)] by simp
qed

lemma control_basic:
  assumes "api_only app resumes" and "c_state c \<noteq> S_connecting"
  shows "basics c (process_control_frame app msg c)"
  using assms receive_ping_basic receive_pong_basic receive_close_basic [of c msg]
  by (cases "c_state c") (auto simp: process_control_frame_def Let_def)

lemma dispatch_basic:
  assumes "api_only app resumes" and "c_state c \<noteq> S_connecting"
  shows "basics c (dispatch_message app msg c)"
  using assms control_basic [OF assms]
  by (auto simp: dispatch_message_def quiet_event_def intro: tell_then api_onlyD split: option.split)

lemma read_failed_basic: "basics c (read_failed ec c)"
  using close_basic [of c "to_ws ec" "error_message ec"]
  by (auto simp: read_failed_def drop_on_protocol_error_def Let_def case_prod_beta
      intro: rtranclp.rtrancl_into_rtrancl b_terminate)

lemmas frame_induct = frame_loop.raw_induct [rotated, consumes 1, case_names turn]

text \<open>A preorder that every part of the loop respects is respected by the loop.\<close>

lemma frame_loop_relates:
  assumes "frame_loop app n p c = Some r"
    and trans: "\<And>a b c. R a b \<Longrightarrow> R b c \<Longrightarrow> R a c"
    and put: "\<And>c h m rs. R c (c\<lparr>c_processor := h, c_buf := m, c_received := rs\<rparr>)"
    and crash: "\<And>c. R c (c\<lparr>c_crashed := True\<rparr>)"
    and failed: "\<And>c e. R c (read_failed e c)"
    and dispatched: "\<And>c msg. R c (dispatch_message app msg c)"
  shows "R c (snd r)"
proof -
  have "a = app \<longrightarrow> R c (snd r)" if "frame_loop a n p c = Some r" for a
    using that
  proof (induction rule: frame_induct)
    case (turn loop a n p c r)
    have put2: "R c (c\<lparr>c_processor := h, c_buf := m\<rparr>)" for h m using put [where c = c and h = h and m = m and rs = "c_received c"] by simp
    have refl: "R c c" using put2 [where h = "c_processor c" and m = "c_buf c"] by simp
    have after: "a = app \<longrightarrow> R c (snd r)" if "loop a n q c' = Some r" "a = app \<Longrightarrow> R c c'" for q c'
      using trans [OF that(2)] turn(1) [OF that(1)] by blast
    show ?case
    proof (cases "p < n")
      case False
      with turn(2) refl show ?thesis by auto
    next
      case True
      show ?thesis
      proof (cases "c_processor c")
        case None
        with turn(2) True show ?thesis using crash by auto
      next
        case (Some h)
        show ?thesis
        proof (cases "consume p (n - p) h (c_buf c)")
          case None
          with turn(2) True Some show ?thesis using crash by auto
        next
          case read: (Some x)
          obtain k ec h' m where x: "x = (k, ec, h', m)" by (metis prod.collapse)
          let ?c = "c\<lparr>c_processor := Some h', c_buf := m\<rparr>"
          note eqs = turn(2) True Some read x
          show ?thesis
          proof (cases ec)
            case error: (Some e)
            have "r = (False, read_failed e ?c)" using eqs error by simp
            then show ?thesis using trans [OF put2 failed] by simp
          next
            case None
            show ?thesis
            proof (cases "hybi13_ready h'")
              case False
              have "loop a n (p + k) ?c = Some r" using eqs None False by simp
              then show ?thesis by (rule after) (rule put2)
            next
              case ready: True
              show ?thesis
              proof (cases "hybi13_get_message h'")
                case nomsg: None
                have "r = (False, ?c\<lparr>c_crashed := True\<rparr>)" using eqs None ready nomsg by simp
                then show ?thesis using trans [OF put2 crash] by simp
              next
                case (Some y)
                obtain msg h'' where y: "y = (msg, h'')" by (metis prod.collapse)
                let ?d = "\<lambda>rs. c\<lparr>c_buf := m, c_processor := Some h'', c_received := rs\<rparr>"
                have eq: "?d rs = c\<lparr>c_processor := Some h'', c_buf := m, c_received := rs\<rparr>" for rs by simp
                have d: "R c (?d rs)" for rs unfolding eq by (rule put)
                have "loop a n (p + k) (case msg of None \<Rightarrow> ?d (c_received c)
                    | Some msg \<Rightarrow> dispatch_message a msg (?d (c_received c @ [msg]))) = Some r"
                  using eqs None ready Some y by (cases msg) (simp_all add: Let_def)
                then show ?thesis
                  by (rule after) (cases msg, use d d [of "c_received c"] trans [OF d dispatched] in simp_all)
              qed
            qed
          qed
        qed
      qed
    qed
  qed
  with assms(1) show ?thesis by blast
qed

lemma frame_loop_basic:
  assumes "frame_loop app n p c = Some r" and "api_only app resumes" and "c_state c \<noteq> S_connecting"
  shows "basics c (snd r)"
proof -
  have "c_state c \<noteq> S_connecting \<longrightarrow> basics c (snd r)"
  proof (rule frame_loop_relates [OF assms(1)])
    show "c_state c \<noteq> S_connecting \<longrightarrow> basics c (dispatch_message app msg c)" for c msg
      using dispatch_basic [OF assms(2)] by blast
    show "c_state a \<noteq> S_connecting \<longrightarrow> basics a c"
      if "c_state a \<noteq> S_connecting \<longrightarrow> basics a b" "c_state b \<noteq> S_connecting \<longrightarrow> basics b c" for a b c
      using that basics_connected basics_trans by blast
    show "c_state c \<noteq> S_connecting \<longrightarrow> basics c (c\<lparr>c_processor := h, c_buf := m, c_received := rs\<rparr>)" for c h m rs
      by (intro impI quiet) (simp add: same_core_def)
  qed (simp_all add: crash_basic read_failed_basic)
  with assms(3) show ?thesis by blast
qed

lemma read_basic:
  assumes "handle_read_frame app ec n c = Some c'" and "api_only app resumes" and "c_state c \<noteq> S_connecting"
  shows "basics c c'"
proof -
  have rd: "same_core c2 (read_frame c2)" for c2
    by (simp add: read_frame_def same_core_def async_def quiet_op_def)
  have ended: "basics c (terminate e c)" for e by (rule r_into_rtranclp, rule b_terminate)
  have loop: "frame_loop app n 0 c = Some r \<Longrightarrow> basics c (snd r)" for r
    using frame_loop_basic [OF _ assms(2,3)] .
  show ?thesis
    using assms(1) ended loop basics_trans [OF loop quiet [OF rd]]
    by (auto simp: handle_read_frame_def Let_def split: if_splits option.splits prod.splits bool.splits)
qed

lemma read_done_basic:
  assumes "read_done app ec data c = Some c'" and "api_only app resumes" and "c_state c \<noteq> S_connecting"
  shows "basics c c'"
proof -
  have "same_core c (c\<lparr>c_buf := poke 0 data (c_buf c)\<rparr>)" by (simp add: same_core_def)
  then show ?thesis
    using read_basic [OF assms(1) [unfolded read_done_def] assms(2)] assms(3)
    by (auto intro: basics_trans)
qed

subsection \<open>Invariants\<close>

text \<open>
  What an invariant of an open connection needs: it survives the elementary steps, the two steps of the
  writer and the end of the shutdown, which only a closed connection waits for.
\<close>

locale connection_invariant =
  fixes I :: "connection \<Rightarrow> bool"
  assumes init: "I ((connection_new server rng)\<lparr>c_internal := PROCESS_CONNECTION, c_state := S_open,
      c_processor := Some (hybi13_new server 32000000),
      c_buf := m, c_pending := (if timer then [P_open_timer] else [])\<rparr>)"
    and basic: "basic_step c c' \<Longrightarrow> I c \<Longrightarrow> I c'"
    and writes: "I c \<Longrightarrow> P_write_frame \<in> set (c_pending c) \<Longrightarrow> I (write_frame (complete P_write_frame c))"
    and written: "I c \<Longrightarrow> P_write \<in> set (c_pending c) \<Longrightarrow> I (handle_write_frame ec (complete P_write c))"
    and down: "I c \<Longrightarrow> P_shutdown t \<in> set (c_pending c) \<Longrightarrow> c_state c = S_closed"
    and shut: "I c \<Longrightarrow> P_shutdown t \<in> set (c_pending c) \<Longrightarrow> es = [] \<or> es = [Closed] \<or> es = [Failed] \<Longrightarrow>
      same_core ((complete (P_shutdown t) c)\<lparr>c_events := c_events c @ es\<rparr>) c' \<Longrightarrow> I (tell Terminated c')"

text \<open>A closed connection no longer changes but for its quiet parts.\<close>

lemma same_core_trans: "same_core a b \<Longrightarrow> same_core b c \<Longrightarrow> same_core a c"
  by (simp add: same_core_def)

lemma basic_closed: "basic_step c c' \<Longrightarrow> c_state c = S_closed \<Longrightarrow> same_core c c'"
proof (induction rule: basic_step.induct)
  case (b_terminate c ec)
  then show ?case
    by (simp add: terminate_def cancel_handshake_timer_def same_core_def Let_def split: option.split)
qed auto

lemma basics_closed: "basics c c' \<Longrightarrow> c_state c = S_closed \<Longrightarrow> same_core c c'"
proof (induction rule: rtranclp.induct)
  case (rtrancl_into_rtrancl a b c)
  then have "same_core a b" "c_state b = S_closed" by (auto simp: same_core_def)
  then show ?case using basic_closed [OF rtrancl_into_rtrancl.hyps(2)] same_core_trans by blast
qed (simp add: same_core_def)

lemma complete_quiet: "quiet_op p \<Longrightarrow> same_core c (complete p c)"
  by (simp add: same_core_def complete_def filter_remove1)

lemma terminate_handler:
  assumes "api_only app resumes" and "c_state c = S_closed"
  shows "\<exists>es c'. handle_terminate app t c = tell Terminated c' \<and> (es = [] \<or> es = [Closed] \<or> es = [Failed])
    \<and> same_core (c\<lparr>c_events := c_events c @ es\<rparr>) c'"
proof -
  have call: "same_core (tell e c) (f (tell e c))" if "\<And>c. basics c (f c)" for e f
    by (rule basics_closed [OF that]) (simp add: tell_def assms(2))
  have nothing: "same_core (c\<lparr>c_events := c_events c @ []\<rparr>) c" by (simp add: same_core_def)
  consider "handle_terminate app t c = tell Terminated c"
    | f where "on_close app = Some f" "handle_terminate app t c = tell Terminated (f (tell Closed c))"
    | f where "on_fail app = Some f" "handle_terminate app t c = tell Terminated (f (tell Failed c))"
    by (cases t; cases "on_close app"; cases "on_fail app"; cases "c_ec c = Some (Lib lib_http_connection_ended)")
       (simp_all add: handle_terminate_def)
  then show ?thesis
  proof cases
    case 1
    with nothing show ?thesis by (intro exI [of _ "[]"] exI [of _ c]) simp
  next
    case 2
    with call [OF api_onlyD(2) [OF assms(1) 2(1)], of Closed] show ?thesis
      by (intro exI [of _ "[Closed]"] exI [of _ "f (tell Closed c)"]) (simp add: tell_def [of Closed])
  next
    case 3
    with call [OF api_onlyD(3) [OF assms(1) 3(1)], of Failed] show ?thesis
      by (intro exI [of _ "[Failed]"] exI [of _ "f (tell Failed c)"]) (simp add: tell_def [of Failed])
  qed
qed

context connection_invariant begin

lemma many: "basics c c' \<Longrightarrow> I c \<Longrightarrow> I c'"
  by (induction rule: rtranclp.induct) (auto intro: basic)

lemma finished: "quiet_op p \<Longrightarrow> I c \<Longrightarrow> I (complete p c)"
  using many [OF quiet [OF complete_quiet]] .

lemma step:
  assumes "con_step app resumes c c'" and "api_only app resumes" and "I c" and "c_state c \<noteq> S_connecting"
  shows "I c'"
  using assms(1,3,4)
proof (induction rule: con_step.induct)
  case (step_api c c')
  then show ?case using many [OF api_basic] by blast
next
  case (step_write_frame c)
  then show ?case using writes by blast
next
  case (step_written c ec)
  then show ?case using written by blast
next
  case (step_read c ec data c')
  have "basics (complete P_read c) c'"
    by (rule read_done_basic [OF step_read(5) assms(2)]) (simp add: complete_def step_read)
  then show ?case using many finished [of P_read c] step_read by (simp add: quiet_op_def)
next
  case (step_read_error c ec c')
  have "basics (complete P_read c) c'"
    by (rule read_done_basic [OF step_read_error(3) assms(2)]) (simp add: complete_def step_read_error)
  then show ?case using many finished [of P_read c] step_read_error by (simp add: quiet_op_def)
next
  case (step_shutdown tstat c)
  let ?c = "complete (P_shutdown tstat) c"
  have "c_state ?c = S_closed" using down step_shutdown by (simp add: complete_def)
  from terminate_handler [OF assms(2) this, of tstat] obtain es c' where
    "handle_terminate app tstat ?c = tell Terminated c'" "es = [] \<or> es = [Closed] \<or> es = [Failed]"
    "same_core (?c\<lparr>c_events := c_events ?c @ es\<rparr>) c'" by blast
  then show ?case using shut [OF step_shutdown(2,1), of es c'] by (simp add: complete_def)
next
  case (step_close_timer c ec)
  have "I (complete P_close_timer c)" using step_close_timer finished by (simp add: quiet_op_def)
  then show ?case using basic [OF b_terminate] by (simp add: handle_close_handshake_timeout_def)
next
  case (step_open_timer c ec)
  have "I (complete P_open_timer c)" using step_open_timer finished by (simp add: quiet_op_def)
  then show ?case using basic [OF b_terminate] by (simp add: handle_open_handshake_timeout_def)
next
  case (step_pong_timer payload c ec)
  have "I (complete (P_pong_timer payload) c)" using step_pong_timer finished by (simp add: quiet_op_def)
  moreover have "basics d (handle_pong_timeout app payload ec d)" for d
    using tell_then [of "Pong_timed_out payload"] api_onlyD(8) [OF assms(2)]
    by (simp add: handle_pong_timeout_def quiet_event_def split: option.split)
  ultimately show ?case using many by blast
next
  case (step_pause c)
  have "I (complete P_pause c)" using step_pause finished by (simp add: quiet_op_def)
  moreover have "basics d (handle_pause_reading d)" for d
    by (rule quiet) (simp add: handle_pause_reading_def same_core_def)
  ultimately show ?case using many by blast
next
  case (step_resume c)
  have "I (complete P_resume c)" using step_resume finished by (simp add: quiet_op_def)
  moreover have "basics d (handle_resume_reading d)" for d
    by (rule quiet) (simp add: handle_resume_reading_def read_frame_def async_def same_core_def quiet_op_def)
  ultimately show ?case using many by blast
next
  case (step_interrupt c)
  have "I (complete P_interrupt c)" using step_interrupt finished by (simp add: quiet_op_def)
  moreover have "basics d (handle_interrupt app d)" for d
    using tell_then [of Interrupted] api_onlyD(4) [OF assms(2)]
    by (simp add: handle_interrupt_def quiet_event_def split: option.split)
  ultimately show ?case using many by blast
qed

end


subsection \<open>The end of a connection\<close>

definition shutdowns :: "pending_op list \<Rightarrow> nat" where
  "shutdowns ps = length (filter (\<lambda>p. \<exists>t. p = P_shutdown t) ps)"

definition told :: "(app_event \<Rightarrow> bool) \<Rightarrow> connection \<Rightarrow> nat" where
  "told P c = length (filter P (c_events c))"

text \<open>
  A closed connection has asked for one shutdown, which is still under way or has been reported; the
  close or fail handler runs at most once, and not before the shutdown has ended.
\<close>

definition ends_once :: "connection \<Rightarrow> bool" where
  "ends_once c \<longleftrightarrow> shutdowns (c_pending c) + told (\<lambda>e. e = Terminated) c = (if c_state c = S_closed then 1 else 0)
     \<and> told (\<lambda>e. e = Closed \<or> e = Failed) c \<le> told (\<lambda>e. e = Terminated) c"

lemma told_simps [simp]:
  "told P (c\<lparr>c_events := es\<rparr>) = length (filter P es)"
  "told P (tell e c) = told P c + (if P e then 1 else 0)"
  by (simp_all add: told_def tell_def)

lemma filter_finer:
  assumes "filter Q xs = filter Q ys" and "\<And>x. P x \<Longrightarrow> Q x"
  shows "filter P xs = filter P ys"
proof -
  have "filter P zs = filter P (filter Q zs)" for zs
    by (simp, rule filter_cong) (use assms(2) in auto)
  then show ?thesis using assms(1) by metis
qed

lemma same_core_pending:
  assumes "same_core c c'" and "\<And>p. P p \<Longrightarrow> \<not> quiet_op p"
  shows "filter P (c_pending c') = filter P (c_pending c)"
proof (rule filter_finer [of "\<lambda>p. \<not> quiet_op p"])
  show "filter (\<lambda>p. \<not> quiet_op p) (c_pending c') = filter (\<lambda>p. \<not> quiet_op p) (c_pending c)"
    using assms(1) unfolding same_core_def by blast
qed (rule assms(2))

lemma same_core_told:
  assumes "same_core c c'" and "\<And>e. P e \<Longrightarrow> \<not> quiet_event e"
  shows "told P c' = told P c"
  unfolding told_def
proof (rule arg_cong [of _ _ length], rule filter_finer [of "\<lambda>e. \<not> quiet_event e"])
  show "filter (\<lambda>e. \<not> quiet_event e) (c_events c') = filter (\<lambda>e. \<not> quiet_event e) (c_events c)"
    using assms(1) unfolding same_core_def by blast
qed (rule assms(2))

lemma same_core_shutdowns: "same_core c c' \<Longrightarrow> shutdowns (c_pending c') = shutdowns (c_pending c)"
  unfolding shutdowns_def by (subst same_core_pending) (auto simp: quiet_op_def)

lemma same_core_ended:
  assumes "same_core c c'"
  shows "told (\<lambda>e. e = Terminated) c' = told (\<lambda>e. e = Terminated) c"
    and "told (\<lambda>e. e = Closed \<or> e = Failed) c' = told (\<lambda>e. e = Closed \<or> e = Failed) c"
    and "c_state c' = c_state c"
  using assms by (auto intro: same_core_told simp: quiet_event_def) (simp add: same_core_def)

lemma same_core_ends: "same_core c c' \<Longrightarrow> ends_once c' = ends_once c"
  by (simp add: ends_once_def same_core_shutdowns same_core_ended)

lemma shutdowns_simps [simp]:
  "shutdowns [] = 0" "shutdowns (xs @ ys) = shutdowns xs + shutdowns ys"
  "shutdowns (p # ps) = (if \<exists>t. p = P_shutdown t then Suc (shutdowns ps) else shutdowns ps)"
  by (simp_all add: shutdowns_def)

lemma shutdowns_remove1: "\<forall>t. p \<noteq> P_shutdown t \<Longrightarrow> shutdowns (remove1 p xs) = shutdowns xs"
  by (induction xs) auto

lemma shutdowns_done: "P_shutdown t \<in> set ps \<Longrightarrow> Suc (shutdowns (remove1 (P_shutdown t) ps)) = shutdowns ps"
  by (induction ps) auto

lemma push_pending: "\<exists>ps. c_pending (push_and_dispatch msg c) = c_pending c @ ps \<and> set ps \<subseteq> {P_write_frame}"
  by (auto simp: push_and_dispatch_def write_push_def async_def Let_def)

lemma push_events [simp]: "c_events (push_and_dispatch msg c) = c_events c"
  by (simp add: push_and_dispatch_def write_push_def async_def Let_def)

lemma shutdowns_none: "set ps \<subseteq> {P_write_frame} \<Longrightarrow> shutdowns ps = 0"
  by (induction ps) auto

lemma push_shutdowns [simp]: "shutdowns (c_pending (push_and_dispatch msg c)) = shutdowns (c_pending c)"
  using push_pending [of msg c] shutdowns_none by auto

lemma terminate_open:
  "c_state c \<noteq> S_closed \<Longrightarrow> \<exists>t. c_pending (terminate ec c) = c_pending c @ [P_shutdown t] \<and> c_events (terminate ec c) = c_events c"
  by (auto simp: terminate_def cancel_handshake_timer_def async_def Let_def split: option.split)

lemma tell_fields [simp]: "c_state (tell e c) = c_state c" "c_pending (tell e c) = c_pending c"
  by (simp_all add: tell_def)

lemma told_complete [simp]: "told P (complete p c) = told P c"
  by (simp add: told_def complete_def)

lemma ends_terminate: "ends_once c \<Longrightarrow> ends_once (terminate ec c)"
proof (cases "c_state c = S_closed")
  case True
  then show "ends_once c \<Longrightarrow> ends_once (terminate ec c)"
    using same_core_ends [OF basic_closed [OF b_terminate True, of ec]] by simp
next
  case False
  then show "ends_once c \<Longrightarrow> ends_once (terminate ec c)"
    using terminate_open [OF False, of ec] by (auto simp: ends_once_def terminate_state told_def)
qed

text \<open>The messages up to the first terminal one, and the rest.\<close>

fun split_terminal :: "ws_message list \<Rightarrow> ws_message list \<times> ws_message list" where
  "split_terminal [] = ([], [])"
| "split_terminal (msg # msgs) =
     (if m_terminal msg then ([msg], msgs) else (let (a, b) = split_terminal msgs in (msg # a, b)))"

abbreviation payload_sum :: "ws_message list \<Rightarrow> nat" where
  "payload_sum msgs \<equiv> sum_list (map (\<lambda>msg. length (m_payload msg)) msgs)"

lemma split_terminal_append: "fst (split_terminal msgs) @ snd (split_terminal msgs) = msgs"
  by (induction msgs) (simp_all add: case_prod_beta)

lemma pop_messages_eq:
  "pop_messages c = c\<lparr>c_send_buffer_size := c_send_buffer_size c - word_of_nat (payload_sum (fst (split_terminal (c_send_queue c)))),
     c_send_queue := snd (split_terminal (c_send_queue c)),
     c_current_msgs := c_current_msgs c @ fst (split_terminal (c_send_queue c))\<rparr>"
proof (induction "c_send_queue c" arbitrary: c)
  case Nil
  then show ?case by (cases c) (simp add: pop_messages.simps write_pop_def)
next
  case (Cons msg msgs)
  let ?c = "c\<lparr>c_send_buffer_size := c_send_buffer_size c - word_of_nat (length (m_payload msg)), c_send_queue := msgs,
      c_current_msgs := c_current_msgs c @ [msg]\<rparr>"
  have q: "c_send_queue c = msg # msgs" using Cons.hyps(2) by simp
  have "pop_messages c = (if m_terminal msg then ?c else pop_messages ?c)"
    by (subst pop_messages.simps) (simp add: write_pop_def q Let_def)
  then show ?case
    using Cons.hyps(1) [of ?c] by (simp add: q case_prod_beta algebra_simps)
qed

lemma pop_messages_fields [simp]:
  "c_state (pop_messages c) = c_state c" "c_pending (pop_messages c) = c_pending c"
  "c_events (pop_messages c) = c_events c" "c_write_flag (pop_messages c) = c_write_flag c"
  "c_pushed (pop_messages c) = c_pushed c" "c_wire (pop_messages c) = c_wire c"
  by (simp_all add: pop_messages_eq)

lemma write_frame_fields:
  "c_state (write_frame c) = c_state c" "c_events (write_frame c) = c_events c"
  "shutdowns (c_pending (write_frame c)) = shutdowns (c_pending c)"
  by (simp_all add: write_frame_def Let_def async_def)

interpretation ending: connection_invariant ends_once
proof
  show "ends_once ((connection_new server rng)\<lparr>c_internal := PROCESS_CONNECTION, c_state := S_open,
      c_processor := Some (hybi13_new server 32000000),
      c_buf := m, c_pending := (if timer then [P_open_timer] else [])\<rparr>)" for server rng m timer
    by (simp add: ends_once_def connection_new_def told_def shutdowns_def)
  show "ends_once c'" if "basic_step c c'" "ends_once c" for c c'
    using that by (induction rule: basic_step.induct)
      (auto simp: same_core_ends ends_terminate, auto simp: ends_once_def told_def)
  show "ends_once (write_frame (complete P_write_frame c))" if "ends_once c" for c
    using that by (simp add: ends_once_def write_frame_fields complete_def shutdowns_remove1 told_def)
  show "ends_once (handle_write_frame ec (complete P_write c))" if "ends_once c" for ec c
  proof -
    have "ends_once (complete P_write c)" using that by (simp add: ends_once_def complete_def shutdowns_remove1 told_def)
    then show ?thesis
      by (auto simp: handle_write_frame_def Let_def intro!: ends_terminate) (simp_all add: ends_once_def told_def async_def)
  qed
  show "c_state c = S_closed" if "ends_once c" "P_shutdown t \<in> set (c_pending c)" for c t
    using that shutdowns_done [of t "c_pending c"] by (auto simp: ends_once_def split: if_splits)
  show "ends_once (tell Terminated c')" if "ends_once c" "P_shutdown t \<in> set (c_pending c)"
    "es = [] \<or> es = [Closed] \<or> es = [Failed]" "same_core ((complete (P_shutdown t) c)\<lparr>c_events := c_events c @ es\<rparr>) c'"
    for c t es c'
    using that(1-3) shutdowns_done [OF that(2)] same_core_shutdowns [OF that(4)] same_core_ended [OF that(4)]
    by (auto simp: ends_once_def complete_def told_def [symmetric] split: if_splits)
qed

end
