(* ===== verification/WsQueue.thy ===== *)
theory WsQueue imports WsLifecycle begin

text \<open>
  The write queue of a connection and the order of what it sends: two more invariants of the
  elementary steps, and the properties of every reachable state.
\<close>

subsection \<open>The writer\<close>

text \<open>The buffered amount is the size of the queue, and what was pushed is written or waits, in order.\<close>

definition queue_ok :: "connection \<Rightarrow> bool" where
  "queue_ok c \<longleftrightarrow> c_send_buffer_size c = word_of_nat (payload_sum (c_send_queue c))
     \<and> (\<exists>taken. c_pushed c = taken @ c_send_queue c \<and> c_wire c = concat (map wire_of taken))"

text \<open>
  There is one write at a time, on messages that are kept, and a queue that is not being written has a
  \<open>write_frame\<close> under way.
\<close>

definition writer_ok :: "connection \<Rightarrow> bool" where
  "writer_ok c \<longleftrightarrow> count_list (c_pending c) P_write = (if c_current_msgs c = [] then 0 else 1)
     \<and> (c_current_msgs c \<noteq> [] \<longrightarrow> c_write_flag c)
     \<and> (c_write_flag c \<and> c_current_msgs c = [] \<longrightarrow> c_state c = S_closed)
     \<and> (c_send_queue c \<noteq> [] \<longrightarrow> c_write_flag c \<or> P_write_frame \<in> set (c_pending c))"

definition write_inv :: "connection \<Rightarrow> bool" where
  "write_inv c \<longleftrightarrow> ends_once c \<and> queue_ok c \<and> writer_ok c"

lemma count_filter: "count_list xs x = length (filter (\<lambda>y. y = x) xs)"
  by (induction xs) auto

lemma mem_filter: "x \<in> set xs \<longleftrightarrow> filter (\<lambda>y. y = x) xs \<noteq> []"
  by (induction xs) auto

lemma same_core_writer:
  assumes "same_core c c'"
  shows "writer_ok c' = writer_ok c" and "queue_ok c' = queue_ok c"
proof -
  have "filter (\<lambda>p. p = P_write) (c_pending c') = filter (\<lambda>p. p = P_write) (c_pending c)"
    "filter (\<lambda>p. p = P_write_frame) (c_pending c') = filter (\<lambda>p. p = P_write_frame) (c_pending c)"
    using assms by (auto intro: same_core_pending simp: quiet_op_def)
  then show "writer_ok c' = writer_ok c"
    using assms by (simp add: writer_ok_def same_core_def count_filter mem_filter [of P_write_frame])
  show "queue_ok c' = queue_ok c" using assms by (simp add: queue_ok_def same_core_def)
qed

lemma state_same: "c_state c = s \<Longrightarrow> c\<lparr>c_state := s\<rparr> = (c :: connection)"
  by (cases c) simp

lemma push_writer:
  assumes "writer_ok c" and "queue_ok c" and "s = c_state c \<or> c_state c \<noteq> S_closed"
  shows "writer_ok (push_and_dispatch msg (c\<lparr>c_state := s\<rparr>))" and "queue_ok (push_and_dispatch msg (c\<lparr>c_state := s\<rparr>))"
  using assms
  by (auto simp: writer_ok_def queue_ok_def push_and_dispatch_def write_push_def async_def Let_def)

lemma terminate_writer:
  assumes "writer_ok c" and "queue_ok c"
  shows "writer_ok (terminate ec c)" and "queue_ok (terminate ec c)"
  using assms
  by (auto simp: writer_ok_def queue_ok_def terminate_def cancel_handshake_timer_def async_def Let_def split: option.splits)

lemma terminate_rest:
  "c_current_msgs (terminate ec c) = c_current_msgs c" "c_write_flag (terminate ec c) = c_write_flag c"
  "count_list (c_pending (terminate ec c)) P_write = count_list (c_pending c) P_write"
  by (simp_all add: terminate_def cancel_handshake_timer_def async_def Let_def split: option.split)

lemma split_terminal_empty: "fst (split_terminal msgs) = [] \<longleftrightarrow> msgs = []"
  by (cases msgs) (auto simp: case_prod_beta)

lemma payload_sum_split: "payload_sum msgs = payload_sum (fst (split_terminal msgs)) + payload_sum (snd (split_terminal msgs))"
  by (subst split_terminal_append [symmetric]) simp

lemma write_frame_writer:
  assumes "writer_ok c" and "queue_ok c"
  shows "writer_ok (write_frame (complete P_write_frame c))" and "queue_ok (write_frame (complete P_write_frame c))"
proof -
  have cnt: "count_list (remove1 P_write_frame xs) P_write = count_list xs P_write" for xs
    by (induction xs) auto
  let ?q = "c_send_queue c"
  have sum: "word_of_nat (payload_sum ?q) - word_of_nat (payload_sum (fst (split_terminal ?q)))
      = (word_of_nat (payload_sum (snd (split_terminal ?q))) :: u64)"
    using payload_sum_split [of ?q] by simp
  show "writer_ok (write_frame (complete P_write_frame c))"
    using assms(1) split_terminal_empty [of ?q]
    by (auto simp: writer_ok_def write_frame_def complete_def pop_messages_eq async_def Let_def cnt)
  obtain taken where "c_pushed c = taken @ ?q" "c_wire c = concat (map wire_of taken)"
    using assms(2) by (auto simp: queue_ok_def)
  moreover have "c_current_msgs c = [] \<or> c_write_flag c" using assms(1) by (auto simp: writer_ok_def)
  moreover have "c_pushed c = (taken @ fst (split_terminal ?q)) @ snd (split_terminal ?q)"
    using calculation(1) split_terminal_append [of ?q] by simp
  ultimately show "queue_ok (write_frame (complete P_write_frame c))"
  proof (cases "c_write_flag c \<or> ?q = []")
    case True
    then show ?thesis
      using assms \<open>c_current_msgs c = [] \<or> c_write_flag c\<close> split_terminal_empty [of ?q]
      by (auto simp: queue_ok_def write_frame_def complete_def pop_messages_eq)
  next
    case False
    moreover have "fst (split_terminal ?q) \<noteq> []" using False split_terminal_empty [of ?q] by simp
    ultimately have "write_frame (complete P_write_frame c) = async P_write
        ((pop_messages (complete P_write_frame c))\<lparr>c_write_flag := True, c_wire := c_wire c @ concat (map wire_of (fst (split_terminal ?q)))\<rparr>)"
      using \<open>c_current_msgs c = [] \<or> c_write_flag c\<close> by (simp add: write_frame_def complete_def pop_messages_eq)
    then show ?thesis
      using assms(2) sum \<open>c_wire c = concat (map wire_of taken)\<close> \<open>c_pushed c = (taken @ fst (split_terminal ?q)) @ snd (split_terminal ?q)\<close>
      by (auto simp: queue_ok_def complete_def pop_messages_eq async_def intro!: exI [of _ "taken @ fst (split_terminal ?q)"])
  qed
qed

lemma written_writer:
  assumes "writer_ok c" and "queue_ok c" and "P_write \<in> set (c_pending c)"
  shows "c_current_msgs c \<noteq> []" and "writer_ok (handle_write_frame ec (complete P_write c))"
    and "queue_ok (handle_write_frame ec (complete P_write c))"
proof -
  show cur: "c_current_msgs c \<noteq> []" using assms(1,3) by (auto simp: writer_ok_def count_list_0_iff)
  have cnt: "count_list (remove1 P_write xs) P_write = count_list xs P_write - 1" for xs by (induction xs) auto
  have keep: "P_write_frame \<in> set (remove1 P_write xs) \<longleftrightarrow> P_write_frame \<in> set xs" for xs by (induction xs) auto
  show "queue_ok (handle_write_frame ec (complete P_write c))"
    using assms(2) by (auto simp: queue_ok_def handle_write_frame_def complete_def async_def Let_def terminate_def
        cancel_handshake_timer_def split: option.splits)
  define d where "d = (complete P_write c)\<lparr>c_current_msgs := []\<rparr>"
  have d: "count_list (c_pending d) P_write = 0" "c_current_msgs d = []" "c_write_flag d"
    "P_write_frame \<in> set (c_pending d) \<longleftrightarrow> P_write_frame \<in> set (c_pending c)"
    using assms(1) cur cnt [of "c_pending c"] keep by (simp_all add: d_def complete_def writer_ok_def)
  have ended: "writer_ok (terminate e d)" for e
    using d terminate_rest [of e d] by (simp add: writer_ok_def terminate_state)
  have "handle_write_frame ec (complete P_write c) =
      (if ec \<noteq> None then terminate ec d
       else if m_terminal (last (c_current_msgs c)) then terminate None d
       else if c_send_queue d \<noteq> [] then async P_write_frame (d\<lparr>c_write_flag := False\<rparr>) else d\<lparr>c_write_flag := False\<rparr>)"
    using cur by (simp add: handle_write_frame_def d_def complete_def Let_def)
  then show "writer_ok (handle_write_frame ec (complete P_write c))"
    using ended d by (simp add: writer_ok_def async_def)
qed

interpretation writer: connection_invariant write_inv
proof
  show "write_inv ((connection_new server rng)\<lparr>c_internal := PROCESS_CONNECTION, c_state := S_open,
      c_processor := Some (hybi13_new server 32000000),
      c_buf := m, c_pending := (if timer then [P_open_timer] else [])\<rparr>)" for server rng m timer
    using ending.init [where server = server and rng = rng and m = m and timer = timer] by (cases timer) (simp_all add: write_inv_def queue_ok_def writer_ok_def connection_new_def)
  show "write_inv c'" if "basic_step c c'" "write_inv c" for c c'
    using that
  proof (induction rule: basic_step.induct)
    case (b_quiet c c')
    then show ?case using same_core_writer [OF b_quiet(1)] same_core_ends [OF b_quiet(1)] by (simp add: write_inv_def)
  next
    case (b_push c msg)
    then show ?case using push_writer [of c S_open msg] state_same [of c S_open] ending.basic [OF basic_step.b_push]
      by (simp add: write_inv_def)
  next
    case (b_close c msg)
    then show ?case using push_writer [of c S_closing msg] ending.basic [OF basic_step.b_close [OF b_close(1,2)]]
      by (auto simp: write_inv_def)
  next
    case (b_terminate c ec)
    then show ?case by (simp add: write_inv_def terminate_writer ends_terminate)
  qed
  show "write_inv (write_frame (complete P_write_frame c))" if "write_inv c" "P_write_frame \<in> set (c_pending c)" for c
    using that ending.writes write_frame_writer by (simp add: write_inv_def)
  show "write_inv (handle_write_frame ec (complete P_write c))" if "write_inv c" "P_write \<in> set (c_pending c)" for ec c
    using that ending.written written_writer by (simp add: write_inv_def)
  show "c_state c = S_closed" if "write_inv c" "P_shutdown t \<in> set (c_pending c)" for c t
    using that ending.down by (simp add: write_inv_def)
  show "write_inv (tell Terminated c')" if "write_inv c" "P_shutdown t \<in> set (c_pending c)"
    "es = [] \<or> es = [Closed] \<or> es = [Failed]" "same_core ((complete (P_shutdown t) c)\<lparr>c_events := c_events c @ es\<rparr>) c'"
    for c t es c'
  proof -
    have cnt: "count_list (remove1 (P_shutdown t) xs) P_write = count_list xs P_write"
      "P_write_frame \<in> set (remove1 (P_shutdown t) xs) \<longleftrightarrow> P_write_frame \<in> set xs" for xs by (induction xs) auto
    have "writer_ok ((complete (P_shutdown t) c)\<lparr>c_events := c_events c @ es\<rparr>) \<and> queue_ok ((complete (P_shutdown t) c)\<lparr>c_events := c_events c @ es\<rparr>)"
      using that(1) by (simp add: write_inv_def writer_ok_def queue_ok_def complete_def cnt)
    then have "writer_ok c' \<and> queue_ok c'" using same_core_writer [OF that(4)] by simp
    moreover have "ends_once (tell Terminated c')" by (rule ending.shut [OF _ that(2-4)]) (use that(1) in \<open>simp add: write_inv_def\<close>)
    ultimately show ?thesis by (simp add: write_inv_def writer_ok_def queue_ok_def tell_def)
  qed
qed


subsection \<open>Nothing after the close frame\<close>

definition is_close :: "ws_message \<Rightarrow> bool" where
  "is_close msg \<longleftrightarrow> m_opcode msg = op_close"

definition close_last :: "connection \<Rightarrow> bool" where
  "close_last c \<longleftrightarrow> ends_once c
     \<and> (\<exists>us vs. c_pushed c = us @ vs \<and> (\<forall>msg \<in> set us. \<not> is_close msg) \<and> (\<forall>msg \<in> set vs. is_close msg))
     \<and> (c_state c = S_open \<longrightarrow> (\<forall>msg \<in> set (c_pushed c). \<not> is_close msg))"

lemma close_last_fields:
  "close_last c \<Longrightarrow> ends_once c' \<Longrightarrow> c_pushed c' = c_pushed c \<Longrightarrow> (c_state c' = S_open \<Longrightarrow> c_state c = S_open) \<Longrightarrow> close_last c'"
  by (simp add: close_last_def)

lemma push_pushed [simp]: "c_pushed (push_and_dispatch msg c) = c_pushed c @ [msg]"
  by (simp add: push_and_dispatch_def write_push_def async_def Let_def)

lemma terminate_pushed [simp]: "c_pushed (terminate ec c) = c_pushed c"
  by (simp add: terminate_def cancel_handshake_timer_def async_def Let_def split: option.split)

interpretation closing: connection_invariant close_last
proof
  show "close_last ((connection_new server rng)\<lparr>c_internal := PROCESS_CONNECTION, c_state := S_open,
      c_processor := Some (hybi13_new server 32000000),
      c_buf := m, c_pending := (if timer then [P_open_timer] else [])\<rparr>)" for server rng m timer
    using ending.init [where server = server and rng = rng and m = m and timer = timer] by (cases timer) (simp_all add: close_last_def connection_new_def)
  show "close_last c'" if "basic_step c c'" "close_last c" for c c'
    using that
  proof (induction rule: basic_step.induct)
    case (b_quiet c c')
    show ?case by (rule close_last_fields [OF b_quiet(2)])
      (use b_quiet same_core_ends [OF b_quiet(1)] in \<open>simp_all add: same_core_def close_last_def\<close>)
  next
    case (b_push c msg)
    have "ends_once (push_and_dispatch msg c)"
      by (rule ending.basic [OF basic_step.b_push]) (use b_push in \<open>simp_all add: close_last_def\<close>)
    then show ?case
      using b_push by (simp add: close_last_def is_close_def) (intro exI [of _ "c_pushed c @ [msg]"] exI [of _ "[]"], auto)
  next
    case (b_close c msg)
    have "ends_once (push_and_dispatch msg (c\<lparr>c_state := S_closing\<rparr>))"
      by (rule ending.basic [OF basic_step.b_close]) (use b_close in \<open>simp_all add: close_last_def\<close>)
    moreover obtain us vs where "c_pushed c = us @ vs" "\<forall>msg \<in> set us. \<not> is_close msg" "\<forall>msg \<in> set vs. is_close msg"
      using b_close(3) by (auto simp: close_last_def)
    ultimately show ?case
      using b_close(2) by (simp add: close_last_def is_close_def) (intro exI [of _ us] exI [of _ "vs @ [msg]"], auto)
  next
    case (b_terminate c ec)
    show ?case by (rule close_last_fields [OF b_terminate])
      (use b_terminate in \<open>simp_all add: close_last_def ends_terminate terminate_state\<close>)
  qed
  show "close_last (write_frame (complete P_write_frame c))" if "close_last c" "P_write_frame \<in> set (c_pending c)" for c
    by (rule close_last_fields [OF that(1)])
       (use that ending.writes in \<open>auto simp: close_last_def write_frame_def complete_def async_def Let_def split: if_splits\<close>)
  show "close_last (handle_write_frame ec (complete P_write c))" if "close_last c" "P_write \<in> set (c_pending c)" for ec c
    by (rule close_last_fields [OF that(1)])
       (use that ending.written in \<open>auto simp: close_last_def handle_write_frame_def complete_def async_def Let_def
          terminate_state split: if_splits\<close>)
  show "c_state c = S_closed" if "close_last c" "P_shutdown t \<in> set (c_pending c)" for c t
    using that ending.down by (simp add: close_last_def)
  show "close_last (tell Terminated c')" if "close_last c" "P_shutdown t \<in> set (c_pending c)"
    "es = [] \<or> es = [Closed] \<or> es = [Failed]" "same_core ((complete (P_shutdown t) c)\<lparr>c_events := c_events c @ es\<rparr>) c'"
    for c t es c'
  proof (rule close_last_fields [OF that(1)])
    show "ends_once (tell Terminated c')" by (rule ending.shut [OF _ that(2-4)]) (use that(1) in \<open>simp add: close_last_def\<close>)
  qed (use that(4) in \<open>simp_all add: same_core_def complete_def tell_def\<close>)
qed


subsection \<open>Reachable states\<close>

lemma rank_same: "c_state c = c_state d \<Longrightarrow> basics d c' \<Longrightarrow> state_rank (c_state c) \<le> state_rank (c_state c')"
  using basics_rank by metis

lemma terminate_rank: "state_rank (c_state c) \<le> state_rank (c_state (terminate ec d))"
  by (cases "c_state c") (simp_all add: terminate_state)

lemma con_step_rank:
  assumes "con_step app resumes c c'" and "api_only app resumes" and "c_state c \<noteq> S_connecting"
  shows "state_rank (c_state c) \<le> state_rank (c_state c')"
  using assms(1,3)
proof (induction rule: con_step.induct)
  case (step_api c c')
  then show ?case using basics_rank [OF api_basic] by blast
next
  case (step_write_frame c)
  then show ?case by (simp add: write_frame_fields complete_def)
next
  case (step_written c ec)
  then show ?case by (auto simp: handle_write_frame_def Let_def complete_def async_def intro: terminate_rank)
next
  case (step_read c ec data c')
  have "basics (complete P_read c) c'"
    by (rule read_done_basic [OF step_read(5) assms(2)]) (simp add: complete_def step_read)
  then show ?case by (rule rank_same [rotated]) (simp add: complete_def)
next
  case (step_read_error c ec c')
  have "basics (complete P_read c) c'"
    by (rule read_done_basic [OF step_read_error(3) assms(2)]) (simp add: complete_def step_read_error)
  then show ?case by (rule rank_same [rotated]) (simp add: complete_def)
next
  case (step_shutdown tstat c)
  have f: "state_rank (c_state c) \<le> state_rank (c_state (f d))"
    if "on_close app = Some f \<or> on_fail app = Some f" "c_state d = c_state c" for f d
    using that api_onlyD [OF assms(2)] rank_same by metis
  show ?case by (auto simp: handle_terminate_def Let_def complete_def intro: f split: option.split)
next
  case (step_close_timer c ec)
  then show ?case by (auto simp: handle_close_handshake_timeout_def complete_def intro: terminate_rank)
next
  case (step_open_timer c ec)
  then show ?case by (auto simp: handle_open_handshake_timeout_def complete_def intro: terminate_rank)
next
  case (step_pong_timer payload c ec)
  have f: "state_rank (c_state c) \<le> state_rank (c_state (f bs d))"
    if "on_pong_timeout app = Some f" "c_state d = c_state c" for f d bs
    using that api_onlyD(8) [OF assms(2)] rank_same by metis
  show ?case by (auto simp: handle_pong_timeout_def complete_def intro: f split: option.split)
next
  case (step_pause c)
  then show ?case by (simp add: handle_pause_reading_def complete_def)
next
  case (step_resume c)
  then show ?case by (simp add: handle_resume_reading_def read_frame_def async_def complete_def)
next
  case (step_interrupt c)
  have f: "state_rank (c_state c) \<le> state_rank (c_state (f d))"
    if "on_interrupt app = Some f" "c_state d = c_state c" for f d
    using that api_onlyD(4) [OF assms(2)] rank_same by metis
  show ?case by (auto simp: handle_interrupt_def complete_def intro: f split: option.split)
qed

lemma opened_basics:
  assumes "api_only app resumes"
  shows "basics ((connection_new server rng)\<lparr>c_internal := PROCESS_CONNECTION, c_state := S_open,
      c_processor := Some (hybi13_new server 32000000),
      c_buf := m, c_pending := (if timer then [P_open_timer] else [])\<rparr>) (opened app server rng m timer)"
  using api_onlyD(1) [OF assms]
  by (auto simp: opened_def Let_def quiet_event_def intro: tell_then split: option.split)

context connection_invariant begin

lemma reachable:
  assumes "reach app resumes server rng c" and "api_only app resumes"
  shows "I c \<and> c_state c \<noteq> S_connecting"
  using assms(1)
proof (induction rule: reach.induct)
  case (reach_open data m timer c)
  note b = opened_basics [OF assms(2), where server = server and rng = rng and m = m and timer = timer]
  have st: "c_state (opened app server rng m timer) \<noteq> S_connecting" using basics_connected [OF b] by simp
  have "basics (opened app server rng m timer) c" by (rule read_done_basic [OF reach_open(2) assms(2) st])
  then show ?case using many [OF b init] many basics_connected st by blast
next
  case (reach_step c c')
  then have "I c'" using step [OF reach_step(2) assms(2)] by blast
  moreover have "c_state c' \<noteq> S_connecting"
    using con_step_rank [OF reach_step(2) assms(2)] reach_step(3) by (metis le_zero_eq state_rank_0)
  ultimately show ?case ..
qed

end

lemma reach_write: "reach app resumes server rng c \<Longrightarrow> api_only app resumes \<Longrightarrow> write_inv c"
  using writer.reachable by blast

end
