(* ===== verification/WsReading.thy ===== *)
theory WsReading imports WsQueue begin

text \<open>
  Reading on an open connection: as long as the application does not call \<open>resume_reading\<close>, a read is
  only under way when the processor can take one, \<open>handle_read_frame\<close> returns whatever arrives, and no
  null pointer is followed.
\<close>

subsection \<open>What the operations leave alone\<close>

definition read_op :: "pending_op \<Rightarrow> bool" where
  "read_op p \<longleftrightarrow> p = P_read \<or> p = P_resume"

definition read_ops :: "connection \<Rightarrow> pending_op list" where
  "read_ops c = filter read_op (c_pending c)"

definition same_reading :: "connection \<Rightarrow> connection \<Rightarrow> bool" where
  "same_reading c c' \<longleftrightarrow> c_processor c' = c_processor c \<and> c_crashed c' = c_crashed c \<and> read_ops c' = read_ops c
     \<and> c_internal c' = c_internal c \<and> c_is_server c' = c_is_server c \<and> c_buf c' = c_buf c
     \<and> c_received c' = c_received c"

lemma same_reading_refl [simp]: "same_reading c c"
  by (simp add: same_reading_def)

lemma same_reading_trans: "same_reading a b \<Longrightarrow> same_reading b c \<Longrightarrow> same_reading a c"
  by (simp add: same_reading_def)

lemma async_reading: "\<not> read_op p \<Longrightarrow> same_reading c (async p c)"
  by (simp add: same_reading_def async_def read_ops_def)

lemma tell_reading: "same_reading c (tell e c)"
  by (simp add: same_reading_def tell_def read_ops_def)

lemma push_reading: "same_reading c (push_and_dispatch msg c)"
  by (simp add: same_reading_def push_and_dispatch_def write_push_def async_def read_ops_def read_op_def Let_def)

lemma draw_reading: "same_reading c (draw_key c)"
  by (simp add: same_reading_def draw_key_def read_ops_def split: option.split)

lemma terminate_reading: "same_reading c (terminate ec c)"
  by (simp add: same_reading_def terminate_def cancel_handshake_timer_def async_def read_ops_def read_op_def Let_def
      split: option.split)

lemma push_draw_reading: "same_reading c (push_and_dispatch msg (draw_key c))"
  by (rule same_reading_trans [OF draw_reading push_reading])

lemma send_reading: "c_processor c \<noteq> None \<Longrightarrow> same_reading c (snd (con_send msg c))"
  by (auto simp: con_send_def mgr_get_message_def push_reading push_draw_reading split: option.split prod.split)

lemma pong_reading: "c_processor c \<noteq> None \<Longrightarrow> same_reading c (snd (con_pong payload c))"
  by (auto simp: con_pong_def mgr_get_message_def push_draw_reading split: option.split prod.split)

lemma ping_reading:
  assumes "c_processor c \<noteq> None"
  shows "same_reading c (snd (con_ping app payload c))"
proof -
  have "same_reading c (async (P_pong_timer payload) ((draw_key c)\<lparr>c_ping_timer := True\<rparr>))"
    using draw_reading [of c] by (simp add: same_reading_def async_def read_ops_def read_op_def)
  then show ?thesis
    using assms by (auto simp: con_ping_def mgr_get_message_def push_draw_reading Let_def
        intro: same_reading_trans [OF _ push_reading] split: option.split prod.split)
qed

lemma send_close_frame_reading:
  assumes "c_processor c \<noteq> None"
  shows "same_reading c (snd (send_close_frame code reason ack terminal c))"
proof -
  obtain lc lr where ch: "choose_close code reason ack c = (lc, lr)" by (metis prod.collapse)
  define c1 where "c1 = c\<lparr>c_local_close_code := lc, c_local_close_reason := lr\<rparr>"
  define c2 where "c2 = (let d = (draw_key c1)\<lparr>c_state := S_closing\<rparr>; d = (if ack then d\<lparr>c_was_clean := True\<rparr> else d)
           in if c_close_handshake_timeout_dur d > 0 then async P_close_timer (d\<lparr>c_handshake_timer := True\<rparr>) else d)"
  obtain h where h: "c_processor c = Some h" using assms by blast
  have r: "same_reading c c1" by (simp add: c1_def same_reading_def read_ops_def)
  moreover have "same_reading c1 c2"
    using draw_reading [of c1] by (simp add: c2_def Let_def same_reading_def async_def read_ops_def read_op_def)
  ultimately have p: "same_reading c (push_and_dispatch msg c2)" for msg
    by (blast intro: same_reading_trans push_reading)
  obtain ec out where prep: "prepare_close (random_value c1) h lc lr (Some (get_message_op 0)) = (ec, out)"
    by (metis prod.collapse)
  have "snd (send_close_frame code reason ack terminal c) =
      (case (ec, out) of (None, Some msg) \<Rightarrow> push_and_dispatch (if terminal then msg\<lparr>m_terminal := True\<rparr> else msg) c2 | _ \<Rightarrow> c1)"
    using ch h prep
    by (cases ec; cases out) (simp_all add: send_close_frame_def mgr_get_message_def c1_def [symmetric] c2_def Let_def)
  then show ?thesis using r p by (auto split: option.splits)
qed

lemma close_reading: "c_processor c \<noteq> None \<Longrightarrow> same_reading c (snd (con_close code reason c))"
  by (simp add: con_close_def Let_def send_close_frame_reading)

lemma api_reading:
  assumes "api_step app False c c'" and "c_processor c \<noteq> None"
  shows "same_reading c c'"
  using assms
proof (induction rule: api_step.induct)
  case (api_send msg c)
  then show ?case using send_reading by blast
next
  case (api_pause c)
  then show ?case unfolding pause_reading_def by (intro async_reading) (simp add: read_op_def)
next
  case (api_interrupt c)
  then show ?case unfolding interrupt_def by (intro async_reading) (simp add: read_op_def)
qed (simp_all add: ping_reading pong_reading close_reading)

lemma apis_reading:
  assumes "(api_step app False)\<^sup>*\<^sup>* c c'" and "c_processor c \<noteq> None"
  shows "same_reading c c'"
  using assms
proof (induction rule: rtranclp.induct)
  case (rtrancl_into_rtrancl a b c)
  then have "same_reading a b" "c_processor b \<noteq> None" by (auto simp: same_reading_def)
  then show ?case using api_reading [OF rtrancl_into_rtrancl.hyps(2)] same_reading_trans by blast
qed simp

lemma handlers_reading:
  assumes "api_only app False" and "c_processor c \<noteq> None"
  shows "on_open app = Some f \<Longrightarrow> same_reading c (f c)" and "on_close app = Some f \<Longrightarrow> same_reading c (f c)"
    and "on_fail app = Some f \<Longrightarrow> same_reading c (f c)" and "on_interrupt app = Some f \<Longrightarrow> same_reading c (f c)"
    and "on_message app = Some g \<Longrightarrow> same_reading c (g msg c)" and "on_ping app = Some k \<Longrightarrow> same_reading c (snd (k bs c))"
    and "on_pong app = Some d \<Longrightarrow> same_reading c (d bs c)" and "on_pong_timeout app = Some d \<Longrightarrow> same_reading c (d bs c)"
  using assms unfolding api_only_def by (blast intro: apis_reading)+

lemma tell_call_reading:
  assumes "\<And>d. c_processor d = c_processor c \<Longrightarrow> same_reading d (f d)"
  shows "same_reading c (f (tell e c))"
  by (rule same_reading_trans [OF tell_reading assms]) (simp add: tell_def)


lemma receive_reading:
  assumes "api_only app False" and "c_processor c \<noteq> None"
  shows "same_reading c (receive_ping app msg c)" and "same_reading c (receive_pong app msg c)"
proof -
  have "same_reading c (snd (con_pong bs d))" if "same_reading c d" for bs d
    using same_reading_trans [OF that pong_reading] that assms(2) by (simp add: same_reading_def)
  moreover have "same_reading c (snd (k bs (tell e c)))" if "on_ping app = Some k" for k bs e
    by (rule tell_call_reading [of c "\<lambda>d. snd (k bs d)"]) (use handlers_reading(6) [OF assms(1) _ that] assms(2) in auto)
  ultimately show "same_reading c (receive_ping app msg c)"
    using assms(2) by (auto simp: receive_ping_def case_prod_beta split: option.split)
  have "same_reading c (d bs (tell e c))" if "on_pong app = Some d" for d bs e
    by (rule tell_call_reading [of c "d bs"]) (use handlers_reading(7) [OF assms(1) _ that] assms(2) in auto)
  then show "same_reading c (receive_pong app msg c)"
    by (auto simp: receive_pong_def split: option.split)
qed

lemma receive_close_reading:
  assumes "c_processor c \<noteq> None"
  shows "same_reading c (receive_close msg c)"
proof -
  obtain code ec reason rc where ex: "extract_code (m_payload msg) = (code, ec)" "extract_reason (m_payload msg) = (reason, rc)"
    by (metis prod.collapse)
  have ack: "same_reading c (snd (send_close_ack cd rs d))" if "same_reading c d" for cd rs d
    using same_reading_trans [OF that send_close_frame_reading] that assms by (simp add: send_close_ack_def same_reading_def)
  have upd: "same_reading c (c\<lparr>c_remote_close_code := code\<rparr>)"
    "same_reading c (c\<lparr>c_remote_close_code := code, c_remote_close_reason := reason\<rparr>)"
    "same_reading c (c\<lparr>c_remote_close_code := code, c_remote_close_reason := reason, c_was_clean := True\<rparr>)"
    by (simp_all add: same_reading_def read_ops_def)
  show ?thesis
    using ack upd same_reading_trans [OF upd(3) terminate_reading]
    by (simp add: receive_close_def ex Let_def drop_on_protocol_error_def)
qed

lemma dispatch_reading:
  assumes "api_only app False" and "c_processor c \<noteq> None"
  shows "same_reading c (dispatch_message app msg c)"
proof -
  have "same_reading c (g msg (tell e c))" if "on_message app = Some g" for g e
    by (rule tell_call_reading [of c "g msg"]) (use handlers_reading(5) [OF assms(1) _ that] assms(2) in auto)
  then show ?thesis
    using receive_reading [OF assms] receive_close_reading [OF assms(2)]
    by (auto simp: dispatch_message_def process_control_frame_def Let_def split: option.split)
qed

lemma read_failed_reading:
  assumes "c_processor c \<noteq> None"
  shows "same_reading c (read_failed ec c)"
  using close_reading [OF assms] same_reading_trans [OF close_reading [OF assms] terminate_reading]
  by (simp add: read_failed_def drop_on_protocol_error_def Let_def case_prod_beta)

subsection \<open>The loop returns\<close>

definition loop_ok :: "connection \<Rightarrow> bool \<Rightarrow> connection \<Rightarrow> bool" where
  "loop_ok c b c' \<longleftrightarrow> (\<exists>h. c_processor c' = Some h \<and> (b \<longrightarrow> reading_ok h)) \<and> c_crashed c' = c_crashed c
     \<and> read_ops c' = read_ops c \<and> c_internal c' = c_internal c"

lemma loop_ok_after:
  "same_reading (c\<lparr>c_processor := Some h, c_buf := m, c_received := rs\<rparr>) d \<Longrightarrow> loop_ok d b c' \<Longrightarrow> loop_ok c b c'"
  by (auto simp: loop_ok_def same_reading_def read_ops_def)

lemma frame_loop_total:
  assumes "api_only app False" and "c_processor c = Some h" and "reading_ok h"
  shows "\<exists>b c'. frame_loop app n p c = Some (b, c') \<and> loop_ok c b c'"
  using assms(2,3)
proof (induction "n - p" arbitrary: p c h rule: less_induct)
  case less
  show ?case
  proof (cases "p < n")
    case False
    with less.prems show ?thesis
      by (intro exI [of _ True] exI [of _ c]) (simp add: frame_loop.simps [of app n p] loop_ok_def)
  next
    case True
    then have "0 < n - p" by simp
    from consume_safe [OF less.prems(2) this, of p "c_buf c"] obtain q ec h' m' where
      c: "consume p (n - p) h (c_buf c) = Some (q, ec, h', m')"
      "ec = None \<longrightarrow> 0 < q \<and> hybi13_ok h' \<and> (hybi13_ready h' \<or> reading_ok h')" by blast
    let ?c = "c\<lparr>c_processor := Some h', c_buf := m'\<rparr>"
    show ?thesis
    proof (cases ec)
      case (Some e)
      have "frame_loop app n p c = Some (False, read_failed e ?c)"
        using True less.prems(1) c(1) Some by (simp add: frame_loop.simps [of app n p])
      moreover have "same_reading ?c (read_failed e ?c)" by (rule read_failed_reading) simp
      ultimately show ?thesis by (auto simp: loop_ok_def same_reading_def read_ops_def)
    next
      case None
      then have dec: "n - (p + q) < n - p" and ok: "hybi13_ok h'" using c(2) True by auto
      show ?thesis
      proof (cases "hybi13_ready h'")
        case False
        then have r: "reading_ok h'" using None c(2) by blast
        have "frame_loop app n p c = frame_loop app n (p + q) ?c"
          using True less.prems(1) c(1) None False by (simp add: frame_loop.simps [of app n p])
        with less.hyps [OF dec _ r, of ?c] show ?thesis
            by (auto simp: loop_ok_def read_ops_def)
      next
        case ready: True
        then obtain msg h2 where g: "hybi13_get_message h' = Some (Some msg, h2)" "reading_ok h2"
          using get_message_safe ok by blast
        let ?d = "c\<lparr>c_processor := Some h2, c_buf := m', c_received := c_received c @ [msg]\<rparr>"
        have "frame_loop app n p c = frame_loop app n (p + q)
            (dispatch_message app msg (c\<lparr>c_buf := m', c_processor := Some h2, c_received := c_received c @ [msg]\<rparr>))"
          using True less.prems(1) c(1) None ready g(1) by (simp add: frame_loop.simps [of app n p] Let_def)
        moreover have same: "same_reading ?d (dispatch_message app msg ?d)" by (rule dispatch_reading [OF assms(1)]) simp
        then have "c_processor (dispatch_message app msg ?d) = Some h2" by (simp add: same_reading_def)
        note rest = less.hyps [OF dec this g(2)]
        moreover have "c\<lparr>c_buf := m', c_processor := Some h2, c_received := c_received c @ [msg]\<rparr> = ?d" by simp
        ultimately show ?thesis using loop_ok_after [OF same] by auto
      qed
    qed
  qed
qed

text \<open>
  A read completes only when the processor waits for input, there is never more than one, and nothing
  has crashed.
\<close>

definition read_inv :: "connection \<Rightarrow> bool" where
  "read_inv c \<longleftrightarrow> (\<exists>h. c_processor c = Some h \<and> (read_ops c = [] \<or> read_ops c = [P_read] \<and> reading_ok h))
     \<and> \<not> c_crashed c \<and> c_internal c = PROCESS_CONNECTION"

lemma read_inv_same: "same_reading c c' \<Longrightarrow> read_inv c' = read_inv c"
  by (simp add: read_inv_def same_reading_def)

lemma read_inv_processor: "read_inv c \<Longrightarrow> c_processor c \<noteq> None"
  by (auto simp: read_inv_def)

lemma complete_reading: "\<not> read_op p \<Longrightarrow> same_reading c (complete p c)"
  by (simp add: same_reading_def complete_def read_ops_def filter_remove1)

lemma read_done_total:
  assumes "api_only app False" and "c_processor c = Some h" and "reading_ok h" and "read_ops c = []"
    and "\<not> c_crashed c" and "c_internal c = PROCESS_CONNECTION"
  shows "\<exists>c'. read_done app ec data c = Some c' \<and> read_inv c'"
proof -
  let ?c = "c\<lparr>c_buf := poke 0 data (c_buf c)\<rparr>"
  have ops: "read_ops ?c = []" using assms(4) by (simp add: read_ops_def)
  have inv: "read_inv ?c" using assms ops by (simp add: read_inv_def)
  show ?thesis
  proof (cases "ec = None")
    case False
    have "read_inv (terminate e ?c)" for e using read_inv_same [OF terminate_reading] inv by blast
    then show ?thesis
      using False inv assms(6)
      by (auto simp: read_done_def handle_read_frame_def Let_def)
  next
    case True
    obtain b c' where r: "frame_loop app (length data) 0 ?c = Some (b, c')" "loop_ok ?c b c'"
      using frame_loop_total [OF assms(1), of ?c h "length data" 0] assms(2,3) by auto
    then obtain h' where h': "c_processor c' = Some h'" "b \<longrightarrow> reading_ok h'" "\<not> c_crashed c'" "read_ops c' = []"
      "c_internal c' = PROCESS_CONNECTION" using assms(5,6) ops by (auto simp: loop_ok_def)
    have "read_inv c'" using h' by (simp add: read_inv_def)
    moreover have "b \<Longrightarrow> read_inv (read_frame c')"
      using h' by (auto simp: read_inv_def read_frame_def async_def read_ops_def read_op_def)
    ultimately show ?thesis
      using True r(1) assms(6) by (cases b) (simp_all add: read_done_def handle_read_frame_def Let_def)
  qed
qed


subsection \<open>The steps\<close>

lemma write_frame_reading: "same_reading c (write_frame (complete P_write_frame c))"
  by (simp add: same_reading_def write_frame_def complete_def pop_messages_eq async_def read_ops_def read_op_def
      Let_def filter_remove1)

lemma written_reading:
  assumes "c_current_msgs c \<noteq> []"
  shows "same_reading c (handle_write_frame ec (complete P_write c))"
proof -
  let ?c = "(complete P_write c)\<lparr>c_current_msgs := []\<rparr>"
  have "same_reading c ?c" by (simp add: same_reading_def complete_def read_ops_def read_op_def filter_remove1)
  then have "same_reading c (terminate e ?c)" for e by (rule same_reading_trans [OF _ terminate_reading])
  moreover have "same_reading c (?c\<lparr>c_write_flag := False\<rparr>)" "same_reading c (async P_write_frame (?c\<lparr>c_write_flag := False\<rparr>))"
    by (simp_all add: same_reading_def complete_def async_def read_ops_def read_op_def filter_remove1)
  ultimately show ?thesis
    using assms by (simp add: handle_write_frame_def Let_def complete_def)
qed

lemma handle_terminate_reading:
  assumes "api_only app False" and "c_processor c \<noteq> None"
  shows "same_reading c (handle_terminate app t c)"
proof -
  have f: "same_reading c (f (tell e c))" if "on_close app = Some f \<or> on_fail app = Some f" for f e
    by (rule tell_call_reading [of c f]) (use handlers_reading(2,3) [OF assms(1)] that assms(2) in auto)
  have "same_reading c (tell Terminated d)" if "same_reading c d" for d
    by (rule same_reading_trans [OF that tell_reading])
  then show ?thesis using f by (auto simp: handle_terminate_def Let_def split: option.split)
qed

lemma complete_read:
  assumes "read_inv c" and "P_read \<in> set (c_pending c)"
  obtains h where "c_processor (complete P_read c) = Some h" and "reading_ok h" and "read_ops (complete P_read c) = []"
    and "\<not> c_crashed (complete P_read c)" and "c_internal (complete P_read c) = PROCESS_CONNECTION"
proof -
  have "P_read \<in> set (read_ops c)" using assms(2) by (simp add: read_ops_def read_op_def)
  then obtain h where "c_processor c = Some h" "read_ops c = [P_read]" "reading_ok h"
    using assms(1) by (auto simp: read_inv_def)
  then show thesis
    using that [of h] assms(1) by (auto simp: read_inv_def complete_def read_ops_def filter_remove1)
qed

lemma read_inv_step:
  assumes "con_step app False c c'" and "api_only app False" and "read_inv c" and "write_inv c"
  shows "read_inv c'"
  using assms(1,3,4)
proof (induction rule: con_step.induct)
  case (step_api c c')
  then show ?case using read_inv_same [OF api_reading] read_inv_processor by blast
next
  case (step_write_frame c)
  then show ?case using read_inv_same [OF write_frame_reading] by blast
next
  case (step_written c ec)
  have "c_current_msgs c \<noteq> []" using written_writer(1) step_written by (simp add: write_inv_def)
  then show ?case using read_inv_same [OF written_reading] step_written by blast
next
  case (step_read c ec data c')
  then show ?case
    using complete_read [OF step_read(6,1)] read_done_total [OF assms(2)] by (metis option.inject)
next
  case (step_read_error c ec c')
  then show ?case
    using complete_read [OF step_read_error(4,1)] read_done_total [OF assms(2)] by (metis option.inject)
next
  case (step_shutdown tstat c)
  have "same_reading c (complete (P_shutdown tstat) c)" by (simp add: complete_reading read_op_def)
  moreover have "same_reading (complete (P_shutdown tstat) c) (handle_terminate app tstat (complete (P_shutdown tstat) c))"
    using read_inv_processor [OF step_shutdown(2)] by (intro handle_terminate_reading [OF assms(2)]) (simp add: complete_def)
  ultimately show ?case using read_inv_same same_reading_trans step_shutdown(2) by blast
next
  case (step_close_timer c ec)
  have "same_reading c (complete P_close_timer c)" by (simp add: complete_reading read_op_def)
  then show ?case
    using step_close_timer(2) read_inv_same same_reading_trans [OF _ terminate_reading]
    by (simp add: handle_close_handshake_timeout_def) blast
next
  case (step_open_timer c ec)
  have "same_reading c (complete P_open_timer c)" by (simp add: complete_reading read_op_def)
  then show ?case
    using step_open_timer(2) read_inv_same same_reading_trans [OF _ terminate_reading]
    by (simp add: handle_open_handshake_timeout_def) blast
next
  case (step_pong_timer payload c ec)
  let ?c = "complete (P_pong_timer payload) c"
  have "same_reading ?c (d payload (tell e ?c))" if "on_pong_timeout app = Some d" for d e
    by (rule tell_call_reading [of ?c "d payload"])
       (use handlers_reading(8) [OF assms(2) _ that] read_inv_processor [OF step_pong_timer(2)] in \<open>auto simp: complete_def\<close>)
  moreover have "same_reading c ?c" by (simp add: complete_reading read_op_def)
  ultimately have "same_reading c (handle_pong_timeout app payload ec ?c)"
    by (auto simp: handle_pong_timeout_def intro: same_reading_trans split: option.split)
  then show ?case using step_pong_timer(2) read_inv_same by blast
next
  case (step_pause c)
  have "same_reading c (handle_pause_reading (complete P_pause c))"
    by (simp add: handle_pause_reading_def same_reading_def complete_def read_ops_def read_op_def filter_remove1)
  then show ?case using step_pause(2) read_inv_same by blast
next
  case (step_resume c)
  have "P_resume \<in> set (read_ops c)" using step_resume(1) by (simp add: read_ops_def read_op_def)
  then show ?case using step_resume(2) by (auto simp: read_inv_def)
next
  case (step_interrupt c)
  let ?c = "complete P_interrupt c"
  have "same_reading ?c (f (tell e ?c))" if "on_interrupt app = Some f" for f e
    by (rule tell_call_reading [of ?c f])
       (use handlers_reading(4) [OF assms(2) _ that] read_inv_processor [OF step_interrupt(2)] in \<open>auto simp: complete_def\<close>)
  moreover have "same_reading c ?c" by (simp add: complete_reading read_op_def)
  ultimately have "same_reading c (handle_interrupt app ?c)"
    by (auto simp: handle_interrupt_def intro: same_reading_trans split: option.split)
  then show ?case using step_interrupt(2) read_inv_same by blast
qed

lemma opened_reading:
  assumes "api_only app False"
  shows "c_processor (opened app server rng m timer) = Some (hybi13_new server 32000000)"
    and "read_ops (opened app server rng m timer) = []" and "\<not> c_crashed (opened app server rng m timer)"
    and "c_internal (opened app server rng m timer) = PROCESS_CONNECTION"
proof -
  let ?c = "(connection_new server rng)\<lparr>c_internal := PROCESS_CONNECTION, c_state := S_open,
      c_processor := Some (hybi13_new server 32000000),
      c_buf := m, c_pending := (if timer then [P_open_timer] else [])\<rparr>"
  have "same_reading ?c (f (tell Opened ?c))" if "on_open app = Some f" for f
    by (rule tell_call_reading [of ?c f]) (use handlers_reading(1) [OF assms _ that] in auto)
  then have "same_reading ?c (opened app server rng m timer)"
    by (auto simp: opened_def Let_def split: option.split)
  then show "c_processor (opened app server rng m timer) = Some (hybi13_new server 32000000)"
    "read_ops (opened app server rng m timer) = []" "\<not> c_crashed (opened app server rng m timer)"
    "c_internal (opened app server rng m timer) = PROCESS_CONNECTION"
    by (simp_all add: same_reading_def read_ops_def read_op_def connection_new_def)
qed

lemma reach_read:
  assumes "reach app False server rng c" and "api_only app False"
  shows "read_inv c"
  using assms(1)
proof (induction rule: reach.induct)
  case (reach_open data m timer c)
  then show ?case
    using read_done_total [OF assms(2) opened_reading(1) [OF assms(2)] reading_new opened_reading(2-4) [OF assms(2)]]
    by (metis option.inject)
next
  case (reach_step c c')
  then show ?case using read_inv_step [OF reach_step(2) assms(2)] reach_write [OF reach_step(1) assms(2)] by blast
qed

end
