(* ===== verification/WsSession.thy ===== *)
theory WsSession imports WsReading begin

text \<open>
  Whole connections: a connection hands over what its frame processor reads, its handlers see every
  message once and in order, and what a peer transmits arrives. The properties of every reachable state
  that concern sending, ending and reading are stated here for the connection of the code.
\<close>

subsection \<open>The connection reads like its processor\<close>

text \<open>
  \<open>J ms c\<close> says what is known of the connection after the messages \<open>ms\<close>; it must not depend on the
  processor and the buffer and must follow \<open>dispatch_message\<close>.
\<close>

definition follows :: "con_app \<Rightarrow> (ws_message list \<Rightarrow> connection \<Rightarrow> bool) \<Rightarrow> bool" where
  "follows app J \<longleftrightarrow>
     (\<forall>ms c h m rs. J ms c \<longrightarrow> J ms (c\<lparr>c_processor := h, c_buf := m, c_received := rs\<rparr>))
   \<and> (\<forall>ms c msg. J ms c \<longrightarrow> c_processor c \<noteq> None \<longrightarrow> J (ms @ [msg]) (dispatch_message app msg c))
   \<and> (\<forall>ms c. J ms c \<longrightarrow> J ms (read_frame c))"

lemma follows_silent: "follows app J \<Longrightarrow> J ms c \<Longrightarrow> J ms (c\<lparr>c_processor := h, c_buf := m\<rparr>)"
  "follows app J \<Longrightarrow> J ms c \<Longrightarrow> J ms (c\<lparr>c_processor := h, c_buf := m, c_received := rs\<rparr>)"
proof -
  assume a: "follows app J" "J ms c"
  then show "J ms (c\<lparr>c_processor := h, c_buf := m, c_received := rs\<rparr>)" unfolding follows_def by blast
  have "J ms (c\<lparr>c_processor := h, c_buf := m, c_received := c_received c\<rparr>)" using a unfolding follows_def by blast
  then show "J ms (c\<lparr>c_processor := h, c_buf := m\<rparr>)" by simp
qed

lemma follows_dispatch:
  "follows app J \<Longrightarrow> J ms c \<Longrightarrow> c_processor c \<noteq> None \<Longrightarrow> J (ms @ [msg]) (dispatch_message app msg c)"
  unfolding follows_def by blast

lemma follows_nothing: "follows app (\<lambda>_ _. True)"
  by (simp add: follows_def)

lemmas read_induct = read_loop.raw_induct [rotated, consumes 1, case_names turn]

definition loop_follows ::
  "(ws_message list \<Rightarrow> connection \<Rightarrow> bool) \<Rightarrow> ws_message list \<Rightarrow> connection \<Rightarrow> ws_message list \<Rightarrow> hybi13 \<Rightarrow> memory \<Rightarrow> connection \<Rightarrow> bool" where
  "loop_follows J ms c new h m c' \<longleftrightarrow> c_received c' = c_received c @ new \<and> c_internal c' = c_internal c
     \<and> c_processor c' = Some h \<and> c_buf c' = m \<and> J (ms @ new) c'"

lemma frame_loop_reads:
  assumes "read_loop buf n p h m = Some r" and "api_only app False" and "follows app J"
  shows "\<forall>c ms. buf = 0 \<longrightarrow> c_processor c = Some h \<longrightarrow> c_buf c = m \<longrightarrow> J ms c \<longrightarrow> fst (snd r) = None \<longrightarrow>
    (\<exists>c'. frame_loop app n p c = Some (True, c') \<and> loop_follows J ms c (fst r) (fst (snd (snd r))) (snd (snd (snd r))) c')"
  using assms(1)
proof (induction rule: read_induct)
  case (turn loop buf n p h m r)
  show ?case
  proof (intro allI impI)
    fix c ms
    assume c: "buf = 0" "c_processor c = Some h" "c_buf c = m" "J ms c" "fst (snd r) = None"
    show "\<exists>c'. frame_loop app n p c = Some (True, c') \<and> loop_follows J ms c (fst r) (fst (snd (snd r))) (snd (snd (snd r))) c'"
    proof (cases "p < n")
      case False
      with turn(2) c show ?thesis by (auto simp: frame_loop.simps [of app n p c] loop_follows_def)
    next
      case True
      from turn(2) True obtain k ec h1 m1 where k: "consume (buf + p) (n - p) h m = Some (k, ec, h1, m1)"
        by (auto split: bind_splits)
      let ?c = "c\<lparr>c_processor := Some h1, c_buf := m1\<rparr>"
      note eqs = turn(2) True k c
      have none: "ec = None" using eqs by (cases ec) auto
      show ?thesis
      proof (cases "hybi13_ready h1")
        case False
        then have "loop buf n (p + k) h1 m1 = Some r" using eqs none by simp
        note ih = turn(1) [OF this]
        obtain c' where "frame_loop app n (p + k) ?c = Some (True, c')"
          "loop_follows J ms ?c (fst r) (fst (snd (snd r))) (snd (snd (snd r))) c'"
          using ih [THEN spec [of _ ?c], THEN spec [of _ ms]] c(1,5) follows_silent(1) [OF assms(3) c(4)] by auto
        with eqs none False show ?thesis by (simp add: frame_loop.simps [of app n p c] loop_follows_def)
      next
        case ready: True
        then obtain msg h2 where g: "hybi13_get_message h1 = Some (Some msg, h2)"
          using eqs none by (auto simp: hybi13_get_message_def Let_def split: bind_splits option.splits)
        obtain new r' where r': "loop buf n (p + k) h2 m1 = Some (new, r')" "r = (msg # new, r')"
          using eqs none ready g by (auto split: bind_splits)
        let ?d = "c\<lparr>c_processor := Some h2, c_buf := m1, c_received := c_received c @ [msg]\<rparr>"
        have same: "same_reading ?d (dispatch_message app msg ?d)" by (rule dispatch_reading [OF assms(2)]) simp
        have J: "J (ms @ [msg]) (dispatch_message app msg ?d)"
          by (rule follows_dispatch [OF assms(3) follows_silent(2) [OF assms(3) c(4)]]) simp
        have "frame_loop app n p c = frame_loop app n (p + k)
            (dispatch_message app msg (c\<lparr>c_buf := m1, c_processor := Some h2, c_received := c_received c @ [msg]\<rparr>))"
          using True k c none ready g by (simp add: frame_loop.simps [of app n p c])
        moreover have "c\<lparr>c_buf := m1, c_processor := Some h2, c_received := c_received c @ [msg]\<rparr> = ?d" by simp
        ultimately have "frame_loop app n p c = frame_loop app n (p + k) (dispatch_message app msg ?d)" by simp
        moreover obtain c' where "frame_loop app n (p + k) (dispatch_message app msg ?d) = Some (True, c')"
          "loop_follows J (ms @ [msg]) (dispatch_message app msg ?d) new (fst (snd r')) (snd (snd r')) c'"
          using turn(1) [OF r'(1), THEN spec [of _ "dispatch_message app msg ?d"], THEN spec [of _ "ms @ [msg]"]]
            c(1,5) same r'(2) J by (auto simp: same_reading_def)
        ultimately show ?thesis using same r'(2) by (simp add: loop_follows_def same_reading_def)
      qed
    qed
  qed
qed

text \<open>Successive reads without a transport error.\<close>

fun feed :: "con_app \<Rightarrow> bytes list \<Rightarrow> connection \<Rightarrow> connection option" where
  "feed app [] c = Some c"
| "feed app (data # rest) c = (case read_done app None data c of None \<Rightarrow> None | Some c \<Rightarrow> feed app rest c)"

lemma feed_reads:
  assumes "api_only app False" and "follows app J"
  shows "read_chunks (c_buf c) cs h = Some (new, None, h') \<Longrightarrow> c_processor c = Some h \<Longrightarrow>
    c_internal c = PROCESS_CONNECTION \<Longrightarrow> J ms c \<Longrightarrow>
    \<exists>c'. feed app cs c = Some c' \<and> c_received c' = c_received c @ new \<and> c_processor c' = Some h' \<and> J (ms @ new) c'"
proof (induction cs arbitrary: c h ms new)
  case (Cons d cs)
  obtain new1 h1 m1 new2 where r: "read_loop 0 (length d) 0 h (poke 0 d (c_buf c)) = Some (new1, None, h1, m1)"
    "read_chunks m1 cs h1 = Some (new2, None, h')" "new = new1 @ new2"
    using Cons.prems(1) by (auto split: bind_splits if_splits)
  let ?c = "c\<lparr>c_buf := poke 0 d (c_buf c)\<rparr>"
  have J: "J ms ?c" using follows_silent(1) [OF assms(2) Cons.prems(4), where h = "c_processor c" and m = "poke 0 d (c_buf c)"] by simp
  obtain c1 where c1: "frame_loop app (length d) 0 ?c = Some (True, c1)" "c_received c1 = c_received c @ new1"
    "c_processor c1 = Some h1" "c_buf c1 = m1" "c_internal c1 = PROCESS_CONNECTION" "J (ms @ new1) c1"
    using frame_loop_reads [OF r(1) assms, THEN spec [of _ ?c], THEN spec [of _ ms]] Cons.prems(2,3) J
    by (auto simp: loop_follows_def)
  have "read_done app None d c = Some (read_frame c1)"
    using c1(1) Cons.prems(3) by (simp add: read_done_def handle_read_frame_def)
  moreover have rf: "c_buf (read_frame c1) = m1" "c_processor (read_frame c1) = Some h1"
    "c_internal (read_frame c1) = PROCESS_CONNECTION" "c_received (read_frame c1) = c_received c @ new1"
    using c1 by (simp_all add: read_frame_def async_def)
  moreover have "J (ms @ new1) (read_frame c1)" using c1(6) assms(2) unfolding follows_def by blast
  ultimately show ?case
    using Cons.IH [of "read_frame c1" h1 new2 "ms @ new1"] r(2,3) by simp
qed simp

end
