(* ===== verification/WsEnding.thy ===== *)
theory WsEnding imports WsSession begin

text \<open>
  How a connection sends and how it ends: the writer empties its queue in order, the closing handshake
  is answered and runs to its end, each end is reported once, and two cases in which the code does not
  do what its comments say.
\<close>

subsection \<open>The program's handlers\<close>

text \<open>
  What \<open>server.hpp\<close> sets on its endpoint, as far as the connection is concerned: message, interrupt,
  fail and close handlers that do not touch the connection.
\<close>

definition tcp_app :: con_app where
  "tcp_app = \<lparr>on_open = None, on_close = Some (\<lambda>c. c), on_fail = Some (\<lambda>c. c), on_message = Some (\<lambda>_ c. c),
     on_ping = None, on_pong = None, on_pong_timeout = None, on_interrupt = Some (\<lambda>c. c)\<rparr>"

lemma tcp_app_only: "api_only tcp_app resumes"
  by (simp add: api_only_def tcp_app_def)

definition tcp_start :: connection where
  "tcp_start = read_frame (opened tcp_app True (\<lambda>_. 0) (\<lambda>_. 0) False)"

lemma reach_start: "reach tcp_app resumes True (\<lambda>_. 0) tcp_start"
proof (rule reach_open [of "[]"])
  have "poke 0 [] m = m" for m by (simp add: poke_def)
  then show "read_done tcp_app None [] (opened tcp_app True (\<lambda>_. 0) (\<lambda>_. 0) False) = Some tcp_start"
    by (simp add: connection_new_def read_done_def handle_read_frame_def frame_loop.simps [of _ 0 0] tcp_start_def opened_def tcp_app_def Let_def)
qed simp

text \<open>A connection on which the program has sent two octets.\<close>

definition tcp_sent :: connection where
  "tcp_sent = snd (con_send_payload [1, 2] op_binary tcp_start)"

lemma reach_sent: "reach tcp_app resumes True (\<lambda>_. 0) tcp_sent"
  unfolding tcp_sent_def con_send_payload_def
  by (rule reach_step [OF reach_start step_api [OF api_send]]) (simp add: get_message_op_def)

subsection \<open>The writer\<close>

text \<open>The steps that belong to sending: dispatched calls of \<open>write_frame\<close> and completed writes.\<close>

inductive write_step :: "connection \<Rightarrow> connection \<Rightarrow> bool" where
  ws_dispatched: "P_write_frame \<in> set (c_pending c) \<Longrightarrow> write_step c (write_frame (complete P_write_frame c))"
| ws_written: "P_write \<in> set (c_pending c) \<Longrightarrow> write_step c (handle_write_frame ec (complete P_write c))"

inductive_cases write_stepE: "write_step c c'"

lemma write_step_con_step: "write_step c c' \<Longrightarrow> con_step app resumes c c'"
  by (auto elim!: write_stepE intro: step_write_frame step_written)

text \<open>Three units of work for a queued message, two for a write, one for a dispatch.\<close>

definition writer_work :: "connection \<Rightarrow> nat" where
  "writer_work c = 3 * length (c_send_queue c) + 2 * count_list (c_pending c) P_write
     + count_list (c_pending c) P_write_frame"

lemma write_step_inv: "write_step c c' \<Longrightarrow> write_inv c \<Longrightarrow> write_inv c'"
  by (auto elim!: write_stepE intro: writer.writes writer.written)

lemma count_done:
  "x \<in> set xs \<Longrightarrow> Suc (count_list (remove1 x xs) x) = count_list xs x"
  "x \<noteq> y \<Longrightarrow> count_list (remove1 x xs) y = count_list xs y"
  by (induction xs) (auto simp: count_list_0_iff)

lemma write_step_work:
  assumes "write_step c c'" and "write_inv c"
  shows "writer_work c' < writer_work c \<and> c_pushed c' = c_pushed c"
  using assms(1)
proof (cases rule: write_stepE [consumes 1, case_names dispatched finished])
  case dispatched
  let ?q = "c_send_queue c"
  have len: "length (fst (split_terminal ?q)) + length (snd (split_terminal ?q)) = length ?q"
    using arg_cong [OF split_terminal_append [of ?q], of length] by simp
  have cur: "c_current_msgs c \<noteq> [] \<Longrightarrow> c_write_flag c" using assms(2) by (auto simp: write_inv_def writer_ok_def)
  have "?q \<noteq> [] \<Longrightarrow> length (snd (split_terminal ?q)) < length ?q"
    using len split_terminal_empty [of ?q] by (cases "fst (split_terminal ?q)") auto
  with dispatched cur split_terminal_empty [of ?q] count_done(1) [of P_write_frame "c_pending c"] show ?thesis
    by (cases "c_write_flag c"; cases "?q = []")
       (auto simp: writer_work_def write_frame_def complete_def pop_messages_eq async_def Let_def count_done(2))
next
  case (finished ec)
  have cur: "c_current_msgs c \<noteq> []" using written_writer(1) finished assms(2) by (simp add: write_inv_def)
  have ended: "writer_work (terminate e d) = writer_work d" for e d
    by (simp add: writer_work_def terminate_def cancel_handshake_timer_def async_def Let_def split: option.split)
  have "c' = (let d = (complete P_write c)\<lparr>c_current_msgs := []\<rparr> in
      if ec \<noteq> None then terminate ec d
      else if m_terminal (last (c_current_msgs c)) then terminate None d
      else if c_send_queue c \<noteq> [] then async P_write_frame (d\<lparr>c_write_flag := False\<rparr>) else d\<lparr>c_write_flag := False\<rparr>)"
    using finished(1) cur by (simp add: handle_write_frame_def complete_def Let_def)
  then show ?thesis
    using finished(2) count_done(1) [of P_write "c_pending c"]
    by (simp add: Let_def ended) (auto simp: writer_work_def complete_def async_def count_done(2))
qed

lemma writes_bounded:
  "(write_step ^^ n) c c' \<Longrightarrow> write_inv c \<Longrightarrow> writer_work c' + n \<le> writer_work c \<and> write_inv c' \<and> c_pushed c' = c_pushed c"
proof (induction n arbitrary: c')
  case (Suc n)
  then obtain b where b: "(write_step ^^ n) c b" "write_step b c'" by auto
  then show ?case using Suc.IH [OF b(1) Suc.prems(2)] write_step_work [OF b(2)] write_step_inv [OF b(2)] by auto
qed simp

lemma writes_stop:
  assumes "write_inv c" and "\<nexists>c'. write_step c c'" and "c_state c \<noteq> S_closed"
  shows "c_send_queue c = [] \<and> c_wire c = concat (map wire_of (c_pushed c))"
proof -
  have none: "P_write \<notin> set (c_pending c)" "P_write_frame \<notin> set (c_pending c)"
    using assms(2) write_step.intros by blast+
  then have "c_current_msgs c = []" using assms(1) by (auto simp: write_inv_def writer_ok_def count_list_0_iff split: if_splits)
  then have "c_send_queue c = []" using assms(1,3) none by (auto simp: write_inv_def writer_ok_def)
  with assms(1) show ?thesis by (auto simp: write_inv_def queue_ok_def)
qed

subsection \<open>Properties of sending\<close>

text \<open>C34. The octets given to the transport are those of the messages that were pushed, whole and in the
order of the pushes, up to the ones that still wait in the queue; the buffered amount is the size of
their payloads.\<close>

theorem sent_in_order:
  assumes "reach app resumes server rng c" and "api_only app resumes"
  shows "\<exists>taken. c_pushed c = taken @ c_send_queue c \<and> c_wire c = concat (map wire_of taken)
    \<and> get_buffered_amount c = word_of_nat (payload_sum (c_send_queue c))"
  using reach_write [OF assms] by (auto simp: write_inv_def queue_ok_def get_buffered_amount_def)

theorem sent_in_order_witness:
  "\<exists>taken. c_pushed tcp_sent = taken @ c_send_queue tcp_sent \<and> c_wire tcp_sent = concat (map wire_of taken)
    \<and> get_buffered_amount tcp_sent = 2"
proof -
  have "get_buffered_amount tcp_sent = 2" by code_simp
  with sent_in_order [OF reach_sent tcp_app_only] show ?thesis by blast
qed

text \<open>C7. The writer finishes: from any reachable state its dispatches and completed writes come to an
end, after a number of steps bounded by the work queued, and then every message that was pushed is on
the wire in order, unless the connection has closed.\<close>

theorem queue_is_written:
  assumes "reach app resumes server rng c" and "api_only app resumes"
  shows "(\<forall>n c'. (write_step ^^ n) c c' \<longrightarrow> n \<le> writer_work c)
    \<and> (\<exists>c'. write_step\<^sup>*\<^sup>* c c' \<and> (\<nexists>c''. write_step c' c''))
    \<and> (\<forall>c'. write_step\<^sup>*\<^sup>* c c' \<longrightarrow> (\<nexists>c''. write_step c' c'') \<longrightarrow> c_pushed c' = c_pushed c
        \<and> (c_state c' = S_closed \<or> c_send_queue c' = [] \<and> c_wire c' = concat (map wire_of (c_pushed c))))"
proof (intro conjI allI impI)
  have inv: "write_inv c" by (rule reach_write [OF assms])
  show "n \<le> writer_work c" if "(write_step ^^ n) c c'" for n c' using writes_bounded [OF that inv] by simp
  have "\<exists>c'. write_step\<^sup>*\<^sup>* d c' \<and> (\<nexists>c''. write_step c' c'')" if "write_inv d" for d
    using that
  proof (induction "writer_work d" arbitrary: d rule: less_induct)
    case less
    show ?case
    proof (cases "\<exists>d'. write_step d d'")
      case True
      then obtain d' where d': "write_step d d'" ..
      with less obtain c' where "write_step\<^sup>*\<^sup>* d' c'" "\<nexists>c''. write_step c' c''"
        using write_step_work [OF d' less.prems] write_step_inv [OF d' less.prems] by blast
      then show ?thesis using converse_rtranclp_into_rtranclp [of write_step, OF d'] by blast
    qed blast
  qed
  then show "\<exists>c'. write_step\<^sup>*\<^sup>* c c' \<and> (\<nexists>c''. write_step c' c'')" using inv .
  fix c'
  assume s: "write_step\<^sup>*\<^sup>* c c'" "\<nexists>c''. write_step c' c''"
  obtain n where "(write_step ^^ n) c c'" using rtranclp_imp_relpowp [OF s(1)] by blast
  note w = writes_bounded [OF this inv]
  then show "c_pushed c' = c_pushed c" by simp
  show "c_state c' = S_closed \<or> c_send_queue c' = [] \<and> c_wire c' = concat (map wire_of (c_pushed c))"
    using writes_stop [OF _ s(2)] w by auto
qed

theorem queue_is_written_witness:
  "c_send_queue tcp_sent \<noteq> [] \<and> (\<exists>c'. write_step\<^sup>*\<^sup>* tcp_sent c' \<and> c_pushed c' = c_pushed tcp_sent
     \<and> (c_state c' = S_closed \<or> c_wire c' = concat (map wire_of (c_pushed tcp_sent))))"
proof -
  have "c_send_queue tcp_sent \<noteq> []" by code_simp
  moreover note q = queue_is_written [OF reach_sent tcp_app_only, THEN conjunct2]
  obtain c' where c': "write_step\<^sup>*\<^sup>* tcp_sent c'" "\<nexists>c''. write_step c' c''" using q [THEN conjunct1] by blast
  with q [THEN conjunct2, THEN spec [of _ c']]
  have "c_pushed c' = c_pushed tcp_sent \<and> (c_state c' = S_closed \<or> c_wire c' = concat (map wire_of (c_pushed tcp_sent)))"
    by blast
  ultimately show ?thesis using c'(1) by blast
qed

subsection \<open>Properties of ending\<close>

text \<open>C37. Once a close frame has been pushed nothing but close frames is pushed after it, and an open
connection has pushed none.\<close>

theorem nothing_after_close:
  assumes "reach app resumes server rng c" and "api_only app resumes"
  shows "\<exists>us vs. c_pushed c = us @ vs \<and> (\<forall>msg \<in> set us. \<not> is_close msg) \<and> (\<forall>msg \<in> set vs. is_close msg)
    \<and> (c_state c = S_open \<longrightarrow> vs = [])"
proof -
  have cl: "close_last c" using closing.reachable [OF assms] by blast
  then obtain us vs where u: "c_pushed c = us @ vs" "\<forall>msg \<in> set us. \<not> is_close msg" "\<forall>msg \<in> set vs. is_close msg"
    by (auto simp: close_last_def)
  moreover have "c_state c = S_open \<longrightarrow> vs = []" using cl u(1,3) by (cases vs) (auto simp: close_last_def)
  ultimately show ?thesis by blast
qed

definition tcp_closing :: connection where
  "tcp_closing = snd (con_close status_normal [] tcp_sent)"

lemma reach_closing: "reach tcp_app resumes True (\<lambda>_. 0) tcp_closing"
  unfolding tcp_closing_def by (rule reach_step [OF reach_sent step_api [OF api_close]])

theorem nothing_after_close_witness:
  "length (c_pushed tcp_closing) = 2 \<and>
   (\<exists>us vs. c_pushed tcp_closing = us @ vs \<and> (\<forall>msg \<in> set us. \<not> is_close msg) \<and> (\<forall>msg \<in> set vs. is_close msg))"
proof -
  have "length (c_pushed tcp_closing) = 2" by code_simp
  with nothing_after_close [OF reach_closing tcp_app_only] show ?thesis by blast
qed

text \<open>What a connection has told of its end, in order.\<close>

definition endings :: "connection \<Rightarrow> app_event list" where
  "endings c = filter (\<lambda>e. \<not> quiet_event e) (c_events c)"

definition ends_in_order :: "connection \<Rightarrow> bool" where
  "ends_in_order c \<longleftrightarrow> ends_once c \<and> endings c \<in> {[], [Terminated], [Closed, Terminated], [Failed, Terminated]}"

lemma ends_in_order_fields: "ends_in_order c \<Longrightarrow> ends_once c' \<Longrightarrow> endings c' = endings c \<Longrightarrow> ends_in_order c'"
  by (simp add: ends_in_order_def)

lemma endings_told: "told (\<lambda>e. e = Terminated) c = length (filter (\<lambda>e. e = Terminated) (endings c))"
  by (simp add: told_def endings_def) (rule arg_cong [of _ _ length], rule filter_cong, auto simp: quiet_event_def)

lemma endings_fields: "c_events c' = c_events c \<Longrightarrow> endings c' = endings c"
  by (simp add: endings_def)

lemma terminate_tells_nothing [simp]: "c_events (terminate ec c) = c_events c"
  by (simp add: terminate_def cancel_handshake_timer_def async_def Let_def split: option.split)

lemma write_tells_nothing [simp]: "c_events (write_frame c) = c_events c" "c_events (handle_write_frame ec c) = c_events c"
  by (simp_all add: write_frame_def handle_write_frame_def async_def Let_def)

lemma endings_simps [simp]:
  "endings (push_and_dispatch msg c) = endings c" "endings (terminate ec c) = endings c"
  "endings (c\<lparr>c_state := st\<rparr>) = endings c" "endings (complete p c) = endings c"
  "endings (write_frame c) = endings c" "endings (handle_write_frame ec c) = endings c"
  by (rule endings_fields, simp add: complete_def)+

interpretation end_order: connection_invariant ends_in_order
proof
  show "ends_in_order ((connection_new server rng)\<lparr>c_internal := PROCESS_CONNECTION, c_state := S_open,
      c_processor := Some (hybi13_new server 32000000),
      c_buf := m, c_pending := (if timer then [P_open_timer] else [])\<rparr>)" for server rng m timer
    using ending.init [where server = server and rng = rng and m = m and timer = timer]
    by (cases timer) (simp_all add: ends_in_order_def endings_def connection_new_def)
  show "ends_in_order c'" if "basic_step c c'" "ends_in_order c" for c c'
  proof (rule ends_in_order_fields [OF that(2)])
    show "ends_once c'" using that ending.basic by (auto simp: ends_in_order_def)
    show "endings c' = endings c" using that(1)
      by (cases rule: basic_step.cases) (simp_all, simp add: same_core_def endings_def)
  qed
  show "ends_in_order (write_frame (complete P_write_frame c))" if "ends_in_order c" "P_write_frame \<in> set (c_pending c)" for c
    by (rule ends_in_order_fields [OF that(1)]) (use that ending.writes in \<open>simp_all add: ends_in_order_def\<close>)
  show "ends_in_order (handle_write_frame ec (complete P_write c))" if "ends_in_order c" "P_write \<in> set (c_pending c)" for ec c
    by (rule ends_in_order_fields [OF that(1)]) (use that ending.written in \<open>simp_all add: ends_in_order_def\<close>)
  show "c_state c = S_closed" if "ends_in_order c" "P_shutdown t \<in> set (c_pending c)" for c t
    using that ending.down by (simp add: ends_in_order_def)
  show "ends_in_order (tell Terminated c')" if "ends_in_order c" "P_shutdown t \<in> set (c_pending c)"
    "es = [] \<or> es = [Closed] \<or> es = [Failed]" "same_core ((complete (P_shutdown t) c)\<lparr>c_events := c_events c @ es\<rparr>) c'"
    for c t es c'
  proof -
    have "told (\<lambda>e. e = Terminated) c = 0"
      using that(1) shutdowns_done [OF that(2)] by (auto simp: ends_in_order_def ends_once_def split: if_splits)
    then have "endings c = []" using that(1) by (auto simp: ends_in_order_def endings_told)
    then have "endings c' = es" using that(3,4) by (auto simp: same_core_def endings_def quiet_event_def)
    then have "endings (tell Terminated c') = es @ [Terminated]" by (simp add: endings_def tell_def quiet_event_def)
    with ending.shut [OF _ that(2-4)] that(1,3) show ?thesis by (auto simp: ends_in_order_def)
  qed
qed

text \<open>C8. A connection that has been opened ends once, in order: whatever happens from then on, the shutdown is asked
for exactly when the connection closes; what it tells of its end is nothing, or one report of its termination with
at most one close or fail handler before it, so that no such handler runs after the report or twice; and a
closed connection whose end is not reported has its shutdown under way. The reachable states start from an opened
connection: a client that opens with its shutdown already under way (\<open>client_reopens\<close> in \<open>WsOpened\<close>) is not
among them.\<close>

theorem ends_exactly_once:
  assumes "reach app resumes server rng c" and "api_only app resumes"
  shows "shutdowns (c_pending c) + told (\<lambda>e. e = Terminated) c = (if c_state c = S_closed then 1 else 0)
    \<and> told (\<lambda>e. e = Closed \<or> e = Failed) c \<le> told (\<lambda>e. e = Terminated) c
    \<and> filter (\<lambda>e. e \<in> {Closed, Failed, Terminated}) (c_events c)
        \<in> {[], [Terminated], [Closed, Terminated], [Failed, Terminated]}
    \<and> (c_state c = S_closed \<and> Terminated \<notin> set (c_events c) \<longrightarrow> (\<exists>t. P_shutdown t \<in> set (c_pending c)))"
proof -
  have e: "ends_once c" and o: "endings c \<in> {[], [Terminated], [Closed, Terminated], [Failed, Terminated]}"
    using end_order.reachable [OF assms] by (auto simp: ends_in_order_def)
  have "filter (\<lambda>e. e \<in> {Closed, Failed, Terminated}) (c_events c) = endings c"
    unfolding endings_def by (rule filter_cong) (auto simp: quiet_event_def)
  moreover have "filter (\<lambda>e. e = Terminated) (c_events c) = []" if "Terminated \<notin> set (c_events c)"
    using that by (auto simp: filter_empty_conv)
  moreover have "\<exists>t. P_shutdown t \<in> set ps" if "shutdowns ps \<noteq> 0" for ps
    using that by (induction ps) (auto split: if_splits)
  ultimately show ?thesis using e o by (auto simp: ends_once_def told_def)
qed

definition tcp_ended :: connection where
  "tcp_ended = handle_write_frame (Some (Trans trans_eof)) (complete P_write (write_frame (complete P_write_frame tcp_sent)))"

lemma reach_ended: "reach tcp_app resumes True (\<lambda>_. 0) tcp_ended"
proof -
  have "P_write_frame \<in> set (c_pending tcp_sent)" "P_write \<in> set (c_pending (write_frame (complete P_write_frame tcp_sent)))"
    by code_simp+
  then show ?thesis unfolding tcp_ended_def
    by (intro reach_step [OF reach_step [OF reach_sent step_write_frame] step_written])
qed

theorem ends_exactly_once_witness:
  "c_state tcp_ended = S_closed \<and> Terminated \<notin> set (c_events tcp_ended) \<and> (\<exists>t. P_shutdown t \<in> set (c_pending tcp_ended))"
proof -
  have "c_state tcp_ended = S_closed" "Terminated \<notin> set (c_events tcp_ended)" by code_simp+
  with ends_exactly_once [OF reach_ended tcp_app_only] show ?thesis by blast
qed

lemma close_prepared:
  assumes "m_server h" and "\<not> close_invalid code" and "\<not> close_reserved code" and "length reason \<le> 123"
  shows "\<exists>hd. prepare_close rng h code reason (Some out) = (None, Some (out\<lparr>m_header := hd,
      m_payload := le_bytes 2 (htons code) @ reason, m_opcode := op_close, m_prepared := True\<rparr>))"
proof -
  have "code \<noteq> status_no_status" using assms(2) by (auto simp: close_invalid_def)
  then show ?thesis
    using assms by (simp add: prepare_close_def prepare_control_def Let_def limit_defs is_control_def) blast
qed

text \<open>C20. A valid close frame of at most 125 octets, whose code and reason the processor reads without an error,
is answered and ends the connection, on a server that is open, has nothing queued and no write under way: the
connection is closing at once and clean, the next \<open>write_frame\<close> writes one close frame with the peer's code, or 1000
when it named none, and its reason, and the completion of that write closes the connection and shuts the
transport down. (The answer of a client is not terminal, so its write closes nothing: a client waits for the server
to shut the transport down. A server that is closing already does not answer.)\<close>

theorem close_answered:
  assumes "c_state c = S_open" and "c_is_server c" and "c_processor c = Some h" and "m_server h"
    and "c_send_queue c = []" and "\<not> c_write_flag c" and "c_current_msgs c = []"
    and "m_opcode msg = op_close" and "length (m_payload msg) \<le> 125"
    and "extract_code (m_payload msg) = (code, None)" and "extract_reason (m_payload msg) = (reason, None)"
  shows "\<exists>out c1 c2. process_control_frame app msg c = c1 \<and> c_state c1 = S_closing \<and> c_was_clean c1
    \<and> P_write_frame \<in> set (c_pending c1) \<and> write_frame (complete P_write_frame c1) = c2
    \<and> c_wire c2 = c_wire c @ wire_of out \<and> m_opcode out = op_close
    \<and> m_payload out = le_bytes 2 (htons (if code = status_no_status then status_normal else code)) @ reason
    \<and> P_write \<in> set (c_pending c2) \<and> c_state (handle_write_frame None (complete P_write c2)) = S_closed
    \<and> P_shutdown t_closed \<in> set (c_pending (handle_write_frame None (complete P_write c2)))"
proof -
  let ?code = "if code = status_no_status then status_normal else code"
  have code: "\<not> close_invalid ?code" "\<not> close_reserved ?code" "code = status_no_status \<Longrightarrow> reason = []"
    "code \<noteq> status_blank" "length reason \<le> 123"
    using assms(9-11)
    by (auto simp: extract_code_def extract_reason_def Let_def status_defs close_invalid_def close_reserved_def split: if_splits)
  let ?c0 = "c\<lparr>c_remote_close_code := code, c_remote_close_reason := reason,
      c_local_close_code := ?code, c_local_close_reason := reason\<rparr>"
  obtain hd where prep: "prepare_close (random_value ?c0) h ?code reason (Some (get_message_op 0))
      = (None, Some ((get_message_op 0)\<lparr>m_header := hd, m_payload := le_bytes 2 (htons ?code) @ reason,
           m_opcode := op_close, m_prepared := True\<rparr>))"
    using close_prepared [OF assms(4) code(1,2,5)] by blast
  define out where "out = (get_message_op 0)\<lparr>m_header := hd, m_payload := le_bytes 2 (htons ?code) @ reason,
           m_opcode := op_close, m_prepared := True, m_terminal := True\<rparr>"
  define c0 where "c0 = (let d = ?c0\<lparr>c_state := S_closing, c_was_clean := True\<rparr>
      in if c_close_handshake_timeout_dur d > 0 then async P_close_timer (d\<lparr>c_handshake_timer := True\<rparr>) else d)"
  have ch: "choose_close status_blank [] True (c\<lparr>c_remote_close_code := code, c_remote_close_reason := reason\<rparr>) = (?code, reason)"
    using code(3) by (simp add: choose_close_def silent_close_def)
  have "process_control_frame app msg c = push_and_dispatch out c0"
    using assms(1-4,8,10,11) ch prep
    by (simp add: process_control_frame_def receive_close_def send_close_ack_def send_close_frame_def Let_def
        mgr_get_message_def draw_key_def c0_def out_def)
  moreover have c0: "c_send_queue c0 = []" "\<not> c_write_flag c0" "c_current_msgs c0 = []" "c_state c0 = S_closing"
    "c_was_clean c0" "c_wire c0 = c_wire c"
    using assms(5-7) by (simp_all add: c0_def Let_def async_def)
  moreover have "m_terminal out" "m_opcode out = op_close" "m_payload out = le_bytes 2 (htons ?code) @ reason"
    by (simp_all add: out_def)
  moreover obtain c1 where c1: "c1 = push_and_dispatch out c0" by blast
  have f1: "c_send_queue c1 = [out]" "\<not> c_write_flag c1" "c_current_msgs c1 = []" "c_state c1 = S_closing" "c_was_clean c1"
    "c_wire c1 = c_wire c" "P_write_frame \<in> set (c_pending c1)"
    using c0 by (simp_all add: c1 push_and_dispatch_def write_push_def async_def Let_def)
  obtain c2 where c2: "c2 = write_frame (complete P_write_frame c1)" by blast
  have f2: "c_current_msgs c2 = [out]" "c_wire c2 = c_wire c @ wire_of out" "P_write \<in> set (c_pending c2)" "c_state c2 = S_closing"
    using f1 \<open>m_terminal out\<close> by (simp_all add: c2 write_frame_def complete_def pop_messages_eq async_def Let_def)
  have f3: "c_state (handle_write_frame None (complete P_write c2)) = S_closed"
    "P_shutdown t_closed \<in> set (c_pending (handle_write_frame None (complete P_write c2)))"
    using f2 \<open>m_terminal out\<close>
    by (simp_all add: handle_write_frame_def complete_def Let_def terminate_def cancel_handshake_timer_def async_def)
  ultimately show ?thesis using f1 f2 f3 c1 c2 by (intro exI [of _ out] exI [of _ c1] exI [of _ c2]) simp
qed

definition close_sample :: ws_message where
  "close_sample = (get_message_op op_close)\<lparr>m_payload := [3, 233, 98]\<rparr>"

theorem close_answered_witness:
  "\<exists>out c1. process_control_frame tcp_app close_sample tcp_start = c1 \<and> c_state c1 = S_closing
     \<and> m_payload out = le_bytes 2 (htons 1001) @ [98]
     \<and> c_wire (write_frame (complete P_write_frame c1)) = c_wire tcp_start @ wire_of out"
proof -
  have "extract_code (m_payload close_sample) = (1001, None)" "extract_reason (m_payload close_sample) = ([98], None)"
    "m_opcode close_sample = op_close" "length (m_payload close_sample) \<le> 125" by code_simp+
  moreover have "c_state tcp_start = S_open" "c_is_server tcp_start" "c_send_queue tcp_start = []" "\<not> c_write_flag tcp_start"
    "c_current_msgs tcp_start = []" by code_simp+
  moreover obtain h where "c_processor tcp_start = Some h" "m_server h"
    by (simp add: tcp_start_def opened_def tcp_app_def read_frame_def async_def new_idle Let_def connection_new_def)
  ultimately show ?thesis
    using close_answered [of tcp_start h close_sample 1001 "[98]" tcp_app] by (auto simp: status_defs)
qed

subsection \<open>Unintended behaviour\<close>

declare frame_loop.simps [code]

text \<open>A masked close frame with the invalid code 0.\<close>

definition bad_close :: bytes where
  "bad_close = [0x88, 0x82, 0, 0, 0, 0, 0, 0]"

text \<open>A connection can send two close frames: when the application has closed it and the peer's close
frame carries an invalid code, the code answers with a second close frame behind the first, where
RFC 6455 has an endpoint send one.\<close>

theorem closes_twice:
  "\<exists>c. reach tcp_app False True (\<lambda>_. 0) c \<and> length (filter is_close (c_pushed c)) = 2"
proof -
  have "P_read \<in> set (c_pending tcp_closing)" by code_simp
  moreover have "case read_done tcp_app None bad_close (complete P_read tcp_closing) of None \<Rightarrow> False
      | Some c \<Rightarrow> length (filter is_close (c_pushed c)) = 2" by code_simp
  then obtain c where "read_done tcp_app None bad_close (complete P_read tcp_closing) = Some c"
    "length (filter is_close (c_pushed c)) = 2" by (auto split: option.splits)
  ultimately have "con_step tcp_app False tcp_closing c"
    by (intro step_read [of tcp_closing None bad_close]) (simp_all add: bad_close_def)
  with \<open>length (filter is_close (c_pushed c)) = 2\<close> show ?thesis using reach_step [OF reach_closing] by blast
qed

text \<open>\<open>resume_reading\<close> on a connection that is not paused changes something, against its comment: it
starts a second read on the same buffer.\<close>

theorem resume_reads_twice:
  "\<exists>c. reach tcp_app True True (\<lambda>_. 0) c \<and> P_pause \<notin> set (c_pending c) \<and> c_read_flag c \<and> count_list (c_pending c) P_read = 2"
proof -
  let ?c = "handle_resume_reading (complete P_resume (resume_reading tcp_start))"
  have "P_resume \<in> set (c_pending (resume_reading tcp_start))" by code_simp
  then have "reach tcp_app True True (\<lambda>_. 0) ?c"
    by (intro reach_step [OF reach_step [OF reach_start step_api [OF api_resume]] step_resume]) simp_all
  moreover have "P_pause \<notin> set (c_pending ?c) \<and> c_read_flag ?c \<and> count_list (c_pending ?c) P_read = 2" by code_simp
  ultimately show ?thesis by blast
qed

text \<open>The header of a masked message of \<open>2 ^ 32\<close> octets, above the limit, in one read.\<close>

definition big_header :: bytes where
  "big_header = [0x82, 0xFF, 0, 0, 0, 1, 0, 0, 0, 0, 0, 0, 0, 0]"

lemma payload_without_message:
  assumes "m_hstate h = APPLICATION" and "current_metadata h = None" and "0 < m_bytes_needed h" and "0 < n"
  shows "consume p n h m = None"
proof -
  have "0 < min (unat (m_bytes_needed h)) (n - 0)" using assms(3,4) by (simp add: unat_pos)
  then have "consume_turn p n 0 h m = Crash"
    unfolding consume_turn_def using assms(1,2) by (simp add: process_payload_bytes_def Let_def)
  moreover have "consume_more n 0 h" using assms by (simp add: consume_more_def)
  ultimately show ?thesis by (simp add: consume_def consume_loop.simps [of p n 0])
qed

text \<open>Resuming after a failed read ends in undefined behaviour: a header that announces too large a
message leaves the processor without a message, and if the application then calls \<open>resume_reading\<close>
the next octet makes the processor follow a null pointer.\<close>

theorem resume_after_error_crashes:
  "\<exists>c. reach tcp_app True True (\<lambda>_. 0) c \<and> c_crashed c"
proof -
  have "case read_done tcp_app None big_header (complete P_read tcp_start) of None \<Rightarrow> False | Some c \<Rightarrow>
      c_pending c = [P_close_timer, P_write_frame] \<and> c_read_flag c \<and> c_internal c = PROCESS_CONNECTION
      \<and> (case c_processor c of None \<Rightarrow> False | Some h \<Rightarrow>
           m_hstate h = APPLICATION \<and> m_current_msg h = NoMsg \<and> 0 < m_bytes_needed h)" by code_simp
  then obtain c h where c: "read_done tcp_app None big_header (complete P_read tcp_start) = Some c"
    "c_pending c = [P_close_timer, P_write_frame]" "c_read_flag c" "c_internal c = PROCESS_CONNECTION"
    "c_processor c = Some h" "m_hstate h = APPLICATION" "m_current_msg h = NoMsg" "0 < m_bytes_needed h"
    by (auto split: option.splits)
  let ?r = "handle_resume_reading (complete P_resume (resume_reading c))"
  have res: "P_resume \<in> set (c_pending (resume_reading c))" and r: "P_read \<in> set (c_pending ?r)"
    "c_processor ?r = Some h" "c_internal ?r = PROCESS_CONNECTION"
    using c by (simp_all add: resume_reading_def handle_resume_reading_def read_frame_def async_def complete_def)
  have "P_read \<in> set (c_pending tcp_start)" by code_simp
  then have "con_step tcp_app True tcp_start c"
    by (rule step_read [OF _ refl _ _ c(1)]) (simp_all add: big_header_def)
  then have "reach tcp_app True True (\<lambda>_. 0) ?r"
    by (intro reach_step [OF reach_step [OF reach_step [OF reach_start] step_api [OF api_resume]] step_resume] res) simp_all
  moreover obtain c' where c': "read_done tcp_app None [0] (complete P_read ?r) = Some c'" "c_crashed c'"
  proof -
    have "current_metadata h = None" using c(7) by (simp add: current_metadata_def)
    then have "consume 0 1 h m = None" for m using payload_without_message c(6,8) by simp
    then show thesis
      using that r by (simp add: read_done_def handle_read_frame_def frame_loop.simps [of _ "Suc 0" 0] complete_def)
  qed
  have "con_step tcp_app True ?r c'"
    by (rule step_read [OF r(1) refl _ _ c'(1)]) simp_all
  ultimately show ?thesis using c'(2) reach_step by blast
qed

end
