(* ===== verification/WsDelivery.thy ===== *)
theory WsDelivery imports WsEnding begin

text \<open>
  What arrives at a connection of the program: every reachable connection is safe to read from, what a
  peer transmits reaches the message handler as the messages that were sent, and no message is handed
  over once the end of the connection is reported.
\<close>

subsection \<open>Properties of reading\<close>

text \<open>C4. A connection whose application never calls \<open>resume_reading\<close> follows no null pointer, whatever
octets arrive in whatever pieces and whatever the application, the timers and the transport do; it has
at most one read under way, and every completion of that read returns.\<close>

theorem connection_never_crashes:
  assumes "reach app False server rng c" and "api_only app False"
  shows "\<not> c_crashed c \<and> count_list (c_pending c) P_read \<le> 1
    \<and> (P_read \<in> set (c_pending c) \<longrightarrow> (\<forall>ec data. read_done app ec data (complete P_read c) \<noteq> None))"
proof (intro conjI impI allI)
  have inv: "read_inv c" by (rule reach_read [OF assms])
  then show "\<not> c_crashed c" by (simp add: read_inv_def)
  have "count_list (c_pending c) P_read = count_list (read_ops c) P_read"
    by (simp add: count_filter read_ops_def read_op_def conj_commute) (rule arg_cong [of _ _ length], rule filter_cong, auto)
  then show "count_list (c_pending c) P_read \<le> 1" using inv by (auto simp: read_inv_def)
  show "read_done app ec data (complete P_read c) \<noteq> None" if "P_read \<in> set (c_pending c)" for ec data
    using complete_read [OF inv that] read_done_total [OF assms(2)] by (metis option.distinct(1))
qed

theorem connection_never_crashes_witness:
  "P_read \<in> set (c_pending tcp_start) \<and> \<not> c_crashed tcp_start
     \<and> (\<forall>ec data. read_done tcp_app ec data (complete P_read tcp_start) \<noteq> None)"
proof -
  have "P_read \<in> set (c_pending tcp_start)" by code_simp
  with connection_never_crashes [OF reach_start tcp_app_only] show ?thesis by blast
qed

lemma opened_same:
  assumes "api_only app False"
  shows "c_received (opened app server rng m timer) = []" and "c_buf (opened app server rng m timer) = m"
proof -
  let ?c = "(connection_new server rng)\<lparr>c_internal := PROCESS_CONNECTION, c_state := S_open,
      c_processor := Some (hybi13_new server 32000000),
      c_buf := m, c_pending := (if timer then [P_open_timer] else [])\<rparr>"
  have "same_reading ?c (f (tell Opened ?c))" if "on_open app = Some f" for f
    by (rule tell_call_reading [of ?c f]) (use handlers_reading(1) [OF assms _ that] in auto)
  then have "same_reading ?c (opened app server rng m timer)"
    by (auto simp: opened_def Let_def split: option.split)
  then show "c_received (opened app server rng m timer) = []" "c_buf (opened app server rng m timer) = m"
    by (simp_all add: same_reading_def connection_new_def)
qed

lemma opened_delivers:
  assumes "api_only app False" and "follows app J" and "J [] (opened app server rng m timer)" and "m_server hs = (\<not> server)"
    and "\<forall>(rng, out, item) \<in> set items. sendable 32000000 item"
    and "transmit hs items = Some (concat cs)"
  shows "\<exists>c. feed app cs (opened app server rng m timer) = Some c \<and> J (c_received c) c
    \<and> map message_view (c_received c) = map (\<lambda>(_, _, item). item_view item) items"
proof -
  let ?c = "opened app server rng m timer"
  note new = opened_reading [OF assms(1), where server = server and rng = rng and m = m and timer = timer]
    opened_same [OF assms(1), where server = server and rng = rng and m = m and timer = timer]
  obtain ms h' where r: "read_chunks (c_buf ?c) cs (hybi13_new server 32000000) = Some (ms, None, h')"
    "map message_view ms = map (\<lambda>(_, _, item). item_view item) items"
    using conversation [OF new_idle(1,2) _ _ assms(6), of server 32000000 "c_buf ?c"] assms(4,5) by (auto simp: new_idle)
  from feed_reads [OF assms(1,2) r(1) new(1) new(4) assms(3)] obtain c where
    c: "feed app cs ?c = Some c" "c_received c = ms" "J ms c" by (auto simp: new(5))
  with r(2) show ?thesis by blast
qed

text \<open>C10. Whatever application is attached, a connection takes from its processor exactly the messages its
peer transmitted, in order: text and binary messages within the size limit, pings, pongs and close
frames in any mix, however the transport cuts the octets into reads.\<close>

theorem connection_delivers:
  assumes "api_only app False" and "m_server hs = (\<not> server)"
    and "\<forall>(rng, out, item) \<in> set items. sendable 32000000 item"
    and "transmit hs items = Some (concat cs)"
  shows "\<exists>c. feed app cs (opened app server rng m timer) = Some c
    \<and> map message_view (c_received c) = map (\<lambda>(_, _, item). item_view item) items"
  using opened_delivers [OF assms(1) follows_nothing _ assms(2-4)] by auto

theorem connection_delivers_witness:
  "\<exists>bs c. transmit (hybi13_new False 10) sample_items = Some bs
     \<and> feed tcp_app [take 3 bs, drop 3 bs] (opened tcp_app True (\<lambda>_. 0) (\<lambda>_. 0) False) = Some c
     \<and> map message_view (c_received c) = [(op_binary, [1, 2, 3]), (op_close, [3, 232, 98, 121])]"
proof -
  obtain bs where bs: "transmit (hybi13_new False 10) sample_items = Some (concat [take 3 bs, drop 3 bs])"
    using sample_sent by auto
  have views: "map (\<lambda>(_, _, item). item_view item) sample_items
      = [(op_binary, [1, 2, 3]), (op_close, [3, 232, 98, 121])]" by code_simp
  have "\<forall>(rng, out, item) \<in> set sample_items. sendable 32000000 item"
    by (simp add: sample_items_def get_message_op_def)
  from connection_delivers [OF tcp_app_only, of "hybi13_new False 10" True, OF _ this bs] bs show ?thesis
    unfolding views by (auto simp: new_idle(3) simp del: feed.simps)
qed

subsection \<open>What the program is told\<close>

text \<open>The program's connection is open after messages without a close frame, and has handed the data
  messages over.\<close>

definition heard :: "ws_message list \<Rightarrow> connection \<Rightarrow> bool" where
  "heard ms c \<longleftrightarrow> (\<forall>msg \<in> set ms. \<not> is_close msg) \<longrightarrow>
     c_state c = S_open \<and> c_events c = map Got_message (filter (\<lambda>msg. \<not> is_control (m_opcode msg)) ms)"

lemma pong_told: "c_state (snd (con_pong payload c)) = c_state c \<and> c_events (snd (con_pong payload c)) = c_events c"
  by (auto simp: con_pong_def mgr_get_message_def draw_key_def push_and_dispatch_def write_push_def async_def Let_def
      split: option.split prod.split)

lemma tcp_dispatch:
  assumes "c_state c = S_open" and "\<not> is_close msg"
  shows "c_state (dispatch_message tcp_app msg c) = S_open
    \<and> c_events (dispatch_message tcp_app msg c) = c_events c @ (if is_control (m_opcode msg) then [] else [Got_message msg])"
  using assms pong_told
  by (auto simp: dispatch_message_def process_control_frame_def Let_def receive_ping_def receive_pong_def tcp_app_def
      tell_def is_close_def)

lemma tcp_follows: "follows tcp_app heard"
  unfolding follows_def
proof (intro conjI allI impI)
  show "heard (ms @ [msg]) (dispatch_message tcp_app msg c)" if "heard ms c" for ms c msg
    using that tcp_dispatch [of c msg] by (auto simp: heard_def)
qed (simp_all add: heard_def read_frame_def async_def)

end
