(* ===== verification/WsOpened.thy ===== *)
theory WsOpened imports WsOpening WsDelivery begin

text \<open>
  What the opening handshake of a server comes to: in every state it reaches, one operation of the
  transport will carry it on, and when it opens the connection, the connection is one of those the
  theories on open connections speak of.
\<close>

subsection \<open>The request parser is defined\<close>

lemma no_crlf_prefix: "no_crlf (a @ b) \<Longrightarrow> no_crlf a"
  by (induction a) (auto simp: hd_append)

lemma no_crlf_tl: "no_crlf s \<Longrightarrow> no_crlf (tl s)"
  by (cases s) simp_all

lemma process_header_defined: "no_crlf line \<Longrightarrow> process_header line r \<noteq> Undefined_text"
proof -
  assume line: "no_crlf line"
  let ?k = "takeWhile (\<lambda>d. d \<noteq> CHR '':'') line" and ?v = "dropWhile (\<lambda>d. d \<noteq> CHR '':'') line"
  have k: "no_crlf ?k" and v: "no_crlf ?v"
    using line takeWhile_dropWhile_id [of "\<lambda>d. d \<noteq> CHR '':''" line] no_crlf_prefix [of ?k ?v] no_crlf_suffix [of ?k ?v] by simp_all
  from no_crlf_tl [OF v] have "no_crlf (tl ?v)" .
  with strip_defined [of "tl ?v"] strip_defined [OF k] show ?thesis
    by (auto simp: process_header_def split_at_char_def append_header_def split: if_splits)
qed

lemma request_line_defined: "no_crlf line \<Longrightarrow> request_line line r \<noteq> Undefined_text"
  using process_header_defined [of line r]
  by (auto simp: request_line_def request_process_def set_method_def Let_def case_prod_beta)

definition parse_ok :: "request \<Rightarrow> bool" where
  "parse_ok r \<longleftrightarrow> q_ready r \<or> 0 < h_body_bytes_needed r \<or> q_buf r \<noteq> None"

text \<open>A result with a count within \<open>n\<close> octets and a request that can be read on.\<close>

definition parsed_ok :: "nat \<Rightarrow> (nat \<times> request) parsed \<Rightarrow> bool" where
  "parsed_ok n x \<longleftrightarrow> x \<noteq> Undefined_text \<and> (\<forall>k r. x = Parsed (k, r) \<longrightarrow> k \<le> n \<and> parse_ok r)"

lemma parsed_ok_simps [simp]:
  "parsed_ok n (Threw code)" "parsed_ok n (Parsed (k, r)) \<longleftrightarrow> k \<le> n \<and> parse_ok r" "\<not> parsed_ok n Undefined_text"
  by (simp_all add: parsed_ok_def)

lemma parsed_ok_then: "x \<noteq> Undefined_text \<Longrightarrow> (\<And>y. x = Parsed y \<Longrightarrow> parsed_ok n (f y)) \<Longrightarrow> parsed_ok n (and_then x f)"
  by (cases x) simp_all

lemma threw_then: "and_then x f = Threw code \<Longrightarrow> (x = Threw code \<Longrightarrow> P) \<Longrightarrow> (\<And>y. x = Parsed y \<Longrightarrow> f y = Threw code \<Longrightarrow> P) \<Longrightarrow> P"
  by (cases x) simp_all

lemma end_of_head_ok: "parsed_ok (length buf) (end_of_head buf rest r)"
proof -
  let ?n = "length buf + 2 - (length rest + 2)"
  have "parsed_ok (length buf) (and_then (process_body (drop ?n buf) r') (\<lambda>(k, r). Parsed (?n + k, if body_ready r then r\<lparr>q_ready := True\<rparr> else r)))" for r'
    by (auto simp: process_body_def Let_def body_ready_def parse_ok_def)
  moreover have "prepare_body r' \<noteq> Undefined_text" for r' :: request by (simp add: prepare_body_def Let_def)
  ultimately show ?thesis
    by (auto simp: end_of_head_def Let_def parse_ok_def intro!: parsed_ok_then split: prod.split)
qed

lemma head_loop_ok: "parsed_ok (length buf) (head_loop buf rest r)"
proof (induction buf rest r rule: head_loop.induct)
  case (1 buf rest r)
  show ?case
  proof (cases "split_crlf rest")
    case None
    then show ?thesis by (simp add: head_loop.simps [of buf rest] Let_def parse_ok_def)
  next
    case (Some p)
    obtain line after where p: "p = (line, after)" by fastforce
    have "no_crlf line" using split_crlf_some Some p by blast
    note defined = request_line_defined [OF this]
    show ?thesis
      using Some p end_of_head_ok defined 1 [OF Some p [symmetric] refl]
      by (auto simp: head_loop.simps [of buf rest] Let_def intro!: parsed_ok_then)
  qed
qed

lemma request_consume_ok: "parse_ok r \<Longrightarrow> parsed_ok (length buf) (request_consume buf r)"
proof -
  assume ok: "parse_ok r"
  have "parsed_ok (length buf) (and_then (process_body buf r) (\<lambda>(n, r). Parsed (n, if body_ready r then r\<lparr>q_ready := True\<rparr> else r)))"
    by (auto simp: process_body_def Let_def body_ready_def parse_ok_def)
  with ok head_loop_ok [of buf] show ?thesis by (auto simp: request_consume_def parse_ok_def)
qed

text \<open>The parser throws errors only.\<close>

lemma head_loop_code: "head_loop buf rest r = Threw code \<Longrightarrow> 400 \<le> code"
proof (induction buf rest r rule: head_loop.induct)
  case (1 buf rest r)
  have process: "process_body b x = Threw code \<Longrightarrow> 400 \<le> code" "append_header k v x = Threw code \<Longrightarrow> 400 \<le> code" for b k v and x :: request
    by (auto simp: process_body_def append_header_def Let_def sc_bad_request_def sc_internal_server_error_def split: if_splits)
  have line: "request_line l x = Threw code \<Longrightarrow> 400 \<le> code" for l x
    using process(2)
    by (auto simp: request_line_def request_process_def set_method_def process_header_def sc_bad_request_def Let_def case_prod_beta
        split: if_splits option.splits)
  have prepare: "prepare_body x = Threw code \<Longrightarrow> 400 \<le> code" for x :: request
    by (auto simp: prepare_body_def Let_def sc_request_entity_too_large_def split: if_splits)
  have blank: "end_of_head buf after x = Threw code \<Longrightarrow> 400 \<le> code" for after x
    using prepare process(1)
    by (cases "prepare_body (x\<lparr>q_buf := None\<rparr>)")
       (auto simp: end_of_head_def Let_def sc_bad_request_def split: if_splits prod.splits elim: threw_then)
  show ?case
  proof (cases "split_crlf rest")
    case None
    then show ?thesis using 1(2) by (auto simp: head_loop.simps [of buf rest] Let_def sc_request_header_fields_too_large_def split: if_splits)
  next
    case (Some p)
    obtain l after where p: "p = (l, after)" by fastforce
    from 1(2) Some p show ?thesis
      using blank line 1(1) [OF Some p [symmetric] refl]
      by (auto simp: head_loop.simps [of buf rest] Let_def sc_request_header_fields_too_large_def elim!: threw_then split: if_splits)
  qed
qed

lemma consume_code: "request_consume buf r = Threw code \<Longrightarrow> code \<noteq> sc_switching_protocols"
  using head_loop_code [of buf _ r code]
  by (force simp: request_consume_def process_body_def Let_def sc_internal_server_error_def sc_switching_protocols_def
      split: if_splits option.splits)

subsection \<open>The states of a handshake\<close>

text \<open>The connection of a server while it waits, with the open timer still to complete or not.\<close>

definition waiting :: "(nat \<Rightarrow> u32) \<Rightarrow> istate \<Rightarrow> hybi13 option \<Rightarrow> memory \<Rightarrow> error_code option \<Rightarrow> bool \<Rightarrow> bool \<Rightarrow> bool \<Rightarrow>
    pending_op list \<Rightarrow> connection" where
  "waiting rng i p m e http armed timer ops = (connection_new True rng)\<lparr>c_internal := i, c_processor := p, c_buf := m, c_ec := e,
     c_is_http := http, c_handshake_timer := armed, c_pending := (if timer then [P_open_timer] else []) @ ops\<rparr>"

definition reading_request :: "(nat \<Rightarrow> u32) \<Rightarrow> handshake \<Rightarrow> bool" where
  "reading_request rng o' \<longleftrightarrow>
     (\<exists>m armed timer. o_con o' = waiting rng READ_HTTP_REQUEST None m None False armed timer [P_read_handshake])
     \<and> parse_ok (o_request o')"

text \<open>A switching response is only written for a processor.\<close>

definition writing_response :: "(nat \<Rightarrow> u32) \<Rightarrow> handshake \<Rightarrow> bool" where
  "writing_response rng o' \<longleftrightarrow>
     (\<exists>p m e http armed timer. o_con o' = waiting rng PROCESS_HTTP_REQUEST p m e http armed timer [P_write_response]
       \<and> (s_status_code (o_response o') = sc_switching_protocols \<longrightarrow>
            (o_version o' = Some 0 \<or> p = Some (hybi13_new True 32000000)) \<and> e = None \<and> \<not> http
            \<and> (\<exists>rest. length rest = o_buf_cursor o' \<and> length rest \<le> 16384 \<and> poke 0 rest m = m)))"

definition connecting :: "(nat \<Rightarrow> u32) \<Rightarrow> handshake \<Rightarrow> bool" where
  "connecting rng o' \<longleftrightarrow>
     (o_con o' = waiting rng TRANSPORT_INIT None (\<lambda>_. 0) None False False False [P_init] \<and> o_request o' = request_new)
     \<or> reading_request rng o' \<or> writing_response rng o'"

text \<open>A handshake that has failed: closed, and the transport shutting down.\<close>

definition failed :: "handshake \<Rightarrow> bool" where
  "failed o' \<longleftrightarrow> c_state (o_con o') = S_closed \<and> c_internal (o_con o') \<noteq> PROCESS_CONNECTION
     \<and> P_shutdown t_failed \<in> set (c_pending (o_con o')) \<and> \<not> c_crashed (o_con o')"

definition just_opened :: "con_app \<Rightarrow> (nat \<Rightarrow> u32) \<Rightarrow> handshake \<Rightarrow> bool" where
  "just_opened app rng o' \<longleftrightarrow>
     (\<exists>rest m timer. length rest \<le> 16384 \<and> read_done app None rest (opened app True rng m timer) = Some (o_con o'))"

text \<open>Handlers that use the interface for the handshake: they leave the connection to the library, which excludes
an HTTP handler that defers its response, and a handler that refuses does not answer that the protocol is switched.\<close>

definition handlers_ok :: "opening_handlers \<Rightarrow> bool" where
  "handlers_ok H \<longleftrightarrow>
     (\<forall>f o'. on_validate H = Some f \<longrightarrow>
        o_con (snd (f o')) = o_con o' \<and> o_request (snd (f o')) = o_request o' \<and> o_buf_cursor (snd (f o')) = o_buf_cursor o'
        \<and> o_version (snd (f o')) = o_version o' \<and> (fst (f o') \<or> s_status_code (o_response (snd (f o'))) \<noteq> sc_switching_protocols))
   \<and> (\<forall>f o'. on_http H = Some f \<longrightarrow>
        o_con (f o') = o_con o' \<and> o_buf_cursor (f o') = o_buf_cursor o'
        \<and> s_status_code (o_response (f o')) \<noteq> sc_switching_protocols)"

lemma waiting_fields [simp]:
  "c_state (waiting rng i p m e http armed timer ops) = S_connecting"
  "c_internal (waiting rng i p m e http armed timer ops) = i"
  "c_is_server (waiting rng i p m e http armed timer ops)"
  "c_processor (waiting rng i p m e http armed timer ops) = p"
  "c_buf (waiting rng i p m e http armed timer ops) = m"
  "c_ec (waiting rng i p m e http armed timer ops) = e"
  "c_is_http (waiting rng i p m e http armed timer ops) = http"
  "c_http_state (waiting rng i p m e http armed timer ops) = http_init"
  "c_max_message_size (waiting rng i p m e http armed timer ops) = 32000000"
  "c_open_handshake_timeout_dur (waiting rng i p m e http armed timer ops) = 5000"
  "\<not> c_crashed (waiting rng i p m e http armed timer ops)"
  "c_pending (waiting rng i p m e http armed timer ops) = (if timer then [P_open_timer] else []) @ ops"
  by (simp_all add: waiting_def connection_new_def)

lemma waiting_updates [simp]:
  "(waiting rng i p m e http armed timer ops)\<lparr>c_internal := i'\<rparr> = waiting rng i' p m e http armed timer ops"
  "(waiting rng i p m e http armed timer ops)\<lparr>c_processor := p'\<rparr> = waiting rng i p' m e http armed timer ops"
  "(waiting rng i p m e http armed timer ops)\<lparr>c_buf := m'\<rparr> = waiting rng i p m' e http armed timer ops"
  "(waiting rng i p m e http armed timer ops)\<lparr>c_ec := e'\<rparr> = waiting rng i p m e' http armed timer ops"
  "(waiting rng i p m e http armed timer ops)\<lparr>c_is_http := http'\<rparr> = waiting rng i p m e http' armed timer ops"
  "async q (waiting rng i p m e http armed timer ops) = waiting rng i p m e http armed timer (ops @ [q])"
  "cancel_handshake_timer (waiting rng i p m e http armed timer ops) = waiting rng i p m e http False timer ops"
  by (simp_all add: waiting_def async_def cancel_handshake_timer_def connection_new_def)

lemma complete_waiting [simp]:
  "q \<noteq> P_open_timer \<Longrightarrow> complete q (waiting rng i p m e http armed timer [q]) = waiting rng i p m e http armed timer []"
  "complete P_open_timer (waiting rng i p m e http armed True ops) = waiting rng i p m e http armed False ops"
  by (simp_all add: waiting_def complete_def connection_new_def)

lemma waiting_http [simp]:
  "waiting rng i p m e http armed timer ops = waiting rng i p m e http' armed timer ops \<longleftrightarrow> http = http'"
  by (auto dest: arg_cong [of _ _ c_is_http])

lemma on_con_fields [simp]:
  "o_con (on_con f o') = f (o_con o')" "o_request (on_con f o') = o_request o'" "o_response (on_con f o') = o_response o'"
  "o_version (on_con f o') = o_version o'" "o_buf_cursor (on_con f o') = o_buf_cursor o'" "o_sent (on_con f o') = o_sent o'"
  "o_user_agent (on_con f o') = o_user_agent o'" "o_subprotocol (on_con f o') = o_subprotocol o'"
  "o_requested_subprotocols (on_con f o') = o_requested_subprotocols o'"
  by (simp_all add: on_con_def)

lemma on_response_fields [simp]:
  "o_con (on_response g o') = o_con o'" "o_request (on_response g o') = o_request o'" "o_response (on_response g o') = g (o_response o')"
  "o_version (on_response g o') = o_version o'" "o_buf_cursor (on_response g o') = o_buf_cursor o'" "o_sent (on_response g o') = o_sent o'"
  "o_user_agent (on_response g o') = o_user_agent o'" "o_subprotocol (on_response g o') = o_subprotocol o'"
  "o_requested_subprotocols (on_response g o') = o_requested_subprotocols o'"
  by (simp_all add: on_response_def)

lemma status_fields [simp]:
  "s_status_code (set_status code r) = code" "s_status_code (set_status_msg code msg r) = code"
  "s_status_code (replace_header k v r) = s_status_code r" "s_status_code (remove_header k r) = s_status_code r"
  by (simp_all add: set_status_def set_status_msg_def replace_header_def remove_header_def)

lemma status_codes [simp]:
  "sc_bad_request \<noteq> sc_switching_protocols" "sc_upgrade_required \<noteq> sc_switching_protocols"
  "sc_internal_server_error \<noteq> sc_switching_protocols" "sc_switching_protocols \<noteq> sc_uninitialized"
  "sc_internal_server_error \<noteq> sc_uninitialized"
  by (simp_all add: sc_bad_request_def sc_upgrade_required_def sc_internal_server_error_def sc_switching_protocols_def
      sc_uninitialized_def)

lemmas status_codes_sym [simp] = status_codes [symmetric]

subsection \<open>Steps of the server\<close>

lemma terminate_failed:
  assumes "o_con o' = waiting rng i p m e http armed timer ops" and "i \<noteq> PROCESS_CONNECTION"
  shows "failed (on_con (terminate ec) o')"
  using assms by (auto simp: failed_def terminate_def async_def Let_def split: option.split)

lemma write_http_response_effect:
  assumes "ec \<noteq> Some (Lib lib_http_connection_ended)"
  shows "o_con (write_http_response ec o') = async P_write_response ((o_con o')\<lparr>c_ec :=
      (if s_status_code (o_response o') = sc_uninitialized then Some (Lib lib_general) else ec)\<rparr>)"
    and "s_status_code (o_response (write_http_response ec o')) =
      (if s_status_code (o_response o') = sc_uninitialized then sc_internal_server_error else s_status_code (o_response o'))"
    and "o_buf_cursor (write_http_response ec o') = o_buf_cursor o'"
    and "o_sent (write_http_response ec o') = o_sent o' @ [pr_get_raw (o_version o') (o_response (write_http_response ec o'))]"
    and "o_version (write_http_response ec o') = o_version o'"
  using assms by (auto simp: write_http_response_def Let_def)

lemma writes_response:
  assumes "o_con o' = waiting rng PROCESS_HTTP_REQUEST p m e http armed timer []" and "ec \<noteq> Some (Lib lib_http_connection_ended)"
    and "s_status_code (o_response o') = sc_switching_protocols \<Longrightarrow> (o_version o' = Some 0 \<or> p = Some (hybi13_new True 32000000)) \<and> ec = None \<and> \<not> http
      \<and> (\<exists>rest. length rest = o_buf_cursor o' \<and> length rest \<le> 16384 \<and> poke 0 rest m = m)"
  shows "writing_response rng (write_http_response ec o')"
  unfolding writing_response_def write_http_response_effect(1-3,5) [OF assms(2), of o']
  by (intro exI [of _ p] exI [of _ m] exI [of _ "if s_status_code (o_response o') = sc_uninitialized then Some (Lib lib_general) else ec"]
      exI [of _ http] exI [of _ armed] exI [of _ timer]) (use assms(1,3) in auto)

lemma writes_error:
  assumes "o_con o' = waiting rng READ_HTTP_REQUEST p m e http armed timer []" and "ec \<noteq> Some (Lib lib_http_connection_ended)"
    and "s_status_code (o_response o') \<noteq> sc_switching_protocols"
  shows "writing_response rng (write_http_response_error ec o')"
  unfolding write_http_response_error_def
  by (simp add: assms(1)) (rule writes_response, use assms in auto)

lemma unfolded_con: "o_con o' = waiting rng i p m e http armed timer ops \<Longrightarrow> o'\<lparr>o_con := waiting rng i p m e http armed timer ops\<rparr> = o'"
  by (cases o') simp

text \<open>The processor the request asks for.\<close>

lemma initialize_processor_cases:
  assumes "o_con o' = waiting rng READ_HTTP_REQUEST None m None False armed timer []"
  obtains (plain) "\<not> is_websocket_handshake (o_request o')" "initialize_processor o' = (None, o')"
  | (refused) ec r where "initialize_processor o' = (Some ec, r)" "o_con r = waiting rng READ_HTTP_REQUEST None m None False armed timer []"
      "s_status_code (o_response r) = sc_bad_request" "ec \<noteq> Lib lib_http_connection_ended"
  | (old) "is_websocket_handshake (o_request o')" "initialize_processor o' = (None, o'\<lparr>o_version := Some 0\<rparr>)"
  | (new) v where "is_websocket_handshake (o_request o')" "v = 7 \<or> v = 8 \<or> v = 13" "get_websocket_version (o_request o') = v"
      "initialize_processor o' = (None, o'\<lparr>o_con := waiting rng READ_HTTP_REQUEST (Some (hybi13_new True 32000000)) m None False armed timer [],
         o_version := Some v\<rparr>)"
proof -
  let ?v = "get_websocket_version (o_request o')"
  show ?thesis
  proof (cases "is_websocket_handshake (o_request o')")
    case False
    then show ?thesis using plain by (simp add: initialize_processor_def)
  next
    case True
    consider "?v < 0" | "?v = 0" | "?v = 7 \<or> ?v = 8 \<or> ?v = 13" | "0 < ?v" "?v \<noteq> 7" "?v \<noteq> 8" "?v \<noteq> 13" by linarith
    then show ?thesis
    proof cases
      case 1
      then show ?thesis using True assms
        by (intro refused [of "Lib lib_invalid_version" "on_response (set_status sc_bad_request) o'"]) (simp_all add: initialize_processor_def)
    next
      case 2
      then show ?thesis using True assms unfolded_con [OF assms]
        by (intro old) (simp_all add: initialize_processor_def set_processor_def get_processor_def on_con_def)
    next
      case 3
      then have "initialize_processor o' = (None, o'\<lparr>o_con := waiting rng READ_HTTP_REQUEST (Some (hybi13_new True 32000000)) m None False armed timer [],
         o_version := Some ?v\<rparr>)"
        using True assms by (auto simp: initialize_processor_def set_processor_def get_processor_def on_con_def)
      with 3 True show ?thesis by (intro new) simp_all
    next
      case 4
      then show ?thesis using True assms
        by (intro refused [of "Lib lib_unsupported_version" "snd (initialize_processor o')"])
           (simp_all add: initialize_processor_def set_processor_def get_processor_def)
    qed
  qed
qed

lemma refuse_fields [simp]:
  "fst (refuse code ec o') = Some ec" "o_con (snd (refuse code ec o')) = o_con o'"
  "s_status_code (o_response (snd (refuse code ec o'))) = code" "o_buf_cursor (snd (refuse code ec o')) = o_buf_cursor o'"
  by (simp_all add: refuse_def)

text \<open>What \<open>process_handshake_request\<close> leaves, in terms of what it was given.\<close>

definition answered :: "handshake \<Rightarrow> error_code option \<times> handshake \<Rightarrow> bool" where
  "answered o' x \<longleftrightarrow> (o_con (snd x) = o_con o' \<or> o_con (snd x) = (o_con o')\<lparr>c_is_http := True\<rparr>)
     \<and> o_buf_cursor (snd x) = o_buf_cursor o' \<and> fst x \<noteq> Some (Lib lib_http_connection_ended)
     \<and> (s_status_code (o_response (snd x)) = sc_switching_protocols \<longrightarrow>
          o_con (snd x) = o_con o' \<and> fst x = None \<and> is_websocket_handshake (o_request o') \<and> o_version (snd x) = o_version o')"

lemma answered_refuse: "code \<noteq> sc_switching_protocols \<Longrightarrow> ec \<noteq> Lib lib_http_connection_ended \<Longrightarrow> o_con r = o_con o' \<Longrightarrow>
    o_buf_cursor r = o_buf_cursor o' \<Longrightarrow> answered o' (refuse code ec r)"
  by (simp add: answered_def)

lemma http_answered:
  assumes "handlers_ok H" and "c_internal (o_con o') = PROCESS_HTTP_REQUEST" and "c_state (o_con o') = S_connecting"
    and "\<not> is_websocket_handshake (o_request o')"
  shows "answered o' (process_http_request H o')"
proof -
  let ?u = "get_uri_from_host (o_request o') ''http''"
  let ?o = "o'\<lparr>o_uri := Some ?u\<rparr>"
  consider "\<not> u_valid ?u" | "u_valid ?u" "on_http H = None" | f where "u_valid ?u" "on_http H = Some f" by blast
  then show ?thesis
  proof cases
    case 1
    then have "process_http_request H o' = refuse sc_bad_request (Lib lib_invalid_uri) ?o" by (simp add: process_http_request_def)
    then show ?thesis by (simp add: answered_refuse)
  next
    case 2
    then have "process_http_request H o' = (Some (Lib lib_upgrade_required), on_response (set_status sc_upgrade_required) ?o)"
      using assms(2) by (simp add: process_http_request_def con_set_status_def)
    then show ?thesis by (simp add: answered_def)
  next
    case 3
    let ?x = "f (on_con (\<lambda>c. c\<lparr>c_is_http := True\<rparr>) ?o)"
    have f: "o_con ?x = (o_con o')\<lparr>c_is_http := True\<rparr>" "o_buf_cursor ?x = o_buf_cursor o'"
      "s_status_code (o_response ?x) \<noteq> sc_switching_protocols"
      using assms(1) 3 by (simp_all add: handlers_ok_def)
    have "process_http_request H o' = (None, ?x)"
      using 3 f(1) assms(3) by (simp add: process_http_request_def Let_def)
    with f show ?thesis by (simp add: answered_def)
  qed
qed

lemma pr_process_total:
  "\<exists>r. pr_process_handshake v w q subprotocol res = Parsed r \<and> s_status_code r = s_status_code res"
  using process_handshake_total [of w q subprotocol res] hybi00_process_total [of "replicate 64 0" False "replicate 16 0" q subprotocol res]
  by (auto simp: pr_process_handshake_def)

lemma ask_answered:
  assumes "handlers_ok H" and "is_websocket_handshake (o_request o')"
  shows "answered o' (ask_application H v w o')"
proof -
  obtain b x where x: "(case on_validate H of None \<Rightarrow> (True, o') | Some f \<Rightarrow> f o') = (b, x)" by fastforce
  have f: "o_con x = o_con o'" "o_buf_cursor x = o_buf_cursor o'" "o_version x = o_version o'" "b \<or> s_status_code (o_response x) \<noteq> sc_switching_protocols"
    using assms(1) x by (auto simp: handlers_ok_def dest!: spec [where x = o'] split: option.splits)
  let ?y = "on_response (set_status sc_switching_protocols) x"
  obtain r where r: "pr_process_handshake v w (o_request ?y) (o_subprotocol ?y) (o_response ?y) = Parsed r"
    "s_status_code r = sc_switching_protocols"
    using pr_process_total [of v w "o_request ?y" "o_subprotocol ?y" "o_response ?y"] by auto
  have ask: "ask_application H v w o' = (if b then (None, ?y\<lparr>o_response := r\<rparr>)
      else (Some (Lib lib_rejected), if s_status_code (o_response x) = sc_uninitialized then on_response (set_status sc_bad_request) x else x))"
    using x r(1) by (simp add: ask_application_def Let_def)
  show ?thesis
  proof (cases b)
    case True
    then show ?thesis unfolding ask answered_def using f(1-3) r(2) assms(2) by simp
  next
    case False
    then show ?thesis unfolding ask answered_def using f by simp
  qed
qed

lemma pr_validate_proc: "pr_validate_handshake v q = Some ec \<Longrightarrow> \<exists>e. ec = Proc e"
  by (auto simp: pr_validate_handshake_def validate_handshake_def hybi00_validate_handshake_def split: if_splits)

lemma process_answered:
  assumes "handlers_ok H" and "c_internal (o_con o') = PROCESS_HTTP_REQUEST" and "c_state (o_con o') = S_connecting"
    and "is_websocket_handshake (o_request o') \<Longrightarrow> o_version o' \<noteq> None"
  shows "answered o' (process_handshake_request H w o')"
proof (cases "is_websocket_handshake (o_request o')")
  case False
  then show ?thesis using http_answered [OF assms(1-3)] by (simp add: process_handshake_request_def)
next
  case True
  then obtain v where v: "o_version o' = Some v" using assms(4) by blast
  have refused: "answered o' (refuse sc_bad_request (Proc e) o')" for e by (simp add: answered_refuse)
  obtain neg_ec reply where neg: "pr_negotiate_extensions v (c_is_server (o_con o')) (o_request o') = (neg_ec, reply)" by fastforce
  let ?valid = "pr_validate_handshake v (o_request o')"
  show ?thesis
  proof (cases "?valid = None \<and> neg_ec \<noteq> Some (Proc proc_extension_parse_error)")
    case False
    then have "\<exists>e. process_handshake_request H w o' = refuse sc_bad_request (Proc e) o'"
      using True v neg pr_validate_proc [of v "o_request o'"] by (cases ?valid) (auto simp: process_handshake_request_def)
    then show ?thesis using refused by auto
  next
    case good: True
    let ?x = "if neg_ec = None \<and> reply \<noteq> [] then on_response (replace_header ''Sec-WebSocket-Extensions'' reply) o' else o'"
    let ?u = "pr_get_uri v False (o_request o')"
    obtain subp_ec ps where ps: "pr_extract_subprotocols v (o_request o') (o_requested_subprotocols o') = (subp_ec, ps)" by fastforce
    let ?y = "?x\<lparr>o_uri := Some ?u, o_requested_subprotocols := ps\<rparr>"
    have x: "o_request ?x = o_request o'" "o_con ?x = o_con o'" "o_buf_cursor ?x = o_buf_cursor o'" "o_version ?x = o_version o'"
      "o_requested_subprotocols ?x = o_requested_subprotocols o'" by simp_all
    have "process_handshake_request H w o' = (if \<not> u_valid ?u then refuse sc_bad_request (Lib lib_invalid_uri) (?x\<lparr>o_uri := Some ?u\<rparr>)
        else ask_application H v w ?y)"
      using True good v neg ps x by (auto simp: process_handshake_request_def Let_def)
    moreover have "answered o' (refuse sc_bad_request (Lib lib_invalid_uri) (?x\<lparr>o_uri := Some ?u\<rparr>))"
      by (rule answered_refuse) (simp_all add: x)
    moreover have "answered o' (ask_application H v w ?y)"
      using ask_answered [OF assms(1), of ?y v w] True by (simp add: answered_def x)
    ultimately show ?thesis by simp
  qed
qed

lemma process_request_ok:
  assumes "handlers_ok H" and "o_con x = waiting rng READ_HTTP_REQUEST p m None False armed timer []" and "length rest \<le> 16384"
    and "is_websocket_handshake (o_request x) \<Longrightarrow> o_version x \<noteq> None \<and> (o_version x = Some 0 \<or> p = Some (hybi13_new True 32000000))"
  shows "writing_response rng (process_request H w rest x)"
proof -
  let ?m = "poke 0 rest m"
  let ?y = "on_con (\<lambda>c. c\<lparr>c_buf := poke 0 rest (c_buf c), c_internal := PROCESS_HTTP_REQUEST\<rparr>) (x\<lparr>o_buf_cursor := length rest\<rparr>)"
  have y: "o_con ?y = waiting rng PROCESS_HTTP_REQUEST p ?m None False armed timer []" "o_buf_cursor ?y = length rest"
    "o_request ?y = o_request x" "o_version ?y = o_version x" using assms(2) by simp_all
  obtain ec z where z: "process_handshake_request H w ?y = (ec, z)" by fastforce
  have a: "answered ?y (ec, z)"
    using process_answered [OF assms(1), of ?y w] y assms(4) z by (simp add: assms(2))
  obtain http where http: "o_con z = waiting rng PROCESS_HTTP_REQUEST p ?m None http armed timer []"
    using a y(1) by (auto simp: answered_def)
  then have "process_request H w rest x = write_http_response ec z" using z by (simp add: process_request_def Let_def)
  moreover have "poke 0 rest ?m = ?m" by (auto simp: poke_def)
  ultimately show ?thesis
    using a y http assms(3,4) by (auto simp: answered_def intro!: writes_response [OF http])
qed

text \<open>A request of draft 76 is one with its third key too.\<close>

lemma key3_handshake: "is_websocket_handshake (replace_header ''Sec-WebSocket-Key3'' v q) = is_websocket_handshake (q :: request)"
proof -
  have "ci_eq ''Sec-WebSocket-Key3'' ''Upgrade'' = False" "ci_eq ''Sec-WebSocket-Key3'' ''Connection'' = False"
    by (simp_all add: ci_eq_key ci_key_def tolower_def)
  then show ?thesis by (simp add: is_websocket_handshake_def get_header_update)
qed

lemma request_complete_ok:
  assumes "handlers_ok H" and "o_con o' = waiting rng READ_HTTP_REQUEST None m None False armed timer []" and "length rest \<le> 16384"
  shows "writing_response rng (request_complete H w rest o')"
  using assms(2)
proof (cases rule: initialize_processor_cases)
  case plain
  have "writing_response rng (process_request H w (drop 8 rest) (take_key3 rest o'))"
    using process_request_ok [OF assms(1), of "take_key3 rest o'" rng None m armed timer "drop 8 rest"] assms(2,3) plain(1)
    by (simp add: take_key3_def key3_handshake)
  then show ?thesis using plain process_request_ok [OF assms(1,2,3)] assms(2)
    by (auto simp: request_complete_def intro!: writes_error)
next
  case (refused ec r)
  then show ?thesis by (auto simp: request_complete_def intro!: writes_error)
next
  case old
  then show ?thesis using process_request_ok [OF assms(1), of "take_key3 rest (o'\<lparr>o_version := Some 0\<rparr>)" rng None m armed timer "drop 8 rest"] assms(2,3)
    by (auto simp: request_complete_def take_key3_def intro!: writes_error)
next
  case (new v)
  then show ?thesis
    using process_request_ok [OF assms(1), of "o'\<lparr>o_con := waiting rng READ_HTTP_REQUEST (Some (hybi13_new True 32000000)) m None False armed timer [],
      o_version := Some v\<rparr>" rng _ m armed timer rest] assms(3)
    by (auto simp: request_complete_def)
qed

lemma read_handshake_ok:
  assumes "handlers_ok H" and "o_con o' = waiting rng READ_HTTP_REQUEST None m None False armed timer []" and "parse_ok (o_request o')"
    and "length data \<le> 16384" and "handle_read_handshake H w ec data o' = o''"
  shows "connecting rng o'' \<or> failed o''"
proof (cases ec)
  case (Some e)
  then have "o'' = on_con (terminate (Some e)) o'" using assms(2,5) by (simp add: handle_read_handshake_def handshake_guard_def)
  then show ?thesis using terminate_failed [OF assms(2)] by simp
next
  case None
  let ?x = "on_con (\<lambda>c. c\<lparr>c_buf := poke 0 data (c_buf c)\<rparr>) o'"
  have x: "o_con ?x = waiting rng READ_HTTP_REQUEST None (poke 0 data m) None False armed timer []" using assms(2) by simp
  have run: "(case request_consume (text_of data) (o_request o') of
                  Undefined_text \<Rightarrow> crash_opening ?x
                | Threw code \<Rightarrow>
                    write_http_response_error (Some (Lib lib_http_parse_error)) (on_response (set_status_msg code []) ?x)
                | Parsed (n, r) \<Rightarrow>
                    let x = ?x\<lparr>o_request := r\<rparr> in
                    if n > length data then on_con (terminate (Some (Lib lib_general))) x
                    else if q_ready r then request_complete H w (drop n data) x
                    else on_con (async P_read_handshake) x) = o''"
    using assms(2,4,5) None by (simp add: handle_read_handshake_def handshake_guard_def connection_read_buffer_size_def Let_def)
  have ok: "parsed_ok (length data) (request_consume (text_of data) (o_request o'))"
    using request_consume_ok [OF assms(3), of "text_of data"] by simp
  show ?thesis
  proof (cases "request_consume (text_of data) (o_request o')")
    case (Threw code)
    then have "code \<noteq> sc_switching_protocols" by (rule consume_code)
    then have "writing_response rng o''" using run Threw x by (auto intro!: writes_error)
    then show ?thesis by (simp add: connecting_def)
  next
    case (Parsed y)
    obtain n r where y: "y = (n, r)" by fastforce
    have n: "n \<le> length data" "parse_ok r" using ok Parsed y by simp_all
    show ?thesis
    proof (cases "q_ready r")
      case True
      then have "o'' = request_complete H w (drop n data) (?x\<lparr>o_request := r\<rparr>)" using run Parsed y n by (simp add: Let_def)
      then have "writing_response rng o''" using x assms(4) request_complete_ok [OF assms(1), of "?x\<lparr>o_request := r\<rparr>"] by simp
      then show ?thesis by (simp add: connecting_def)
    next
      case False
      then have "o'' = on_con (async P_read_handshake) (?x\<lparr>o_request := r\<rparr>)" using run Parsed y n by (simp add: Let_def)
      then show ?thesis using x n by (auto simp: connecting_def reading_request_def)
    qed
  qed (use ok in simp)
qed

lemma arm_timer [simp]: "set_open_timer (waiting rng i p m e http armed False []) = waiting rng i p m e http True True []"
  by (simp add: set_open_timer_def) (simp add: waiting_def async_def connection_new_def)

lemma timer_ok:
  assumes "o_con o' = waiting rng i p m e http armed timer ops" and "i \<noteq> PROCESS_CONNECTION" and "P_open_timer \<notin> set ops"
    and "P_open_timer \<in> set (c_pending (o_con o'))"
  shows "failed (on_con (handle_open_handshake_timeout ec) (finish P_open_timer o'))
    \<or> on_con (handle_open_handshake_timeout ec) (finish P_open_timer o') = o'\<lparr>o_con := waiting rng i p m e http armed False ops\<rparr>"
proof -
  have f: "o_con (finish P_open_timer o') = waiting rng i p m e http armed False ops"
    using assms(1,3,4) by (cases timer) (simp_all add: finish_def)
  show ?thesis
  proof (cases "ec = None")
    case True
    then show ?thesis using terminate_failed [OF f assms(2), of "Some (Lib lib_open_handshake_timeout)"]
      by (simp add: handle_open_handshake_timeout_def on_con_def f)
  next
    case False
    then show ?thesis using f by (simp add: handle_open_handshake_timeout_def on_con_def finish_def)
  qed
qed

lemma opened_waiting:
  "opened app True rng m timer =
     (let c = (waiting rng i (Some (hybi13_new True 32000000)) m None False False timer [])\<lparr>c_internal := PROCESS_CONNECTION, c_state := S_open\<rparr>
      in case on_open app of None \<Rightarrow> c | Some f \<Rightarrow> f (tell Opened c))"
  by (simp add: opened_def waiting_def connection_new_def)

lemma buf_self: "c_buf c = m \<Longrightarrow> c\<lparr>c_buf := m\<rparr> = (c :: connection)"
  by (cases c) simp

lemma write_response_opens:
  assumes "api_only app False" and "o_con o' = waiting rng PROCESS_HTTP_REQUEST (Some (hybi13_new True 32000000)) m None False armed timer [P_write_response]"
    and "s_status_code (o_response o') = sc_switching_protocols" and "o_buf_cursor o' = length rest" and "poke 0 rest m = m"
    and "o_version o' \<noteq> Some 0"
  shows "handle_write_http_response app None (finish P_write_response o')
    = map_option (\<lambda>c. (finish P_write_response o')\<lparr>o_con := c\<rparr>) (read_done app None rest (opened app True rng m timer))"
proof -
  let ?c = "opened app True rng m timer"
  have "o_con (finish P_write_response o') = waiting rng PROCESS_HTTP_REQUEST (Some (hybi13_new True 32000000)) m None False armed timer []"
    "o_response (finish P_write_response o') = o_response o'" "o_buf_cursor (finish P_write_response o') = length rest"
    "o_version (finish P_write_response o') \<noteq> Some 0"
    using assms(2,4,6) by (simp_all add: finish_def)
  then have "handle_write_http_response app None (finish P_write_response o')
      = map_option (\<lambda>c. (finish P_write_response o')\<lparr>o_con := c\<rparr>) (handle_read_frame app None (length rest) ?c)"
    using assms(3) by (simp add: handle_write_http_response_def handshake_guard_def Let_def opened_waiting [where i = PROCESS_HTTP_REQUEST]
        cong: option.case_cong)
  also have "handle_read_frame app None (length rest) ?c = read_done app None rest ?c"
    unfolding read_done_def opened_same(2) [OF assms(1)] assms(5) buf_self [OF opened_same(2) [OF assms(1)]] ..
  finally show ?thesis .
qed

lemma write_response_ok:
  assumes "api_only app False" and "writing_response rng o'"
  shows "(\<exists>o''. handle_write_http_response app ec (finish P_write_response o') = Some o'' \<and> (failed o'' \<or> just_opened app rng o''))
    \<or> o_version o' = Some 0 \<and> handle_write_http_response app ec (finish P_write_response o') = None"
proof -
  obtain p m e http armed timer where w: "o_con o' = waiting rng PROCESS_HTTP_REQUEST p m e http armed timer [P_write_response]"
    and switch: "s_status_code (o_response o') = sc_switching_protocols \<longrightarrow> (o_version o' = Some 0 \<or> p = Some (hybi13_new True 32000000)) \<and> e = None \<and> \<not> http
            \<and> (\<exists>rest. length rest = o_buf_cursor o' \<and> length rest \<le> 16384 \<and> poke 0 rest m = m)"
    using assms(2) unfolding writing_response_def by blast
  have f: "o_con (finish P_write_response o') = waiting rng PROCESS_HTTP_REQUEST p m e http armed timer []"
    "o_response (finish P_write_response o') = o_response o'" "o_buf_cursor (finish P_write_response o') = o_buf_cursor o'"
    using w by (simp_all add: finish_def)
  show ?thesis
  proof (cases ec)
    case (Some x)
    then have "handle_write_http_response app ec (finish P_write_response o') = Some (on_con (terminate (Some x)) (finish P_write_response o'))"
      by (simp add: handle_write_http_response_def handshake_guard_def f)
    then show ?thesis using terminate_failed [OF f(1)] by simp
  next
    case None
    show ?thesis
    proof (cases "s_status_code (o_response o') = sc_switching_protocols")
      case False
      define y where "y = on_con (\<lambda>c. (cancel_handshake_timer c)\<lparr>c_ec := if http then Some (Lib lib_http_connection_ended) else e\<rparr>) (finish P_write_response o')"
      have y: "o_con y = waiting rng PROCESS_HTTP_REQUEST p m (if http then Some (Lib lib_http_connection_ended) else e) http False timer []"
        by (simp add: y_def f)
      have "handle_write_http_response app ec (finish P_write_response o') = Some (on_con (terminate (c_ec (o_con y))) y)"
        using None False by (simp add: handle_write_http_response_def handshake_guard_def f y) (simp add: y_def on_con_def f)
      then show ?thesis using terminate_failed [OF y] by simp
    next
      case switched: True
      show ?thesis
      proof (cases "o_version o' = Some 0")
        case True
        then show ?thesis using None switched f by (simp add: handle_write_http_response_def handshake_guard_def finish_def)
      next
        case False
        with switch switched obtain rest where p: "p = Some (hybi13_new True 32000000)" "e = None" "\<not> http"
          and rest: "length rest = o_buf_cursor o'" "length rest \<le> 16384" "poke 0 rest m = m" by blast
        let ?c = "opened app True rng m timer"
        have eq: "handle_write_http_response app ec (finish P_write_response o')
            = map_option (\<lambda>c. (finish P_write_response o')\<lparr>o_con := c\<rparr>) (read_done app None rest ?c)"
          using write_response_opens [OF assms(1) _ switched, of rng m armed timer rest] w p rest None False by simp
        obtain c where c: "read_done app None rest ?c = Some c"
          using read_done_total [OF assms(1) opened_reading(1) [OF assms(1)] reading_new opened_reading(2-4) [OF assms(1)]] by blast
        then have "just_opened app rng ((finish P_write_response o')\<lparr>o_con := c\<rparr>)"
          using rest(2) by (auto simp: just_opened_def)
        then show ?thesis using eq c by simp
      qed
    qed
  qed
qed

lemma just_opened_reach: "just_opened app rng o' \<Longrightarrow> reach app False True rng (o_con o')"
  by (auto simp: just_opened_def intro: reach_open)

lemma opening_step_ok:
  assumes "opening_step app H o' o''" and "connecting rng o'" and "api_only app False" and "handlers_ok H"
  shows "connecting rng o'' \<or> failed o'' \<or> just_opened app rng o''"
proof -
  consider (init) "o_con o' = waiting rng TRANSPORT_INIT None (\<lambda>_. 0) None False False False [P_init]" "o_request o' = request_new"
    | (reading) m armed timer where "o_con o' = waiting rng READ_HTTP_REQUEST None m None False armed timer [P_read_handshake]"
        "parse_ok (o_request o')"
    | (writing) "writing_response rng o'"
    using assms(2) by (auto simp: connecting_def reading_request_def)
  then show ?thesis
  proof cases
    case init
    from assms(1) obtain ec where e: "o'' = handle_transport_init ec (finish P_init o')"
      by (cases rule: opening_step.cases) (auto simp: init(1))
    have f: "o_con (finish P_init o') = waiting rng TRANSPORT_INIT None (\<lambda>_. 0) None False False False []" by (simp add: finish_def init(1))
    show ?thesis
    proof (cases ec)
      case None
      then show ?thesis using init(2) f unfolding e
        by (auto simp: handle_transport_init_def read_handshake_def connecting_def reading_request_def
            parse_ok_def request_new_def finish_def)
    next
      case (Some x)
      then show ?thesis using terminate_failed [OF f] unfolding e by (simp add: handle_transport_init_def f)
    qed
  next
    case reading
    have f: "o_con (finish P_read_handshake o') = waiting rng READ_HTTP_REQUEST None m None False armed timer []"
      "parse_ok (o_request (finish P_read_handshake o'))" by (simp_all add: finish_def reading)
    from assms(1) show ?thesis
    proof (cases rule: opening_step.cases)
      case (os_read data w)
      then show ?thesis using read_handshake_ok [OF assms(4) f] by blast
    next
      case (os_read_error ec)
      then show ?thesis using read_handshake_ok [OF assms(4) f, of "[]"] by auto
    next
      case (os_timer ec)
      from timer_ok [OF reading(1), of ec] os_timer consider "failed o''"
        | "o'' = o'\<lparr>o_con := waiting rng READ_HTTP_REQUEST None m None False armed False [P_read_handshake]\<rparr>" by auto
      then show ?thesis
      proof cases
        case 2
        have "reading_request rng o''" unfolding 2 reading_request_def using reading(2) by auto
        then show ?thesis by (simp add: connecting_def)
      qed simp
    qed (auto simp: reading)
  next
    case writing
    from assms(1) show ?thesis
    proof (cases rule: opening_step.cases)
      case (os_written ec)
      then show ?thesis using write_response_ok [OF assms(3) writing, of ec] by auto
    next
      case (os_timer ec)
      obtain p m e http armed timer where w: "o_con o' = waiting rng PROCESS_HTTP_REQUEST p m e http armed timer [P_write_response]"
        and switch: "s_status_code (o_response o') = sc_switching_protocols \<longrightarrow> (o_version o' = Some 0 \<or> p = Some (hybi13_new True 32000000)) \<and> e = None \<and> \<not> http
            \<and> (\<exists>rest. length rest = o_buf_cursor o' \<and> length rest \<le> 16384 \<and> poke 0 rest m = m)"
        using writing unfolding writing_response_def by blast
      from timer_ok [OF w, of ec] os_timer consider "failed o''"
        | "o'' = o'\<lparr>o_con := waiting rng PROCESS_HTTP_REQUEST p m e http armed False [P_write_response]\<rparr>" by auto
      then show ?thesis
      proof cases
        case 2
        have "writing_response rng o''" unfolding writing_response_def 2
          by (intro exI [of _ p] exI [of _ m] exI [of _ e] exI [of _ http] exI [of _ armed] exI [of _ False]) (use switch in simp)
        then show ?thesis by (simp add: connecting_def)
      qed simp
    qed (use writing in \<open>auto simp: writing_response_def\<close>)
  qed
qed

lemma opening_states:
  assumes "opening_reach app H rng o'" and "api_only app False" and "handlers_ok H"
  shows "connecting rng o' \<or> failed o' \<or> just_opened app rng o'"
  using assms(1)
proof (induction rule: opening_reach.induct)
  case or_start
  then show ?case
    by (simp add: connecting_def start_opening_def opening_new_def on_con_def waiting_def connection_new_def async_def)
next
  case (or_step o' o'')
  have "\<not> failed o'" using or_step(2) by (simp add: failed_def)
  moreover have "\<not> just_opened app rng o'"
  proof
    assume "just_opened app rng o'"
    from ending.reachable [OF just_opened_reach [OF this] assms(2)] or_step(2) show False by simp
  qed
  ultimately have "connecting rng o'" using or_step.IH by blast
  from opening_step_ok [OF or_step(3) this assms(2,3)] show ?case .
qed

subsection \<open>Properties\<close>

text \<open>The handlers \<open>server.hpp\<close> sets for the handshake: none.\<close>

definition tcp_handlers :: opening_handlers where
  "tcp_handlers = \<lparr>on_validate = None, on_http = None\<rparr>"

lemma tcp_handlers_ok: "handlers_ok tcp_handlers"
  by (simp add: handlers_ok_def tcp_handlers_def)

text \<open>C11. The opening handshake of a server never stalls and never crashes: as long as the connection is
connecting, exactly one operation of the transport is outstanding that will call it back, a read or a write,
beside the timer that ends it; and the handler of a completed write returns, unless it opens a connection of
draft 76 (version 0), for which the model of the handler has no result, as that of open connections is the one of the
later versions. The handlers of the program only call the connection (\<open>api_only\<close>), and those of the handshake leave the
connection, and what has been read, to the library and answer at once (\<open>handlers_ok\<close>): a plain HTTP handler that defers
its response leaves no operation outstanding but the timer, until the program sends it.\<close>

theorem handshake_goes_on:
  assumes "opening_reach app H rng o'" and "api_only app False" and "handlers_ok H" and "c_state (o_con o') = S_connecting"
  shows "\<not> c_crashed (o_con o')
    \<and> (\<exists>p \<in> {P_init, P_read_handshake, P_write_response}. filter (\<lambda>q. q \<noteq> P_open_timer) (c_pending (o_con o')) = [p])
    \<and> (P_write_response \<in> set (c_pending (o_con o')) \<and> o_version o' \<noteq> Some 0 \<longrightarrow>
         (\<forall>ec. handle_write_http_response app ec (finish P_write_response o') \<noteq> None))"
proof -
  have "\<not> failed o'" using assms(4) by (simp add: failed_def)
  moreover have "\<not> just_opened app rng o'"
  proof
    assume "just_opened app rng o'"
    from ending.reachable [OF just_opened_reach [OF this] assms(2)] assms(4) show False by simp
  qed
  ultimately consider "o_con o' = waiting rng TRANSPORT_INIT None (\<lambda>_. 0) None False False False [P_init]"
    | "reading_request rng o'" | "writing_response rng o'"
    using opening_states [OF assms(1-3)] by (auto simp: connecting_def)
  then show ?thesis
  proof cases
    case 3
    then have "o_version o' \<noteq> Some 0 \<Longrightarrow> handle_write_http_response app ec (finish P_write_response o') \<noteq> None" for ec
      using write_response_ok [OF assms(2), of rng o' ec] by auto
    moreover obtain p m e http armed timer where "o_con o' = waiting rng PROCESS_HTTP_REQUEST p m e http armed timer [P_write_response]"
      using 3 unfolding writing_response_def by blast
    ultimately show ?thesis by simp
  qed (auto simp: reading_request_def)
qed

lemma tcp_opening_start: "opening_reach tcp_app tcp_handlers rng (start_opening (opening_new True rng))"
  by (rule or_start)

theorem handshake_goes_on_witness:
  "\<exists>p. filter (\<lambda>q. q \<noteq> P_open_timer) (c_pending (o_con (start_opening (opening_new True (\<lambda>_. 7))))) = [p]"
proof -
  have "c_state (o_con (start_opening (opening_new True (\<lambda>_. 7)))) = S_connecting"
    by (simp add: start_opening_def opening_new_def connection_new_def async_def)
  from handshake_goes_on [OF tcp_opening_start tcp_app_only tcp_handlers_ok this] show ?thesis by blast
qed

text \<open>C12. The handshake of a server ends in one of two ways: the connection is open, and in a state the properties of
open connections speak of, or it is closed without having been open, and its shutdown is on the way. The handlers are
those of \<open>handshake_goes_on\<close> (\<open>api_only\<close>, \<open>handlers_ok\<close>). Two ends are not covered: the opening of a connection of draft
76 is no step of \<open>opening_step\<close>, since \<open>handle_write_http_response\<close> has no result for it, and a client can open with its
shutdown on the way (\<open>client_reopens\<close>).\<close>

theorem handshake_outcome:
  assumes "opening_reach app H rng o'" and "api_only app False" and "handlers_ok H" and "c_state (o_con o') \<noteq> S_connecting"
  shows "reach app False True rng (o_con o')
    \<or> c_state (o_con o') = S_closed \<and> c_internal (o_con o') \<noteq> PROCESS_CONNECTION
      \<and> P_shutdown t_failed \<in> set (c_pending (o_con o')) \<and> \<not> c_crashed (o_con o')"
proof -
  have "\<not> connecting rng o'" using assms(4) unfolding connecting_def reading_request_def writing_response_def by auto
  with opening_states [OF assms(1-3)] just_opened_reach show ?thesis by (auto simp: failed_def)
qed

theorem handshake_outcome_witness:
  "P_shutdown t_failed \<in> set (c_pending (o_con (handle_transport_init (Some (Trans trans_general))
     (finish P_init (start_opening (opening_new True (\<lambda>_. 7)))))))"
proof -
  let ?o = "start_opening (opening_new True (\<lambda>_. 7))" and ?f = "handle_transport_init (Some (Trans trans_general))"
  have o: "c_state (o_con ?o) = S_connecting" "P_init \<in> set (c_pending (o_con ?o))"
    by (simp_all add: start_opening_def opening_new_def connection_new_def async_def)
  have r: "opening_reach tcp_app tcp_handlers (\<lambda>_. 7) (?f (finish P_init ?o))"
    by (rule or_step [OF tcp_opening_start o(1) os_init [OF o(2)]])
  have closed: "c_state (o_con (?f (finish P_init ?o))) = S_closed" "c_internal (o_con (?f (finish P_init ?o))) \<noteq> PROCESS_CONNECTION"
    by (simp_all add: handle_transport_init_def start_opening_def opening_new_def connection_new_def async_def finish_def
        complete_def terminate_def cancel_handshake_timer_def)
  have "\<not> reach tcp_app False True (\<lambda>_. 7) (o_con (?f (finish P_init ?o)))"
    using closed(2) reach_read [OF _ tcp_app_only] by (auto simp: read_inv_def)
  then show ?thesis using handshake_outcome [OF r tcp_app_only tcp_handlers_ok] closed by simp
qed

text \<open>The cancelled timer of the opening handshake ends an open connection when its expiry is queued already.\<close>

lemma stale_open_timer:
  assumes "reach app False True rng c" and "c_state c = S_open"
  shows "c_state (handle_open_handshake_timeout None (complete P_open_timer c)) = S_closed
    \<and> c_ec (handle_open_handshake_timeout None (complete P_open_timer c)) = Some (Lib lib_open_handshake_timeout)"
  using assms(2)
  by (simp add: handle_open_handshake_timeout_def terminate_def async_def complete_def cancel_handshake_timer_def Let_def)

text \<open>A client whose server answers with an extension header it cannot parse terminates the connection and
then opens it all the same: the connection is open and reads, while the transport shuts down and will tell that
it has failed.\<close>

theorem client_reopens:
  assumes "fst (get_header_as_plist ''Sec-WebSocket-Extensions'' (o_response o'))" and "c_state (o_con o') = S_connecting"
    and "c_read_flag (o_con o')" and "on_open app = None"
  shows "\<exists>o''. open_client app [] o' = Some o'' \<and> c_state (o_con o'') = S_open
    \<and> P_shutdown t_failed \<in> set (c_pending (o_con o'')) \<and> P_read \<in> set (c_pending (o_con o''))"
proof -
  have "negotiate_extensions (c_is_server (o_con o')) (o_response o') = (Some (Proc proc_extension_parse_error), [])"
    using assms(1) by (cases "get_header_as_plist ''Sec-WebSocket-Extensions'' (o_response o')")
      (auto simp: negotiate_extensions_def enable_extensions_def)
  then show ?thesis using assms(2-4)
    by (simp add: open_client_def Let_def handle_read_frame_def frame_loop.simps [of _ 0 0] read_frame_def async_def
        terminate_def cancel_handshake_timer_def)
qed

theorem client_reopens_witness:
  "\<exists>o''. open_client tcp_app [] (on_response (replace_header ''Sec-WebSocket-Extensions'' ''/'') (opening_new False (\<lambda>_. 0))) = Some o''
    \<and> c_state (o_con o'') = S_open \<and> P_shutdown t_failed \<in> set (c_pending (o_con o''))"
proof -
  let ?o = "on_response (replace_header ''Sec-WebSocket-Extensions'' ''/'') (opening_new False (\<lambda>_. 0))"
  have "fst (parse_parameter_list ''/'')"
    by (simp add: parse_parameter_list_def extract_parameters_def parameters_loop.simps [of "''/''"] extract_all_lws.simps [of "''/''"]
        extract_lws_def is_whitespace_char_def take_parameter_def extract_token_def is_not_token_char_def header_token_def)
  then have "fst (get_header_as_plist ''Sec-WebSocket-Extensions'' (replace_header ''Sec-WebSocket-Extensions'' ''/'' response_new))"
    by (simp add: get_header_as_plist_def replace_header_def find_put)
  then have "fst (get_header_as_plist ''Sec-WebSocket-Extensions'' (o_response ?o))" by (simp add: opening_new_def)
  moreover have "c_state (o_con ?o) = S_connecting" "c_read_flag (o_con ?o)" by (simp_all add: opening_new_def connection_new_def)
  moreover have "on_open tcp_app = None" by (simp add: tcp_app_def)
  ultimately show ?thesis using client_reopens [of ?o tcp_app] by blast
qed

end
