(* ===== verification/Packet.thy ===== *)
theory Packet imports Prelude begin

text \<open>
  The wire format of \<open>src/src/server.hpp\<close>: the packet records, the two copies of the decoder
  (the one on ENet's \<open>enet_uint8\<close> buffer inside \<open>UDPServerHandler::run\<close> and the one on
  \<open>char\<close> data inside \<open>TCPServerHandler::onMessage\<close>), and what they compute. Integer types
  keep their width: magnitudes are \<open>unsigned int\<close>, negated with wrap-around and then read back
  as a signed value, as the conditional expression of the source does.
\<close>

subsection \<open>Data\<close>

datatype ActuatorMotion = NONE | RETRACTING | EXTENDING

datatype Macro =
    ESTOP | CANCEL_MACRO | FULL_EXTEND | FULL_RETRACT | CARRY_POS | DUMP_CYCLE
  | DUMP_WITH_MOVEMENT | DIG_CYCLE | TURN_RIGHT_45 | TURN_LEFT_45 | TURN

text \<open>
  \<open>Macro(macroCode)\<close> converts any number: a value that no enumerator has is kept apart.
\<close>

datatype macro_value = Named Macro | Unlisted u32

definition Macro_cast :: "u32 \<Rightarrow> macro_value" where
  "Macro_cast c =
     (if c = 0 then Named ESTOP else if c = 1 then Named CANCEL_MACRO
      else if c = 2 then Named FULL_EXTEND else if c = 3 then Named FULL_RETRACT
      else if c = 4 then Named CARRY_POS else if c = 5 then Named DUMP_CYCLE
      else if c = 6 then Named DUMP_WITH_MOVEMENT else if c = 7 then Named DIG_CYCLE
      else if c = 8 then Named TURN_RIGHT_45 else if c = 9 then Named TURN_LEFT_45
      else if c = 10 then Named TURN else Unlisted c)"

record PacketData =
  rawMessage :: bytes
  rawBinary :: "u8 list"

record MotionPacketData = PacketData +
  leftDrivePercent :: int
  rightDrivePercent :: int
  actuator1 :: ActuatorMotion
  actuator2 :: ActuatorMotion

record MacroPacketData = PacketData +
  macro :: macro_value
  pressed :: bool
  macro_data :: u32

datatype decoded = MotionPacket MotionPacketData | MacroPacket MacroPacketData | NotDecoded

subsection \<open>Operations\<close>

definition getActuatorMotion :: "bool \<Rightarrow> bool \<Rightarrow> ActuatorMotion" where
  "getActuatorMotion a b =
     (if a = b then NONE else if \<not> a \<and> b then RETRACTING else EXTENDING)"

text \<open>The scaling \<open>percent *= 14.28\<close>: a product in \<open>double\<close>, truncated on assignment to \<open>int\<close>.
  For the magnitudes 0 to 7 the exact products are at least 0.04 away from the next integer, so
  the rounding of \<open>double\<close> cannot change the truncation.\<close>

definition scale_percent :: "int \<Rightarrow> int" where
  "scale_percent p = c_quot (p * 1428) 100"

definition wheel_percent :: "bool \<Rightarrow> u32 \<Rightarrow> int" where
  "wheel_percent neg m = scale_percent (sint (if neg then - m else m))"

fun udp_triggers :: "nat \<Rightarrow> u8 \<Rightarrow> u8 \<Rightarrow> bool list" where
  "udp_triggers 0 b temp = []"
| "udp_triggers (Suc n) b temp = bit_test b temp # udp_triggers n b (drop_bit 1 temp)"

definition udp_motion :: "bytes \<Rightarrow> u8 \<Rightarrow> u8 \<Rightarrow> MotionPacketData" where
  "udp_motion msg b0 b1 =
     (let triggers = udp_triggers 4 b0 0x40;
          leftMagnitude = (drop_bit 4 (ucast (b1 AND 0x70)) :: u32);
          rightMagnitude = (ucast (b1 AND 0x07) :: u32)
      in \<lparr>rawMessage = msg, rawBinary = msg,
          leftDrivePercent = wheel_percent (bit_test b1 0x80) leftMagnitude,
          rightDrivePercent = wheel_percent (bit_test b1 0x08) rightMagnitude,
          actuator1 = getActuatorMotion (triggers ! 2) (triggers ! 0),
          actuator2 = getActuatorMotion (triggers ! 3) (triggers ! 1)\<rparr>)"

definition udp_macro :: "bytes \<Rightarrow> u8 \<Rightarrow> MacroPacketData" where
  "udp_macro msg b0 =
     \<lparr>rawMessage = msg, rawBinary = msg,
      macro = Macro_cast (drop_bit 2 (ucast (b0 AND 0x7C))),
      pressed = bit_test b0 0x02,
      macro_data = (if length msg = 2 then ucast (msg ! 1) else 0)\<rparr>"

definition udp_decode :: "bytes \<Rightarrow> decoded" where
  "udp_decode msg =
     (if length msg = 2 \<and> \<not> bit_test (msg ! 0) 0x80 then MotionPacket (udp_motion msg (msg ! 0) (msg ! 1))
      else if (length msg = 1 \<or> length msg = 2) \<and> bit_test (msg ! 0) 0x80
      then MacroPacket (udp_macro msg (msg ! 0))
      else NotDecoded)"

text \<open>
  The same block in \<open>TCPServerHandler::onMessage\<close> reads the message through
  \<open>const char *bytes = str.c_str()\<close>. Whether \<open>char\<close> is signed is up to the platform (signed on
  x86, unsigned on the Jetson's AArch64): the parameter \<open>char_signed\<close>. Each \<open>bytes[i]\<close> is promoted
  to \<open>int\<close> before a mask is applied.
\<close>

definition char_int :: "bool \<Rightarrow> u8 \<Rightarrow> int" where
  "char_int char_signed b = (if char_signed then sint b else uint b)"

fun tcp_triggers :: "nat \<Rightarrow> int \<Rightarrow> int \<Rightarrow> bool list" where
  "tcp_triggers 0 b temp = []"
| "tcp_triggers (Suc n) b temp = (b AND temp \<noteq> 0) # tcp_triggers n b (drop_bit 1 temp)"

definition tcp_motion :: "bool \<Rightarrow> bytes \<Rightarrow> MotionPacketData" where
  "tcp_motion char_signed str =
     (let b0 = char_int char_signed (str ! 0); b1 = char_int char_signed (str ! 1);
          triggers = tcp_triggers 4 b0 0x40;
          leftMagnitude = (word_of_int (drop_bit 4 (b1 AND 0x70)) :: u32);
          rightMagnitude = (word_of_int (b1 AND 0x07) :: u32)
      in \<lparr>rawMessage = str, rawBinary = str,
          leftDrivePercent = wheel_percent (b1 AND 0x80 \<noteq> 0) leftMagnitude,
          rightDrivePercent = wheel_percent (b1 AND 0x08 \<noteq> 0) rightMagnitude,
          actuator1 = getActuatorMotion (triggers ! 2) (triggers ! 0),
          actuator2 = getActuatorMotion (triggers ! 3) (triggers ! 1)\<rparr>)"

definition tcp_macro :: "bool \<Rightarrow> bytes \<Rightarrow> MacroPacketData" where
  "tcp_macro char_signed str =
     (let b0 = char_int char_signed (str ! 0)
      in \<lparr>rawMessage = str, rawBinary = str,
          macro = Macro_cast (word_of_int (drop_bit 2 (b0 AND 0x7C))),
          pressed = (b0 AND 0x02 \<noteq> 0),
          macro_data = (if length str = 2 then word_of_int (char_int char_signed (str ! 1)) else 0)\<rparr>)"

definition tcp_decode :: "bool \<Rightarrow> bytes \<Rightarrow> decoded" where
  "tcp_decode char_signed str =
     (if length str = 2 \<and> char_int char_signed (str ! 0) AND 0x80 = 0
      then MotionPacket (tcp_motion char_signed str)
      else if (length str = 1 \<or> length str = 2) \<and> char_int char_signed (str ! 0) AND 0x80 \<noteq> 0
      then MacroPacket (tcp_macro char_signed str)
      else NotDecoded)"

subsection \<open>Masks and promotions\<close>

lemma bit_test_exp: "bit_test b (2 ^ n) \<longleftrightarrow> bit b n"
  by (simp add: bit_test_def and_exp_eq_0_iff_not_bit)

lemma bit_test_masks [simp]:
  "bit_test b 0x80 \<longleftrightarrow> bit b 7" "bit_test b 0x40 \<longleftrightarrow> bit b 6"
  "bit_test b 0x20 \<longleftrightarrow> bit b 5" "bit_test b 0x10 \<longleftrightarrow> bit b 4"
  "bit_test b 0x08 \<longleftrightarrow> bit b 3" "bit_test b 0x02 \<longleftrightarrow> bit b 1"
  using bit_test_exp [of b 7] bit_test_exp [of b 6] bit_test_exp [of b 5] bit_test_exp [of b 4]
    bit_test_exp [of b 3] bit_test_exp [of b 1] by simp_all

lemma take_bit_char_int: "take_bit 8 (char_int s b) = uint b"
proof -
  have "take_bit 8 (sint b) = take_bit 8 (uint b)"
    by (simp only: sint_uint) (rule take_bit_signed_take_bit, simp)
  then show ?thesis
    using uint_bounded [of b] by (simp add: char_int_def take_bit_int_eq_self)
qed

text \<open>A mask below 256 sees the same bits of \<open>bytes[i]\<close> whatever the signedness of \<open>char\<close>.\<close>

lemma char_int_and:
  assumes "0 \<le> m" and "m < 256"
  shows "char_int s b AND m = uint (b AND word_of_int m)"
proof -
  have m: "take_bit 8 m = m" using assms by (simp add: take_bit_int_eq_self)
  have "char_int s b AND m = take_bit 8 (char_int s b) AND m"
    by (metis m take_bit_and and.assoc and.left_idem take_bit_eq_mask and.commute)
  also have "\<dots> = uint b AND uint (word_of_int m :: u8)"
    using m by (simp add: take_bit_char_int uint_word_of_int_eq)
  finally show ?thesis by (simp add: unsigned_and_eq)
qed

lemma drop_bit_temp [simp]:
  "drop_bit 1 (0x40 :: u8) = 0x20" "drop_bit 1 (0x20 :: u8) = 0x10" "drop_bit 1 (0x10 :: u8) = 0x08"
  "drop_bit 1 (0x40 :: int) = 0x20" "drop_bit 1 (0x20 :: int) = 0x10" "drop_bit 1 (0x10 :: int) = 0x08"
  by code_simp+

lemma four_eq_Suc: "(4 :: nat) = Suc (Suc (Suc (Suc 0)))"
  by simp

lemma udp_triggers_bits: "udp_triggers 4 b 0x40 = [bit b 6, bit b 5, bit b 4, bit b 3]"
  by (simp only: four_eq_Suc udp_triggers.simps drop_bit_temp bit_test_masks)

lemma char_int_masks [simp]:
  "char_int s b AND 0x80 = 0 \<longleftrightarrow> \<not> bit b 7" "char_int s b AND 0x40 = 0 \<longleftrightarrow> \<not> bit b 6"
  "char_int s b AND 0x20 = 0 \<longleftrightarrow> \<not> bit b 5" "char_int s b AND 0x10 = 0 \<longleftrightarrow> \<not> bit b 4"
  "char_int s b AND 0x08 = 0 \<longleftrightarrow> \<not> bit b 3" "char_int s b AND 0x02 = 0 \<longleftrightarrow> \<not> bit b 1"
  using bit_test_masks [of b]
  by (simp_all only: char_int_and bit_test_def uint_0_iff word_of_int_numeral flip: bit_test_masks)
    (simp_all add: char_int_and bit_test_def uint_0_iff)

lemma tcp_triggers_bits:
  "tcp_triggers 4 (char_int s b) 0x40 = [bit b 6, bit b 5, bit b 4, bit b 3]"
  by (simp only: four_eq_Suc tcp_triggers.simps drop_bit_temp char_int_masks not_not)

lemma word_of_drop_uint: "(word_of_int (drop_bit n (uint (w :: u8))) :: u32) = drop_bit n (ucast w)"
  by (rule bit_word_eqI) (auto simp: bit_simps dest: bit_imp_le_length)

lemma word_of_uint: "(word_of_int (uint (w :: u8)) :: u32) = ucast w"
  by (rule bit_word_eqI) (auto simp: bit_simps)

lemma tcp_field:
  assumes "0 \<le> m" and "m < 256"
  shows "(word_of_int (drop_bit n (char_int s b AND m)) :: u32) = drop_bit n (ucast (b AND word_of_int m))"
    and "(word_of_int (char_int s b AND m) :: u32) = ucast (b AND word_of_int m)"
  by (simp_all only: char_int_and [OF assms] word_of_drop_uint word_of_uint)

lemma tcp_fields:
  "(word_of_int (drop_bit 4 (char_int s b AND 0x70)) :: u32) = drop_bit 4 (ucast (b AND 0x70))"
  "(word_of_int (drop_bit 2 (char_int s b AND 0x7C)) :: u32) = drop_bit 2 (ucast (b AND 0x7C))"
  "(word_of_int (char_int s b AND 0x07) :: u32) = ucast (b AND 0x07)"
  using tcp_field(1) [of "0x70" 4 s b] tcp_field(1) [of "0x7C" 2 s b] tcp_field(2) [of "0x07" s b]
  by simp_all

subsection \<open>The two decoders agree\<close>

lemma tcp_motion_eq: "tcp_motion s msg = udp_motion msg (msg ! 0) (msg ! 1)"
  unfolding tcp_motion_def udp_motion_def Let_def tcp_triggers_bits udp_triggers_bits tcp_fields
  by simp

lemma tcp_macro_eq:
  "tcp_macro s msg = (udp_macro msg (msg ! 0))
     \<lparr>macro_data := (if length msg = 2 then word_of_int (char_int s (msg ! 1)) else 0)\<rparr>"
  unfolding tcp_macro_def udp_macro_def Let_def tcp_fields by simp

subsection \<open>Values of the motion fields\<close>

definition left_wheel :: "u8 \<Rightarrow> int" where
  "left_wheel b1 = wheel_percent (bit b1 7) (drop_bit 4 (ucast (b1 AND 0x70)))"

definition right_wheel :: "u8 \<Rightarrow> int" where
  "right_wheel b1 = wheel_percent (bit b1 3) (ucast (b1 AND 0x07))"

lemma udp_motion_fields:
  "udp_motion msg b0 b1 =
     \<lparr>rawMessage = msg, rawBinary = msg,
      leftDrivePercent = left_wheel b1, rightDrivePercent = right_wheel b1,
      actuator1 = getActuatorMotion (bit b0 4) (bit b0 6),
      actuator2 = getActuatorMotion (bit b0 3) (bit b0 5)\<rparr>"
  by (simp add: udp_motion_def Let_def udp_triggers_bits left_wheel_def right_wheel_def)

lemma magnitude_le_7:
  "(drop_bit 4 (ucast (b AND 0x70 :: u8)) :: u32) \<le> 7" "(ucast (b AND 0x07 :: u8) :: u32) \<le> 7"
proof -
  have "\<forall>n \<in> set [0..<2 ^ LENGTH(8)].
      (drop_bit 4 (ucast ((word_of_nat n :: u8) AND 0x70)) :: u32) \<le> 7"
    by code_simp
  then show "(drop_bit 4 (ucast (b AND 0x70 :: u8)) :: u32) \<le> 7" by (rule word_all_below)
  have "\<forall>n \<in> set [0..<2 ^ LENGTH(8)]. (ucast ((word_of_nat n :: u8) AND 0x07) :: u32) \<le> 7"
    by code_simp
  then show "(ucast (b AND 0x07 :: u8) :: u32) \<le> 7" by (rule word_all_below)
qed

lemma u32_le_7: "(m :: u32) \<le> 7 \<Longrightarrow> m \<in> {0, 1, 2, 3, 4, 5, 6, 7}"
proof -
  assume "m \<le> 7"
  then have "unat m \<le> 7" by (simp add: word_le_nat_alt)
  then have "unat m \<in> {0, 1, 2, 3, 4, 5, 6, 7}" by (simp; arith)
  then have "word_of_nat (unat m) \<in> (word_of_nat ` {0, 1, 2, 3, 4, 5, 6, 7} :: u32 set)"
    by (rule imageI)
  then show ?thesis by simp
qed

lemma wheel_percent_small:
  assumes "m \<le> 7"
  shows "wheel_percent neg m = scale_percent (if neg then - uint m else uint m)"
proof -
  have "\<forall>m \<in> set [0, 1, 2, 3, 4, 5, 6, 7 :: u32]. sint (- m) = - uint m \<and> sint m = uint m"
    by code_simp
  with u32_le_7 [OF assms] have "sint (- m) = - uint m \<and> sint m = uint m" by auto
  then show ?thesis by (simp add: wheel_percent_def)
qed

lemma scale_percent_table:
  "scale_percent 0 = 0" "scale_percent 1 = 14" "scale_percent 2 = 28" "scale_percent 3 = 42"
  "scale_percent 4 = 57" "scale_percent 5 = 71" "scale_percent 6 = 85" "scale_percent 7 = 99"
  by (simp_all add: scale_percent_def c_quot_nonneg)

lemma scale_percent_minus: "scale_percent (- p) = - scale_percent p"
  by (simp only: scale_percent_def mult_minus_left c_quot_minus)

lemma wheel_percent_bounds: "m \<le> 7 \<Longrightarrow> \<bar>wheel_percent neg m\<bar> \<le> 99"
proof -
  assume m: "m \<le> 7"
  from u32_le_7 [OF m] have "\<bar>scale_percent (uint m)\<bar> \<le> 99"
    by (auto simp: scale_percent_table)
  with m show ?thesis by (simp add: wheel_percent_small scale_percent_minus)
qed

subsection \<open>The controller's encoding, as an abstract specification\<close>

text \<open>
  What a controller means by a motion packet: two wheel positions between -7 and 7 and two actuator
  motions. Bit 6 and bit 4 of the first byte are the bumper and the trigger of the first actuator,
  bit 5 and bit 3 those of the second; the second byte holds two sign-and-magnitude nibbles.
\<close>

definition actuator_bits :: "u8 \<Rightarrow> u8 \<Rightarrow> ActuatorMotion \<Rightarrow> u8" where
  "actuator_bits rb eb m =
     (case m of NONE \<Rightarrow> 0 | RETRACTING \<Rightarrow> rb | EXTENDING \<Rightarrow> eb)"

definition wheel_nibble :: "int \<Rightarrow> u8" where
  "wheel_nibble p = (if p < 0 then 0x08 else 0) OR word_of_int \<bar>p\<bar>"

definition controller_bytes :: "int \<Rightarrow> int \<Rightarrow> ActuatorMotion \<Rightarrow> ActuatorMotion \<Rightarrow> bytes" where
  "controller_bytes l r m1 m2 =
     [actuator_bits 0x40 0x10 m1 OR actuator_bits 0x20 0x08 m2,
      push_bit 4 (wheel_nibble l) OR wheel_nibble r]"

definition wheel_range :: "int list" where
  "wheel_range = [-7, -6, -5, -4, -3, -2, -1, 0, 1, 2, 3, 4, 5, 6, 7]"

lemma wheel_range_iff: "p \<in> set wheel_range \<longleftrightarrow> - 7 \<le> p \<and> p \<le> 7"
  by (simp add: wheel_range_def) arith

lemma wheels_of_nibbles:
  assumes "l \<in> set wheel_range" and "r \<in> set wheel_range"
  shows "left_wheel (push_bit 4 (wheel_nibble l) OR wheel_nibble r) = scale_percent l"
    and "right_wheel (push_bit 4 (wheel_nibble l) OR wheel_nibble r) = scale_percent r"
proof -
  have "\<forall>l \<in> set wheel_range. \<forall>r \<in> set wheel_range.
      left_wheel (push_bit 4 (wheel_nibble l) OR wheel_nibble r) = scale_percent l
    \<and> right_wheel (push_bit 4 (wheel_nibble l) OR wheel_nibble r) = scale_percent r"
    by code_simp
  with assms show "left_wheel (push_bit 4 (wheel_nibble l) OR wheel_nibble r) = scale_percent l"
    and "right_wheel (push_bit 4 (wheel_nibble l) OR wheel_nibble r) = scale_percent r"
    by blast+
qed

lemma actuators_of_bits:
  fixes m1 m2 :: ActuatorMotion
  defines "b \<equiv> actuator_bits 0x40 0x10 m1 OR actuator_bits 0x20 0x08 m2"
  shows "getActuatorMotion (bit b 4) (bit b 6) = m1" and "getActuatorMotion (bit b 3) (bit b 5) = m2"
    and "\<not> bit b 7"
proof -
  have "list_all (\<lambda>m1. list_all (\<lambda>m2.
      let b = actuator_bits 0x40 0x10 m1 OR actuator_bits 0x20 0x08 m2 in
      getActuatorMotion (bit b 4) (bit b 6) = m1 \<and> getActuatorMotion (bit b 3) (bit b 5) = m2
      \<and> \<not> bit b 7) [NONE, RETRACTING, EXTENDING]) [NONE, RETRACTING, EXTENDING]"
    by code_simp
  then show "getActuatorMotion (bit b 4) (bit b 6) = m1"
    and "getActuatorMotion (bit b 3) (bit b 5) = m2" and "\<not> bit b 7"
    unfolding b_def by (cases m1; cases m2; simp add: Let_def)+
qed

definition macro_byte :: "u8 \<Rightarrow> bool \<Rightarrow> u8" where
  "macro_byte code p = 0x80 OR push_bit 2 code OR (if p then 2 else 0)"

text \<open>
  The layout \<open>src/macros.md\<close> documents instead: the flag, a six-bit macro code, a checksum bit.
\<close>

definition documented_macro_byte :: "u8 \<Rightarrow> bool \<Rightarrow> u8" where
  "documented_macro_byte code checksum = 0x80 OR push_bit 1 code OR (if checksum then 1 else 0)"

lemma macro_byte_fields:
  "code < 32 \<Longrightarrow> bit (macro_byte code p) 7 \<and> bit (macro_byte code p) 1 = p
     \<and> (drop_bit 2 (ucast (macro_byte code p AND 0x7C)) :: u32) = ucast code"
proof -
  assume "code < 32"
  moreover have "\<forall>n \<in> set [0..<2 ^ LENGTH(8)]. (word_of_nat n :: u8) < 32 \<longrightarrow> (\<forall>p \<in> {True, False}.
      bit (macro_byte (word_of_nat n) p) 7 \<and> bit (macro_byte (word_of_nat n) p) 1 = p
     \<and> (drop_bit 2 (ucast (macro_byte (word_of_nat n) p AND 0x7C)) :: u32) = ucast (word_of_nat n :: u8))"
    by code_simp
  then have "code < 32 \<longrightarrow> (\<forall>p \<in> {True, False}.
      bit (macro_byte code p) 7 \<and> bit (macro_byte code p) 1 = p
     \<and> (drop_bit 2 (ucast (macro_byte code p AND 0x7C)) :: u32) = ucast code)"
    by (rule word_all_below)
  ultimately show ?thesis by (cases p) simp_all
qed

lemma documented_macro_byte_fields:
  "code < 64 \<Longrightarrow> bit (documented_macro_byte code p) 7
     \<and> bit (documented_macro_byte code p) 1 = odd (unat code)
     \<and> (drop_bit 2 (ucast (documented_macro_byte code p AND 0x7C)) :: u32) = ucast (drop_bit 1 code)"
proof -
  assume "code < 64"
  moreover have "\<forall>n \<in> set [0..<2 ^ LENGTH(8)]. (word_of_nat n :: u8) < 64 \<longrightarrow> (\<forall>p \<in> {True, False}.
      bit (documented_macro_byte (word_of_nat n) p) 7
     \<and> bit (documented_macro_byte (word_of_nat n) p) 1 = odd (unat (word_of_nat n :: u8))
     \<and> (drop_bit 2 (ucast (documented_macro_byte (word_of_nat n) p AND 0x7C)) :: u32)
        = ucast (drop_bit 1 (word_of_nat n :: u8)))"
    by code_simp
  then have "code < 64 \<longrightarrow> (\<forall>p \<in> {True, False}. bit (documented_macro_byte code p) 7
     \<and> bit (documented_macro_byte code p) 1 = odd (unat code)
     \<and> (drop_bit 2 (ucast (documented_macro_byte code p AND 0x7C)) :: u32) = ucast (drop_bit 1 code))"
    by (rule word_all_below)
  ultimately show ?thesis by (cases p) simp_all
qed

lemma udp_decode_motion:
  "length msg = 2 \<Longrightarrow> \<not> bit (msg ! 0) 7 \<Longrightarrow> udp_decode msg = MotionPacket (udp_motion msg (msg ! 0) (msg ! 1))"
  by (simp add: udp_decode_def)

lemma udp_decode_macro:
  "length msg \<in> {1, 2} \<Longrightarrow> bit (msg ! 0) 7 \<Longrightarrow> udp_decode msg = MacroPacket (udp_macro msg (msg ! 0))"
  by (auto simp add: udp_decode_def)

lemma motion_packet_bounds:
  "udp_decode msg = MotionPacket d \<Longrightarrow> \<bar>leftDrivePercent d\<bar> \<le> 99 \<and> \<bar>rightDrivePercent d\<bar> \<le> 99"
  by (auto simp: udp_decode_def udp_motion_fields left_wheel_def right_wheel_def
      intro!: wheel_percent_bounds magnitude_le_7 split: if_splits)

lemma word_of_char_int:
  "(word_of_int (char_int s b) :: u32) = (if s then scast b else ucast b)"
  by (simp add: char_int_def word_of_uint)

lemma sign_extended_eq: "(scast b :: u32) = ucast (b :: u8) \<longleftrightarrow> \<not> bit b 7"
proof -
  have "\<forall>n \<in> set [0..<2 ^ LENGTH(8)]. (scast (word_of_nat n :: u8) :: u32)
      = ucast (word_of_nat n :: u8) \<longleftrightarrow> \<not> bit (word_of_nat n :: u8) 7"
    by code_simp
  then show ?thesis by (rule word_all_below)
qed

lemma udp_decode_controller:
  assumes "- 7 \<le> l" "l \<le> 7" "- 7 \<le> r" "r \<le> 7"
  shows "udp_decode (controller_bytes l r m1 m2) = MotionPacket
     \<lparr>rawMessage = controller_bytes l r m1 m2, rawBinary = controller_bytes l r m1 m2,
      leftDrivePercent = scale_percent l, rightDrivePercent = scale_percent r,
      actuator1 = m1, actuator2 = m2\<rparr>"
proof -
  have "l \<in> set wheel_range" "r \<in> set wheel_range" using assms by (simp_all add: wheel_range_iff)
  then show ?thesis
    using actuators_of_bits [of m1 m2] wheels_of_nibbles [of l r]
    by (simp add: udp_decode_def udp_motion_fields controller_bytes_def)
qed

subsection \<open>Properties\<close>

text \<open>C21. The motion packet a controller sends for wheel positions \<open>l\<close> and \<open>r\<close> and two actuator
  motions is decoded to exactly these motions and to the scaled wheel percentages, whatever the
  four inputs: encoding followed by decoding loses nothing.\<close>

theorem motion_roundtrip:
  assumes "- 7 \<le> l" "l \<le> 7" "- 7 \<le> r" "r \<le> 7"
  shows "udp_decode (controller_bytes l r m1 m2) = MotionPacket
     \<lparr>rawMessage = controller_bytes l r m1 m2, rawBinary = controller_bytes l r m1 m2,
      leftDrivePercent = scale_percent l, rightDrivePercent = scale_percent r,
      actuator1 = m1, actuator2 = m2\<rparr>"
  using assms by (rule udp_decode_controller)

theorem motion_roundtrip_witness:
  "udp_decode (controller_bytes (-7) 3 EXTENDING RETRACTING) = MotionPacket
     \<lparr>rawMessage = [0x30, 0xF3], rawBinary = [0x30, 0xF3],
      leftDrivePercent = -99, rightDrivePercent = 42, actuator1 = EXTENDING, actuator2 = RETRACTING\<rparr>"
proof -
  have "controller_bytes (-7) 3 EXTENDING RETRACTING = [0x30, 0xF3]" by code_simp
  moreover have "scale_percent (-7) = -99" "scale_percent 3 = 42"
    using scale_percent_minus [of 7] by (simp_all add: scale_percent_table)
  ultimately show ?thesis using motion_roundtrip [of "-7" 3 EXTENDING RETRACTING] by simp
qed

text \<open>With an unsigned \<open>char\<close> (the Jetson) the WebSocket handler decodes every message exactly
  as the ENet handler does, although it works on promoted \<open>char\<close> values.\<close>

theorem decoders_agree: "tcp_decode False msg = udp_decode msg"
  by (auto simp: tcp_decode_def udp_decode_def tcp_motion_eq tcp_macro_eq udp_macro_def
      word_of_char_int)

text \<open>With a signed \<open>char\<close> (x86, where the socket forwarder may run) the two decoders differ on
  exactly the two-byte macro packets whose data byte has its top bit set: the data argument is
  sign-extended to 32 bits there.\<close>

theorem decoders_differ_signed:
  "tcp_decode True msg \<noteq> udp_decode msg \<longleftrightarrow> length msg = 2 \<and> bit (msg ! 0) 7 \<and> bit (msg ! 1) 7"
  by (auto simp: tcp_decode_def udp_decode_def tcp_motion_eq tcp_macro_eq udp_macro_def
      word_of_char_int sign_extended_eq)

text \<open>No message, however malformed, is decoded to a wheel percentage outside -99 to 99; a full
  deflection is 99 percent, never 100.\<close>

theorem motion_percent_bounds:
  assumes "udp_decode msg = MotionPacket d"
  shows "- 99 \<le> leftDrivePercent d \<and> leftDrivePercent d \<le> 99
       \<and> - 99 \<le> rightDrivePercent d \<and> rightDrivePercent d \<le> 99"
  using motion_packet_bounds [OF assms] by (simp add: abs_le_iff)

theorem motion_percent_bounds_witness:
  "udp_decode [0, 0x7F] = MotionPacket (udp_motion [0, 0x7F] 0 0x7F)
   \<and> leftDrivePercent (udp_motion [0, 0x7F] 0 0x7F) \<le> 99"
  using motion_percent_bounds [of "[0, 0x7F]" "udp_motion [0, 0x7F] 0 0x7F"]
  by (simp add: udp_decode_def)

text \<open>Which branch a message takes: two bytes with a clear top bit are a motion packet, one or two
  bytes with a set top bit a macro packet, and everything else is dropped.\<close>

theorem decode_classification:
  "((\<exists>d. udp_decode msg = MotionPacket d) \<longleftrightarrow> length msg = 2 \<and> \<not> bit (msg ! 0) 7)
   \<and> ((\<exists>d. udp_decode msg = MacroPacket d) \<longleftrightarrow> (length msg = 1 \<or> length msg = 2) \<and> bit (msg ! 0) 7)
   \<and> (udp_decode msg = NotDecoded \<longleftrightarrow>
        length msg = 0 \<or> 2 < length msg \<or> length msg = 1 \<and> \<not> bit (msg ! 0) 7)"
proof -
  have "length msg = 0 \<or> length msg = 1 \<or> length msg = 2 \<or> 2 < length msg" by arith
  then show ?thesis by (elim disjE) (auto simp: udp_decode_def)
qed

text \<open>A macro byte built from a five-bit code and a press flag is decoded to the macro of that code
  and to that flag; the optional second byte is the data argument.\<close>

theorem macro_roundtrip:
  assumes "code < 32"
  shows "udp_decode (macro_byte code p # rest) =
     (if length rest \<le> 1 then MacroPacket
        \<lparr>rawMessage = macro_byte code p # rest, rawBinary = macro_byte code p # rest,
         macro = Macro_cast (ucast code), pressed = p,
         macro_data = (case rest of [] \<Rightarrow> 0 | d # _ \<Rightarrow> ucast d)\<rparr>
      else NotDecoded)"
  using macro_byte_fields [OF assms, of p]
  by (cases rest) (auto simp: udp_decode_def udp_macro_def)

theorem macro_roundtrip_witness:
  "udp_decode [macro_byte 10 True, 45] = MacroPacket
     \<lparr>rawMessage = [0xAA, 45], rawBinary = [0xAA, 45], macro = Named TURN, pressed = True,
      macro_data = 45\<rparr>"
proof -
  have "macro_byte 10 True = 0xAA" by code_simp
  then show ?thesis using macro_roundtrip [of 10 True "[45]"] by (simp add: Macro_cast_def)
qed

text \<open>A macro byte built as \<open>src/macros.md\<close> documents it (a six-bit code above a checksum bit) is
  decoded to the macro of half its code, with the code's lowest bit taken for the press flag: the
  documented \<open>ESTOP\<close> and \<open>Cancel macro\<close> both select \<open>ESTOP\<close>.\<close>

theorem documented_macro_halved:
  assumes "code < 64"
  shows "\<exists>d. udp_decode [documented_macro_byte code checksum] = MacroPacket d
           \<and> macro d = Macro_cast (ucast (drop_bit 1 code)) \<and> (pressed d \<longleftrightarrow> odd (unat code))"
  using documented_macro_byte_fields [OF assms, of checksum]
  by (simp add: udp_decode_def udp_macro_def)

theorem documented_macro_halved_witness:
  "\<exists>d. udp_decode [documented_macro_byte 1 False] = MacroPacket d \<and> macro d = Named ESTOP \<and> pressed d"
  using documented_macro_halved [of 1 False] by (simp add: Macro_cast_def)

end
