(* ===== verification/Gpio.thy ===== *)
theory Gpio imports Prelude "HOL-Library.Monad_Syntax" begin

text \<open>
  The header-pin driver \<open>src/JETGPIO/nano.c\<close> with the register map of
  \<open>src/JETGPIO/jetgpio.h\<close>: initialisation, termination, pin modes, digital reads and writes, and
  the two PWM channels. The C globals (register pointers, saved register values, the tracker of
  touched pins) are one record; the memory-mapped registers are functions from their offsets, so
  that pins which share a port share its register. Reading or writing a register through a pointer
  that is not mapped is a crash, the value \<open>None\<close>. Interrupts, I2C and SPI are in \<open>GpioBus\<close>.
\<close>

subsection \<open>The pins\<close>

text \<open>
  One row per \<open>case\<close> of the driver's switches: the header pin, the offset of its port, its bit in
  the port's registers, the offsets of its pinmux and pad-configuration registers, its bit in
  \<open>pin_tracker\<close>, the other tracker bit that makes \<open>gpioTerminate\<close> restore it, and whether
  output mode uses the \<open>OUT1\<close> constants.
\<close>

datatype pin = Pin (pin_no: u32) (port: nat) (line: nat) (mux_off: nat) (cfg_off: nat)
  (trk: nat) (trk_alt: "nat option") (out1: bool)

definition pin_table :: "pin list" where
  "pin_table = [
  Pin 3 0x204 3 0xc8 0x9b4 0 None False,
  Pin 5 0x204 2 0xc4 0x9b0 1 None False,
  Pin 7 0x60c 0 0x180 0x8f4 2 None False,
  Pin 8 0x108 0 0xf4 0xb38 3 None False,
  Pin 10 0x108 1 0xf8 0xb34 4 None False,
  Pin 11 0x108 2 0xfc 0xb30 5 None False,
  Pin 12 0x204 7 0x150 0x980 6 None False,
  Pin 13 0x4 6 0x6c 0xaf8 7 (Some 30) True,
  Pin 15 0x600 2 0x1f8 0xa44 8 None False,
  Pin 16 0x704 0 0x74 0xaec 9 None True,
  Pin 18 0x4 7 0x70 0xae8 10 (Some 30) True,
  Pin 19 0x8 0 0x50 0xae0 11 (Some 29) True,
  Pin 21 0x8 1 0x54 0xadc 12 (Some 29) True,
  Pin 22 0x4 5 0x68 0xaf0 13 (Some 30) True,
  Pin 23 0x8 2 0x58 0xae4 14 (Some 29) True,
  Pin 24 0x8 3 0x5c 0xad4 15 (Some 29) True,
  Pin 26 0x8 4 0x60 0xad8 16 None True,
  Pin 27 0x204 0 0xc0 0x9ac 17 None False,
  Pin 28 0x204 1 0xbc 0x9a8 18 None False,
  Pin 29 0x408 5 0x1e4 0x92c 19 None False,
  Pin 31 0x604 0 0x27c 0x9fc 20 None False,
  Pin 32 0x504 0 0x1fc 0xa34 21 (Some 28) False,
  Pin 33 0x100 6 0x248 0x9c8 22 (Some 28) False,
  Pin 35 0x204 4 0x144 0x97c 23 None False,
  Pin 36 0x108 3 0x100 0xb2c 24 None False,
  Pin 37 0x4 4 0x64 0xaf4 25 (Some 30) True,
  Pin 38 0x204 5 0x148 0x974 26 None False,
  Pin 40 0x204 6 0x14c 0x978 27 None False]"

definition pin_lookup :: "u32 \<Rightarrow> pin option" where
  "pin_lookup gpio = find (\<lambda>p. pin_no p = gpio) pin_table"

definition PINMUX_IN :: u32 where "PINMUX_IN = 0x00000040"
definition PINMUX_OUT :: u32 where "PINMUX_OUT = 0x00000440"
definition PINMUX_OUT1 :: u32 where "PINMUX_OUT1 = 0x0000e240"
definition CFG_IN :: u32 where "CFG_IN = 0x00000000"
definition CFG_OUT :: u32 where "CFG_OUT = 0x01F1F000"
definition CFG_OUT1 :: u32 where "CFG_OUT1 = 0xF0000000"

subsection \<open>State\<close>

datatype mapping_state = NotMapped | Mapped | Unmapped

record gpio =
  mapping_state :: mapping_state
  CNF :: "nat \<Rightarrow> u32"
  OE :: "nat \<Rightarrow> u32"
  OUT :: "nat \<Rightarrow> u32"
  IN :: "nat \<Rightarrow> u32"
  INT_ENB :: "nat \<Rightarrow> u32"
  INT_LVL :: "nat \<Rightarrow> u32"
  PINMUX :: "nat \<Rightarrow> u32"
  PINCFG :: "nat \<Rightarrow> u32"
  PWM_0 :: u32
  PWM_2 :: u32
  pin_CNF :: "u32 \<Rightarrow> u32"
  pin_OE :: "u32 \<Rightarrow> u32"
  pin_ENB :: "u32 \<Rightarrow> u32"
  pin_LVL :: "u32 \<Rightarrow> u32"
  pin_MUX :: "u32 \<Rightarrow> u32"
  pin_CFG :: "u32 \<Rightarrow> u32"
  pinPWM_Init :: "u32 \<times> u32"
  pin_tracker :: u32

text \<open>What the operating system answers to \<open>open("/dev/mem")\<close> and to the six \<open>mmap\<close> calls.\<close>

record os_answers =
  open_ok :: bool
  mmap_ok :: "nat \<Rightarrow> bool"

subsection \<open>Operations\<close>

definition save_pin :: "gpio \<Rightarrow> pin \<Rightarrow> gpio" where
  "save_pin g p = g
     \<lparr>pin_CNF := (pin_CNF g)(pin_no p := CNF g (port p)),
      pin_OE := (pin_OE g)(pin_no p := OE g (port p)),
      pin_ENB := (pin_ENB g)(pin_no p := INT_ENB g (port p)),
      pin_LVL := (pin_LVL g)(pin_no p := INT_LVL g (port p)),
      pin_MUX := (pin_MUX g)(pin_no p := PINMUX g (mux_off p)),
      pin_CFG := (pin_CFG g)(pin_no p := PINCFG g (cfg_off p))\<rparr>"

definition gpioInitialise :: "os_answers \<Rightarrow> gpio \<Rightarrow> int \<times> gpio" where
  "gpioInitialise os g =
     (if \<not> open_ok os then (-1, g)
      else if \<not> mmap_ok os 0 then (-2, g)
      else if \<not> mmap_ok os 1 then (-3, g)
      else if \<not> mmap_ok os 2 then (-4, g)
      else if \<not> mmap_ok os 3 then (-5, g)
      else if \<not> mmap_ok os 4 then (-6, g)
      else if \<not> mmap_ok os 5 then (-7, g)
      else (1, (foldl save_pin (g\<lparr>mapping_state := Mapped\<rparr>) pin_table)
                 \<lparr>pinPWM_Init := (PWM_0 g, PWM_2 g)\<rparr>))"

definition tracked :: "u32 \<Rightarrow> pin \<Rightarrow> bool" where
  "tracked t p \<longleftrightarrow> bit t (trk p) \<or> (case trk_alt p of None \<Rightarrow> False | Some a \<Rightarrow> bit t a)"

definition restore_pin :: "gpio \<Rightarrow> pin \<Rightarrow> gpio" where
  "restore_pin g p =
     (if tracked (pin_tracker g) p then g
        \<lparr>CNF := (CNF g)(port p := pin_CNF g (pin_no p)),
         OE := (OE g)(port p := pin_OE g (pin_no p)),
         INT_ENB := (INT_ENB g)(port p := pin_ENB g (pin_no p)),
         INT_LVL := (INT_LVL g)(port p := pin_LVL g (pin_no p)),
         PINMUX := (PINMUX g)(mux_off p := pin_MUX g (pin_no p)),
         PINCFG := (PINCFG g)(cfg_off p := pin_CFG g (pin_no p))\<rparr>
      else g)"

definition restore_pwm :: "gpio \<Rightarrow> gpio" where
  "restore_pwm g =
     (if bit (pin_tracker g) 28
      then g\<lparr>PWM_0 := fst (pinPWM_Init g), PWM_2 := snd (pinPWM_Init g)\<rparr> else g)"

text \<open>
  A second \<open>gpioTerminate\<close> frees the ISR records twice, and restoring any register needs the
  mapping: both are crashes.
\<close>

definition gpioTerminate :: "gpio \<Rightarrow> gpio option" where
  "gpioTerminate g =
     (if mapping_state g = Unmapped
        \<or> mapping_state g = NotMapped
          \<and> (bit (pin_tracker g) 28 \<or> list_ex (tracked (pin_tracker g)) pin_table)
      then None
      else Some ((foldl restore_pin (restore_pwm g) pin_table)\<lparr>mapping_state := Unmapped\<rparr>))"

text \<open>The literal masks \<open>0x00000001\<close>, \<open>0x00000002\<close>, \dots and the shifts \<open>1 << k\<close>.\<close>

definition line_mask :: "nat \<Rightarrow> u32" where
  "line_mask k = 2 ^ k"

definition gpioSetMode :: "u32 \<Rightarrow> u32 \<Rightarrow> gpio \<Rightarrow> (int \<times> gpio) option" where
  "gpioSetMode gpio mode g =
     (if mode = 0 then
        (case pin_lookup gpio of
           None \<Rightarrow> Some (-1, g)
         | Some p \<Rightarrow>
             if mapping_state g \<noteq> Mapped then None
             else Some (1, g
               \<lparr>PINMUX := (PINMUX g)(mux_off p := PINMUX_IN),
                PINCFG := (PINCFG g)(cfg_off p := CFG_IN),
                CNF := (CNF g)(port p := CNF g (port p) OR line_mask (line p)),
                OE := (OE g)(port p := OE g (port p) AND NOT (line_mask (line p))),
                pin_tracker := pin_tracker g OR line_mask (trk p)\<rparr>))
      else if mode = 1 then
        (case pin_lookup gpio of
           None \<Rightarrow> Some (-2, g)
         | Some p \<Rightarrow>
             if mapping_state g \<noteq> Mapped then None
             else Some (1, g
               \<lparr>PINMUX := (PINMUX g)(mux_off p := (if out1 p then PINMUX_OUT1 else PINMUX_OUT)),
                PINCFG := (PINCFG g)(cfg_off p := (if out1 p then CFG_OUT1 else CFG_OUT)),
                CNF := (CNF g)(port p := CNF g (port p) OR line_mask (line p)),
                OE := (OE g)(port p := OE g (port p) OR line_mask (line p)),
                pin_tracker := pin_tracker g OR line_mask (trk p)\<rparr>))
      else Some (-3, g))"

definition gpioRead :: "u32 \<Rightarrow> gpio \<Rightarrow> int option" where
  "gpioRead gpio g =
     (case pin_lookup gpio of
        None \<Rightarrow> Some (-1)
      | Some p \<Rightarrow>
          if mapping_state g \<noteq> Mapped then None
          else Some (uint (drop_bit (line p) (IN g (port p)) AND 1)))"

definition gpioWrite :: "u32 \<Rightarrow> u32 \<Rightarrow> gpio \<Rightarrow> (int \<times> gpio) option" where
  "gpioWrite gpio level g =
     (if level = 0 then
        (case pin_lookup gpio of
           None \<Rightarrow> Some (-1, g)
         | Some p \<Rightarrow>
             if mapping_state g \<noteq> Mapped then None
             else Some (1, g\<lparr>OUT := (OUT g)(port p := OUT g (port p) AND NOT (line_mask (line p)))\<rparr>))
      else if level = 1 then
        (case pin_lookup gpio of
           None \<Rightarrow> Some (-2, g)
         | Some p \<Rightarrow>
             if mapping_state g \<noteq> Mapped then None
             else Some (1, g\<lparr>OUT := (OUT g)(port p := OUT g (port p) OR push_bit (line p) level)\<rparr>))
      else Some (-3, g))"

text \<open>\<open>round(187500.0/(double)frequency)-1\<close>: the nearest integer, halves rounded up.\<close>

definition pwm_divider :: "u32 \<Rightarrow> u32" where
  "pwm_divider frequency =
     word_of_int ((2 * 187500 + uint frequency) div (2 * uint frequency) - 1)"

definition gpioSetPWMfrequency :: "u32 \<Rightarrow> u32 \<Rightarrow> gpio \<Rightarrow> (int \<times> gpio) option" where
  "gpioSetPWMfrequency gpio frequency g =
     (if 25 \<le> frequency \<and> frequency \<le> 187000 then
        (if gpio = 32 \<or> gpio = 33 then
           (if mapping_state g \<noteq> Mapped then None
            else if gpio = 32 then Some (1, g\<lparr>PWM_0 := pwm_divider frequency,
                                      pin_tracker := pin_tracker g OR line_mask 28\<rparr>)
            else Some (1, g\<lparr>PWM_2 := pwm_divider frequency,
                            pin_tracker := pin_tracker g OR line_mask 28\<rparr>))
         else Some (-1, g\<lparr>pin_tracker := pin_tracker g OR line_mask 28\<rparr>))
      else Some (-2, g))"

definition pwm_word :: "u32 \<Rightarrow> u32 \<Rightarrow> u32" where
  "pwm_word old dutycycle =
     ((old AND NOT 0xFFFF0000) OR push_bit 16 dutycycle) OR 0x80000000"

definition pwm_pin :: "u32 \<Rightarrow> pin \<Rightarrow> gpio \<Rightarrow> gpio" where
  "pwm_pin fn p g = g
     \<lparr>PINMUX := (PINMUX g)(mux_off p := fn),
      PINCFG := (PINCFG g)(cfg_off p := CFG_OUT),
      CNF := (CNF g)(port p := CNF g (port p) AND NOT (line_mask (line p)))\<rparr>"

definition gpioPWM :: "u32 \<Rightarrow> u32 \<Rightarrow> gpio \<Rightarrow> (int \<times> gpio) option" where
  "gpioPWM gpio dutycycle g =
     (if dutycycle \<le> 256 then
        (case pin_lookup gpio of
           None \<Rightarrow> Some (-1, g)
         | Some p \<Rightarrow>
             if gpio = 32 then
               (if mapping_state g \<noteq> Mapped then None
                else Some (1, (pwm_pin 1 p g)\<lparr>PWM_0 := pwm_word (PWM_0 g) dutycycle\<rparr>))
             else if gpio = 33 then
               (if mapping_state g \<noteq> Mapped then None
                else Some (1, (pwm_pin 2 p g)\<lparr>PWM_2 := pwm_word (PWM_2 g) dutycycle\<rparr>))
             else Some (-1, g))
      else Some (-2, g))"

subsection \<open>The pin table\<close>

lemma pin_table_distinct:
  "distinct (map pin_no pin_table)" "distinct (map (\<lambda>p. (port p, line p)) pin_table)"
  "distinct (map mux_off pin_table)" "distinct (map cfg_off pin_table)"
  by (simp_all add: pin_table_def)

lemma pin_table_ranges: "p \<in> set pin_table \<Longrightarrow> line p < 8 \<and> trk p < 28"
proof -
  have "list_all (\<lambda>p. line p < 8 \<and> trk p < 28) pin_table" by (simp add: pin_table_def)
  then show "p \<in> set pin_table \<Longrightarrow> line p < 8 \<and> trk p < 28" by (simp add: list_all_iff)
qed

lemma pin_lookup_SomeD: "pin_lookup n = Some p \<Longrightarrow> p \<in> set pin_table \<and> pin_no p = n"
  by (auto simp: pin_lookup_def find_Some_iff)

lemma pin_lookup_pin_no: "p \<in> set pin_table \<Longrightarrow> pin_lookup (pin_no p) = Some p"
proof -
  assume p: "p \<in> set pin_table"
  then have "pin_lookup (pin_no p) \<noteq> None" by (auto simp: pin_lookup_def find_None_iff)
  then obtain q where q: "pin_lookup (pin_no p) = Some q" by blast
  then have "q \<in> set pin_table" "pin_no q = pin_no p" using pin_lookup_SomeD by blast+
  with p pin_table_distinct(1) have "q = p" by (auto simp: distinct_map dest: inj_onD)
  with q show ?thesis by simp
qed

text \<open>Two different pins never share a bit of a port register.\<close>

lemma pin_line_inj:
  "pin_lookup m = Some p \<Longrightarrow> pin_lookup n = Some q \<Longrightarrow> m \<noteq> n \<Longrightarrow> port p = port q \<Longrightarrow> line p \<noteq> line q"
  using pin_table_distinct(2)
  by (auto simp: distinct_map dest!: pin_lookup_SomeD dest: inj_onD)

lemma bit_line_mask: "bit (line_mask k) n \<longleftrightarrow> n = k \<and> n < 32"
  by (auto simp: line_mask_def bit_simps)

lemma pin_line_lt: "pin_lookup m = Some p \<Longrightarrow> line p < 32"
  using pin_table_ranges pin_lookup_SomeD by fastforce

subsection \<open>Digital output\<close>

definition valid_pin :: "u32 \<Rightarrow> bool" where
  "valid_pin n \<longleftrightarrow> pin_lookup n \<noteq> None"

definition port_bit :: "(nat \<Rightarrow> u32) \<Rightarrow> u32 \<Rightarrow> bool" where
  "port_bit r n = (case pin_lookup n of None \<Rightarrow> False | Some p \<Rightarrow> bit (r (port p)) (line p))"

definition out_level :: "gpio \<Rightarrow> u32 \<Rightarrow> bool" where
  "out_level g n = port_bit (OUT g) n"

definition gpio_ready :: "gpio \<Rightarrow> bool" where
  "gpio_ready g \<longleftrightarrow> mapping_state g = Mapped"

lemma port_bit_set:
  assumes "pin_lookup n = Some p"
  shows "port_bit (r(port p := r (port p) OR line_mask (line p))) m \<longleftrightarrow> m = n \<or> port_bit r m"
  using assms pin_line_inj [of m _ n p] pin_line_lt [OF assms]
  by (cases "m = n") (auto simp: port_bit_def bit_or_iff bit_line_mask split: option.splits)

lemma port_bit_clear:
  assumes "pin_lookup n = Some p"
  shows "port_bit (r(port p := r (port p) AND NOT (line_mask (line p)))) m \<longleftrightarrow> m \<noteq> n \<and> port_bit r m"
  using assms pin_line_inj [of m _ n p] pin_line_lt [OF assms]
  by (cases "m = n")
    (auto simp: port_bit_def bit_and_iff bit_not_iff bit_line_mask split: option.splits
      dest: pin_line_lt bit_imp_le_length)

text \<open>
  What the actuator code relies on: a driver of digital lines. Writing 0 or 1 to a valid line
  succeeds with status 1, sets that line, and leaves every other line alone.
\<close>

locale digital_out =
  fixes wr :: "u32 \<Rightarrow> u32 \<Rightarrow> 's \<Rightarrow> (int \<times> 's) option"
    and level :: "'s \<Rightarrow> u32 \<Rightarrow> bool"
    and valid :: "u32 \<Rightarrow> bool"
    and ready :: "'s \<Rightarrow> bool"
  assumes wr_ok: "ready s \<Longrightarrow> valid n \<Longrightarrow> v = 0 \<or> v = 1 \<Longrightarrow>
      \<exists>s'. wr n v s = Some (1, s') \<and> ready s' \<and> (\<forall>m. level s' m = (if m = n then v = 1 else level s m))"
begin

lemma wr_obtain:
  assumes "ready s" "valid n" "v = 0 \<or> v = 1"
  obtains s' where "wr n v s = Some (1, s')" "ready s'"
    "\<And>m. level s' m = (if m = n then v = 1 else level s m)"
  using wr_ok [OF assms] by blast

lemma wr_pair:
  assumes "ready s" "valid a" "valid b" "a \<noteq> b" "v = 0 \<or> v = 1" "w = 0 \<or> w = 1"
  shows "\<exists>s' s''. wr a v s = Some (1, s') \<and> wr b w s' = Some (1, s'') \<and> ready s''
     \<and> (\<forall>m. level s'' m = (if m = a then v = 1 else if m = b then w = 1 else level s m))"
proof -
  obtain s' where 1: "wr a v s = Some (1, s')" "ready s'"
    "\<And>m. level s' m = (if m = a then v = 1 else level s m)"
    using wr_obtain [OF assms(1,2,5)] by blast
  obtain s'' where 2: "wr b w s' = Some (1, s'')" "ready s''"
    "\<And>m. level s'' m = (if m = b then w = 1 else level s' m)"
    using wr_obtain [OF 1(2) assms(3,6)] by blast
  from 1 2 assms(4) show ?thesis by auto
qed

end

lemma gpioWrite_ok:
  assumes "gpio_ready g" "valid_pin n" "v = 0 \<or> v = 1"
  shows "\<exists>g'. gpioWrite n v g = Some (1, g') \<and> gpio_ready g'
     \<and> (\<forall>m. out_level g' m = (if m = n then v = 1 else out_level g m))"
proof -
  from assms(2) obtain p where p: "pin_lookup n = Some p" by (auto simp: valid_pin_def)
  from assms(3) show ?thesis
  proof
    assume "v = 0"
    with p assms(1) show ?thesis
      by (simp add: gpioWrite_def gpio_ready_def out_level_def port_bit_clear)
  next
    assume "v = 1"
    with p assms(1) show ?thesis
      by (simp add: gpioWrite_def gpio_ready_def out_level_def port_bit_set [unfolded line_mask_def])
  qed
qed

interpretation nano: digital_out gpioWrite out_level valid_pin gpio_ready
  by unfold_locales (rule gpioWrite_ok)

subsection \<open>PWM registers\<close>

definition pwm_duty :: "u32 \<Rightarrow> u32" where
  "pwm_duty w = drop_bit 16 w AND 0x7FFF"

lemma u32_le_256: "(d :: u32) \<le> 256 \<Longrightarrow> d = take_bit 9 d"
proof -
  assume "d \<le> 256"
  then have "unat d < 2 ^ 9" by (simp add: word_le_nat_alt)
  then have "unat (take_bit 9 d) = unat d" by (simp add: unsigned_take_bit_eq take_bit_nat_eq_self)
  then show ?thesis by (simp add: word_unat_eq_iff)
qed

lemma pwm_word_bits:
  assumes "d \<le> 256"
  shows "pwm_duty (pwm_word old d) = d" and "bit (pwm_word old d) 31"
    and "take_bit 16 (pwm_word old d) = take_bit 16 old"
proof -
  have d9: "n < 9" if "bit d n" for n
    using that u32_le_256 [OF assms] by (metis bit_take_bit_iff)
  have top: "(0x80000000 :: u32) = 2 ^ 31" and low: "(0x7FFF :: u32) = mask 15"
    and high: "(0xFFFF0000 :: u32) = push_bit 16 (mask 16)"
    by (simp_all add: mask_eq_exp_minus_1)
  have "bit (pwm_word old d) (16 + n) \<longleftrightarrow> bit d n" if "n < 15" for n
    using that unfolding pwm_word_def top high
    by (simp only: bit_or_iff bit_and_iff bit_not_iff bit_exp_iff bit_push_bit_iff bit_mask_iff)
      (auto dest: d9)
  then show "pwm_duty (pwm_word old d) = d"
    unfolding pwm_duty_def low
    by (intro bit_word_eqI, rename_tac n, case_tac "n < 15")
      (auto simp: bit_and_iff bit_drop_bit_eq bit_mask_iff dest: d9)
  show "bit (pwm_word old d) 31" unfolding pwm_word_def top by (simp add: bit_simps)
  show "take_bit 16 (pwm_word old d) = take_bit 16 old"
    unfolding pwm_word_def top high
    by (rule bit_word_eqI) (auto simp: bit_simps dest: d9)
qed

subsection \<open>Restoring the registers\<close>

datatype gpio_op = SetMode u32 u32 | Write u32 u32 | SetFreq u32 u32 | Pwm u32 u32

fun gpio_step :: "gpio_op \<Rightarrow> gpio \<Rightarrow> (int \<times> gpio) option" where
  "gpio_step (SetMode n m) g = gpioSetMode n m g"
| "gpio_step (Write n v) g = gpioWrite n v g"
| "gpio_step (SetFreq n f) g = gpioSetPWMfrequency n f g"
| "gpio_step (Pwm n d) g = gpioPWM n d g"

fun gpio_run :: "gpio_op list \<Rightarrow> gpio \<Rightarrow> gpio option" where
  "gpio_run [] g = Some g"
| "gpio_run (x # xs) g = (case gpio_step x g of None \<Rightarrow> None | Some (_, g') \<Rightarrow> gpio_run xs g')"

text \<open>A duty cycle is only set once a frequency in range has been set, as the drive motors do.\<close>

fun freq_first :: "gpio_op list \<Rightarrow> bool" where
  "freq_first [] = True"
| "freq_first (SetFreq n f # xs) = (25 \<le> f \<and> f \<le> 187000 \<or> freq_first xs)"
| "freq_first (Pwm n d # xs) = False"
| "freq_first (_ # xs) = freq_first xs"

definition saved_from :: "gpio \<Rightarrow> gpio \<Rightarrow> bool" where
  "saved_from g0 g \<longleftrightarrow> (\<forall>p \<in> set pin_table.
      pin_CNF g (pin_no p) = CNF g0 (port p) \<and> pin_OE g (pin_no p) = OE g0 (port p)
    \<and> pin_ENB g (pin_no p) = INT_ENB g0 (port p) \<and> pin_LVL g (pin_no p) = INT_LVL g0 (port p)
    \<and> pin_MUX g (pin_no p) = PINMUX g0 (mux_off p) \<and> pin_CFG g (pin_no p) = PINCFG g0 (cfg_off p))
    \<and> pinPWM_Init g = (PWM_0 g0, PWM_2 g0)"

text \<open>A register of the list may differ from its first value only where a tracked pin will restore it.\<close>

definition covered :: "u32 \<Rightarrow> (pin \<Rightarrow> nat) \<Rightarrow> (nat \<Rightarrow> u32) \<Rightarrow> (nat \<Rightarrow> u32) \<Rightarrow> bool" where
  "covered t key r0 r \<longleftrightarrow> (\<forall>a. r a \<noteq> r0 a \<longrightarrow> (\<exists>p \<in> set pin_table. key p = a \<and> tracked t p))"

definition restorable :: "gpio \<Rightarrow> gpio \<Rightarrow> bool" where
  "restorable g0 g \<longleftrightarrow> mapping_state g = Mapped \<and> saved_from g0 g
     \<and> covered (pin_tracker g) port (CNF g0) (CNF g) \<and> covered (pin_tracker g) port (OE g0) (OE g)
     \<and> covered (pin_tracker g) port (INT_ENB g0) (INT_ENB g)
     \<and> covered (pin_tracker g) port (INT_LVL g0) (INT_LVL g)
     \<and> covered (pin_tracker g) mux_off (PINMUX g0) (PINMUX g)
     \<and> covered (pin_tracker g) cfg_off (PINCFG g0) (PINCFG g)
     \<and> (bit (pin_tracker g) 28 \<or> PWM_0 g = PWM_0 g0 \<and> PWM_2 g = PWM_2 g0)"

lemma covered_upd:
  assumes "covered t key r0 r" and "\<And>p. tracked t p \<Longrightarrow> tracked t' p"
    and "p \<in> set pin_table" and "tracked t' p"
  shows "covered t' key r0 (r(key p := v))"
  using assms by (auto simp: covered_def)

lemma covered_mono:
  "covered t key r0 r \<Longrightarrow> (\<And>p. tracked t p \<Longrightarrow> tracked t' p) \<Longrightarrow> covered t' key r0 r"
  unfolding covered_def by blast

lemma tracked_or: "tracked t p \<Longrightarrow> tracked (t OR m) p"
  by (auto simp: tracked_def bit_or_iff split: option.splits)

lemma tracked_self: "p \<in> set pin_table \<Longrightarrow> tracked (t OR line_mask (trk p)) p"
  using pin_table_ranges [of p] by (simp add: tracked_def bit_or_iff bit_line_mask)

lemma covered_or: "covered t key r0 r \<Longrightarrow> covered (t OR m) key r0 r"
  using covered_mono tracked_or by blast

lemma covered_upd_or:
  "covered t key r0 r \<Longrightarrow> p \<in> set pin_table \<Longrightarrow>
     covered (t OR line_mask (trk p)) key r0 (r(key p := v))"
  by (rule covered_upd [where t = t]) (auto intro: tracked_or tracked_self)

lemma bit28_or: "bit t 28 \<Longrightarrow> bit (t OR m :: u32) 28"
  by (simp add: bit_or_iff)

lemma bit28_set: "bit (t OR line_mask 28) 28"
  by (simp add: bit_or_iff bit_line_mask)

lemma pwm_pins_tracked:
  assumes "bit t 28" and "pin_lookup n = Some p" and "n = 32 \<or> n = 33"
  shows "tracked t p"
proof -
  have "list_all (\<lambda>p. pin_no p = 32 \<or> pin_no p = 33 \<longrightarrow> trk_alt p = Some 28) pin_table"
    by (simp add: pin_table_def)
  with assms show ?thesis by (auto simp: tracked_def list_all_iff dest!: pin_lookup_SomeD)
qed

lemma restorable_mode:
  assumes "restorable g0 g" and "p \<in> set pin_table"
  shows "restorable g0 (g\<lparr>PINMUX := (PINMUX g)(mux_off p := a), PINCFG := (PINCFG g)(cfg_off p := b),
     CNF := (CNF g)(port p := c), OE := (OE g)(port p := d),
     pin_tracker := pin_tracker g OR line_mask (trk p)\<rparr>)"
  using assms unfolding restorable_def saved_from_def
  by (auto intro: covered_upd_or covered_or bit28_or)

lemma restorable_pwm_pin:
  assumes "restorable g0 g" and "bit (pin_tracker g) 28" and "pin_lookup n = Some p" "n = 32 \<or> n = 33"
  shows "restorable g0 (pwm_pin fn p g\<lparr>PWM_0 := a\<rparr>) \<and> restorable g0 (pwm_pin fn p g\<lparr>PWM_2 := b\<rparr>)"
proof -
  have "p \<in> set pin_table" "tracked (pin_tracker g) p"
    using assms pwm_pins_tracked pin_lookup_SomeD by blast+
  with assms(1,2) show ?thesis
    unfolding restorable_def saved_from_def pwm_pin_def by (auto intro: covered_upd)
qed

lemma gpio_step_restorable:
  assumes r: "restorable g0 g" and s: "gpio_step x g = Some (st, g')"
    and f: "\<And>n d. x = Pwm n d \<Longrightarrow> bit (pin_tracker g) 28"
  shows "restorable g0 g'"
proof (cases x)
  case (SetMode n m)
  show ?thesis
  proof (cases "pin_lookup n")
    case None
    with SetMode r s show ?thesis by (auto simp: gpioSetMode_def split: if_splits)
  next
    case (Some p)
    with SetMode s pin_lookup_SomeD [OF Some] show ?thesis
      using r restorable_mode [OF r, of p] by (auto simp: gpioSetMode_def split: if_split_asm)
  qed
next
  case (Write n v)
  then show ?thesis using r s
    by (auto simp: gpioWrite_def restorable_def saved_from_def split: if_splits option.splits)
next
  case (SetFreq n v)
  then show ?thesis using r s
    by (auto simp: gpioSetPWMfrequency_def restorable_def saved_from_def bit28_set
        intro!: covered_or split: if_splits)
next
  case (Pwm n d)
  from Pwm show ?thesis using r s restorable_pwm_pin [OF r f [OF Pwm], of n]
    by (auto simp: gpioPWM_def split: if_split_asm option.splits)
qed

lemma step_tracker_mono:
  "gpio_step x g = Some (st, g') \<Longrightarrow> bit (pin_tracker g) k \<Longrightarrow> bit (pin_tracker g') k"
  by (cases x) (auto simp: gpioSetMode_def gpioWrite_def gpioSetPWMfrequency_def gpioPWM_def
      pwm_pin_def bit_or_iff split: if_split_asm option.splits)

lemma setfreq_tracker:
  "gpio_step (SetFreq n f) g = Some (st, g') \<Longrightarrow> 25 \<le> f \<Longrightarrow> f \<le> 187000 \<Longrightarrow> bit (pin_tracker g') 28"
  by (auto simp: gpioSetPWMfrequency_def bit28_set split: if_split_asm)

lemma gpio_run_restorable:
  "restorable g0 g \<Longrightarrow> gpio_run ops g = Some g' \<Longrightarrow> bit (pin_tracker g) 28 \<or> freq_first ops
    \<Longrightarrow> restorable g0 g'"
proof (induction ops arbitrary: g)
  case Nil
  then show ?case by simp
next
  case (Cons x xs)
  from Cons.prems(2) obtain st g1 where 1: "gpio_step x g = Some (st, g1)" "gpio_run xs g1 = Some g'"
    by (auto split: option.splits)
  have "restorable g0 g1"
    by (rule gpio_step_restorable [OF Cons.prems(1) 1(1)]) (use Cons.prems(3) in auto)
  moreover have "bit (pin_tracker g1) 28 \<or> freq_first xs"
    using Cons.prems(3) step_tracker_mono [OF 1(1), of 28] setfreq_tracker 1(1)
    by (cases x) auto
  ultimately show ?case using Cons.IH 1(2) by blast
qed

lemma save_pins_frame:
  "mapping_state (foldl save_pin g ps) = mapping_state g" "CNF (foldl save_pin g ps) = CNF g"
  "OE (foldl save_pin g ps) = OE g" "OUT (foldl save_pin g ps) = OUT g"
  "INT_ENB (foldl save_pin g ps) = INT_ENB g" "INT_LVL (foldl save_pin g ps) = INT_LVL g"
  "PINMUX (foldl save_pin g ps) = PINMUX g" "PINCFG (foldl save_pin g ps) = PINCFG g"
  "PWM_0 (foldl save_pin g ps) = PWM_0 g" "PWM_2 (foldl save_pin g ps) = PWM_2 g"
  "pin_tracker (foldl save_pin g ps) = pin_tracker g"
  by (rule foldl_frame, simp add: save_pin_def)+

lemma save_pin_fields:
  "pin_CNF (save_pin g p) = (pin_CNF g)(pin_no p := CNF g (port p))"
  "pin_OE (save_pin g p) = (pin_OE g)(pin_no p := OE g (port p))"
  "pin_ENB (save_pin g p) = (pin_ENB g)(pin_no p := INT_ENB g (port p))"
  "pin_LVL (save_pin g p) = (pin_LVL g)(pin_no p := INT_LVL g (port p))"
  "pin_MUX (save_pin g p) = (pin_MUX g)(pin_no p := PINMUX g (mux_off p))"
  "pin_CFG (save_pin g p) = (pin_CFG g)(pin_no p := PINCFG g (cfg_off p))"
  by (simp_all add: save_pin_def)

lemma save_pins_saved:
  "distinct (map pin_no ps) \<Longrightarrow> p \<in> set ps \<Longrightarrow>
     pin_CNF (foldl save_pin g ps) (pin_no p) = CNF g (port p)
   \<and> pin_OE (foldl save_pin g ps) (pin_no p) = OE g (port p)
   \<and> pin_ENB (foldl save_pin g ps) (pin_no p) = INT_ENB g (port p)
   \<and> pin_LVL (foldl save_pin g ps) (pin_no p) = INT_LVL g (port p)
   \<and> pin_MUX (foldl save_pin g ps) (pin_no p) = PINMUX g (mux_off p)
   \<and> pin_CFG (foldl save_pin g ps) (pin_no p) = PINCFG g (cfg_off p)"
proof (induction ps rule: rev_induct)
  case Nil
  then show ?case by simp
next
  case (snoc q ps)
  then have "p = q \<or> p \<in> set ps \<and> pin_no p \<noteq> pin_no q" by (auto simp: image_iff)
  with snoc show ?case
    by (elim disjE) (simp_all add: save_pin_fields save_pins_frame)
qed

lemma gpioInitialise_cases:
  "gpioInitialise os g0 = (st, g) \<Longrightarrow> st < 0 \<and> g = g0 \<or> st = 1 \<and> restorable g0 g
     \<and> OUT g = OUT g0 \<and> pin_tracker g = pin_tracker g0"
  by (auto simp: gpioInitialise_def restorable_def saved_from_def covered_def save_pins_frame
      save_pins_saved pin_table_distinct split: if_splits)

lemma restore_pins_frame:
  "pin_CNF (foldl restore_pin g ps) = pin_CNF g" "pin_OE (foldl restore_pin g ps) = pin_OE g"
  "pin_ENB (foldl restore_pin g ps) = pin_ENB g" "pin_LVL (foldl restore_pin g ps) = pin_LVL g"
  "pin_MUX (foldl restore_pin g ps) = pin_MUX g" "pin_CFG (foldl restore_pin g ps) = pin_CFG g"
  "pin_tracker (foldl restore_pin g ps) = pin_tracker g" "PWM_0 (foldl restore_pin g ps) = PWM_0 g"
  "PWM_2 (foldl restore_pin g ps) = PWM_2 g" "OUT (foldl restore_pin g ps) = OUT g"
  by (rule foldl_frame, simp add: restore_pin_def)+

definition restore_map ::
  "(pin \<Rightarrow> nat) \<Rightarrow> (u32 \<Rightarrow> u32) \<Rightarrow> u32 \<Rightarrow> pin list \<Rightarrow> (nat \<Rightarrow> u32) \<Rightarrow> nat \<Rightarrow> u32" where
  "restore_map key sv t ps r =
     foldl (\<lambda>r p. if tracked t p then r(key p := sv (pin_no p)) else r) r ps"

lemma restore_pins_maps:
  "CNF (foldl restore_pin g ps) = restore_map port (pin_CNF g) (pin_tracker g) ps (CNF g)"
  "OE (foldl restore_pin g ps) = restore_map port (pin_OE g) (pin_tracker g) ps (OE g)"
  "INT_ENB (foldl restore_pin g ps) = restore_map port (pin_ENB g) (pin_tracker g) ps (INT_ENB g)"
  "INT_LVL (foldl restore_pin g ps) = restore_map port (pin_LVL g) (pin_tracker g) ps (INT_LVL g)"
  "PINMUX (foldl restore_pin g ps) = restore_map mux_off (pin_MUX g) (pin_tracker g) ps (PINMUX g)"
  "PINCFG (foldl restore_pin g ps) = restore_map cfg_off (pin_CFG g) (pin_tracker g) ps (PINCFG g)"
  by (induction ps rule: rev_induct)
    (simp_all add: restore_map_def restore_pin_def restore_pins_frame)

lemma restore_map_value:
  "(\<And>p. p \<in> set ps \<Longrightarrow> sv (pin_no p) = r0 (key p)) \<Longrightarrow>
   restore_map key sv t ps r a =
     (if \<exists>p \<in> set ps. key p = a \<and> tracked t p then r0 a else r a)"
  by (induction ps rule: rev_induct) (auto simp: restore_map_def)

lemma restore_map_covered:
  assumes "covered t key r0 r" and "\<And>p. p \<in> set pin_table \<Longrightarrow> sv (pin_no p) = r0 (key p)"
  shows "restore_map key sv t pin_table r = r0"
  using assms by (auto simp: fun_eq_iff restore_map_value covered_def)

lemma terminate_restorable:
  assumes "restorable g0 g"
  shows "\<exists>g'. gpioTerminate g = Some g' \<and> CNF g' = CNF g0 \<and> OE g' = OE g0 \<and> INT_ENB g' = INT_ENB g0
     \<and> INT_LVL g' = INT_LVL g0 \<and> PINMUX g' = PINMUX g0 \<and> PINCFG g' = PINCFG g0
     \<and> PWM_0 g' = PWM_0 g0 \<and> PWM_2 g' = PWM_2 g0"
  using assms
  by (auto simp: gpioTerminate_def restorable_def saved_from_def restore_pins_maps
      restore_pins_frame restore_pwm_def intro!: restore_map_covered)

subsection \<open>PWM output\<close>

definition pwm_reg :: "gpio \<Rightarrow> u32 \<Rightarrow> u32" where
  "pwm_reg g n = (if n = 32 then PWM_0 g else PWM_2 g)"

definition pwm_pin_no :: "u32 \<Rightarrow> bool" where
  "pwm_pin_no n \<longleftrightarrow> n = 32 \<or> n = 33"

definition duty :: "gpio \<Rightarrow> u32 \<Rightarrow> u32" where
  "duty g n = pwm_duty (pwm_reg g n)"

lemma pin_lookup_pwm:
  "pin_lookup 32 = Some (Pin 32 0x504 0 0x1fc 0xa34 21 (Some 28) False)"
  "pin_lookup 33 = Some (Pin 33 0x100 6 0x248 0x9c8 22 (Some 28) False)"
  by (simp_all add: pin_lookup_def pin_table_def)

lemma gpioPWM_reg:
  assumes "gpio_ready g" and "pwm_pin_no n" and "d \<le> 256"
  shows "\<exists>g'. gpioPWM n d g = Some (1, g') \<and> gpio_ready g' \<and> OUT g' = OUT g
     \<and> (\<forall>m. pwm_pin_no m \<longrightarrow> pwm_reg g' m = (if m = n then pwm_word (pwm_reg g m) d else pwm_reg g m))"
  using assms
  by (auto simp: gpioPWM_def pwm_pin_no_def pin_lookup_pwm gpio_ready_def pwm_pin_def pwm_reg_def)

text \<open>
  What the drive motors rely on beside the digital lines: a PWM channel takes any duty cycle up to
  256, changes no other channel and no digital line, and digital writes change no channel.
\<close>

locale motor_pins = digital_out wr level valid ready
  for wr :: "u32 \<Rightarrow> u32 \<Rightarrow> 's \<Rightarrow> (int \<times> 's) option" and level valid ready +
  fixes pwm :: "u32 \<Rightarrow> u32 \<Rightarrow> 's \<Rightarrow> (int \<times> 's) option"
    and dty :: "'s \<Rightarrow> u32 \<Rightarrow> u32"
    and chan :: "u32 \<Rightarrow> bool"
  assumes pwm_ok: "ready s \<Longrightarrow> chan n \<Longrightarrow> d \<le> 256 \<Longrightarrow>
      \<exists>s'. pwm n d s = Some (1, s') \<and> ready s' \<and> level s' = level s
         \<and> (\<forall>m. chan m \<longrightarrow> dty s' m = (if m = n then d else dty s m))"
    and wr_frame: "wr n v s = Some (st, s') \<Longrightarrow> dty s' = dty s"
begin

lemma pwm_obtain:
  assumes "ready s" "chan n" "d \<le> 256"
  obtains s' where "pwm n d s = Some (1, s')" "ready s'" "level s' = level s"
    "\<And>m. chan m \<Longrightarrow> dty s' m = (if m = n then d else dty s m)"
  using pwm_ok [OF assms] by blast

lemma wr_pair_frame:
  assumes "ready s" "valid a" "valid b" "a \<noteq> b" "v = 0 \<or> v = 1" "w = 0 \<or> w = 1"
  shows "\<exists>s' s''. wr a v s = Some (1, s') \<and> wr b w s' = Some (1, s'') \<and> ready s'' \<and> dty s'' = dty s
     \<and> (\<forall>m. level s'' m = (if m = a then v = 1 else if m = b then w = 1 else level s m))"
  using wr_pair [OF assms] wr_frame by metis

end

lemma gpioPWM_ok:
  assumes "gpio_ready g" and "pwm_pin_no n" and "d \<le> 256"
  shows "\<exists>g'. gpioPWM n d g = Some (1, g') \<and> gpio_ready g' \<and> out_level g' = out_level g
     \<and> (\<forall>m. pwm_pin_no m \<longrightarrow> duty g' m = (if m = n then d else duty g m))"
proof -
  obtain g' where g': "gpioPWM n d g = Some (1, g')" "gpio_ready g'" "OUT g' = OUT g"
    "\<And>m. pwm_pin_no m \<Longrightarrow> pwm_reg g' m = (if m = n then pwm_word (pwm_reg g m) d else pwm_reg g m)"
    using gpioPWM_reg [OF assms] by blast
  then have "out_level g' = out_level g" by (auto simp: out_level_def)
  with g' show ?thesis using assms(3) by (auto simp: duty_def pwm_word_bits)
qed

lemma gpioWrite_duty: "gpioWrite n v g = Some (st, g') \<Longrightarrow> duty g' = duty g"
  by (auto simp: gpioWrite_def duty_def pwm_reg_def split: if_split_asm option.splits)

interpretation nano: motor_pins gpioWrite out_level valid_pin gpio_ready gpioPWM duty pwm_pin_no
  by unfold_locales (erule (2) gpioPWM_ok, erule gpioWrite_duty)

text \<open>The globals at program start, with all hardware registers clear, and a cooperative system.\<close>

definition gpio_boot :: gpio where
  "gpio_boot = \<lparr>mapping_state = NotMapped, CNF = (\<lambda>_. 0), OE = (\<lambda>_. 0), OUT = (\<lambda>_. 0), IN = (\<lambda>_. 0),
     INT_ENB = (\<lambda>_. 0), INT_LVL = (\<lambda>_. 0), PINMUX = (\<lambda>_. 0), PINCFG = (\<lambda>_. 0), PWM_0 = 0, PWM_2 = 0,
     pin_CNF = (\<lambda>_. 0), pin_OE = (\<lambda>_. 0), pin_ENB = (\<lambda>_. 0), pin_LVL = (\<lambda>_. 0), pin_MUX = (\<lambda>_. 0),
     pin_CFG = (\<lambda>_. 0), pinPWM_Init = (0, 0), pin_tracker = 0\<rparr>"

definition os_root :: os_answers where
  "os_root = \<lparr>open_ok = True, mmap_ok = (\<lambda>_. True)\<rparr>"

definition gpio_up :: gpio where
  "gpio_up = snd (gpioInitialise os_root gpio_boot)"

lemma gpio_up_init: "gpioInitialise os_root gpio_boot = (1, gpio_up)"
  by (simp add: gpio_up_def gpioInitialise_def os_root_def)

lemma gpio_up_ready: "mapping_state gpio_up = Mapped" "gpio_ready gpio_up"
  using gpioInitialise_cases [OF gpio_up_init] by (simp_all add: restorable_def gpio_ready_def)

subsection \<open>Properties\<close>

text \<open>A write to a header pin sets exactly that line: the status is 1, the pin has the level
  written, and every other header pin keeps its level although several pins share a port register.\<close>

theorem gpioWrite_frame:
  assumes "mapping_state g = Mapped" and "pin_lookup n = Some p" and "v = 0 \<or> v = 1"
  shows "\<exists>g'. gpioWrite n v g = Some (1, g') \<and> mapping_state g' = Mapped
     \<and> (\<forall>m. out_level g' m = (if m = n then v = 1 else out_level g m))"
  using nano.wr_ok [of g n v] assms by (simp add: gpio_ready_def valid_pin_def)

text \<open>Whatever modes, levels, PWM frequencies and duty cycles a program sets after a successful
  \<open>gpioInitialise\<close> (a frequency before the first duty cycle), \<open>gpioTerminate\<close> puts every
  configuration, direction, interrupt, pinmux, pad and PWM register back to its first value.\<close>

theorem terminate_restores:
  assumes "gpioInitialise os g0 = (1, g1)" and "gpio_run ops g1 = Some g2" and "freq_first ops"
  shows "\<exists>g3. gpioTerminate g2 = Some g3 \<and> CNF g3 = CNF g0 \<and> OE g3 = OE g0
     \<and> INT_ENB g3 = INT_ENB g0 \<and> INT_LVL g3 = INT_LVL g0 \<and> PINMUX g3 = PINMUX g0
     \<and> PINCFG g3 = PINCFG g0 \<and> PWM_0 g3 = PWM_0 g0 \<and> PWM_2 g3 = PWM_2 g0"
  using gpioInitialise_cases [OF assms(1)] gpio_run_restorable [OF _ assms(2)] assms(3)
    terminate_restorable by auto

theorem terminate_restores_witness:
  "\<exists>g2 g3. gpio_run [SetMode 35 1, Write 35 1, SetFreq 32 150, Pwm 32 57] gpio_up = Some g2
     \<and> gpioTerminate g2 = Some g3 \<and> CNF g3 = CNF gpio_boot \<and> PWM_0 g3 = PWM_0 gpio_boot"
proof -
  let ?ops = "[SetMode 35 1, Write 35 1, SetFreq 32 150, Pwm 32 57]"
  have "pin_lookup 35 \<noteq> None" "pin_lookup 32 \<noteq> None" by (simp_all add: pin_lookup_def pin_table_def)
  then obtain g2 where run: "gpio_run ?ops gpio_up = Some g2"
    by (auto simp: gpioSetMode_def gpioWrite_def gpioSetPWMfrequency_def gpioPWM_def pwm_pin_def
        gpio_up_ready)
  have "freq_first ?ops" by simp
  from terminate_restores [OF gpio_up_init run this] run show ?thesis by blast
qed

theorem gpioWrite_frame_witness:
  "\<exists>g'. gpioWrite 35 1 gpio_up = Some (1, g') \<and> out_level g' 35 \<and> out_level g' 36 = out_level gpio_up 36"
proof -
  obtain p where "pin_lookup 35 = Some p" by (simp add: pin_lookup_def pin_table_def)
  from gpioWrite_frame [OF gpio_up_ready(1) this, of 1] show ?thesis by auto
qed

text \<open>\<open>gpioInitialise\<close> answers 1 exactly when \<open>/dev/mem\<close> and all six mappings are obtained and a
  negative number, with the globals untouched, otherwise; it never answers 0.\<close>

theorem gpioInitialise_status:
  "(fst (gpioInitialise os g) = 1 \<longleftrightarrow> open_ok os \<and> (\<forall>i < 6. mmap_ok os i))
   \<and> (fst (gpioInitialise os g) \<noteq> 1 \<longleftrightarrow> fst (gpioInitialise os g) < 0 \<and> snd (gpioInitialise os g) = g)"
proof -
  have six: "i < 6 \<longleftrightarrow> i = 0 \<or> i = 1 \<or> i = 2 \<or> i = 3 \<or> i = 4 \<or> i = 5" for i :: nat
    by arith
  show ?thesis unfolding gpioInitialise_def six by auto
qed

theorem gpioInitialise_status_witness:
  "fst (gpioInitialise os_root gpio_boot) = 1"
  using gpioInitialise_status [of os_root gpio_boot] by (simp add: os_root_def)

text \<open>A duty cycle up to 256 on a PWM pin is readable from its register, with the channel enabled
  and its frequency divider kept; the other channel and all digital levels do not change.\<close>

theorem gpioPWM_sets_duty:
  assumes "mapping_state g = Mapped" and "n = 32 \<or> n = 33" and "d \<le> 256"
  shows "\<exists>g'. gpioPWM n d g = Some (1, g') \<and> duty g' n = d \<and> bit (pwm_reg g' n) 31
     \<and> take_bit 16 (pwm_reg g' n) = take_bit 16 (pwm_reg g n)
     \<and> (\<forall>m. (m = 32 \<or> m = 33) \<and> m \<noteq> n \<longrightarrow> pwm_reg g' m = pwm_reg g m) \<and> OUT g' = OUT g"
  using gpioPWM_reg [of g n d] assms pwm_word_bits [OF assms(3)]
  by (auto simp: gpio_ready_def pwm_pin_no_def duty_def)

theorem gpioPWM_sets_duty_witness:
  "\<exists>g'. gpioPWM 33 57 gpio_up = Some (1, g') \<and> duty g' 33 = 57"
  using gpioPWM_sets_duty [OF gpio_up_ready(1), of 33 57] by auto

end
