(* ===== verification/Motor.thy ===== *)
theory Motor imports Packet Gpio begin

text \<open>
  The motor layer \<open>src/src/motor.hpp\<close> over the pin driver: the PWM drive motors, the linear
  actuators, the motor controller, its simulated stand-in and the function that chooses between the
  two. Every operation passes the driver's state along and is \<open>None\<close> where a driver call crashes.
  C \<open>int\<close> values are \<open>int\<close>: all products stay far below \<open>2 ^ 31\<close> because percentages are clamped
  first. The messages the code prints are left out; the early returns they announce are kept.
\<close>

subsection \<open>Constants\<close>

definition RIGHT_PIN :: u32 where "RIGHT_PIN = 32"
definition LEFT_PIN :: u32 where "LEFT_PIN = 33"
definition ACTUATOR_1_PIN_A :: u32 where "ACTUATOR_1_PIN_A = 35"
definition ACTUATOR_1_PIN_B :: u32 where "ACTUATOR_1_PIN_B = 36"
definition ACTUATOR_2_PIN_A :: u32 where "ACTUATOR_2_PIN_A = 28"
definition ACTUATOR_2_PIN_B :: u32 where "ACTUATOR_2_PIN_B = 29"

lemmas pin_defs = RIGHT_PIN_def LEFT_PIN_def ACTUATOR_1_PIN_A_def ACTUATOR_1_PIN_B_def
  ACTUATOR_2_PIN_A_def ACTUATOR_2_PIN_B_def

definition FREQUENCY :: int where "FREQUENCY = 150"

text \<open>\<open>0.0015 * FREQUENCY * 256\<close> and \<open>0.0005 * FREQUENCY * 256\<close>, truncated to \<open>int\<close>.\<close>

definition STOP_PWM :: int where "STOP_PWM = c_quot (15 * FREQUENCY * 256) 10000"
definition NUM_PARTITIONS :: int where "NUM_PARTITIONS = c_quot (5 * FREQUENCY * 256) 10000"

subsection \<open>Drive motors\<close>

record PWMDriveMotor =
  pwmPinNum :: u32
  prevPercent :: int

definition PWMDriveMotor_new :: "u32 \<Rightarrow> gpio \<Rightarrow> (PWMDriveMotor \<times> gpio) option" where
  "PWMDriveMotor_new pin g = do {
     let m = \<lparr>pwmPinNum = pin, prevPercent = 0\<rparr>;
     (errorCode, g) \<leftarrow> gpioSetPWMfrequency pin (word_of_int FREQUENCY) g;
     if errorCode < 0 then Some (m, g)
     else do {
       (errorCode, g) \<leftarrow> gpioPWM pin (word_of_int STOP_PWM) g;
       Some (m, g)
     }
   }"

definition PWMDriveMotor_delete :: "PWMDriveMotor \<Rightarrow> gpio \<Rightarrow> gpio option" where
  "PWMDriveMotor_delete m g = do {
     (errorCode, g) \<leftarrow> gpioPWM (pwmPinNum m) (word_of_int STOP_PWM) g;
     Some g
   }"

definition clamp_percent :: "int \<Rightarrow> int" where
  "clamp_percent percent = (if percent > 100 then 100 else if percent < -100 then -100 else percent)"

definition percent_duty :: "int \<Rightarrow> int" where
  "percent_duty percent = STOP_PWM + c_quot (percent * NUM_PARTITIONS) 100"

definition setPercent :: "PWMDriveMotor \<Rightarrow> int \<Rightarrow> gpio \<Rightarrow> (PWMDriveMotor \<times> gpio) option" where
  "setPercent m percent g =
     (let percent = clamp_percent percent in
      if percent = prevPercent m then Some (m, g)
      else do {
        (errorCode, g) \<leftarrow> gpioPWM (pwmPinNum m) (word_of_int (percent_duty percent)) g;
        Some (m\<lparr>prevPercent := percent\<rparr>, g)
      })"

subsection \<open>Actuators\<close>

text \<open>The limit-switch pins of the class are never set nor read, and \<open>prevA\<close>, \<open>prevB\<close> stay 0.\<close>

record Actuator =
  pinA :: u32
  pinB :: u32

definition Actuator_new :: "u32 \<Rightarrow> u32 \<Rightarrow> gpio \<Rightarrow> (Actuator \<times> gpio) option" where
  "Actuator_new desiredPinA desiredPinB g = do {
     (pinA_Error, g) \<leftarrow> gpioSetMode desiredPinA 1 g;
     (pinB_Error, g) \<leftarrow> gpioSetMode desiredPinB 1 g;
     Some (\<lparr>pinA = desiredPinA, pinB = desiredPinB\<rparr>, g)
   }"

definition actuator_extend :: "Actuator \<Rightarrow> gpio \<Rightarrow> (bool \<times> gpio) option" where
  "actuator_extend a g = do {
     (e1, g) \<leftarrow> gpioWrite (pinA a) 1 g;
     (e2, g) \<leftarrow> gpioWrite (pinB a) 0 g;
     Some (e1 = 0 \<and> e2 = 0, g)
   }"

definition actuator_retract :: "Actuator \<Rightarrow> gpio \<Rightarrow> (bool \<times> gpio) option" where
  "actuator_retract a g = do {
     (e1, g) \<leftarrow> gpioWrite (pinA a) 0 g;
     (e2, g) \<leftarrow> gpioWrite (pinB a) 1 g;
     Some (e1 = 0 \<and> e2 = 0, g)
   }"

definition actuator_stop :: "Actuator \<Rightarrow> gpio \<Rightarrow> gpio option" where
  "actuator_stop a g = do {
     (_, g) \<leftarrow> gpioWrite (pinA a) 1 g;
     (_, g) \<leftarrow> gpioWrite (pinB a) 1 g;
     Some g
   }"

definition setMotion :: "Actuator \<Rightarrow> ActuatorMotion \<Rightarrow> gpio \<Rightarrow> (bool \<times> gpio) option" where
  "setMotion a motion g =
     (if motion = EXTENDING then actuator_extend a g
      else if motion = RETRACTING then actuator_retract a g
      else do { g \<leftarrow> actuator_stop a g; Some (True, g) })"

subsection \<open>The controller\<close>

record MotorController =
  leftDrive :: PWMDriveMotor
  rightDrive :: PWMDriveMotor
  actuators :: "Actuator list"
  disableDriveMotors :: bool
  disableActuators :: bool

definition MotorController_new :: "gpio \<Rightarrow> (MotorController \<times> gpio) option" where
  "MotorController_new g = do {
     (l, g) \<leftarrow> PWMDriveMotor_new LEFT_PIN g;
     (r, g) \<leftarrow> PWMDriveMotor_new RIGHT_PIN g;
     (a1, g) \<leftarrow> Actuator_new ACTUATOR_1_PIN_A ACTUATOR_1_PIN_B g;
     (a2, g) \<leftarrow> Actuator_new ACTUATOR_2_PIN_A ACTUATOR_2_PIN_B g;
     Some (\<lparr>leftDrive = l, rightDrive = r, actuators = [a1, a2],
            disableDriveMotors = False, disableActuators = False\<rparr>, g)
   }"

text \<open>
  The destructor's body runs first, then the members are destroyed in reverse order of declaration.
\<close>

definition MotorController_delete :: "MotorController \<Rightarrow> gpio \<Rightarrow> gpio option" where
  "MotorController_delete c g = do {
     g \<leftarrow> gpioTerminate g;
     g \<leftarrow> PWMDriveMotor_delete (rightDrive c) g;
     PWMDriveMotor_delete (leftDrive c) g
   }"

definition mc_setDrivePercent ::
  "MotorController \<Rightarrow> int \<Rightarrow> int \<Rightarrow> gpio \<Rightarrow> (bool \<times> MotorController \<times> gpio) option" where
  "mc_setDrivePercent c leftPercent rightPercent g =
     (if disableDriveMotors c then Some (False, c, g)
      else do {
        (l, g) \<leftarrow> setPercent (leftDrive c) leftPercent g;
        (r, g) \<leftarrow> setPercent (rightDrive c) rightPercent g;
        Some (True, c\<lparr>leftDrive := l, rightDrive := r\<rparr>, g)
      })"

definition mc_setActuators ::
  "MotorController \<Rightarrow> ActuatorMotion \<Rightarrow> ActuatorMotion \<Rightarrow> gpio \<Rightarrow> (bool \<times> MotorController \<times> gpio) option" where
  "mc_setActuators c a1 a2 g =
     (if disableActuators c then Some (False, c, g)
      else do {
        (_, g) \<leftarrow> setMotion (actuators c ! 0) a1 g;
        (_, g) \<leftarrow> setMotion (actuators c ! 1) a2 g;
        Some (True, c, g)
      })"

text \<open>The overload that takes an array loops over the two actuators and reports a failure.\<close>

fun set_motions :: "Actuator list \<Rightarrow> ActuatorMotion list \<Rightarrow> bool \<Rightarrow> gpio \<Rightarrow> (bool \<times> gpio) option" where
  "set_motions (a # as) (m # ms) success g = do {
     (ok, g) \<leftarrow> setMotion a m g;
     set_motions as ms (if \<not> ok then False else success) g
   }"
| "set_motions _ _ success g = Some (success, g)"

definition mc_setActuators_array ::
  "MotorController \<Rightarrow> ActuatorMotion list \<Rightarrow> gpio \<Rightarrow> (bool \<times> MotorController \<times> gpio) option" where
  "mc_setActuators_array c motions g =
     (if disableActuators c then Some (False, c, g)
      else do {
        (success, g) \<leftarrow> set_motions (actuators c) motions True g;
        Some (success, c, g)
      })"

definition mc_stopMovement :: "MotorController \<Rightarrow> gpio \<Rightarrow> (bool \<times> MotorController \<times> gpio) option" where
  "mc_stopMovement c g =
     (if disableDriveMotors c then Some (False, c, g)
      else do {
        (_, c, g) \<leftarrow> mc_setDrivePercent c 0 0 g;
        if disableActuators c then Some (False, c, g)
        else do {
          (_, c, g) \<leftarrow> mc_setActuators c NONE NONE g;
          Some (True, c, g)
        }
      })"

definition mc_cancelMacro :: "MotorController \<Rightarrow> bool" where "mc_cancelMacro c = False"
definition mc_digCycle :: "MotorController \<Rightarrow> bool" where "mc_digCycle c = False"
definition mc_dumpCycle :: "MotorController \<Rightarrow> bool" where "mc_dumpCycle c = False"
definition mc_turn :: "MotorController \<Rightarrow> int \<Rightarrow> bool" where "mc_turn c angle = False"

subsection \<open>The interface and its two implementations\<close>

datatype MotorInterface = Real MotorController | Simulated

definition mi_setDrivePercent ::
  "MotorInterface \<Rightarrow> int \<Rightarrow> int \<Rightarrow> gpio \<Rightarrow> (bool \<times> MotorInterface \<times> gpio) option" where
  "mi_setDrivePercent i l r g =
     (case i of
        Real c \<Rightarrow> do { (b, c, g) \<leftarrow> mc_setDrivePercent c l r g; Some (b, Real c, g) }
      | Simulated \<Rightarrow> Some (False, Simulated, g))"

definition mi_setActuators ::
  "MotorInterface \<Rightarrow> ActuatorMotion \<Rightarrow> ActuatorMotion \<Rightarrow> gpio \<Rightarrow> (bool \<times> MotorInterface \<times> gpio) option" where
  "mi_setActuators i a1 a2 g =
     (case i of
        Real c \<Rightarrow> do { (b, c, g) \<leftarrow> mc_setActuators c a1 a2 g; Some (b, Real c, g) }
      | Simulated \<Rightarrow> Some (False, Simulated, g))"

definition mi_stopMovement :: "MotorInterface \<Rightarrow> gpio \<Rightarrow> (bool \<times> MotorInterface \<times> gpio) option" where
  "mi_stopMovement i g =
     (case i of
        Real c \<Rightarrow> do { (b, c, g) \<leftarrow> mc_stopMovement c g; Some (b, Real c, g) }
      | Simulated \<Rightarrow> Some (False, Simulated, g))"

definition initJetGpio :: "os_answers \<Rightarrow> gpio \<Rightarrow> int \<times> gpio" where
  "initJetGpio os g = gpioInitialise os g"

definition getMotorContoller :: "os_answers \<Rightarrow> gpio \<Rightarrow> (MotorInterface \<times> gpio) option" where
  "getMotorContoller os g =
     (let (error, g) = initJetGpio os g in
      if error \<noteq> 0 then Some (Simulated, g)
      else do { (c, g) \<leftarrow> MotorController_new g; Some (Real c, g) })"

subsection \<open>Percentages and duty cycles\<close>

lemma pwm_constants: "STOP_PWM = 57" "NUM_PARTITIONS = 19"
  by (simp_all add: STOP_PWM_def NUM_PARTITIONS_def FREQUENCY_def c_quot_nonneg)

lemma clamp_bounds: "- 100 \<le> clamp_percent p \<and> clamp_percent p \<le> 100"
  by (simp add: clamp_percent_def)

lemma clamp_id: "- 100 \<le> p \<Longrightarrow> p \<le> 100 \<Longrightarrow> clamp_percent p = p"
  by (simp add: clamp_percent_def)

lemma percent_duty_bounds:
  assumes "- 100 \<le> p" and "p \<le> 100"
  shows "38 \<le> percent_duty p \<and> percent_duty p \<le> 76"
  using c_quot_bounds [of 100 19 "p * 19"] assms by (simp add: percent_duty_def pwm_constants)

lemma percent_duty_word:
  assumes "- 100 \<le> p" and "p \<le> 100"
  shows "(word_of_int (percent_duty p) :: u32) \<le> 256"
    and "uint (word_of_int (percent_duty p) :: u32) = percent_duty p"
proof -
  have "percent_duty p = take_bit 32 (percent_duty p)"
    using percent_duty_bounds [OF assms] by (intro take_bit_int_eq_self [symmetric]) auto
  then show u: "uint (word_of_int (percent_duty p) :: u32) = percent_duty p"
    by (simp add: uint_word_of_int_eq)
  then show "(word_of_int (percent_duty p) :: u32) \<le> 256"
    using percent_duty_bounds [OF assms] by (simp add: word_le_def)
qed

subsection \<open>Invariant\<close>

text \<open>The register of a drive motor's channel shows the percentage the motor remembers.\<close>

definition drive_ok :: "gpio \<Rightarrow> PWMDriveMotor \<Rightarrow> bool" where
  "drive_ok g m \<longleftrightarrow> - 100 \<le> prevPercent m \<and> prevPercent m \<le> 100
     \<and> duty g (pwmPinNum m) = word_of_int (percent_duty (prevPercent m))"

definition controller_inv :: "MotorController \<Rightarrow> gpio \<Rightarrow> bool" where
  "controller_inv c g \<longleftrightarrow> gpio_ready g
     \<and> pwmPinNum (leftDrive c) = LEFT_PIN \<and> pwmPinNum (rightDrive c) = RIGHT_PIN
     \<and> drive_ok g (leftDrive c) \<and> drive_ok g (rightDrive c)
     \<and> actuators c = [\<lparr>pinA = ACTUATOR_1_PIN_A, pinB = ACTUATOR_1_PIN_B\<rparr>,
                      \<lparr>pinA = ACTUATOR_2_PIN_A, pinB = ACTUATOR_2_PIN_B\<rparr>]
     \<and> \<not> disableDriveMotors c \<and> \<not> disableActuators c"

lemma valid_actuator_pins [simp]:
  "valid_pin ACTUATOR_1_PIN_A" "valid_pin ACTUATOR_1_PIN_B"
  "valid_pin ACTUATOR_2_PIN_A" "valid_pin ACTUATOR_2_PIN_B"
  by (simp_all add: valid_pin_def pin_lookup_def pin_table_def pin_defs)

lemma actuator_pins_distinct [simp]:
  "ACTUATOR_1_PIN_A \<noteq> ACTUATOR_1_PIN_B" "ACTUATOR_2_PIN_A \<noteq> ACTUATOR_2_PIN_B"
  "ACTUATOR_1_PIN_A \<noteq> ACTUATOR_2_PIN_A" "ACTUATOR_1_PIN_A \<noteq> ACTUATOR_2_PIN_B"
  "ACTUATOR_1_PIN_B \<noteq> ACTUATOR_2_PIN_A" "ACTUATOR_1_PIN_B \<noteq> ACTUATOR_2_PIN_B"
  by (simp_all add: pin_defs)

lemmas actuator_pins_distinct' [simp] = actuator_pins_distinct [THEN not_sym]

lemma drive_pins [simp]:
  "pwm_pin_no LEFT_PIN" "pwm_pin_no RIGHT_PIN" "LEFT_PIN \<noteq> RIGHT_PIN" "RIGHT_PIN \<noteq> LEFT_PIN"
  by (simp_all add: pwm_pin_no_def pin_defs)

subsection \<open>What each operation does to the pins\<close>

lemma setPercent_ok:
  assumes "gpio_ready g" and "drive_ok g m" and "pwm_pin_no (pwmPinNum m)"
  shows "\<exists>g'. setPercent m p g = Some (m\<lparr>prevPercent := clamp_percent p\<rparr>, g') \<and> gpio_ready g'
     \<and> out_level g' = out_level g
     \<and> (\<forall>n. pwm_pin_no n \<longrightarrow> duty g' n =
          (if n = pwmPinNum m then word_of_int (percent_duty (clamp_percent p)) else duty g n))"
proof (cases "clamp_percent p = prevPercent m")
  case True
  with assms show ?thesis by (auto simp: setPercent_def drive_ok_def Let_def)
next
  case False
  obtain g' where "gpioPWM (pwmPinNum m) (word_of_int (percent_duty (clamp_percent p))) g = Some (1, g')"
    "gpio_ready g'" "out_level g' = out_level g"
    "\<And>n. pwm_pin_no n \<Longrightarrow> duty g' n =
          (if n = pwmPinNum m then word_of_int (percent_duty (clamp_percent p)) else duty g n)"
    using nano.pwm_obtain [OF assms(1,3)] clamp_bounds [of p] percent_duty_word(1) by metis
  with False show ?thesis by (simp add: setPercent_def Let_def)
qed

text \<open>The levels of the two lines of an actuator for each motion.\<close>

definition motion_lines :: "ActuatorMotion \<Rightarrow> bool \<times> bool" where
  "motion_lines m = (case m of EXTENDING \<Rightarrow> (True, False) | RETRACTING \<Rightarrow> (False, True)
                             | NONE \<Rightarrow> (True, True))"

lemma setMotion_ok:
  assumes "gpio_ready g" and "valid_pin (pinA a)" "valid_pin (pinB a)" "pinA a \<noteq> pinB a"
  shows "\<exists>g'. setMotion a m g = Some (m = NONE, g') \<and> gpio_ready g' \<and> duty g' = duty g
     \<and> (\<forall>n. out_level g' n = (if n = pinA a then fst (motion_lines m)
          else if n = pinB a then snd (motion_lines m) else out_level g n))"
proof -
  have "\<exists>s' s''. gpioWrite (pinA a) v g = Some (1, s') \<and> gpioWrite (pinB a) w s' = Some (1, s'')
     \<and> gpio_ready s'' \<and> duty s'' = duty g
     \<and> (\<forall>n. out_level s'' n = (if n = pinA a then v = 1 else if n = pinB a then w = 1 else out_level g n))"
    if "v = 0 \<or> v = 1" "w = 0 \<or> w = 1" for v w
    using nano.wr_pair_frame [OF assms that] by blast
  from this [of 1 0] this [of 0 1] this [of 1 1] show ?thesis
    by (cases m) (auto simp: setMotion_def actuator_extend_def actuator_retract_def
        actuator_stop_def motion_lines_def)
qed

subsection \<open>Abstract view and the contract of the interface\<close>

text \<open>
  What the robot does, read off the pins: the two duty cycles and the two pairs of actuator lines.
  The abstract operations say what each call of the interface promises to do to it.
\<close>

record robot_view =
  left_duty :: int
  right_duty :: int
  lines1 :: "bool \<times> bool"
  lines2 :: "bool \<times> bool"

definition motor_view :: "gpio \<Rightarrow> robot_view" where
  "motor_view g = \<lparr>left_duty = uint (duty g LEFT_PIN), right_duty = uint (duty g RIGHT_PIN),
     lines1 = (out_level g ACTUATOR_1_PIN_A, out_level g ACTUATOR_1_PIN_B),
     lines2 = (out_level g ACTUATOR_2_PIN_A, out_level g ACTUATOR_2_PIN_B)\<rparr>"

definition spec_drive :: "int \<Rightarrow> int \<Rightarrow> robot_view \<Rightarrow> robot_view" where
  "spec_drive l r v = v\<lparr>left_duty := percent_duty (clamp_percent l),
                       right_duty := percent_duty (clamp_percent r)\<rparr>"

definition spec_actuators :: "ActuatorMotion \<Rightarrow> ActuatorMotion \<Rightarrow> robot_view \<Rightarrow> robot_view" where
  "spec_actuators a1 a2 v = v\<lparr>lines1 := motion_lines a1, lines2 := motion_lines a2\<rparr>"

definition spec_stop :: "robot_view \<Rightarrow> robot_view" where
  "spec_stop v = \<lparr>left_duty = STOP_PWM, right_duty = STOP_PWM,
                  lines1 = (True, True), lines2 = (True, True)\<rparr>"

datatype motor_command = Drive int int | Actuate ActuatorMotion ActuatorMotion | Stop

fun spec_command :: "motor_command \<Rightarrow> robot_view \<Rightarrow> robot_view" where
  "spec_command (Drive l r) v = spec_drive l r v"
| "spec_command (Actuate a1 a2) v = spec_actuators a1 a2 v"
| "spec_command Stop v = spec_stop v"

fun mc_command :: "motor_command \<Rightarrow> MotorController \<times> gpio \<Rightarrow> (bool \<times> MotorController \<times> gpio) option" where
  "mc_command (Drive l r) (c, g) = mc_setDrivePercent c l r g"
| "mc_command (Actuate a1 a2) (c, g) = mc_setActuators c a1 a2 g"
| "mc_command Stop (c, g) = mc_stopMovement c g"

definition sim_command :: "motor_command \<Rightarrow> gpio \<Rightarrow> (bool \<times> gpio) option" where
  "sim_command x g = Some (False, g)"

fun run_commands :: "('c \<Rightarrow> 's \<Rightarrow> (bool \<times> 's) option) \<Rightarrow> 'c list \<Rightarrow> 's \<Rightarrow> 's option" where
  "run_commands f [] s = Some s"
| "run_commands f (x # xs) s = (case f x s of None \<Rightarrow> None | Some (_, s') \<Rightarrow> run_commands f xs s')"

locale motor_contract =
  fixes cmd :: "motor_command \<Rightarrow> 's \<Rightarrow> (bool \<times> 's) option"
    and inv :: "'s \<Rightarrow> bool"
    and view :: "'s \<Rightarrow> robot_view"
    and spec :: "motor_command \<Rightarrow> robot_view \<Rightarrow> robot_view"
    and answer :: bool
  assumes cmd_ok: "inv s \<Longrightarrow> \<exists>s'. cmd x s = Some (answer, s') \<and> inv s' \<and> view s' = spec x (view s)"
begin

lemma run_refines:
  "inv s \<Longrightarrow> \<exists>s'. run_commands cmd xs s = Some s' \<and> inv s' \<and> view s' = fold spec xs (view s)"
proof (induction xs arbitrary: s)
  case Nil
  then show ?case by simp
next
  case (Cons x xs)
  obtain s1 where "cmd x s = Some (answer, s1)" "inv s1" "view s1 = spec x (view s)"
    using cmd_ok [OF Cons.prems] by blast
  with Cons.IH [of s1] show ?case by auto
qed

end

lemma mc_setDrivePercent_ok:
  assumes "controller_inv c g"
  shows "\<exists>c' g'. mc_setDrivePercent c l r g = Some (True, c', g') \<and> controller_inv c' g'
     \<and> motor_view g' = spec_drive l r (motor_view g)"
proof -
  note inv = assms [unfolded controller_inv_def]
  obtain g1 where 1: "setPercent (leftDrive c) l g = Some ((leftDrive c)\<lparr>prevPercent := clamp_percent l\<rparr>, g1)"
    "gpio_ready g1" "out_level g1 = out_level g"
    "\<And>n. pwm_pin_no n \<Longrightarrow> duty g1 n =
       (if n = LEFT_PIN then word_of_int (percent_duty (clamp_percent l)) else duty g n)"
    using setPercent_ok [of g "leftDrive c" l] inv by auto
  then have "drive_ok g1 (rightDrive c)" using inv by (auto simp: drive_ok_def)
  then obtain g2 where 2:
    "setPercent (rightDrive c) r g1 = Some ((rightDrive c)\<lparr>prevPercent := clamp_percent r\<rparr>, g2)"
    "gpio_ready g2" "out_level g2 = out_level g1"
    "\<And>n. pwm_pin_no n \<Longrightarrow> duty g2 n =
       (if n = RIGHT_PIN then word_of_int (percent_duty (clamp_percent r)) else duty g1 n)"
    using setPercent_ok [of g1 "rightDrive c" r] inv 1 by auto
  from 1 2 inv clamp_bounds [of l] clamp_bounds [of r] show ?thesis
    by (simp add: mc_setDrivePercent_def controller_inv_def drive_ok_def motor_view_def
        spec_drive_def percent_duty_word(2))
qed

lemma mc_setActuators_ok:
  assumes "controller_inv c g"
  shows "\<exists>g'. mc_setActuators c a1 a2 g = Some (True, c, g') \<and> controller_inv c g'
     \<and> motor_view g' = spec_actuators a1 a2 (motor_view g)"
proof -
  note inv = assms [unfolded controller_inv_def]
  obtain g1 where 1: "setMotion (actuators c ! 0) a1 g = Some (a1 = NONE, g1)" "gpio_ready g1" "duty g1 = duty g"
    "\<And>n. out_level g1 n = (if n = ACTUATOR_1_PIN_A then fst (motion_lines a1)
          else if n = ACTUATOR_1_PIN_B then snd (motion_lines a1) else out_level g n)"
    using setMotion_ok [of g "actuators c ! 0" a1] inv by auto
  obtain g2 where 2: "setMotion (actuators c ! 1) a2 g1 = Some (a2 = NONE, g2)" "gpio_ready g2" "duty g2 = duty g1"
    "\<And>n. out_level g2 n = (if n = ACTUATOR_2_PIN_A then fst (motion_lines a2)
          else if n = ACTUATOR_2_PIN_B then snd (motion_lines a2) else out_level g1 n)"
    using setMotion_ok [of g1 "actuators c ! 1" a2] inv 1 by auto
  have "drive_ok g2 (leftDrive c)" "drive_ok g2 (rightDrive c)"
    using inv 1 2 by (auto simp: drive_ok_def)
  with 1 2 inv show ?thesis
    by (simp add: mc_setActuators_def controller_inv_def motor_view_def spec_actuators_def)
qed

lemma mc_stopMovement_ok:
  assumes "controller_inv c g"
  shows "\<exists>c' g'. mc_stopMovement c g = Some (True, c', g') \<and> controller_inv c' g'
     \<and> motor_view g' = spec_stop (motor_view g)"
proof -
  obtain c1 g1 where 1: "mc_setDrivePercent c 0 0 g = Some (True, c1, g1)" "controller_inv c1 g1"
    "motor_view g1 = spec_drive 0 0 (motor_view g)"
    using mc_setDrivePercent_ok [OF assms] by blast
  obtain g2 where 2: "mc_setActuators c1 NONE NONE g1 = Some (True, c1, g2)" "controller_inv c1 g2"
    "motor_view g2 = spec_actuators NONE NONE (motor_view g1)"
    using mc_setActuators_ok [OF 1(2)] by blast
  from 1 2 assms show ?thesis
    by (simp add: mc_stopMovement_def controller_inv_def spec_stop_def spec_drive_def
        spec_actuators_def motion_lines_def clamp_percent_def percent_duty_def c_quot_nonneg)
qed

lemma mc_command_ok:
  assumes "controller_inv c g"
  shows "\<exists>c' g'. mc_command x (c, g) = Some (True, c', g') \<and> controller_inv c' g'
     \<and> motor_view g' = spec_command x (motor_view g)"
proof (cases x)
  case (Drive l r)
  then show ?thesis using mc_setDrivePercent_ok [OF assms, of l r] by simp
next
  case (Actuate a1 a2)
  then show ?thesis using mc_setActuators_ok [OF assms, of a1 a2] by auto
next
  case Stop
  then show ?thesis using mc_stopMovement_ok [OF assms] by simp
qed

interpretation real: motor_contract mc_command "\<lambda>(c, g). controller_inv c g"
  "\<lambda>(c, g). motor_view g" spec_command True
  by unfold_locales (clarsimp, use mc_command_ok in fastforce)

interpretation sim: motor_contract sim_command "\<lambda>_. True" motor_view "\<lambda>_ v. v" False
  by unfold_locales (simp add: sim_command_def)

subsection \<open>Construction and destruction\<close>

lemma gpioSetMode_output_ok:
  assumes "gpio_ready g" "valid_pin n"
  shows "\<exists>g'. gpioSetMode n 1 g = Some (1, g') \<and> gpio_ready g' \<and> duty g' = duty g"
proof -
  obtain p where "pin_lookup n = Some p" using assms by (auto simp: valid_pin_def)
  with assms show ?thesis
    by (auto simp: gpioSetMode_def gpio_ready_def duty_def [abs_def] pwm_reg_def)
qed

lemma Actuator_new_ok:
  assumes "gpio_ready g" "valid_pin a" "valid_pin b"
  shows "\<exists>g'. Actuator_new a b g = Some (\<lparr>pinA = a, pinB = b\<rparr>, g') \<and> gpio_ready g' \<and> duty g' = duty g"
proof -
  obtain g1 where 1: "gpioSetMode a 1 g = Some (1, g1)" "gpio_ready g1" "duty g1 = duty g"
    using gpioSetMode_output_ok [OF assms(1,2)] by blast
  obtain g2 where "gpioSetMode b 1 g1 = Some (1, g2)" "gpio_ready g2" "duty g2 = duty g1"
    using gpioSetMode_output_ok [OF 1(2) assms(3)] by blast
  with 1 show ?thesis by (simp add: Actuator_new_def)
qed

lemma PWMDriveMotor_new_ok:
  assumes "gpio_ready g" "pwm_pin_no n"
  shows "\<exists>g'. PWMDriveMotor_new n g = Some (\<lparr>pwmPinNum = n, prevPercent = 0\<rparr>, g') \<and> gpio_ready g'
     \<and> duty g' n = 57 \<and> (\<forall>m. pwm_pin_no m \<longrightarrow> m \<noteq> n \<longrightarrow> duty g' m = duty g m)"
proof -
  obtain g1 where 1: "gpioSetPWMfrequency n (word_of_int FREQUENCY) g = Some (1, g1)" "gpio_ready g1"
    "\<forall>m. pwm_pin_no m \<longrightarrow> m \<noteq> n \<longrightarrow> duty g1 m = duty g m"
    using assms by (auto simp: gpioSetPWMfrequency_def FREQUENCY_def gpio_ready_def pwm_pin_no_def
        duty_def pwm_reg_def)
  obtain g2 where "gpioPWM n 57 g1 = Some (1, g2)" "gpio_ready g2"
    "\<And>m. pwm_pin_no m \<Longrightarrow> duty g2 m = (if m = n then 57 else duty g1 m)"
    using nano.pwm_obtain [OF 1(2) assms(2), of 57] by auto
  with 1 assms(2) show ?thesis
    by (auto simp: PWMDriveMotor_new_def pwm_constants)
qed

lemma MotorController_new_ok:
  assumes "gpio_ready g"
  shows "\<exists>c g'. MotorController_new g = Some (c, g') \<and> controller_inv c g'
     \<and> left_duty (motor_view g') = STOP_PWM \<and> right_duty (motor_view g') = STOP_PWM"
proof -
  obtain g1 where 1: "PWMDriveMotor_new LEFT_PIN g = Some (\<lparr>pwmPinNum = LEFT_PIN, prevPercent = 0\<rparr>, g1)"
    "gpio_ready g1" "duty g1 LEFT_PIN = 57"
    using PWMDriveMotor_new_ok [OF assms, of LEFT_PIN] by auto
  obtain g2 where 2: "PWMDriveMotor_new RIGHT_PIN g1 = Some (\<lparr>pwmPinNum = RIGHT_PIN, prevPercent = 0\<rparr>, g2)"
    "gpio_ready g2" "duty g2 RIGHT_PIN = 57" "duty g2 LEFT_PIN = 57"
    using PWMDriveMotor_new_ok [OF 1(2), of RIGHT_PIN] 1(3) by auto
  obtain g3 where 3: "Actuator_new ACTUATOR_1_PIN_A ACTUATOR_1_PIN_B g2
      = Some (\<lparr>pinA = ACTUATOR_1_PIN_A, pinB = ACTUATOR_1_PIN_B\<rparr>, g3)" "gpio_ready g3" "duty g3 = duty g2"
    using Actuator_new_ok [OF 2(2)] valid_actuator_pins by blast
  obtain g4 where 4: "Actuator_new ACTUATOR_2_PIN_A ACTUATOR_2_PIN_B g3
      = Some (\<lparr>pinA = ACTUATOR_2_PIN_A, pinB = ACTUATOR_2_PIN_B\<rparr>, g4)" "gpio_ready g4" "duty g4 = duty g3"
    using Actuator_new_ok [OF 3(2)] valid_actuator_pins by blast
  have "duty g4 LEFT_PIN = 57" "duty g4 RIGHT_PIN = 57" using 1 2 3 4 by simp_all
  with 1 2 3 4 show ?thesis
    by (simp add: MotorController_new_def controller_inv_def drive_ok_def motor_view_def
        pwm_constants percent_duty_def c_quot_nonneg)
qed

subsection \<open>Properties\<close>

text \<open>C3. Every sequence of drive, actuator and stop calls on a controller in a good state runs
  without a crash, keeps the invariant (each PWM register shows what its motor remembers), and acts on
  the pins exactly as the abstract operations say, skipped writes of unchanged percentages included.\<close>

theorem controller_refines:
  assumes "controller_inv c g"
  shows "\<exists>c' g'. run_commands mc_command xs (c, g) = Some (c', g') \<and> controller_inv c' g'
     \<and> motor_view g' = fold spec_command xs (motor_view g)"
  using real.run_refines [of "(c, g)" xs] assms by auto

text \<open>From a successfully initialised driver the controller is constructed without a crash, in a
  good state, with both drive motors stopped.\<close>

theorem controller_constructed:
  assumes "gpioInitialise os g0 = (1, g)"
  shows "\<exists>c g'. MotorController_new g = Some (c, g') \<and> controller_inv c g'
     \<and> left_duty (motor_view g') = 57 \<and> right_duty (motor_view g') = 57"
proof -
  have "gpio_ready g" using gpioInitialise_cases [OF assms] by (simp add: restorable_def gpio_ready_def)
  from MotorController_new_ok [OF this] show ?thesis by (simp add: pwm_constants)
qed

theorem controller_constructed_witness:
  "\<exists>c g'. MotorController_new gpio_up = Some (c, g') \<and> left_duty (motor_view g') = 57"
  using controller_constructed [OF gpio_up_init] by blast

theorem controller_refines_witness:
  "\<exists>c g c' g'. controller_inv c g \<and> run_commands mc_command [Drive 40 (-200), Stop, Drive 100 0] (c, g) = Some (c', g')
     \<and> left_duty (motor_view g') = 76 \<and> right_duty (motor_view g') = 57"
proof -
  obtain c g where "controller_inv c g" using MotorController_new_ok [OF gpio_up_ready(2)] by blast
  then show ?thesis
    using controller_refines [of c g "[Drive 40 (-200), Stop, Drive 100 0]"]
    by (fastforce simp: spec_drive_def spec_stop_def percent_duty_def clamp_percent_def
        pwm_constants c_quot_nonneg)
qed

text \<open>No command sequence can drive a PWM channel outside 38 to 76 of 256, the pulse widths
  between full reverse and full forward, whatever percentages are asked for.\<close>

theorem duty_always_bounded:
  assumes "controller_inv c g" and "run_commands mc_command xs (c, g) = Some (c', g')"
  shows "38 \<le> left_duty (motor_view g') \<and> left_duty (motor_view g') \<le> 76
       \<and> 38 \<le> right_duty (motor_view g') \<and> right_duty (motor_view g') \<le> 76"
proof -
  have "controller_inv c' g'" using real.run_refines [of "(c, g)" xs] assms by auto
  then have "left_duty (motor_view g') = percent_duty (prevPercent (leftDrive c'))"
    "right_duty (motor_view g') = percent_duty (prevPercent (rightDrive c'))"
    "- 100 \<le> prevPercent (leftDrive c')" "prevPercent (leftDrive c') \<le> 100"
    "- 100 \<le> prevPercent (rightDrive c')" "prevPercent (rightDrive c') \<le> 100"
    by (auto simp: controller_inv_def drive_ok_def motor_view_def percent_duty_word(2))
  then show ?thesis using percent_duty_bounds by simp
qed

theorem duty_always_bounded_witness:
  "\<exists>c g c' g'. run_commands mc_command [Drive 30000 (-30000)] (c, g) = Some (c', g')
     \<and> left_duty (motor_view g') \<le> 76 \<and> 38 \<le> right_duty (motor_view g')"
proof -
  obtain c g where inv: "controller_inv c g" using MotorController_new_ok [OF gpio_up_ready(2)] by blast
  then obtain c' g' where "run_commands mc_command [Drive 30000 (-30000)] (c, g) = Some (c', g')"
    using real.run_refines [of "(c, g)" "[Drive 30000 (-30000)]"] by auto
  with duty_always_bounded [OF inv this] show ?thesis by blast
qed

text \<open>\<open>getMotorContoller\<close> never returns the real controller: the driver's success status is 1 and
  the check accepts only 0, so the simulated controller is chosen whether or not the pins are available.\<close>

theorem real_controller_unreachable:
  "\<exists>g'. getMotorContoller os g = Some (Simulated, g')"
  using gpioInitialise_cases [of os g "fst (gpioInitialise os g)" "snd (gpioInitialise os g)"]
  by (auto simp: getMotorContoller_def initJetGpio_def Let_def split_beta)

text \<open>\<open>extend\<close> and \<open>retract\<close> set the lines as asked and yet report failure, because they compare the
  driver's status, 1 on success, with 0.\<close>

theorem actuator_reports_failure:
  assumes "mapping_state g = Mapped" and "a = \<lparr>pinA = 35, pinB = 36\<rparr>" and "m \<noteq> NONE"
  shows "\<exists>g'. setMotion a m g = Some (False, g')
     \<and> (out_level g' 35, out_level g' 36) = motion_lines m"
  using setMotion_ok [of g a m] assms by (auto simp: gpio_ready_def valid_pin_def pin_lookup_def pin_table_def)

theorem actuator_reports_failure_witness:
  "\<exists>g'. setMotion \<lparr>pinA = 35, pinB = 36\<rparr> EXTENDING gpio_up = Some (False, g') \<and> out_level g' 35 \<and> \<not> out_level g' 36"
  using actuator_reports_failure [OF gpio_up_ready(1) refl, of EXTENDING] by (auto simp: motion_lines_def)

text \<open>Destroying a controller in a good state crashes: its body unmaps the registers before the
  destructors of its drive motors write their stop pulse.\<close>

theorem destructor_crashes:
  assumes "controller_inv c g"
  shows "MotorController_delete c g = None"
proof (cases "gpioTerminate g")
  case (Some g')
  then have "mapping_state g' = Unmapped" by (auto simp: gpioTerminate_def split: if_split_asm)
  with Some assms show ?thesis
    by (simp add: MotorController_delete_def PWMDriveMotor_delete_def controller_inv_def
        gpioPWM_def pin_defs pin_lookup_pwm pwm_constants)
qed (simp add: MotorController_delete_def)

theorem destructor_crashes_witness:
  "\<exists>c g. MotorController_new gpio_up = Some (c, g) \<and> MotorController_delete c g = None"
proof -
  obtain c g where "MotorController_new gpio_up = Some (c, g)" "controller_inv c g"
    using MotorController_new_ok [OF gpio_up_ready(2)] by blast
  with destructor_crashes show ?thesis by blast
qed

end
