(* ===== verification/Server.thy ===== *)
theory Server imports Packet begin

text \<open>
  The network side of \<open>src/src/server.hpp\<close>: the callbacks a program registers, the ENet server's
  event loop and the WebSocket server's handlers. The program's state is a parameter \<open>'s\<close> that the
  callbacks transform. What ENet and WebSocket++ deliver (events, messages, connections) are inputs;
  what the handlers hand back to them (messages sent, packets destroyed) is recorded. Console
  output is left out, except that printing a packet as a C string may read past its end, which
  \<open>overread\<close> records.
\<close>

subsection \<open>Callbacks\<close>

record 's callbacks =
  onPacket :: "(PacketData \<Rightarrow> 's \<Rightarrow> 's) option"
  onMotionUpdate :: "(MotionPacketData \<Rightarrow> 's \<Rightarrow> 's) option"
  onMacro :: "(MacroPacketData \<Rightarrow> 's \<Rightarrow> 's) option"
  onDisconnectCallback :: "('s \<Rightarrow> 's) option"

definition no_callbacks :: "'s callbacks" where
  "no_callbacks = \<lparr>onPacket = None, onMotionUpdate = None, onMacro = None, onDisconnectCallback = None\<rparr>"

definition setPacketCallback :: "(PacketData \<Rightarrow> 's \<Rightarrow> 's) \<Rightarrow> 's callbacks \<Rightarrow> 's callbacks" where
  "setPacketCallback f h = h\<lparr>onPacket := Some f\<rparr>"

definition setMotionUpdateCallback :: "(MotionPacketData \<Rightarrow> 's \<Rightarrow> 's) \<Rightarrow> 's callbacks \<Rightarrow> 's callbacks" where
  "setMotionUpdateCallback f h = h\<lparr>onMotionUpdate := Some f\<rparr>"

definition setMacroCallback :: "(MacroPacketData \<Rightarrow> 's \<Rightarrow> 's) \<Rightarrow> 's callbacks \<Rightarrow> 's callbacks" where
  "setMacroCallback f h = h\<lparr>onMacro := Some f\<rparr>"

definition setDisconnectCallback :: "('s \<Rightarrow> 's) \<Rightarrow> 's callbacks \<Rightarrow> 's callbacks" where
  "setDisconnectCallback f h = h\<lparr>onDisconnectCallback := Some f\<rparr>"

definition call :: "('a \<Rightarrow> 's \<Rightarrow> 's) option \<Rightarrow> 'a \<Rightarrow> 's \<Rightarrow> 's" where
  "call f x s = (case f of None \<Rightarrow> s | Some g \<Rightarrow> g x s)"

definition call_decoded :: "'s callbacks \<Rightarrow> decoded \<Rightarrow> 's \<Rightarrow> 's" where
  "call_decoded h d s =
     (case d of MotionPacket m \<Rightarrow> call (onMotionUpdate h) m s
              | MacroPacket m \<Rightarrow> call (onMacro h) m s
              | NotDecoded \<Rightarrow> s)"

definition packet_data :: "bytes \<Rightarrow> PacketData" where
  "packet_data msg = \<lparr>rawMessage = msg, rawBinary = msg\<rparr>"

subsection \<open>The ENet server\<close>

datatype enet_event_type = EV_NONE | EV_CONNECT | EV_DISCONNECT | EV_RECEIVE

record enet_event =
  ev_type :: enet_event_type
  ev_peer :: nat
  ev_packet :: "bytes option"

record 's udp_server =
  ucb :: "'s callbacks"
  uapp :: 's
  peer_data :: "nat \<Rightarrow> nat option"
  destroyed :: "bytes list"
  usent :: "(nat \<times> bytes) list"
  overread :: bool

text \<open>
  The constructor: \<open>enet_initialize\<close> may fail, which leaves the \<open>server\<close> pointer unset, and
  \<open>enet_host_create\<close> may fail, which ends the process.
\<close>

datatype 'a constructed = Ready 'a | HostUnset | ExitFailure

definition udp_new :: "int \<Rightarrow> bool \<Rightarrow> 's \<Rightarrow> 's udp_server constructed" where
  "udp_new init_rc host_created s =
     (if init_rc \<noteq> 0 then HostUnset
      else if \<not> host_created then ExitFailure
      else Ready \<lparr>ucb = no_callbacks, uapp = s, peer_data = (\<lambda>_. None), destroyed = [],
                  usent = [], overread = False\<rparr>)"

text \<open>The packet is printed as a C string: without a zero octet that reads past its end, which only sets \<open>overread\<close>.\<close>

definition udp_receive :: "'s udp_server \<Rightarrow> bytes \<Rightarrow> 's udp_server" where
  "udp_receive u msg =
     (let s1 = call (onPacket (ucb u)) (packet_data msg) (uapp u);
          s2 = call_decoded (ucb u) (udp_decode msg) s1
      in u\<lparr>uapp := s2, destroyed := destroyed u @ [msg],
           overread := (overread u \<or> c_string msg = None)\<rparr>)"

definition udp_event :: "'s udp_server \<Rightarrow> enet_event \<Rightarrow> 's udp_server" where
  "udp_event u ev =
     (case ev_type ev of
        EV_CONNECT \<Rightarrow> u
      | EV_RECEIVE \<Rightarrow> (case ev_packet ev of None \<Rightarrow> u | Some msg \<Rightarrow> udp_receive u msg)
      | EV_DISCONNECT \<Rightarrow> u\<lparr>peer_data := (peer_data u)(ev_peer ev := None)\<rparr>
      | EV_NONE \<Rightarrow> u)"

text \<open>
  The loop over the results of \<open>enet_host_service\<close>, given as a list; the flag says that a negative
  result ended it.
\<close>

fun udp_run :: "(int \<times> enet_event) list \<Rightarrow> 's udp_server \<Rightarrow> bool \<times> 's udp_server" where
  "udp_run [] u = (False, u)"
| "udp_run ((ret, ev) # rest) u = (if ret \<ge> 0 then udp_run rest (udp_event u ev) else (True, u))"

definition udp_sendString :: "bytes \<Rightarrow> 's udp_server \<Rightarrow> 's udp_server" where
  "udp_sendString message u = u\<lparr>usent := usent u @ [(0, message)]\<rparr>"

subsection \<open>The WebSocket server\<close>

text \<open>The member functions that can be bound to an event of the WebSocket++ endpoint.\<close>

datatype bound = BoundMessage | BoundDisconnect | BoundConnection

record 's tcp_server =
  tcb :: "'s callbacks"
  tapp :: 's
  connectionHdls :: "nat list"
  tport :: nat
  open_handler :: "bound option"
  message_handler :: "bound option"
  interrupt_handler :: "bound option"
  fail_handler :: "bound option"
  close_handler :: "bound option"

definition tcp_new :: "nat \<Rightarrow> 's \<Rightarrow> 's tcp_server" where
  "tcp_new p s = \<lparr>tcb = no_callbacks, tapp = s, connectionHdls = [], tport = p,
     open_handler = None, message_handler = Some BoundMessage, interrupt_handler = Some BoundDisconnect,
     fail_handler = Some BoundDisconnect, close_handler = Some BoundDisconnect\<rparr>"

definition tcp_onConnection :: "'s tcp_server \<Rightarrow> nat \<Rightarrow> 's tcp_server" where
  "tcp_onConnection t hdl = t\<lparr>connectionHdls := connectionHdls t @ [hdl]\<rparr>"

definition tcp_onMessage :: "bool \<Rightarrow> 's tcp_server \<Rightarrow> nat \<Rightarrow> bytes \<Rightarrow> 's tcp_server" where
  "tcp_onMessage char_signed t hdl str =
     (let s1 = call (onPacket (tcb t)) (packet_data str) (tapp t)
      in t\<lparr>tapp := call_decoded (tcb t) (tcp_decode char_signed str) s1\<rparr>)"

definition tcp_onDisconnect :: "'s tcp_server \<Rightarrow> 's tcp_server" where
  "tcp_onDisconnect t =
     (case onDisconnectCallback (tcb t) of None \<Rightarrow> t | Some f \<Rightarrow> t\<lparr>tapp := f (tapp t)\<rparr>)"

datatype ws_event = Opened nat | Message nat bytes | Interrupted nat | Failed nat | Closed nat

definition tcp_bound :: "bool \<Rightarrow> bound option \<Rightarrow> nat \<Rightarrow> bytes \<Rightarrow> 's tcp_server \<Rightarrow> 's tcp_server" where
  "tcp_bound char_signed b hdl str t =
     (case b of None \<Rightarrow> t
      | Some BoundMessage \<Rightarrow> tcp_onMessage char_signed t hdl str
      | Some BoundDisconnect \<Rightarrow> tcp_onDisconnect t
      | Some BoundConnection \<Rightarrow> tcp_onConnection t hdl)"

fun tcp_event :: "bool \<Rightarrow> 's tcp_server \<Rightarrow> ws_event \<Rightarrow> 's tcp_server" where
  "tcp_event c t (Opened hdl) = tcp_bound c (open_handler t) hdl [] t"
| "tcp_event c t (Message hdl str) = tcp_bound c (message_handler t) hdl str t"
| "tcp_event c t (Interrupted hdl) = tcp_bound c (interrupt_handler t) hdl [] t"
| "tcp_event c t (Failed hdl) = tcp_bound c (fail_handler t) hdl [] t"
| "tcp_event c t (Closed hdl) = tcp_bound c (close_handler t) hdl [] t"

definition tcp_run :: "bool \<Rightarrow> ws_event list \<Rightarrow> 's tcp_server \<Rightarrow> 's tcp_server" where
  "tcp_run c evs t = foldl (tcp_event c) t evs"

text \<open>
  \<open>sendString\<close> asks the endpoint for each stored connection, which throws when the handle has
  expired (\<open>None\<close>), and sends to those that are open; the result is the list of sends.
\<close>

datatype con_state = ConConnecting | ConOpen | ConClosing | ConClosed

fun tcp_send_all :: "(nat \<Rightarrow> con_state option) \<Rightarrow> bytes \<Rightarrow> nat list \<Rightarrow> (nat \<times> bytes) list option" where
  "tcp_send_all con msg [] = Some []"
| "tcp_send_all con msg (hdl # hdls) =
     (case con hdl of
        None \<Rightarrow> None
      | Some st \<Rightarrow> map_option (\<lambda>out. (if st = ConOpen then [(hdl, msg)] else []) @ out)
                     (tcp_send_all con msg hdls))"

definition tcp_sendString :: "(nat \<Rightarrow> con_state option) \<Rightarrow> bytes \<Rightarrow> 's tcp_server \<Rightarrow> (nat \<times> bytes) list option" where
  "tcp_sendString con msg t = tcp_send_all con msg (connectionHdls t)"

subsection \<open>Lemmas\<close>

text \<open>The packets handed over by a list of service results, up to the first error.\<close>

fun received :: "(int \<times> enet_event) list \<Rightarrow> bytes list" where
  "received [] = []"
| "received ((ret, ev) # rest) =
     (if ret \<ge> 0 then
        (if ev_type ev = EV_RECEIVE then (case ev_packet ev of None \<Rightarrow> [] | Some m \<Rightarrow> [m]) else [])
        @ received rest
      else [])"

text \<open>What one message does to the program's state.\<close>

definition message_effect :: "'s callbacks \<Rightarrow> 's \<Rightarrow> bytes \<Rightarrow> 's" where
  "message_effect h s msg = call_decoded h (udp_decode msg) (call (onPacket h) (packet_data msg) s)"

lemma udp_event_simps [simp]:
  "ucb (udp_event u ev) = ucb u" "usent (udp_event u ev) = usent u"
  by (auto simp add: udp_event_def udp_receive_def Let_def split: enet_event_type.splits option.splits)

definition event_packets :: "enet_event \<Rightarrow> bytes list" where
  "event_packets ev =
     (if ev_type ev = EV_RECEIVE then (case ev_packet ev of None \<Rightarrow> [] | Some m \<Rightarrow> [m]) else [])"

lemma udp_event_effect:
  "uapp (udp_event u ev) = foldl (message_effect (ucb u)) (uapp u) (event_packets ev)"
  "destroyed (udp_event u ev) = destroyed u @ event_packets ev"
  "overread (udp_event u ev) \<longleftrightarrow> overread u \<or> (\<exists>m \<in> set (event_packets ev). c_string m = None)"
  by (cases "ev_type ev"; cases "ev_packet ev";
      simp add: udp_event_def udp_receive_def message_effect_def event_packets_def Let_def)+

lemma received_event: "ret \<ge> 0 \<Longrightarrow> received ((ret, ev) # rest) = event_packets ev @ received rest"
  by (simp add: event_packets_def)

lemma udp_run_effect:
  "uapp (snd (udp_run evs u)) = foldl (message_effect (ucb u)) (uapp u) (received evs)
   \<and> destroyed (snd (udp_run evs u)) = destroyed u @ received evs
   \<and> (overread (snd (udp_run evs u)) \<longleftrightarrow> overread u \<or> (\<exists>m \<in> set (received evs). c_string m = None))"
proof (induction evs u rule: udp_run.induct)
  case (2 ret ev rest u)
  show ?case
  proof (cases "ret \<ge> 0")
    case True
    with 2 show ?thesis
      by (simp only: udp_run.simps received_event if_True udp_event_simps udp_event_effect) auto
  qed simp
qed simp

lemma tcp_handlers_kept:
  "open_handler (tcp_event c t e) = open_handler t"
  "message_handler (tcp_event c t e) = message_handler t"
  "interrupt_handler (tcp_event c t e) = interrupt_handler t"
  "fail_handler (tcp_event c t e) = fail_handler t"
  "close_handler (tcp_event c t e) = close_handler t" "tcb (tcp_event c t e) = tcb t"
  by (cases e; simp add: tcp_bound_def tcp_onMessage_def tcp_onDisconnect_def tcp_onConnection_def
      split: option.splits bound.splits)+

definition tcp_registered :: "'s tcp_server \<Rightarrow> bool" where
  "tcp_registered t \<longleftrightarrow> open_handler t = None \<and> message_handler t = Some BoundMessage
     \<and> interrupt_handler t = Some BoundDisconnect \<and> fail_handler t = Some BoundDisconnect
     \<and> close_handler t = Some BoundDisconnect"

lemma tcp_registered_new: "tcp_registered (tcp_new p s)"
  by (simp add: tcp_registered_def tcp_new_def)

lemma tcp_registered_event: "tcp_registered t \<Longrightarrow> tcp_registered (tcp_event c t e)"
  by (simp add: tcp_registered_def tcp_handlers_kept)

lemma tcp_event_hdls: "tcp_registered t \<Longrightarrow> connectionHdls (tcp_event c t e) = connectionHdls t"
  by (cases e) (simp_all add: tcp_registered_def tcp_bound_def tcp_onMessage_def tcp_onDisconnect_def
      Let_def split: option.splits)

lemma tcp_run_hdls:
  "tcp_registered t \<Longrightarrow> tcp_registered (tcp_run c evs t) \<and> connectionHdls (tcp_run c evs t) = connectionHdls t"
  unfolding tcp_run_def
  by (induction evs arbitrary: t) (simp_all add: tcp_registered_event tcp_event_hdls)

text \<open>What one WebSocket event does to the program's state.\<close>

fun tcp_effect :: "bool \<Rightarrow> 's callbacks \<Rightarrow> 's \<Rightarrow> ws_event \<Rightarrow> 's" where
  "tcp_effect c h s (Opened hdl) = s"
| "tcp_effect c h s (Message hdl str) =
     call_decoded h (tcp_decode c str) (call (onPacket h) (packet_data str) s)"
| "tcp_effect c h s _ = (case onDisconnectCallback h of None \<Rightarrow> s | Some f \<Rightarrow> f s)"

lemma tcp_run_effect:
  "tcp_registered t \<Longrightarrow> tapp (tcp_run c evs t) = foldl (tcp_effect c (tcb t)) (tapp t) evs"
  unfolding tcp_run_def
proof (induction evs arbitrary: t)
  case (Cons e evs)
  have "tapp (tcp_event c t e) = tcp_effect c (tcb t) (tapp t) e"
    using Cons.prems
    by (cases e) (auto simp: tcp_registered_def tcp_bound_def tcp_onMessage_def tcp_onDisconnect_def
        Let_def split: option.splits)
  with Cons show ?case by (simp add: tcp_registered_event tcp_handlers_kept)
qed simp

lemma controller_bytes_zero:
  assumes "- 7 \<le> l" "l \<le> 7" "- 7 \<le> r" "r \<le> 7"
  shows "0 \<in> set (controller_bytes l r m1 m2) \<longleftrightarrow> l = 0 \<and> r = 0 \<or> m1 = NONE \<and> m2 = NONE"
proof -
  have "\<forall>l \<in> set wheel_range. \<forall>r \<in> set wheel_range.
      push_bit 4 (wheel_nibble l) OR wheel_nibble r = 0 \<longleftrightarrow> l = 0 \<and> r = 0"
    by code_simp
  moreover have "l \<in> set wheel_range" "r \<in> set wheel_range" using assms by (simp_all add: wheel_range_iff)
  ultimately have b1: "push_bit 4 (wheel_nibble l) OR wheel_nibble r = 0 \<longleftrightarrow> l = 0 \<and> r = 0" by blast
  have "list_all (\<lambda>m1. list_all (\<lambda>m2. (actuator_bits 0x40 0x10 m1 OR actuator_bits 0x20 0x08 m2 = 0)
      = (m1 = NONE \<and> m2 = NONE)) [NONE, RETRACTING, EXTENDING]) [NONE, RETRACTING, EXTENDING]"
    by code_simp
  then have "actuator_bits 0x40 0x10 m1 OR actuator_bits 0x20 0x08 m2 = 0 \<longleftrightarrow> m1 = NONE \<and> m2 = NONE"
    by (cases m1; cases m2; simp)
  with b1 show ?thesis unfolding controller_bytes_def by (simp add: eq_commute [of 0]) blast
qed

subsection \<open>Properties\<close>

text \<open>The event loop hands every packet ENet delivers before the first service error, in order,
  to the packet callback and then to the callback of its kind, and destroys each of them exactly once.\<close>

theorem udp_loop_processes_packets:
  "uapp (snd (udp_run evs u)) = foldl (message_effect (ucb u)) (uapp u) (received evs)
   \<and> destroyed (snd (udp_run evs u)) = destroyed u @ received evs"
  using udp_run_effect by blast

text \<open>The ENet server never calls the disconnect callback: whatever callback is registered, and
  whatever clients connect, send and disconnect, the program's state is the same as with none.\<close>

theorem udp_ignores_disconnect:
  "uapp (snd (udp_run evs (u\<lparr>ucb := setDisconnectCallback f (ucb u)\<rparr>))) = uapp (snd (udp_run evs u))"
proof -
  have "message_effect (setDisconnectCallback f h) = message_effect h" for h :: "'a callbacks"
    by (rule ext)+ (simp add: message_effect_def call_decoded_def setDisconnectCallback_def
        split: decoded.split)
  then show ?thesis by (simp add: udp_run_effect)
qed

text \<open>Printing a received motion packet as a C string reads past its two bytes exactly when
  neither byte is zero: a wheel is deflected and an actuator moves.\<close>

theorem udp_print_overreads:
  assumes "- 7 \<le> l" "l \<le> 7" "- 7 \<le> r" "r \<le> 7" and "\<not> overread u"
  shows "overread (udp_receive u (controller_bytes l r m1 m2)) \<longleftrightarrow>
     (l \<noteq> 0 \<or> r \<noteq> 0) \<and> (m1 \<noteq> NONE \<or> m2 \<noteq> NONE)"
proof -
  have "0 \<in> set (controller_bytes l r m1 m2) \<longleftrightarrow> l = 0 \<and> r = 0 \<or> m1 = NONE \<and> m2 = NONE"
    by (rule controller_bytes_zero) (use assms in auto)
  with assms(5) show ?thesis by (auto simp: udp_receive_def c_string_def Let_def)
qed

theorem udp_print_overreads_witness:
  "\<exists>u :: unit udp_server. udp_new 0 True () = Ready u
     \<and> overread (udp_receive u (controller_bytes 7 7 EXTENDING NONE))"
proof -
  obtain u :: "unit udp_server" where u: "udp_new 0 True () = Ready u" "\<not> overread u"
    by (simp add: udp_new_def)
  with udp_print_overreads [of 7 7 u EXTENDING NONE] show ?thesis by simp
qed

text \<open>The WebSocket server runs the disconnect callback on every close, failure and interruption,
  and treats every message like the ENet server's decoder with this platform's \<open>char\<close>.\<close>

theorem tcp_loop_effect:
  "tapp (tcp_run c evs ((tcp_new p s)\<lparr>tcb := h\<rparr>)) = foldl (tcp_effect c h) s evs"
  using tcp_run_effect [of "(tcp_new p s)\<lparr>tcb := h\<rparr>" c evs]
  by (simp add: tcp_registered_def tcp_new_def)

text \<open>No connection is ever stored, because no open handler is registered: \<open>sendString\<close> sends
  nothing to anybody, however many clients are connected.\<close>

theorem tcp_sendString_silent:
  "tcp_sendString con msg (tcp_run c evs (tcp_new p s)) = Some []"
proof -
  have "connectionHdls (tcp_run c evs (tcp_new p s)) = connectionHdls (tcp_new p s)"
    using tcp_run_hdls [OF tcp_registered_new, of c evs p s] by blast
  then show ?thesis by (simp add: tcp_sendString_def tcp_new_def)
qed

end
