(* ===== verification/Robot.thy ===== *)
theory Robot imports Motor Server begin

text \<open>
  The program \<open>src/src/main.cpp\<close>: its callbacks on the motor interface, their registration with a
  server, and the whole robot from network events to pins. The state the callbacks transform is the
  motor object with the driver's globals, \<open>None\<close> after a crash. The screen output is left out.
\<close>

type_synonym robot = "(MotorInterface \<times> gpio) option"

text \<open>\<open>data.leftDrivePercent * 0.25\<close>, exact in \<open>double\<close>, is truncated when it is passed as \<open>int\<close>.\<close>

definition main_onMotionUpdate :: "MotionPacketData \<Rightarrow> robot \<Rightarrow> robot" where
  "main_onMotionUpdate data st = do {
     (i, g) \<leftarrow> st;
     (_, i, g) \<leftarrow> mi_setDrivePercent i (c_quot (leftDrivePercent data) 4) (c_quot (rightDrivePercent data) 4) g;
     (_, i, g) \<leftarrow> mi_setActuators i (actuator1 data) (actuator2 data) g;
     Some (i, g)
   }"

definition main_onMacro :: "MacroPacketData \<Rightarrow> robot \<Rightarrow> robot" where
  "main_onMacro data st = st"

definition main_onDisconnect :: "robot \<Rightarrow> robot" where
  "main_onDisconnect st = do {
     (i, g) \<leftarrow> st;
     (_, i, g) \<leftarrow> mi_stopMovement i g;
     Some (i, g)
   }"

definition main_callbacks :: "robot callbacks" where
  "main_callbacks = setDisconnectCallback main_onDisconnect
     (setMacroCallback main_onMacro (setMotionUpdateCallback main_onMotionUpdate no_callbacks))"

text \<open>
  \<open>main\<close> itself: the global \<open>motors\<close> is initialised first, then the global server, then the callbacks
  are set and the loop runs on what ENet delivers.
\<close>

definition main_run ::
  "os_answers \<Rightarrow> gpio \<Rightarrow> int \<Rightarrow> bool \<Rightarrow> (int \<times> enet_event) list \<Rightarrow> (bool \<times> robot udp_server) constructed" where
  "main_run os g init_rc host_created evs =
     (case udp_new init_rc host_created (getMotorContoller os g) of
        Ready u \<Rightarrow> Ready (udp_run evs (u\<lparr>ucb := main_callbacks\<rparr>))
      | HostUnset \<Rightarrow> HostUnset
      | ExitFailure \<Rightarrow> ExitFailure)"

subsection \<open>What a message does\<close>

lemma main_message_effect:
  "message_effect main_callbacks st msg =
     (case udp_decode msg of MotionPacket m \<Rightarrow> main_onMotionUpdate m st | _ \<Rightarrow> st)"
  by (simp add: message_effect_def call_decoded_def call_def main_callbacks_def no_callbacks_def
      setDisconnectCallback_def setMacroCallback_def setMotionUpdateCallback_def main_onMacro_def
      split: decoded.split)

definition robot_ok :: "robot \<Rightarrow> bool" where
  "robot_ok st \<longleftrightarrow> (\<exists>c g. st = Some (Real c, g) \<and> controller_inv c g)"

definition robot_view_of :: "robot \<Rightarrow> robot_view" where
  "robot_view_of st = motor_view (snd (the st))"

definition spec_motion :: "MotionPacketData \<Rightarrow> robot_view \<Rightarrow> robot_view" where
  "spec_motion m v = \<lparr>left_duty = percent_duty (c_quot (leftDrivePercent m) 4),
     right_duty = percent_duty (c_quot (rightDrivePercent m) 4),
     lines1 = motion_lines (actuator1 m), lines2 = motion_lines (actuator2 m)\<rparr>"

definition spec_message :: "bytes \<Rightarrow> robot_view \<Rightarrow> robot_view" where
  "spec_message msg v = (case udp_decode msg of MotionPacket m \<Rightarrow> spec_motion m v | _ \<Rightarrow> v)"

lemma quarter_bounds: "\<bar>p\<bar> \<le> 99 \<Longrightarrow> - 24 \<le> c_quot p 4 \<and> c_quot p 4 \<le> 24"
proof -
  assume "\<bar>p\<bar> \<le> 99"
  then have "- 99 \<le> p" "p \<le> 99" by auto
  moreover have "c_quot 99 4 = 24" by (simp add: c_quot_nonneg)
  moreover have "c_quot (- 99) 4 = - 24" using c_quot_minus [of 99 4] calculation by simp
  ultimately show ?thesis using c_quot_mono [of "-99" p 4] c_quot_mono [of p 99 4] by simp
qed

lemma main_onMotionUpdate_ok:
  assumes "robot_ok st" and "udp_decode msg = MotionPacket m"
  shows "robot_ok (main_onMotionUpdate m st)
     \<and> robot_view_of (main_onMotionUpdate m st) = spec_motion m (robot_view_of st)"
proof -
  obtain c g where st: "st = Some (Real c, g)" "controller_inv c g"
    using assms(1) by (auto simp: robot_ok_def)
  obtain c1 g1 where 1: "mc_setDrivePercent c (c_quot (leftDrivePercent m) 4) (c_quot (rightDrivePercent m) 4) g
      = Some (True, c1, g1)" "controller_inv c1 g1"
    "motor_view g1 = spec_drive (c_quot (leftDrivePercent m) 4) (c_quot (rightDrivePercent m) 4) (motor_view g)"
    using mc_setDrivePercent_ok [OF st(2)] by blast
  obtain g2 where 2: "mc_setActuators c1 (actuator1 m) (actuator2 m) g1 = Some (True, c1, g2)"
    "controller_inv c1 g2" "motor_view g2 = spec_actuators (actuator1 m) (actuator2 m) (motor_view g1)"
    using mc_setActuators_ok [OF 1(2)] by blast
  have "- 24 \<le> c_quot (leftDrivePercent m) 4 \<and> c_quot (leftDrivePercent m) 4 \<le> 24"
    "- 24 \<le> c_quot (rightDrivePercent m) 4 \<and> c_quot (rightDrivePercent m) 4 \<le> 24"
    using motion_packet_bounds [OF assms(2)] quarter_bounds by blast+
  with st 1 2 show ?thesis
    by (auto simp: main_onMotionUpdate_def mi_setDrivePercent_def mi_setActuators_def robot_ok_def
        robot_view_of_def spec_motion_def spec_drive_def spec_actuators_def clamp_id)
qed

lemma main_message_ok:
  assumes "robot_ok st"
  shows "robot_ok (message_effect main_callbacks st msg)
     \<and> robot_view_of (message_effect main_callbacks st msg) = spec_message msg (robot_view_of st)"
  using main_onMotionUpdate_ok [OF assms] assms
  by (auto simp: main_message_effect spec_message_def split: decoded.split)

lemma main_messages_ok:
  "robot_ok st \<Longrightarrow> robot_ok (foldl (message_effect main_callbacks) st msgs)
     \<and> robot_view_of (foldl (message_effect main_callbacks) st msgs) = fold spec_message msgs (robot_view_of st)"
  by (induction msgs arbitrary: st) (simp_all add: main_message_ok)

definition gentle :: "robot_view \<Rightarrow> bool" where
  "gentle v \<longleftrightarrow> 53 \<le> left_duty v \<and> left_duty v \<le> 61 \<and> 53 \<le> right_duty v \<and> right_duty v \<le> 61"

lemma quarter_duty:
  assumes "- 24 \<le> p" "p \<le> 24"
  shows "53 \<le> percent_duty p \<and> percent_duty p \<le> 61"
  using c_quot_mono [of "- 456" "p * 19" 100] c_quot_mono [of "p * 19" 456 100] assms
    c_quot_minus [of 456 100]
  by (simp add: percent_duty_def pwm_constants c_quot_nonneg)

lemma spec_message_gentle: "gentle v \<Longrightarrow> gentle (spec_message msg v)"
proof (cases "udp_decode msg")
  case (MotionPacket m)
  then show ?thesis
    using motion_packet_bounds [OF MotionPacket] quarter_bounds quarter_duty
    by (simp add: spec_message_def spec_motion_def gentle_def)
qed (simp_all add: spec_message_def)

lemma simulated_effect:
  "message_effect main_callbacks (Some (Simulated, g)) msg = Some (Simulated, g)"
  by (simp add: main_message_effect main_onMotionUpdate_def mi_setDrivePercent_def
      mi_setActuators_def split: decoded.split)

lemma main_onDisconnect_ok:
  assumes "robot_ok st"
  shows "robot_ok (main_onDisconnect st) \<and> robot_view_of (main_onDisconnect st) = spec_stop (robot_view_of st)"
proof -
  obtain c g where st: "st = Some (Real c, g)" "controller_inv c g"
    using assms by (auto simp: robot_ok_def)
  obtain c' g' where "mc_stopMovement c g = Some (True, c', g')" "controller_inv c' g'"
    "motor_view g' = spec_stop (motor_view g)"
    using mc_stopMovement_ok [OF st(2)] by blast
  with st show ?thesis
    by (simp add: main_onDisconnect_def mi_stopMovement_def robot_ok_def robot_view_of_def)
qed

text \<open>A robot with the real controller, for the witnesses.\<close>

lemma robot_ok_exists: "\<exists>c g. MotorController_new gpio_up = Some (c, g) \<and> robot_ok (Some (Real c, g))
   \<and> left_duty (motor_view g) = 57 \<and> right_duty (motor_view g) = 57"
  using MotorController_new_ok [OF gpio_up_ready(2)] by (auto simp: robot_ok_def pwm_constants)

lemma tcp_motion_decoded:
  "(\<exists>m. tcp_decode c msg = MotionPacket m) \<or> (\<exists>m. udp_decode msg = MotionPacket m)
     \<Longrightarrow> tcp_decode c msg = udp_decode msg"
  by (auto simp: tcp_decode_def udp_decode_def tcp_motion_eq split: if_split_asm)

lemma main_tcp_message: "tcp_effect c main_callbacks st (Message hdl msg) = message_effect main_callbacks st msg"
proof -
  have "tcp_effect c main_callbacks st (Message hdl msg) =
     (case tcp_decode c msg of MotionPacket m \<Rightarrow> main_onMotionUpdate m st | _ \<Rightarrow> st)"
    by (simp add: call_decoded_def call_def main_callbacks_def no_callbacks_def
      setDisconnectCallback_def setMacroCallback_def setMotionUpdateCallback_def main_onMacro_def
      split: decoded.split)
  then show ?thesis
    using tcp_motion_decoded [of c msg]
    by (cases "tcp_decode c msg"; cases "udp_decode msg") (auto simp: main_message_effect)
qed

lemma main_tcp_disconnect:
  "tcp_effect c main_callbacks st (Interrupted hdl) = main_onDisconnect st"
  "tcp_effect c main_callbacks st (Failed hdl) = main_onDisconnect st"
  "tcp_effect c main_callbacks st (Closed hdl) = main_onDisconnect st"
  by (auto simp: main_callbacks_def setDisconnectCallback_def)

lemma main_tcp_robot_ok: "robot_ok st \<Longrightarrow> robot_ok (foldl (tcp_effect c main_callbacks) st evs)"
proof (induction evs arbitrary: st)
  case (Cons e evs)
  have "robot_ok (tcp_effect c main_callbacks st e)"
    using Cons.prems main_message_ok main_onDisconnect_ok
    by (cases e) (simp_all only: main_tcp_message main_tcp_disconnect tcp_effect.simps(1))
  then show ?case by (simp add: Cons.IH)
qed simp

subsection \<open>Properties\<close>

text \<open>C6. With the real controller, any bytes the network delivers leave the robot running and in a
  good state, and its pins are what the abstract reading of the messages says. Printing a packet that has no zero octet
  reads past its end; the run records that in \<open>overread\<close> and goes on, as if the read returned.\<close>

theorem robot_follows_messages:
  assumes "robot_ok st" and "ucb u = main_callbacks" and "uapp u = st"
  shows "robot_ok (uapp (snd (udp_run evs u)))
     \<and> robot_view_of (uapp (snd (udp_run evs u))) = fold spec_message (received evs) (robot_view_of st)"
  using main_messages_ok [OF assms(1), of "received evs"] assms(2,3) by (simp add: udp_run_effect)

text \<open>C33. No byte sequence from the network can make a drive motor run outside duty cycles 53 to 61,
  a quarter of its range around the stop pulse. As in \<open>robot_follows_messages\<close>, printing a packet past its end is recorded
  in \<open>overread\<close> and the run goes on.\<close>

theorem robot_stays_gentle:
  assumes "robot_ok st" and "gentle (robot_view_of st)" and "ucb u = main_callbacks" and "uapp u = st"
  shows "gentle (robot_view_of (uapp (snd (udp_run evs u))))"
proof -
  have "gentle (fold spec_message msgs v)" if "gentle v" for msgs v
    using that by (induction msgs arbitrary: v) (simp_all add: spec_message_gentle)
  with main_messages_ok [OF assms(1), of "received evs"] assms(2-4) show ?thesis
    by (simp add: udp_run_effect)
qed

text \<open>C36. The program as it is built never moves the robot: after any run of \<open>main\<close> the motor object is
  the simulated one and the driver's registers are those left by the initialisation.\<close>

theorem main_never_moves:
  assumes "main_run os g init_rc host_created evs = Ready (b, u)"
  shows "uapp u = Some (Simulated, snd (gpioInitialise os g))"
proof -
  have init: "getMotorContoller os g = Some (Simulated, snd (gpioInitialise os g))"
    using gpioInitialise_cases [of os g "fst (gpioInitialise os g)" "snd (gpioInitialise os g)"]
    by (auto simp: getMotorContoller_def initJetGpio_def Let_def split_beta)
  have "foldl (message_effect main_callbacks) (Some (Simulated, g')) msgs = Some (Simulated, g')" for g' msgs
    by (induction msgs) (simp_all add: simulated_effect)
  moreover have "u = snd (udp_run evs (\<lparr>ucb = main_callbacks, uapp = getMotorContoller os g,
      peer_data = (\<lambda>_. None), destroyed = [], usent = [], overread = False\<rparr>))"
    using assms by (auto simp: main_run_def udp_new_def split: if_split_asm dest: arg_cong [of _ _ snd])
  ultimately show ?thesis by (simp add: udp_run_effect init)
qed

text \<open>The intended stop on disconnection does not happen over ENet: a disconnection leaves the motor
  object and all pins as the last motion packet set them.\<close>

theorem udp_disconnect_keeps_moving:
  assumes "ev_type ev = EV_DISCONNECT" and "fst (udp_run evs u) = False" and "0 \<le> ret"
  shows "uapp (snd (udp_run (evs @ [(ret, ev)]) u)) = uapp (snd (udp_run evs u))"
proof -
  have "received (evs @ [(ret, ev)]) = received evs"
    using assms(2) assms(1,3) by (induction evs u rule: udp_run.induct) (auto split: if_split_asm)
  then show ?thesis by (simp add: udp_run_effect)
qed

text \<open>With the same callbacks on the WebSocket server, a lost connection stops both drive motors and
  drives all actuator lines high, whatever was going on before.\<close>

theorem tcp_disconnect_stops:
  assumes "robot_ok st" and "e = Interrupted hdl \<or> e = Failed hdl \<or> e = Closed hdl"
  shows "robot_view_of (tapp (tcp_run c (evs @ [e]) ((tcp_new p st)\<lparr>tcb := main_callbacks\<rparr>)))
       = \<lparr>left_duty = 57, right_duty = 57, lines1 = (True, True), lines2 = (True, True)\<rparr>"
proof -
  let ?s = "foldl (tcp_effect c main_callbacks) st evs"
  have "tapp (tcp_run c (evs @ [e]) ((tcp_new p st)\<lparr>tcb := main_callbacks\<rparr>)) = main_onDisconnect ?s"
    using tcp_run_effect [of "(tcp_new p st)\<lparr>tcb := main_callbacks\<rparr>" c "evs @ [e]"] assms(2)
    by (auto simp: tcp_registered_def tcp_new_def main_tcp_disconnect simp del: tcp_effect.simps)
  with main_onDisconnect_ok [OF main_tcp_robot_ok [OF assms(1)]] show ?thesis
    by (simp add: spec_stop_def pwm_constants)
qed

definition motion_event :: "bytes \<Rightarrow> int \<times> enet_event" where
  "motion_event msg = (1, \<lparr>ev_type = EV_RECEIVE, ev_peer = 0, ev_packet = Some msg\<rparr>)"

definition idle_server :: "robot \<Rightarrow> robot udp_server" where
  "idle_server st = \<lparr>ucb = main_callbacks, uapp = st, peer_data = (\<lambda>_. None), destroyed = [], usent = [],
     overread = False\<rparr>"

theorem robot_follows_messages_witness:
  "\<exists>st. robot_ok st \<and>
     robot_view_of (uapp (snd (udp_run [motion_event [0x10, 0x7F]] (idle_server st))))
       = \<lparr>left_duty = 61, right_duty = 53, lines1 = (True, False), lines2 = (True, True)\<rparr>"
proof -
  obtain c g where ok: "robot_ok (Some (Real c, g))" using robot_ok_exists by blast
  have msg: "[0x10, 0x7F] = controller_bytes 7 (- 7) EXTENDING NONE" by code_simp
  have "scale_percent 7 = 99" "scale_percent (- 7) = - 99"
    using scale_percent_minus [of 7] by (simp_all add: scale_percent_table)
  moreover have "c_quot 99 4 = 24" "c_quot (- 99) 4 = - 24" "percent_duty 24 = 61" "percent_duty (- 24) = 53"
    using c_quot_minus [of 99 4] c_quot_minus [of 456 100]
    by (simp_all add: c_quot_nonneg percent_duty_def pwm_constants)
  ultimately have "spec_message [0x10, 0x7F] v
      = \<lparr>left_duty = 61, right_duty = 53, lines1 = (True, False), lines2 = (True, True)\<rparr>" for v
    unfolding msg spec_message_def
    using udp_decode_controller [of 7 "- 7" EXTENDING NONE]
    by (simp add: spec_motion_def motion_lines_def)
  with robot_follows_messages [OF ok, of "idle_server (Some (Real c, g))" "[motion_event [0x10, 0x7F]]"] ok
  show ?thesis by (auto simp: idle_server_def motion_event_def)
qed

theorem robot_stays_gentle_witness:
  "\<exists>st. robot_ok st \<and> gentle (robot_view_of (uapp (snd (udp_run [motion_event [0xFF, 0xFF]] (idle_server st)))))"
proof -
  obtain c g where ok: "robot_ok (Some (Real c, g))" "gentle (robot_view_of (Some (Real c, g)))"
    using robot_ok_exists by (auto simp: gentle_def robot_view_of_def)
  with robot_stays_gentle [OF ok, of "idle_server (Some (Real c, g))" "[motion_event [0xFF, 0xFF]]"]
  show ?thesis by (auto simp: idle_server_def)
qed

theorem main_never_moves_witness:
  "\<exists>b u. main_run os_root gpio_boot 0 True [motion_event [0x10, 0x7F]] = Ready (b, u)
     \<and> uapp u = Some (Simulated, gpio_up)"
proof -
  obtain b u where run: "main_run os_root gpio_boot 0 True [motion_event [0x10, 0x7F]] = Ready (b, u)"
    by (cases "main_run os_root gpio_boot 0 True [motion_event [0x10, 0x7F]]")
      (auto simp: main_run_def udp_new_def)
  with main_never_moves [OF run] show ?thesis by (auto simp: gpio_up_def)
qed

theorem udp_disconnect_keeps_moving_witness:
  "\<exists>st. robot_ok st \<and> robot_view_of (uapp (snd (udp_run [motion_event [0x10, 0x7F],
      (1, \<lparr>ev_type = EV_DISCONNECT, ev_peer = 0, ev_packet = None\<rparr>)] (idle_server st))))
    = robot_view_of (uapp (snd (udp_run [motion_event [0x10, 0x7F]] (idle_server st))))"
proof -
  obtain c g where ok: "robot_ok (Some (Real c, g))" using robot_ok_exists by blast
  show ?thesis
    using ok udp_disconnect_keeps_moving [of "\<lparr>ev_type = EV_DISCONNECT, ev_peer = 0, ev_packet = None\<rparr>"
      "[motion_event [0x10, 0x7F]]" "idle_server (Some (Real c, g))" 1]
    by (intro exI [of _ "Some (Real c, g)"]) (simp add: motion_event_def)
qed

theorem tcp_disconnect_stops_witness:
  "\<exists>st. robot_ok st \<and> left_duty (robot_view_of (tapp (tcp_run False [Message 0 [0x10, 0x7F], Closed 0]
      ((tcp_new 9002 st)\<lparr>tcb := main_callbacks\<rparr>)))) = 57"
proof -
  obtain c g where ok: "robot_ok (Some (Real c, g))" using robot_ok_exists by blast
  with tcp_disconnect_stops [OF ok, of "Closed 0" 0 False "[Message 0 [0x10, 0x7F]]" 9002]
  show ?thesis by auto
qed

end
