(* ===== verification/WsHearing.thy ===== *)
theory WsHearing imports WsDelivery begin

text \<open>
  What the program hears of its connection's end: the close handler runs before the end of the
  connection is reported, and no message is handed over after it.
\<close>

subsection \<open>Events\<close>

definition is_message :: "app_event \<Rightarrow> bool" where
  "is_message e \<longleftrightarrow> (case e of Got_message _ \<Rightarrow> True | _ \<Rightarrow> False)"

text \<open>The new events of a step: quiet ones, and no messages once the connection is closed.\<close>

definition hears :: "connection \<Rightarrow> connection \<Rightarrow> bool" where
  "hears c c' \<longleftrightarrow> (\<exists>new. c_events c' = c_events c @ new \<and> (\<forall>e \<in> set new. quiet_event e)
     \<and> (c_state c = S_closed \<longrightarrow> c_state c' = S_closed \<and> (\<forall>e \<in> set new. \<not> is_message e)))"

lemma hearsI: "c_events c' = c_events c \<Longrightarrow> (c_state c = S_closed \<Longrightarrow> c_state c' = S_closed) \<Longrightarrow> hears c c'"
  by (simp add: hears_def)

lemma hears_refl: "hears c c"
  by (simp add: hears_def)

lemma hears_trans: "hears a b \<Longrightarrow> hears b c \<Longrightarrow> hears a c"
  by (fastforce simp: hears_def)

lemma hears_tell: "quiet_event e \<Longrightarrow> (c_state c = S_closed \<Longrightarrow> \<not> is_message e) \<Longrightarrow> hears c (tell e c)"
  by (simp add: hears_def tell_def)

lemma terminate_events: "c_events (terminate ec c) = c_events c"
  by (simp add: terminate_def cancel_handshake_timer_def async_def Let_def split: option.split)

lemma draw_key_events: "c_events (draw_key c) = c_events c"
  by (simp add: draw_key_def split: option.split)

lemma close_frame_events: "c_events (snd (send_close_frame code reason ack terminal c)) = c_events c"
  by (auto simp: send_close_frame_def Let_def mgr_get_message_def draw_key_events async_def split: option.split prod.split)

lemma api_events: "api_step app resumes c c' \<Longrightarrow> c_events c' = c_events c"
proof (induction rule: api_step.induct)
  case (api_send msg c)
  then show ?case by (auto simp: con_send_def mgr_get_message_def draw_key_events split: option.split prod.split)
next
  case (api_ping c payload)
  then show ?case
    by (auto simp: con_ping_def mgr_get_message_def draw_key_events async_def Let_def split: option.split prod.split)
next
  case (api_pong c payload)
  then show ?case using pong_told by blast
next
  case (api_close c code reason)
  then show ?case by (simp add: con_close_def Let_def close_frame_events)
qed (simp_all add: pause_reading_def resume_reading_def interrupt_def async_def)

lemma closed_stays: "basics c c' \<Longrightarrow> c_state c = S_closed \<Longrightarrow> c_state c' = S_closed"
  using basics_closed by (auto simp: same_core_def)

lemma api_hears: "api_step app resumes c c' \<Longrightarrow> hears c c'"
  by (rule hearsI) (auto simp: api_events intro: closed_stays [OF api_basic])

lemma close_hears: "hears c (snd (con_close code reason c))"
  by (rule api_hears [OF api_close])

lemma failed_hears: "hears c (read_failed ec c)"
  using hears_trans [OF close_hears hearsI [OF terminate_events]]
  by (simp add: read_failed_def drop_on_protocol_error_def Let_def case_prod_beta terminate_state close_hears)

lemma tcp_control_hears: "hears c (process_control_frame tcp_app msg c)"
proof (cases "c_state c = S_closed")
  case True
  then show ?thesis by (simp add: process_control_frame_def Let_def hears_refl)
next
  case False
  have "c_events (process_control_frame tcp_app msg c) = c_events c"
    by (simp add: process_control_frame_def Let_def receive_ping_def receive_pong_def receive_close_def tcp_app_def
        pong_told send_close_ack_def close_frame_events terminate_events case_prod_beta)
  with False show ?thesis by (simp add: hears_def)
qed

lemma tcp_dispatch_hears: "hears c (dispatch_message tcp_app msg c)"
  using tcp_control_hears [of c msg] hears_tell [of "Got_message msg" c]
  by (auto simp: dispatch_message_def tcp_app_def hears_refl quiet_event_def)

lemma tcp_read_hears:
  assumes "read_done tcp_app ec data c = Some c'"
  shows "hears c c'"
proof -
  let ?c = "c\<lparr>c_buf := poke 0 data (c_buf c)\<rparr>"
  have put: "hears c ?c" and rd: "hears d (read_frame d)" for d
    by (rule hearsI; simp add: read_frame_def async_def)+
  have loop: "hears ?c (snd r)" if "frame_loop tcp_app n 0 ?c = Some r" for n r
    by (rule frame_loop_relates [OF that])
       (use hears_trans hearsI failed_hears tcp_dispatch_hears in \<open>auto intro: hearsI\<close>)
  have ended: "hears ?c (terminate e ?c)" for e by (rule hearsI) (simp_all add: terminate_events terminate_state)
  have "hears ?c c'"
    using assms hears_refl [of ?c] ended loop hears_trans [OF loop rd]
    by (auto simp: read_done_def handle_read_frame_def Let_def split: if_splits option.splits prod.splits bool.splits)
  then show ?thesis by (rule hears_trans [OF put])
qed

subsection \<open>The end\<close>

lemma terminate_shutdown:
  assumes "P_shutdown t \<in> set (c_pending (terminate ec c))" and "c_state c \<noteq> S_connecting"
  shows "P_shutdown t \<in> set (c_pending c) \<or> t = t_closed"
  using assms by (auto simp: terminate_def cancel_handshake_timer_def async_def Let_def split: option.splits if_splits)

lemma push_shutdown: "P_shutdown t \<in> set (c_pending (push_and_dispatch msg c)) \<longleftrightarrow> P_shutdown t \<in> set (c_pending c)"
  using push_pending [of msg c] by auto

lemma basics_shutdown:
  assumes "basics c c'" and "c_state c \<noteq> S_connecting" and "P_shutdown t \<in> set (c_pending c')"
  shows "P_shutdown t \<in> set (c_pending c) \<or> t = t_closed"
proof -
  have one: "P_shutdown t \<in> set (c_pending a) \<or> t = t_closed"
    if "basic_step a b" "c_state a \<noteq> S_connecting" "P_shutdown t \<in> set (c_pending b)" for a b
    using that
  proof (induction rule: basic_step.induct)
    case (b_quiet c c')
    have "filter (\<lambda>p. p = P_shutdown t) (c_pending c') = filter (\<lambda>p. p = P_shutdown t) (c_pending c)"
      by (rule same_core_pending [OF b_quiet(1)]) (simp add: quiet_op_def)
    then have "P_shutdown t \<in> set (c_pending c)" using b_quiet(3) unfolding mem_filter [of "P_shutdown t"] by (rule subst)
    then show ?case ..
  next
    case (b_terminate c ec)
    show ?case by (rule terminate_shutdown [OF b_terminate(2,1)])
  qed (simp_all add: push_shutdown)
  from assms show ?thesis
  proof (induction rule: rtranclp.induct)
    case (rtrancl_into_rtrancl a b c)
    have "c_state b \<noteq> S_connecting" by (rule basics_connected [OF rtrancl_into_rtrancl.hyps(1) rtrancl_into_rtrancl.prems(1)])
    from one [OF rtrancl_into_rtrancl.hyps(2) this rtrancl_into_rtrancl.prems(2)] show ?case
      using rtrancl_into_rtrancl.IH [OF rtrancl_into_rtrancl.prems(1)] by blast
  qed simp
qed

text \<open>The end is reported after the close handler has run, and no message follows.\<close>

definition end_heard :: "connection \<Rightarrow> bool" where
  "end_heard c \<longleftrightarrow> (\<forall>t. P_shutdown t \<in> set (c_pending c) \<longrightarrow> t = t_closed)
     \<and> (Terminated \<in> set (c_events c) \<longrightarrow> c_state c = S_closed
         \<and> (\<exists>pre post. c_events c = pre @ Closed # post \<and> (\<forall>e \<in> set post. \<not> is_message e)))"

lemma end_heard_step:
  assumes "end_heard c" and "hears c c'" and "\<And>t. P_shutdown t \<in> set (c_pending c') \<Longrightarrow> P_shutdown t \<in> set (c_pending c) \<or> t = t_closed"
  shows "end_heard c'"
proof -
  obtain new where new: "c_events c' = c_events c @ new" "\<forall>e \<in> set new. quiet_event e"
    "c_state c = S_closed \<longrightarrow> c_state c' = S_closed \<and> (\<forall>e \<in> set new. \<not> is_message e)"
    using assms(2) by (auto simp: hears_def)
  have "c_state c' = S_closed \<and> (\<exists>pre post. c_events c' = pre @ Closed # post \<and> (\<forall>e \<in> set post. \<not> is_message e))"
    if "Terminated \<in> set (c_events c')"
  proof -
    have "Terminated \<in> set (c_events c)" using that new(1,2) by (auto simp: quiet_event_def)
    then obtain pre post where "c_state c = S_closed" "c_events c = pre @ Closed # post" "\<forall>e \<in> set post. \<not> is_message e"
      using assms(1) by (auto simp: end_heard_def)
    with new show ?thesis by (intro conjI exI [of _ pre] exI [of _ "post @ new"]) auto
  qed
  then show ?thesis using assms(1,3) by (auto simp: end_heard_def)
qed

lemma remove1_in: "x \<in> set (remove1 y xs) \<Longrightarrow> x \<in> set xs"
  using set_remove1_subset by fastforce

lemma tcp_no_pong_timeout: "on_pong_timeout tcp_app = None"
  by (simp add: tcp_app_def)

lemma tcp_step_heard:
  assumes "con_step tcp_app resumes c c'" and "end_heard c" and "ends_once c" and "c_state c \<noteq> S_connecting"
  shows "end_heard c'"
  using assms
proof (induction rule: con_step.induct)
  case (step_api c c')
  then show ?case using end_heard_step api_hears basics_shutdown [OF api_basic] by blast
next
  case (step_write_frame c)
  show ?case
    by (rule end_heard_step [OF step_write_frame(2) hearsI])
       (auto simp: write_frame_fields complete_def write_frame_def async_def Let_def split: if_splits dest: remove1_in)
next
  case (step_written c ec)
  show ?case
    by (rule end_heard_step [OF step_written(2) hearsI])
       (use step_written(4) in \<open>auto simp: handle_write_frame_def complete_def async_def Let_def terminate_events terminate_state
         split: if_splits dest!: terminate_shutdown dest: remove1_in\<close>)
next
  case (step_read c ec data c')
  have put: "hears c (complete P_read c)" by (rule hearsI) (simp_all add: complete_def)
  have "basics (complete P_read c) c'"
    by (rule read_done_basic [OF step_read(5) tcp_app_only]) (simp add: complete_def step_read)
  from basics_shutdown [OF this] show ?case
    using end_heard_step [OF step_read(6) hears_trans [OF put tcp_read_hears [OF step_read(5)]]] step_read(8)
    by (auto simp: complete_def dest: remove1_in)
next
  case (step_read_error c ec c')
  have put: "hears c (complete P_read c)" by (rule hearsI) (simp_all add: complete_def)
  have "basics (complete P_read c) c'"
    by (rule read_done_basic [OF step_read_error(3) tcp_app_only]) (simp add: complete_def step_read_error)
  from basics_shutdown [OF this] show ?case
    using end_heard_step [OF step_read_error(4) hears_trans [OF put tcp_read_hears [OF step_read_error(3)]]] step_read_error(6)
    by (auto simp: complete_def dest: remove1_in)
next
  case (step_shutdown tstat c)
  have "tstat = t_closed" "c_state c = S_closed"
    using step_shutdown ending.down by (auto simp: end_heard_def)
  then have h: "c_events (handle_terminate tcp_app tstat (complete (P_shutdown tstat) c)) = c_events c @ Closed # [Terminated]"
    "c_state (handle_terminate tcp_app tstat (complete (P_shutdown tstat) c)) = S_closed"
    "c_pending (handle_terminate tcp_app tstat (complete (P_shutdown tstat) c)) = remove1 (P_shutdown tstat) (c_pending c)"
    by (simp_all add: handle_terminate_def tcp_app_def tell_def complete_def)
  have "\<forall>e \<in> set [Terminated]. \<not> is_message e" by (simp add: is_message_def)
  with step_shutdown(2) show ?case unfolding end_heard_def h by (blast dest: remove1_in)
next
  case (step_close_timer c ec)
  show ?case
    by (rule end_heard_step [OF step_close_timer(2) hearsI])
       (use step_close_timer(4) in \<open>auto simp: handle_close_handshake_timeout_def complete_def async_def Let_def terminate_events terminate_state
         split: if_splits dest!: terminate_shutdown dest: remove1_in\<close>)
next
  case (step_open_timer c ec)
  show ?case
    by (rule end_heard_step [OF step_open_timer(2) hearsI])
       (use step_open_timer(4) in \<open>auto simp: handle_open_handshake_timeout_def complete_def async_def Let_def terminate_events terminate_state
         split: if_splits dest!: terminate_shutdown dest: remove1_in\<close>)
next
  case (step_pong_timer payload c ec)
  show ?case
    by (rule end_heard_step [OF step_pong_timer(2) hearsI])
       (auto simp: handle_pong_timeout_def complete_def tcp_no_pong_timeout dest: remove1_in split: if_splits)
next
  case (step_pause c)
  show ?case
    by (rule end_heard_step [OF step_pause(2) hearsI]) (auto simp: handle_pause_reading_def complete_def dest: remove1_in)
next
  case (step_resume c)
  show ?case
    by (rule end_heard_step [OF step_resume(2) hearsI])
       (auto simp: handle_resume_reading_def read_frame_def async_def complete_def dest: remove1_in split: if_splits)
next
  case (step_interrupt c)
  have "hears c (handle_interrupt tcp_app (complete P_interrupt c))"
    using hears_trans [OF hearsI hears_tell [of Interrupted "complete P_interrupt c"]]
    by (simp add: handle_interrupt_def tcp_app_def quiet_event_def is_message_def complete_def)
  then show ?case
    by (rule end_heard_step [OF step_interrupt(2)])
       (auto simp: handle_interrupt_def tcp_app_def complete_def tell_def dest: remove1_in)
qed

lemma reach_heard:
  assumes "reach tcp_app resumes server rng c"
  shows "end_heard c"
  using assms
proof (induction rule: reach.induct)
  case (reach_open data m timer c)
  have o: "c_events (opened tcp_app server rng m timer) = []" "\<And>t. P_shutdown t \<notin> set (c_pending (opened tcp_app server rng m timer))"
    "c_state (opened tcp_app server rng m timer) = S_open"
    by (simp_all add: opened_def tcp_app_def Let_def connection_new_def)
  have "end_heard (opened tcp_app server rng m timer)" by (simp add: end_heard_def o)
  moreover have "basics (opened tcp_app server rng m timer) c" by (rule read_done_basic [OF reach_open(2) tcp_app_only]) (simp add: o)
  ultimately show ?case
    using end_heard_step tcp_read_hears [OF reach_open(2)] basics_shutdown o(3) by (metis session_state.distinct(1))
next
  case (reach_step c c')
  then show ?case using tcp_step_heard ending.reachable [OF reach_step(1) tcp_app_only] by blast
qed

end
