(* ===== verification/TcpRobot.thy ===== *)
theory TcpRobot imports Robot WsHearing begin

text \<open>
  The robot behind a WebSocket connection: the connection of the library runs the handlers that
  \<open>server.hpp\<close> sets, these run the callbacks of \<open>main.cpp\<close>, and those drive the pins.
\<close>

text \<open>The event of the endpoint for what the connection \<open>hdl\<close> tells; \<open>get_raw_payload\<close> is the payload.\<close>

fun endpoint_event :: "nat \<Rightarrow> app_event \<Rightarrow> ws_event list" where
  "endpoint_event hdl WsConnection.Opened = [Server.Opened hdl]"
| "endpoint_event hdl (Got_message msg) = [Message hdl (m_payload msg)]"
| "endpoint_event hdl WsConnection.Interrupted = [Server.Interrupted hdl]"
| "endpoint_event hdl WsConnection.Closed = [Server.Closed hdl]"
| "endpoint_event hdl WsConnection.Failed = [Server.Failed hdl]"
| "endpoint_event hdl _ = []"

definition endpoint_events :: "nat \<Rightarrow> connection \<Rightarrow> ws_event list" where
  "endpoint_events hdl c = concat (map (endpoint_event hdl) (c_events c))"

definition robot_server :: "nat \<Rightarrow> robot \<Rightarrow> robot tcp_server" where
  "robot_server p st = (tcp_new p st)\<lparr>tcb := main_callbacks\<rparr>"

lemma robot_server_run: "tapp (tcp_run ch evs (robot_server p st)) = foldl (tcp_effect ch main_callbacks) st evs"
  using tcp_run_effect [of "robot_server p st" ch evs]
  by (simp add: robot_server_def tcp_registered_def tcp_new_def)

lemma messages_only:
  "foldl (tcp_effect ch main_callbacks) st (map (\<lambda>msg. Message hdl (m_payload msg)) ms)
     = foldl (message_effect main_callbacks) st (map m_payload ms)"
  by (induction ms arbitrary: st) (simp_all add: main_tcp_message del: tcp_effect.simps)

lemma robot_hears:
  assumes "robot_ok st" and "\<not> m_server hs"
    and "\<forall>(rng, out, item) \<in> set items. sendable 32000000 item \<and> (\<exists>inp. item = Data inp)"
    and "transmit hs items = Some (concat cs)"
  shows "\<exists>c. feed tcp_app cs (opened tcp_app True rng m timer) = Some c
    \<and> robot_ok (tapp (tcp_run ch (endpoint_events hdl c) (robot_server p st)))
    \<and> robot_view_of (tapp (tcp_run ch (endpoint_events hdl c) (robot_server p st)))
        = fold spec_message (map (\<lambda>(_, _, item). snd (item_view item)) items) (robot_view_of st)"
proof -
  have "heard [] (opened tcp_app True rng m timer)" by (simp add: heard_def opened_def tcp_app_def Let_def connection_new_def)
  moreover have "\<forall>(rng, out, item) \<in> set items. sendable 32000000 item" using assms(3) by auto
  ultimately obtain c where c: "feed tcp_app cs (opened tcp_app True rng m timer) = Some c" "heard (c_received c) c"
    "map message_view (c_received c) = map (\<lambda>(_, _, item). item_view item) items"
    using opened_delivers [OF tcp_app_only tcp_follows, where rng = rng and m = m and timer = timer and server = True and hs = hs and items = items and cs = cs]
      assms(2,4) by auto
  have payloads: "map m_payload (c_received c) = map (\<lambda>(_, _, item). snd (item_view item)) items"
    using arg_cong [OF c(3), of "map snd"] by (simp add: message_view_def comp_def case_prod_beta)
  have data: "\<not> is_control (fst v)" if "v \<in> set (map (\<lambda>(_, _, item). item_view item) items)" for v
    using that assms(3) by (fastforce simp: is_control_def)
  have ops: "\<not> is_control (m_opcode msg)" if "msg \<in> set (c_received c)" for msg
    using data [of "message_view msg"] that unfolding c(3) [symmetric] by (simp add: message_view_def)
  then have "\<forall>msg \<in> set (c_received c). \<not> is_close msg" by (fastforce simp: is_close_def is_control_def)
  then have "c_events c = map Got_message (c_received c)"
    using c(2) ops by (simp add: heard_def)
  then have "endpoint_events hdl c = map (\<lambda>msg. Message hdl (m_payload msg)) (c_received c)"
    by (simp add: endpoint_events_def comp_def)
  then have "tapp (tcp_run ch (endpoint_events hdl c) (robot_server p st))
      = foldl (message_effect main_callbacks) st (map (\<lambda>(_, _, item). snd (item_view item)) items)"
    by (simp add: robot_server_run messages_only payloads)
  with c(1) main_messages_ok [OF assms(1)] show ?thesis by simp
qed

text \<open>From the operator's frames to the pins: what a WebSocket client transmits as text and binary
messages, however the network cuts it, leaves the robot running and its pins as the abstract reading of
exactly these messages, in order, sets them.\<close>

theorem robot_over_websocket:
  assumes "robot_ok st" and "\<not> m_server hs"
    and "\<forall>(rng, out, item) \<in> set items. sendable 32000000 item \<and> (\<exists>inp. item = Data inp)"
    and "transmit hs items = Some (concat cs)"
  shows "\<exists>c. feed tcp_app cs (opened tcp_app True rng m timer) = Some c
    \<and> robot_ok (tapp (tcp_run ch (endpoint_events hdl c) (robot_server p st)))
    \<and> robot_view_of (tapp (tcp_run ch (endpoint_events hdl c) (robot_server p st)))
        = fold spec_message (map (\<lambda>(_, _, item). snd (item_view item)) items) (robot_view_of st)"
  by (rule robot_hears [OF assms])

text \<open>C2. When the end of the program's connection has been reported, both drives are stopped and all
actuator lines are high, whatever the network and the timers did and in whatever order.\<close>

theorem robot_stops_with_connection:
  assumes "reach tcp_app resumes True rng c" and "Terminated \<in> set (c_events c)" and "robot_ok st"
  shows "robot_view_of (tapp (tcp_run ch (endpoint_events hdl c) (robot_server p st)))
    = \<lparr>left_duty = 57, right_duty = 57, lines1 = (True, True), lines2 = (True, True)\<rparr>"
proof -
  let ?stopped = "\<lparr>left_duty = 57, right_duty = 57, lines1 = (True, True), lines2 = (True, True)\<rparr>"
  obtain pre post where split: "c_events c = pre @ WsConnection.Closed # post" "\<forall>e \<in> set post. \<not> is_message e"
    using reach_heard [OF assms(1)] assms(2) by (auto simp: end_heard_def)
  define effect where "effect = foldl (tcp_effect ch main_callbacks)"
  have stop: "robot_ok (main_onDisconnect s) \<and> robot_view_of (main_onDisconnect s) = ?stopped" if "robot_ok s" for s
    using main_onDisconnect_ok [OF that] by (simp add: spec_stop_def pwm_constants)
  have rest: "robot_view_of (effect s (concat (map (endpoint_event hdl) es))) = ?stopped"
    if "\<forall>e \<in> set es. \<not> is_message e" "robot_ok s" "robot_view_of s = ?stopped" for es s
    using that
  proof (induction es arbitrary: s)
    case (Cons e es)
    have "robot_ok (effect s (endpoint_event hdl e)) \<and> robot_view_of (effect s (endpoint_event hdl e)) = ?stopped"
      using Cons.prems stop
      by (cases e) (simp_all add: effect_def main_tcp_disconnect is_message_def del: tcp_effect.simps, simp_all)
    then show ?case using Cons.IH Cons.prems(1) by (simp add: effect_def)
  qed (simp add: effect_def)
  have "tapp (tcp_run ch (endpoint_events hdl c) (robot_server p st))
      = effect (main_onDisconnect (effect st (concat (map (endpoint_event hdl) pre)))) (concat (map (endpoint_event hdl) post))"
    unfolding robot_server_run endpoint_events_def split(1) effect_def
    by (simp add: main_tcp_disconnect del: tcp_effect.simps)
  moreover have "robot_ok (effect st (concat (map (endpoint_event hdl) pre)))"
    unfolding effect_def by (rule main_tcp_robot_ok [OF assms(3)])
  ultimately show ?thesis using rest [OF split(2)] stop by simp
qed

definition motion_item :: "u32 \<times> ws_message \<times> outgoing" where
  "motion_item = (5, get_message_op 0, Data ((get_message_op op_binary)\<lparr>m_payload := [0x10, 0x7F]\<rparr>))"

theorem robot_over_websocket_witness:
  "\<exists>st bs c. robot_ok st \<and> transmit (hybi13_new False 10) [motion_item] = Some bs
     \<and> feed tcp_app [take 1 bs, drop 1 bs] (opened tcp_app True (\<lambda>_. 0) (\<lambda>_. 0) False) = Some c
     \<and> robot_view_of (tapp (tcp_run True (endpoint_events 0 c) (robot_server 9002 st))) = spec_message [0x10, 0x7F] (robot_view_of st)"
proof -
  obtain c g where ok: "robot_ok (Some (Real c, g))" using robot_ok_exists by blast
  have "transmit (hybi13_new False 10) [motion_item] \<noteq> None" by code_simp
  then obtain bs where bs: "transmit (hybi13_new False 10) [motion_item] = Some bs" by blast
  have "transmit (hybi13_new False 10) [motion_item] = Some (concat [take 1 bs, drop 1 bs])"
    unfolding bs concat.simps append_Nil2 append_take_drop_id ..
  moreover have "\<forall>(rng, out, item) \<in> set [motion_item]. sendable 32000000 item \<and> (\<exists>inp. item = Data inp)"
    by (simp add: motion_item_def get_message_op_def)
  moreover have "map (\<lambda>(_, _, item). snd (item_view item)) [motion_item] = [[0x10, 0x7F]]" by (simp add: motion_item_def)
  moreover have "\<not> m_server (hybi13_new False 10)" by (simp add: new_idle)
  ultimately obtain c' where "feed tcp_app [take 1 bs, drop 1 bs] (opened tcp_app True (\<lambda>_. 0) (\<lambda>_. 0) False) = Some c'"
    "robot_view_of (tapp (tcp_run True (endpoint_events 0 c') (robot_server 9002 (Some (Real c, g)))))
       = spec_message [0x10, 0x7F] (robot_view_of (Some (Real c, g)))"
    using robot_over_websocket [OF ok, of "hybi13_new False 10" "[motion_item]" "[take 1 bs, drop 1 bs]",
        where rng = "\<lambda>_. 0" and m = "\<lambda>_. 0" and timer = False and ch = True and hdl = 0 and p = 9002]
    by (auto simp del: feed.simps)
  with ok bs show ?thesis by blast
qed

theorem robot_stops_with_connection_witness:
  "\<exists>st c. robot_ok st \<and> c_events c = [WsConnection.Closed, Terminated]
     \<and> left_duty (robot_view_of (tapp (tcp_run True (endpoint_events 0 c) (robot_server 9002 st)))) = 57"
proof -
  obtain d g where ok: "robot_ok (Some (Real d, g))" using robot_ok_exists by blast
  let ?c = "handle_terminate tcp_app t_closed (complete (P_shutdown t_closed) tcp_ended)"
  have "P_shutdown t_closed \<in> set (c_pending tcp_ended)" by code_simp
  then have r: "reach tcp_app False True (\<lambda>_. 0) ?c" by (rule reach_step [OF reach_ended step_shutdown])
  have e: "c_events ?c = [WsConnection.Closed, Terminated]" by code_simp
  have "left_duty (robot_view_of (tapp (tcp_run True (endpoint_events 0 ?c) (robot_server 9002 (Some (Real d, g)))))) = 57"
    using robot_stops_with_connection [OF r _ ok, of True 0 9002] e by simp
  with ok e show ?thesis by blast
qed

end
