(* ===== verification/WsAnswer.thy ===== *)
theory WsAnswer imports WsOpened TcpRobot begin

text \<open>
  The opening handshake of a server as a whole: what the client's request, read in pieces, leads to,
  and the way from the first octet of the request to the pins of the robot.
\<close>

subsection \<open>Reading the request\<close>

text \<open>The server reads pieces until it has an answer; the pieces it has not read are left.\<close>

fun answer :: "opening_handlers \<Rightarrow> u32 list \<Rightarrow> bytes list \<Rightarrow> handshake \<Rightarrow> handshake \<times> bytes list" where
  "answer H w [] o' = (o', [])"
| "answer H w (c # cs) o' =
     (let o' = handle_read_handshake H w None c (finish P_read_handshake o')
      in if P_read_handshake \<in> set (c_pending (o_con o')) then answer H w cs o' else (o', cs))"

definition listening :: "(nat \<Rightarrow> u32) \<Rightarrow> handshake" where
  "listening rng = handle_transport_init None (finish P_init (start_opening (opening_new True rng)))"

definition valid_handshake :: "request \<Rightarrow> bool" where
  "valid_handshake q \<longleftrightarrow> is_websocket_handshake q
     \<and> (\<exists>v \<in> {7, 8, 13}. stream_int (get_header ''Sec-WebSocket-Version'' q) = Some v)
     \<and> validate_handshake q = None \<and> \<not> fst (get_header_as_plist ''Sec-WebSocket-Extensions'' q)
     \<and> u_valid (hybi13_get_uri False q)"

lemma drop_text: "drop n (text_of b) = text_of (drop n b)"
  by (simp add: text_of_def drop_map)

lemma concat_text: "concat (map text_of cs) = text_of (concat cs)"
  by (induction cs) (simp_all add: text_of_def)

lemma handle_piece:
  assumes "o_con o' = waiting rng READ_HTTP_REQUEST None m None False armed timer [P_read_handshake]"
    and "length c \<le> 16384" and "request_consume (text_of c) (o_request o') = Parsed (n, r)" and "n \<le> length c"
  shows "handle_read_handshake H w None c (finish P_read_handshake o')
    = (if q_ready r then request_complete H w (drop n c) (o'\<lparr>o_con := waiting rng READ_HTTP_REQUEST None (poke 0 c m) None False armed timer [],
         o_request := r\<rparr>)
       else o'\<lparr>o_con := waiting rng READ_HTTP_REQUEST None (poke 0 c m) None False armed timer [P_read_handshake], o_request := r\<rparr>)"
proof -
  have "finish P_read_handshake o' = o'\<lparr>o_con := waiting rng READ_HTTP_REQUEST None m None False armed timer []\<rparr>"
    by (simp add: finish_def on_con_def assms(1))
  then show ?thesis using assms(2-4)
    by (simp add: handle_read_handshake_def handshake_guard_def connection_read_buffer_size_def on_con_def)
qed

text \<open>The pieces up to the end of the request are read, and the request is complete.\<close>

lemma answer_reads:
  assumes "o_con o' = waiting rng READ_HTTP_REQUEST None m None False armed timer [P_read_handshake]"
    and "parse_ok (o_request o')" and "\<not> q_ready (o_request o')" and "\<forall>c \<in> set cs. length c \<le> 16384"
    and "request_feed (map text_of cs) (o_request o') = Parsed (s, r)" and "q_ready r"
  shows "\<exists>rest cs' m'. s = text_of (rest @ concat cs') \<and> length rest \<le> 16384 \<and>
    (\<forall>y. request_complete H w rest (o'\<lparr>o_con := waiting rng READ_HTTP_REQUEST None m' None False armed timer [], o_request := r\<rparr>) = y \<longrightarrow>
       P_read_handshake \<notin> set (c_pending (o_con y)) \<longrightarrow> answer H w cs o' = (y, cs'))"
  using assms
proof (induction cs arbitrary: o' m)
  case Nil
  then show ?case by simp
next
  case (Cons c cs)
  have ok: "parsed_ok (length c) (request_consume (text_of c) (o_request o'))"
    using request_consume_ok [OF Cons.prems(2), of "text_of c"] by simp
  obtain n r1 where r1: "request_consume (text_of c) (o_request o') = Parsed (n, r1)"
    using Cons.prems(5) by (cases "request_consume (text_of c) (o_request o')") auto
  have n: "n \<le> length c" "parse_ok r1" "length c \<le> 16384" using ok r1 Cons.prems(4) by simp_all
  note h = handle_piece [OF Cons.prems(1) n(3) r1 n(1)]
  show ?case
  proof (cases "q_ready r1")
    case True
    then have s: "s = text_of (drop n c @ concat cs)" "r = r1"
      using Cons.prems(5) r1 by (simp_all add: drop_text concat_text)
    show ?thesis
      by (intro exI [of _ "drop n c"] exI [of _ cs] exI [of _ "poke 0 c m"]) (use s h n(3) True in auto)
  next
    case False
    let ?x = "o'\<lparr>o_con := waiting rng READ_HTTP_REQUEST None (poke 0 c m) None False armed timer [P_read_handshake], o_request := r1\<rparr>"
    have "request_feed (map text_of cs) (o_request ?x) = Parsed (s, r)" using Cons.prems(5) r1 False by simp
    with Cons.IH [of ?x "poke 0 c m"] Cons.prems(4,6) n(2) False obtain rest cs' m'
      where i: "s = text_of (rest @ concat cs')" "length rest \<le> 16384"
        "\<forall>y. request_complete H w rest (?x\<lparr>o_con := waiting rng READ_HTTP_REQUEST None m' None False armed timer [], o_request := r\<rparr>) = y \<longrightarrow>
           P_read_handshake \<notin> set (c_pending (o_con y)) \<longrightarrow> answer H w cs ?x = (y, cs')"
      by auto
    show ?thesis
      by (intro exI [of _ rest] exI [of _ cs'] exI [of _ m']) (use i h False in auto)
  qed
qed

subsection \<open>Answering\<close>

lemma negotiates_nothing: "\<not> fst (get_header_as_plist ''Sec-WebSocket-Extensions'' q) \<Longrightarrow> negotiate_extensions server q = (None, [])"
  by (cases "get_header_as_plist ''Sec-WebSocket-Extensions'' q")
     (auto simp: negotiate_extensions_def enable_extensions_def deflate_is_implemented_def)

lemma server_key: "ci_eq ''Server'' ''Sec-WebSocket-Accept'' = False"
  by (simp add: ci_eq_key ci_key_def tolower_def)

text \<open>The processors of the later versions.\<close>

lemma pr_later:
  assumes "v \<noteq> 0"
  shows "pr_validate_handshake v = validate_handshake" "pr_negotiate_extensions v server q = negotiate_extensions server q"
    "pr_get_uri v = hybi13_get_uri" "pr_extract_subprotocols v = extract_subprotocols" "pr_process_handshake v = process_handshake"
    "pr_get_raw (Some v) = response_raw"
  using assms by (simp_all add: fun_eq_iff pr_validate_handshake_def pr_negotiate_extensions_def pr_get_uri_def
      pr_extract_subprotocols_def pr_process_handshake_def pr_get_raw_def)

text \<open>A valid handshake is accepted.\<close>

lemma valid_answered:
  assumes "o_con x = waiting rng READ_HTTP_REQUEST None m None False armed timer []" and "valid_handshake (o_request x)"
    and "q_ready (o_request x)" and "on_validate H = None"
  shows "\<exists>y. request_complete H w rest x = y
    \<and> o_con y = waiting rng PROCESS_HTTP_REQUEST (Some (hybi13_new True 32000000)) (poke 0 rest m) None False armed timer [P_write_response]
    \<and> s_status_code (o_response y) = sc_switching_protocols \<and> o_buf_cursor y = length rest \<and> o_version y \<noteq> Some 0
    \<and> o_sent y = o_sent x @ [response_raw (o_response y)]
    \<and> get_header ''Sec-WebSocket-Accept'' (o_response y) = process_handshake_key w (get_header ''Sec-WebSocket-Key'' (o_request x))"
proof -
  let ?q = "o_request x"
  note v = assms(2) [unfolded valid_handshake_def]
  obtain v where ver: "v \<in> {7, 8, 13}" "stream_int (get_header ''Sec-WebSocket-Version'' ?q) = Some v" using v by blast
  from ver(1) have v0: "v \<noteq> 0" by auto
  have "get_header ''Sec-WebSocket-Version'' ?q \<noteq> []" using ver(2) by (auto simp: stream_int_def stoi_def signed_digits_def)
  then have "get_websocket_version ?q = v" using ver(2) assms(3) by (simp add: get_websocket_version_def)
  then have "initialize_processor x = (None, x\<lparr>o_con := waiting rng READ_HTTP_REQUEST (Some (hybi13_new True 32000000)) m None False armed timer [],
         o_version := Some v\<rparr>)"
    using assms(1) ver(1) v by (auto simp: initialize_processor_def set_processor_def get_processor_def on_con_def)
  then obtain z where z: "initialize_processor x = (None, z)" "z = x\<lparr>o_con := waiting rng READ_HTTP_REQUEST (Some (hybi13_new True 32000000)) m None False armed timer [],
         o_version := Some v\<rparr>"
    by blast
  define y1 where "y1 = on_con (\<lambda>c. c\<lparr>c_buf := poke 0 rest (c_buf c), c_internal := PROCESS_HTTP_REQUEST\<rparr>) (z\<lparr>o_buf_cursor := length rest\<rparr>)"
  have y1: "o_con y1 = waiting rng PROCESS_HTTP_REQUEST (Some (hybi13_new True 32000000)) (poke 0 rest m) None False armed timer []"
    "o_request y1 = ?q" "o_version y1 = Some v" "o_buf_cursor y1 = length rest" "o_sent y1 = o_sent x"
    using z(2) by (simp_all add: y1_def)
  define y2 where "y2 = on_response (set_status sc_switching_protocols) (y1\<lparr>o_uri := Some (hybi13_get_uri False ?q),
      o_requested_subprotocols := snd (extract_subprotocols ?q (o_requested_subprotocols y1))\<rparr>)"
  obtain r where r: "process_handshake w ?q (o_subprotocol y2) (o_response y2) = Parsed r" "s_status_code r = s_status_code (o_response y2)"
    "get_header ''Sec-WebSocket-Accept'' r = process_handshake_key w (get_header ''Sec-WebSocket-Key'' ?q)"
    using process_handshake_total [of w ?q "o_subprotocol y2" "o_response y2"] by blast
  have y2: "o_request y2 = ?q" "s_status_code (o_response y2) = sc_switching_protocols" "o_con y2 = o_con y1"
    "o_buf_cursor y2 = length rest" "o_sent y2 = o_sent x" by (simp_all add: y2_def y1)
  have "process_handshake_request H w y1 = (None, y2\<lparr>o_response := r\<rparr>)"
    using v y1 negotiates_nothing [of ?q True] r(1) [unfolded y2_def] assms(4)
    by (simp add: process_handshake_request_def ask_application_def pr_later [OF v0] Let_def case_prod_beta y2_def)
  then have c: "request_complete H w rest x = write_http_response None (y2\<lparr>o_response := r\<rparr>)"
    using z(1) ver(1) y1 y2
    by (auto simp: request_complete_def process_request_def z(2) y1_def [unfolded z(2), symmetric] Let_def)
  let ?y = "write_http_response None (y2\<lparr>o_response := r\<rparr>)"
  note e = write_http_response_effect [of None "y2\<lparr>o_response := r\<rparr>", simplified]
  have "get_header ''Sec-WebSocket-Accept'' (o_response ?y) = get_header ''Sec-WebSocket-Accept'' r"
    by (simp add: write_http_response_def Let_def get_header_update server_key r(2) y2(2)) (simp add: get_header_def)
  then show ?thesis using c e r y1 y2 pr_later [OF v0] v0 by (simp add: y2_def)
qed

subsection \<open>From the request to the open connection\<close>

lemma listening_con: "o_con (listening rng) = waiting rng READ_HTTP_REQUEST None (\<lambda>_. 0) None False True True [P_read_handshake]"
proof -
  have c: "o_con (finish P_init (start_opening (opening_new True rng))) = waiting rng TRANSPORT_INIT None (\<lambda>_. 0) None False False False []"
    by (simp add: finish_def start_opening_def opening_new_def waiting_def connection_new_def complete_def async_def)
  show ?thesis by (simp add: listening_def handle_transport_init_def c read_handshake_def)
qed

lemma listening_request: "o_request (listening rng) = request_new" "o_sent (listening rng) = []"
  by (simp_all add: listening_def handle_transport_init_def read_handshake_def set_processor_def finish_def start_opening_def
      opening_new_def connection_new_def complete_def async_def)

lemma printed_feed:
  assumes "printable_request q" and "concat cs = octets_of (request_raw q) @ frames"
    and "head_size (request_raw_head q) + 3 * length cs + 3 < max_header_size"
  shows "\<exists>r. request_feed (map text_of cs) request_new = Parsed (text_of frames, r) \<and> q_ready r
    \<and> q_method r = q_method q \<and> q_uri r = q_uri q \<and> h_version r = h_version q \<and> h_headers r = h_headers q"
proof -
  let ?text = "request_raw q @ text_of frames"
  have c: "concat (map text_of cs) = ?text" using assms(2) by (simp add: concat_text)
  have "head_size ?text = head_size (request_raw_head q)"
    using head_size_read [of "request_raw_head q" request_new "[]" "read_head q" "h_body q @ text_of frames"]
      head_read [OF assms(1), of "[]"] by (simp add: request_raw_def)
  then have size: "head_size (concat (map text_of cs)) + 3 * length (map text_of cs) + 3 < max_header_size"
    using assms(3) c by simp
  obtain r0 where r0: "request_consume ?text request_new = Parsed (length (request_raw q), r0)" "q_ready r0"
    "q_method r0 = q_method q" "q_uri r0 = q_uri q" "h_version r0 = h_version q" "h_headers r0 = h_headers q"
    using printed_request_read [OF assms(1), of "text_of frames"] by blast
  then have whole: "request_feed [concat (map text_of cs)] request_new = Parsed (text_of frames, r0)" by (simp add: c)
  obtain x where x: "request_feed (map text_of cs) request_new = Parsed x"
    using pieces_read [OF size] whole by (cases "request_feed (map text_of cs) request_new") auto
  obtain s r where sr: "x = (s, r)" by fastforce
  have e: "counted 0 None r = counted 0 None r0" "s = text_of frames" using pieces_read [OF size] whole x sr by auto
  have "f (counted 0 None r) = f (counted 0 None r0)" for f :: "request \<Rightarrow> 'z" by (simp add: e(1))
  from this [of q_ready] this [of q_method] this [of q_uri] this [of h_version] this [of h_headers] show ?thesis
    using x sr e(2) r0(2-6) by (simp add: counted_def)
qed

lemma valid_fields:
  assumes "q_method r = q_method q" "q_uri r = q_uri q" "h_version r = h_version q" "h_headers r = h_headers q"
  shows "valid_handshake r = valid_handshake q" "get_header k r = get_header k q"
proof -
  have g: "get_header k r = get_header k q" "get_header_as_plist k r = get_header_as_plist k q" for k
    unfolding get_header_def get_header_as_plist_def assms(4) by simp_all
  then show "get_header k r = get_header k q" by blast
  show "valid_handshake r = valid_handshake q"
    unfolding valid_handshake_def is_websocket_handshake_def validate_handshake_def hybi13_get_uri_def get_uri_from_host_def g assms ..
qed

lemma handshake_opened_within:
  assumes "api_only app False" and "on_validate H = None" and "printable_request q" and "valid_handshake q"
    and "concat cs = octets_of (request_raw q) @ frames" and "\<forall>c \<in> set cs. length c \<le> 16384"
    and "head_size (request_raw_head q) + 3 * length cs + 3 < max_header_size"
  shows "\<exists>o' rest cs' m. answer H w cs (listening rng) = (o', cs') \<and> rest @ concat cs' = frames
    \<and> P_read_handshake \<notin> set (c_pending (o_con o'))
    \<and> s_status_code (o_response o') = sc_switching_protocols \<and> o_sent o' = [response_raw (o_response o')]
    \<and> get_header ''Sec-WebSocket-Accept'' (o_response o') = process_handshake_key w (get_header ''Sec-WebSocket-Key'' q)
    \<and> handle_write_http_response app None (finish P_write_response o')
        = map_option (\<lambda>c. (finish P_write_response o')\<lparr>o_con := c\<rparr>) (read_done app None rest (opened app True rng m True))"
proof -
  obtain r where r: "request_feed (map text_of cs) request_new = Parsed (text_of frames, r)" "q_ready r"
    "q_method r = q_method q" "q_uri r = q_uri q" "h_version r = h_version q" "h_headers r = h_headers q"
    using printed_feed [OF assms(3,5,7)] by blast
  note v = valid_fields [OF r(3-6)]
  have "parse_ok request_new" "\<not> q_ready request_new" by (simp_all add: parse_ok_def request_new_def)
  then obtain rest cs' m where a: "text_of frames = text_of (rest @ concat cs')" "length rest \<le> 16384"
    "\<And>y. request_complete H w rest ((listening rng)\<lparr>o_con := waiting rng READ_HTTP_REQUEST None m None False True True [], o_request := r\<rparr>) = y \<Longrightarrow>
       P_read_handshake \<notin> set (c_pending (o_con y)) \<Longrightarrow> answer H w cs (listening rng) = (y, cs')"
    using answer_reads [OF listening_con, where cs = cs and s = "text_of frames" and r = r and H = H and w = w and rng = rng] r(1,2) assms(6)
    unfolding listening_request(1) by blast
  let ?x = "(listening rng)\<lparr>o_con := waiting rng READ_HTTP_REQUEST None m None False True True [], o_request := r\<rparr>"
  obtain y where y: "request_complete H w rest ?x = y"
    "o_con y = waiting rng PROCESS_HTTP_REQUEST (Some (hybi13_new True 32000000)) (poke 0 rest m) None False True True [P_write_response]"
    "s_status_code (o_response y) = sc_switching_protocols" "o_buf_cursor y = length rest" "o_sent y = [response_raw (o_response y)]"
    "get_header ''Sec-WebSocket-Accept'' (o_response y) = process_handshake_key w (get_header ''Sec-WebSocket-Key'' q)"
    "o_version y \<noteq> Some 0"
    using valid_answered [of ?x rng m True True H w rest] assms(2,4) r(2) v listening_request(2) by auto
  have "rest @ concat cs' = frames" using arg_cong [OF a(1), of octets_of] by simp
  moreover have "P_read_handshake \<notin> set (c_pending (o_con y))" by (simp add: y(2))
  moreover have "answer H w cs (listening rng) = (y, cs')" by (rule a(3) [OF y(1)]) (simp add: y(2))
  moreover have "handle_write_http_response app None (finish P_write_response y)
        = map_option (\<lambda>c. (finish P_write_response y)\<lparr>o_con := c\<rparr>) (read_done app None rest (opened app True rng (poke 0 rest m) True))"
    by (rule write_response_opens [OF assms(1) y(2,3,4)]) (auto simp: poke_def y(7))
  ultimately show ?thesis using y(3,5,6) by blast
qed

text \<open>The reads that hold the first \<open>k\<close> octets. Only those that hold the request count: what comes behind the
answer is not read as a request.\<close>

fun reads_needed :: "nat \<Rightarrow> bytes list \<Rightarrow> nat" where
  "reads_needed k [] = 0"
| "reads_needed k (c # cs) = (if k = 0 then 0 else Suc (reads_needed (k - length c) cs))"

lemma reads_hold: "k \<le> length (concat cs) \<Longrightarrow> k \<le> length (concat (take (reads_needed k cs) cs))"
  by (induction k cs rule: reads_needed.induct) (auto simp: le_diff_conv)

lemma reads_few: "reads_needed k cs \<le> length cs"
  by (induction k cs rule: reads_needed.induct) auto

lemma answer_append:
  "answer H w xs o' = (y, zs) \<Longrightarrow> P_read_handshake \<in> set (c_pending (o_con o')) \<Longrightarrow> P_read_handshake \<notin> set (c_pending (o_con y)) \<Longrightarrow>
     answer H w (xs @ ys) o' = (y, zs @ ys)"
  by (induction xs arbitrary: o') (auto simp: Let_def split: if_splits)

lemma handshake_opened:
  assumes "api_only app False" and "on_validate H = None" and "printable_request q" and "valid_handshake q"
    and "concat cs = octets_of (request_raw q) @ frames" and "\<forall>c \<in> set cs. length c \<le> 16384"
    and "head_size (request_raw_head q) + 3 * reads_needed (length (request_raw q)) cs + 3 < max_header_size"
  shows "\<exists>o' rest cs' m. answer H w cs (listening rng) = (o', cs') \<and> rest @ concat cs' = frames
    \<and> s_status_code (o_response o') = sc_switching_protocols \<and> o_sent o' = [response_raw (o_response o')]
    \<and> get_header ''Sec-WebSocket-Accept'' (o_response o') = process_handshake_key w (get_header ''Sec-WebSocket-Key'' q)
    \<and> handle_write_http_response app None (finish P_write_response o')
        = map_option (\<lambda>c. (finish P_write_response o')\<lparr>o_con := c\<rparr>) (read_done app None rest (opened app True rng m True))"
proof -
  let ?n = "reads_needed (length (request_raw q)) cs" and ?q = "octets_of (request_raw q)"
  let ?first = "take ?n cs" and ?later = "drop ?n cs"
  have all: "concat ?first @ concat ?later = ?q @ frames" by (simp flip: concat_append add: assms(5))
  have "length ?q \<le> length (concat ?first)" using reads_hold [of "length (request_raw q)" cs] assms(5) by simp
  then have "take (length ?q) (concat ?first) = ?q" using arg_cong [OF all, of "take (length ?q)"] by simp
  then have first: "concat ?first = ?q @ drop (length ?q) (concat ?first)" using append_take_drop_id by metis
  define fs where "fs = drop (length ?q) (concat ?first)"
  have c: "concat ?first = ?q @ fs" using first by (simp add: fs_def)
  with all have fs: "concat ?first = ?q @ fs" "frames = fs @ concat ?later" by simp_all
  have "\<forall>c \<in> set ?first. length c \<le> 16384" using assms(6) in_set_takeD by fastforce
  moreover have "head_size (request_raw_head q) + 3 * length ?first + 3 < max_header_size"
    using assms(7) reads_few [of "length (request_raw q)" cs] by (simp add: min_def)
  ultimately obtain o' rest cs' m where a: "answer H w ?first (listening rng) = (o', cs')" "rest @ concat cs' = fs"
    "P_read_handshake \<notin> set (c_pending (o_con o'))"
    "s_status_code (o_response o') = sc_switching_protocols" "o_sent o' = [response_raw (o_response o')]"
    "get_header ''Sec-WebSocket-Accept'' (o_response o') = process_handshake_key w (get_header ''Sec-WebSocket-Key'' q)"
    "handle_write_http_response app None (finish P_write_response o')
        = map_option (\<lambda>c. (finish P_write_response o')\<lparr>o_con := c\<rparr>) (read_done app None rest (opened app True rng m True))"
    using handshake_opened_within [OF assms(1-4) fs(1), of w rng] by blast
  have "answer H w cs (listening rng) = (o', cs' @ ?later)"
    using answer_append [OF a(1) _ a(3), of ?later] by (simp add: listening_con)
  moreover have "rest @ concat (cs' @ ?later) = frames" using a(2) fs(2) by simp
  ultimately show ?thesis using a(4-7) by blast
qed

subsection \<open>Properties\<close>

text \<open>C9. A valid opening handshake opens the connection. However the network cuts the octets of a client's
request and of the frames behind it into reads of at most 16384 octets, the server answers with status 101 and the
accept key of RFC 6455, in one write; when the write completes, the connection is open, and every octet behind
the request goes to it: those read with the request at once, the others with the next reads. The request is a
printed one of a version other than draft 76, with no extensions the server cannot parse and a key shorter than the
bound of SHA-1, the application sets no validate handler, and its handlers only call the connection. The size of the
head and 3 octets for each read that holds a part of the request stay below the limit of 16000 octets: the code counts
octets that wait for the end of their line more than once, so a request cut finer than that can be refused with 431
(\<open>header_limit_leaks\<close> in \<open>HttpStream\<close>).\<close>

theorem handshake_opens:
  assumes "api_only app False" and "on_validate H = None" and "length w = 80" and "printable_request q" and "valid_handshake q"
    and "length (get_header ''Sec-WebSocket-Key'' q) + 36 < 2 ^ 29"
    and "concat cs = octets_of (request_raw q) @ frames" and "\<forall>c \<in> set cs. length c \<le> 16384"
    and "head_size (request_raw_head q) + 3 * reads_needed (length (request_raw q)) cs + 3 < max_header_size"
  shows "\<exists>o' rest cs' m c. answer H w cs (listening rng) = (o', cs') \<and> rest @ concat cs' = frames
    \<and> s_status_code (o_response o') = 101 \<and> o_sent o' = [response_raw (o_response o')]
    \<and> get_header ''Sec-WebSocket-Accept'' (o_response o') = text_of (rfc4648 (sha1 (octets_of
        (get_header ''Sec-WebSocket-Key'' q @ ''258EAFA5-E914-47DA-95CA-C5AB0DC85B11''))))
    \<and> read_done app None rest (opened app True rng m True) = Some c
    \<and> handle_write_http_response app None (finish P_write_response o') = Some ((finish P_write_response o')\<lparr>o_con := c\<rparr>)"
proof -
  have "\<exists>c. read_done app None rest (opened app True rng m True) = Some c" for rest m
    using read_done_total [OF assms(1) opened_reading(1) [OF assms(1)] reading_new opened_reading(2-4) [OF assms(1)]] by blast
  moreover obtain o' rest cs' m where a: "answer H w cs (listening rng) = (o', cs')" "rest @ concat cs' = frames"
    "s_status_code (o_response o') = sc_switching_protocols" "o_sent o' = [response_raw (o_response o')]"
    "get_header ''Sec-WebSocket-Accept'' (o_response o') = process_handshake_key w (get_header ''Sec-WebSocket-Key'' q)"
    "handle_write_http_response app None (finish P_write_response o')
        = map_option (\<lambda>c. (finish P_write_response o')\<lparr>o_con := c\<rparr>) (read_done app None rest (opened app True rng m True))"
    using handshake_opened [OF assms(1,2,4,5,7-9), of w rng] by blast
  ultimately obtain c where c: "read_done app None rest (opened app True rng m True) = Some c" by blast
  have "handle_write_http_response app None (finish P_write_response o') = Some ((finish P_write_response o')\<lparr>o_con := c\<rparr>)"
    using a(6) c by simp
  with a(1-4) c a(5) [unfolded handshake_key_sha1 [OF assms(3,6)]] show ?thesis unfolding sc_switching_protocols_def by blast
qed

definition chat_request :: request where
  "chat_request = request_new\<lparr>q_method := ''GET'', q_uri := ''/'', h_version := ''HTTP/1.1'',
     h_headers := [(''Connection'', ''keep-alive, Upgrade''), (''Host'', ''robot:9002''),
       (''Sec-WebSocket-Key'', ''dGhlIHNhbXBsZSBub25jZQ==''), (''Sec-WebSocket-Version'', ''13''),
       (''Upgrade'', ''websocket'')]\<rparr>"

lemma chat_headers:
  "get_header ''Connection'' chat_request = ''keep-alive, Upgrade''" "get_header ''Host'' chat_request = ''robot:9002''"
  "get_header ''Sec-WebSocket-Key'' chat_request = ''dGhlIHNhbXBsZSBub25jZQ==''"
  "get_header ''Sec-WebSocket-Version'' chat_request = ''13''" "get_header ''Upgrade'' chat_request = ''websocket''"
  "get_header ''Content-Length'' chat_request = []"
  "header_find (h_headers chat_request) ''Sec-WebSocket-Extensions'' = None"
  by (simp_all add: chat_request_def get_header_def ci_eq_key ci_key_def tolower_def)

lemma chat_printable: "printable_request chat_request" "head_size (request_raw_head chat_request) < 300"
  using chat_headers(2,6)
  by (simp_all add: printable_request_def announced_body_def)
     (simp_all add: chat_request_def is_token_def is_token_char_def header_token_def sorted_headers_def
        printable_header_def trim_def ws_char ci_eq_key ci_key_def tolower_def
        max_body_size_def max_header_size_def request_raw_head_def raw_headers_def head_size.simps request_new_def)

lemma chat_valid: "valid_handshake chat_request"
proof -
  have "ci_find_substr ''keep-alive, Upgrade'' connection_token \<noteq> None" "ci_find_substr ''websocket'' upgrade_token \<noteq> None"
    "stream_int ''13'' = Some 13" "u_valid (uri_of_port ''ws'' ''robot'' ''9002'' ''/'')"
    by code_simp+
  moreover have "hybi13_get_uri False chat_request = uri_of_port ''ws'' ''robot'' ''9002'' ''/''"
    by (simp add: hybi13_get_uri_def get_uri_from_host_def chat_headers) (simp add: chat_request_def)
  moreover have "validate_handshake chat_request = None" "get_header_as_plist ''Sec-WebSocket-Extensions'' chat_request = (False, [])"
    by (simp_all add: validate_handshake_def get_header_as_plist_def chat_headers) (simp add: chat_request_def)
  ultimately show ?thesis by (simp add: valid_handshake_def is_websocket_handshake_def chat_headers)
qed

theorem handshake_opens_witness:
  "\<exists>o' rest cs'. answer tcp_handlers (replicate 80 1) (map (\<lambda>b. [b]) (octets_of (request_raw chat_request) @ [0x88, 0x80])) (listening (\<lambda>_. 0))
      = (o', cs') \<and> rest @ concat cs' = [0x88, 0x80] \<and> s_status_code (o_response o') = 101"
proof -
  let ?cs = "map (\<lambda>b. [b]) (octets_of (request_raw chat_request) @ [0x88, 0x80])"
  have "concat ?cs = octets_of (request_raw chat_request) @ [0x88, 0x80]" by simp
  moreover have "length (request_raw chat_request) < 300" by (simp add: request_raw_def request_raw_head_def raw_headers_def chat_request_def request_new_def)
  moreover have "reads_needed (length (request_raw chat_request)) ?cs \<le> length ?cs" by (rule reads_few)
  moreover have "length (replicate 80 1 :: u32 list) = 80" by simp
  ultimately show ?thesis
    using handshake_opens [of tcp_app tcp_handlers "replicate 80 1" chat_request ?cs "[0x88, 0x80]" "\<lambda>_. 0"] chat_printable chat_valid
    by (fastforce simp: tcp_app_only tcp_handlers_def chat_headers max_header_size_def simp del: answer.simps)
qed

text \<open>C1. From the first octet a client sends to the pins: for a valid, printed opening handshake and the frames of
any number of data messages of at most 32000000 octets behind it, cut into reads of at most 16384 octets, the robot
is left running, and its pins are set as the abstract reading of exactly the messages sent, in order, sets them. The
frames may be cut anywhere and into any number of reads; for the request, the size of its head and 3 octets for each
read that holds a part of it stay below the limit of 16000 octets, as in \<open>handshake_opens\<close>.\<close>

theorem robot_over_handshake:
  assumes "robot_ok st" and "\<not> m_server hs"
    and "\<forall>(rng, out, item) \<in> set items. sendable 32000000 item \<and> (\<exists>inp. item = Data inp)"
    and "transmit hs items = Some frames" and "printable_request q" and "valid_handshake q"
    and "concat cs = octets_of (request_raw q) @ frames" and "\<forall>c \<in> set cs. length c \<le> 16384"
    and "head_size (request_raw_head q) + 3 * reads_needed (length (request_raw q)) cs + 3 < max_header_size"
  shows "\<exists>o' cs' o'' c. answer tcp_handlers w cs (listening rng) = (o', cs')
    \<and> handle_write_http_response tcp_app None (finish P_write_response o') = Some o'' \<and> feed tcp_app cs' (o_con o'') = Some c
    \<and> robot_ok (tapp (tcp_run ch (endpoint_events hdl c) (robot_server p st)))
    \<and> robot_view_of (tapp (tcp_run ch (endpoint_events hdl c) (robot_server p st)))
        = fold spec_message (map (\<lambda>(_, _, item). snd (item_view item)) items) (robot_view_of st)"
proof -
  have "on_validate tcp_handlers = None" by (simp add: tcp_handlers_def)
  from handshake_opened [OF tcp_app_only this assms(5-9), of w rng] obtain o' rest cs' m where
    a: "answer tcp_handlers w cs (listening rng) = (o', cs')" "concat (rest # cs') = frames"
    and w: "handle_write_http_response tcp_app None (finish P_write_response o')
        = map_option (\<lambda>c. (finish P_write_response o')\<lparr>o_con := c\<rparr>) (read_done tcp_app None rest (opened tcp_app True rng m True))"
    by auto
  from robot_hears [OF assms(1-3), of "rest # cs'" rng m True ch hdl p] assms(4) a(2) obtain c where
    c: "feed tcp_app (rest # cs') (opened tcp_app True rng m True) = Some c"
    "robot_ok (tapp (tcp_run ch (endpoint_events hdl c) (robot_server p st)))"
    "robot_view_of (tapp (tcp_run ch (endpoint_events hdl c) (robot_server p st)))
        = fold spec_message (map (\<lambda>(_, _, item). snd (item_view item)) items) (robot_view_of st)" by auto
  then obtain c1 where c1: "read_done tcp_app None rest (opened tcp_app True rng m True) = Some c1" "feed tcp_app cs' c1 = Some c"
    by (auto split: option.splits)
  have "handle_write_http_response tcp_app None (finish P_write_response o') = Some ((finish P_write_response o')\<lparr>o_con := c1\<rparr>)"
    using w c1(1) by simp
  moreover have "feed tcp_app cs' (o_con ((finish P_write_response o')\<lparr>o_con := c1\<rparr>)) = Some c" using c1(2) by simp
  ultimately show ?thesis using a(1) c(2,3) by blast
qed

theorem robot_over_handshake_witness:
  "\<exists>st frames o' cs' o'' c. robot_ok st \<and> transmit (hybi13_new False 10) [motion_item] = Some frames
    \<and> answer tcp_handlers (replicate 80 1) [octets_of (request_raw chat_request) @ frames] (listening (\<lambda>_. 0)) = (o', cs')
    \<and> handle_write_http_response tcp_app None (finish P_write_response o') = Some o'' \<and> feed tcp_app cs' (o_con o'') = Some c
    \<and> robot_view_of (tapp (tcp_run True (endpoint_events 0 c) (robot_server 9002 st))) = spec_message [0x10, 0x7F] (robot_view_of st)"
proof -
  obtain c g where ok: "robot_ok (Some (Real c, g))" using robot_ok_exists by blast
  have "map_option length (transmit (hybi13_new False 10) [motion_item]) = Some 8" by code_simp
  then obtain bs where bs: "transmit (hybi13_new False 10) [motion_item] = Some bs" "length bs = 8" by blast
  have server: "\<not> m_server (hybi13_new False 10)" by (simp add: new_idle)
  have items: "\<forall>(rng, out, item) \<in> set [motion_item]. sendable 32000000 item \<and> (\<exists>inp. item = Data inp)"
    by (simp add: motion_item_def get_message_op_def)
  have view: "map (\<lambda>(_, _, item). snd (item_view item)) [motion_item] = [[0x10, 0x7F]]" by (simp add: motion_item_def)
  have len: "length (request_raw chat_request) < 300"
    by (simp add: request_raw_def request_raw_head_def raw_headers_def chat_request_def request_new_def)
  have pieces: "concat [octets_of (request_raw chat_request) @ bs] = octets_of (request_raw chat_request) @ bs"
    "\<forall>c \<in> set [octets_of (request_raw chat_request) @ bs]. length c \<le> 16384"
    "head_size (request_raw_head chat_request)
      + 3 * reads_needed (length (request_raw chat_request)) [octets_of (request_raw chat_request) @ bs] + 3 < max_header_size"
    using len bs(2) chat_printable(2) by (simp_all add: max_header_size_def)
  from robot_over_handshake [OF ok server items bs(1) chat_printable(1) chat_valid pieces,
      where w = "replicate 80 1" and rng = "\<lambda>_. 0" and ch = True and hdl = 0 and p = 9002]
  show ?thesis using ok bs(1) unfolding view by fastforce
qed

end
