(* ===== verification/Console.thy ===== *)
theory Console imports Motor CText begin

text \<open>
  The command console \<open>src/src/motor-control-example.cpp\<close>: it reads lines, splits them into words and
  drives the motor controller. The words of a line overwrite those of the line before only as far as
  they go, and the loop never ends. A turn of the loop ends in undefined behaviour, in an exception
  that nothing catches, or in the next turn.
\<close>

subsection \<open>Reading a line\<close>

text \<open>
  \<open>std::cin\<close>: the characters to come and the two state bits. \<open>istream::getline (arr, n)\<close> tests for the
  end of the input, then for the end of the line, then for \<open>n - 1\<close> stored characters, and fails when it
  extracts nothing.
\<close>

record istream =
  chars :: string
  eofbit :: bool
  failbit :: bool

fun get_chars :: "nat \<Rightarrow> string \<Rightarrow> string \<times> istream" where
  "get_chars room [] = ([], \<lparr>chars = [], eofbit = True, failbit = False\<rparr>)"
| "get_chars room (c # cs) =
     (if c = CHR 0x0A then ([], \<lparr>chars = cs, eofbit = False, failbit = False\<rparr>)
      else (case room of
              0 \<Rightarrow> ([], \<lparr>chars = c # cs, eofbit = False, failbit = True\<rparr>)
            | Suc room \<Rightarrow> (let (line, s) = get_chars room cs in (c # line, s))))"

definition getline :: "nat \<Rightarrow> istream \<Rightarrow> string \<times> istream" where
  "getline n s =
     (if eofbit s \<or> failbit s then ([], s\<lparr>failbit := True\<rparr>)
      else
        let (line, s') = get_chars (n - 1) (chars s)
        in (line, if chars s = [] then s'\<lparr>failbit := True\<rparr> else s'))"

subsection \<open>Words\<close>

text \<open>\<open>list [j] = s\<close>; an index past the end is undefined behaviour.\<close>

definition put_word :: "nat \<Rightarrow> string \<Rightarrow> string list \<Rightarrow> string list option" where
  "put_word j s ws = (if j < length ws then Some (ws[j := s]) else None)"

fun split_words :: "nat \<Rightarrow> string \<Rightarrow> string \<Rightarrow> string list \<Rightarrow> string list option" where
  "split_words j s [] ws = put_word j s ws"
| "split_words j s (c # cs) ws =
     (if c \<noteq> CHR '' '' then split_words j (s @ [c]) cs ws
      else (case put_word j s ws of None \<Rightarrow> None | Some ws \<Rightarrow> split_words (j + 1) [] cs ws))"

subsection \<open>The loop\<close>

record console =
  cin :: istream
  words_list :: "string list"
  motors :: MotorController
  pins :: gpio
  printed :: "string list"

datatype turn_result = Running console | Aborted console | Undefined

abbreviation on_drive ::
  "console \<Rightarrow> (MotorController \<Rightarrow> PWMDriveMotor) \<Rightarrow> (PWMDriveMotor \<Rightarrow> MotorController \<Rightarrow> MotorController) \<Rightarrow> turn_result" where
  "on_drive k get put \<equiv>
     (case stoi (words_list k ! 1) of
        None \<Rightarrow> Aborted k
      | Some p \<Rightarrow> (case setPercent (get (motors k)) p (pins k) of
            None \<Rightarrow> Undefined
          | Some (m, g) \<Rightarrow> Running (k\<lparr>motors := put m (motors k), pins := g\<rparr>)))"

definition on_actuator :: "nat \<Rightarrow> console \<Rightarrow> turn_result" where
  "on_actuator i k =
     (let a = actuators (motors k) ! i; w = words_list k ! 1 in
      if w = ''e'' then (case actuator_extend a (pins k) of None \<Rightarrow> Undefined | Some (_, g) \<Rightarrow> Running (k\<lparr>pins := g\<rparr>))
      else if w = ''c'' then (case actuator_retract a (pins k) of None \<Rightarrow> Undefined | Some (_, g) \<Rightarrow> Running (k\<lparr>pins := g\<rparr>))
      else if w = ''s'' then (case actuator_stop a (pins k) of None \<Rightarrow> Undefined | Some g \<Rightarrow> Running (k\<lparr>pins := g\<rparr>))
      else Running k)"

definition console_command :: "console \<Rightarrow> turn_result" where
  "console_command k =
     (let w = words_list k ! 0 in
      if w = ''k'' then
        (case mc_stopMovement (motors k) (pins k) of
           None \<Rightarrow> Undefined | Some (_, c, g) \<Rightarrow> Running (k\<lparr>motors := c, pins := g\<rparr>))
      else if w = ''l'' then on_drive k leftDrive (\<lambda>m. leftDrive_update (\<lambda>_. m))
      else if w = ''r'' then on_drive k rightDrive (\<lambda>m. rightDrive_update (\<lambda>_. m))
      else if w = ''t'' then on_actuator 0 k
      else if w = ''b'' then on_actuator 1 k
      else Running k)"

definition console_turn :: "console \<Rightarrow> turn_result" where
  "console_turn k =
     (let (arr, s) = getline 100 (cin k);
          k = k\<lparr>cin := s\<rparr>
      in case split_words 0 [] (takeWhile (\<lambda>c. c \<noteq> CHR 0x00) arr) (words_list k) of
           None \<Rightarrow> Undefined
         | Some ws \<Rightarrow>
             (case console_command (k\<lparr>words_list := ws\<rparr>) of
                Running k \<Rightarrow> Running (if words_list k ! 0 = ''ping'' then k\<lparr>printed := printed k @ [''pong'']\<rparr> else k)
              | r \<Rightarrow> r))"

text \<open>The program: the controller is constructed on the driver as the process starts with it.\<close>

definition console_start :: "string \<Rightarrow> gpio \<Rightarrow> turn_result" where
  "console_start input g =
     (case MotorController_new g of
        None \<Rightarrow> Undefined
      | Some (c, g) \<Rightarrow> Running \<lparr>cin = \<lparr>chars = input, eofbit = False, failbit = False\<rparr>, words_list = replicate 10 [],
          motors = c, pins = g, printed = []\<rparr>)"

fun console_turns :: "nat \<Rightarrow> turn_result \<Rightarrow> turn_result" where
  "console_turns 0 r = r"
| "console_turns (Suc n) r = (case console_turns n r of Running k \<Rightarrow> console_turn k | r \<Rightarrow> r)"

subsection \<open>The words of a line\<close>

text \<open>Splitting at every single space, so that two spaces have an empty word between them.\<close>

fun split_at_spaces :: "string \<Rightarrow> string list" where
  "split_at_spaces [] = [[]]"
| "split_at_spaces (c # cs) =
     (if c = CHR '' '' then [] # split_at_spaces cs
      else (case split_at_spaces cs of [] \<Rightarrow> [[c]] | w # ws \<Rightarrow> (c # w) # ws))"

lemma split_at_spaces_ne: "split_at_spaces cs \<noteq> []"
  by (cases cs) (auto split: list.split)

lemma put_word_prefix:
  assumes "j < length ws"
  shows "put_word j s ws = Some (take j ws @ s # drop (j + 1) ws)"
  using assms by (simp add: put_word_def upd_conv_take_nth_drop)

lemma split_words_eq:
  assumes "j + length (split_at_spaces cs) \<le> length ws"
  shows "split_words j s cs ws = Some (take j ws @ (s @ hd (split_at_spaces cs)) # tl (split_at_spaces cs)
    @ drop (j + length (split_at_spaces cs)) ws)"
  using assms
proof (induction cs arbitrary: j s ws)
  case Nil
  then show ?case by (simp add: put_word_prefix)
next
  case (Cons c cs)
  obtain w rest where r: "split_at_spaces cs = w # rest" using split_at_spaces_ne by (meson neq_Nil_conv)
  show ?case
  proof (cases "c = CHR '' ''")
    case True
    let ?ws = "take j ws @ s # drop (j + 1) ws"
    have j: "j < length ws" using Cons.prems True r by simp
    then have "split_words (j + 1) [] cs ?ws = Some (take (j + 1) ?ws @ w # rest @ drop (j + 1 + length (split_at_spaces cs)) ?ws)"
      using Cons.IH [of "j + 1" ?ws "[]"] Cons.prems True r by simp
    then show ?thesis using True r j by (simp add: put_word_prefix [OF j] min_def add.commute)
  next
    case False
    then show ?thesis using Cons.IH [of j ws "s @ [c]"] Cons.prems r by simp
  qed
qed

lemma split_words_over:
  assumes "length ws < j + length (split_at_spaces cs)"
  shows "split_words j s cs ws = None"
  using assms
proof (induction cs arbitrary: j s ws)
  case Nil
  then show ?case by (simp add: put_word_def)
next
  case (Cons c cs)
  obtain w rest where r: "split_at_spaces cs = w # rest" using split_at_spaces_ne by (meson neq_Nil_conv)
  with Cons show ?case by (auto simp: put_word_def split: if_splits)
qed

subsection \<open>What a line does\<close>

lemma get_chars_line:
  assumes "CHR 0x0A \<notin> set cs"
  shows "length cs \<le> room \<Longrightarrow> get_chars room (cs @ CHR 0x0A # rest) = (cs, \<lparr>chars = rest, eofbit = False, failbit = False\<rparr>)"
    and "room < length cs \<Longrightarrow> fst (get_chars room (cs @ rest)) = take room cs \<and> failbit (snd (get_chars room (cs @ rest)))"
  using assms
proof (induction cs arbitrary: room)
  case (Cons c cs)
  { case 1 then show ?case using Cons.IH(1) [of "room - 1"] by (cases room) auto }
  { case 2 then show ?case using Cons.IH(2) [of "room - 1"] by (cases room) (auto simp: case_prod_beta) }
qed simp_all

text \<open>The actuator commands as motions, and the effect of the words on the pins.\<close>

definition motion_word :: "string \<Rightarrow> ActuatorMotion option" where
  "motion_word w = (if w = ''e'' then Some EXTENDING else if w = ''c'' then Some RETRACTING
     else if w = ''s'' then Some NONE else None)"

definition spec_console :: "string list \<Rightarrow> robot_view \<Rightarrow> robot_view option" where
  "spec_console ws v =
     (if ws ! 0 = ''k'' then Some (spec_stop v)
      else if ws ! 0 = ''l'' then map_option (\<lambda>p. v\<lparr>left_duty := percent_duty (clamp_percent p)\<rparr>) (stoi (ws ! 1))
      else if ws ! 0 = ''r'' then map_option (\<lambda>p. v\<lparr>right_duty := percent_duty (clamp_percent p)\<rparr>) (stoi (ws ! 1))
      else if ws ! 0 = ''t'' then
        Some (case motion_word (ws ! 1) of None \<Rightarrow> v | Some m \<Rightarrow> v\<lparr>lines1 := motion_lines m\<rparr>)
      else if ws ! 0 = ''b'' then
        Some (case motion_word (ws ! 1) of None \<Rightarrow> v | Some m \<Rightarrow> v\<lparr>lines2 := motion_lines m\<rparr>)
      else Some v)"

definition console_ok :: "console \<Rightarrow> bool" where
  "console_ok k \<longleftrightarrow> controller_inv (motors k) (pins k) \<and> length (words_list k) = 10"

lemma drive_command:
  assumes "controller_inv c g"
  shows "\<exists>m g'. setPercent (leftDrive c) p g = Some (m, g') \<and> controller_inv (c\<lparr>leftDrive := m\<rparr>) g'
      \<and> motor_view g' = (motor_view g)\<lparr>left_duty := percent_duty (clamp_percent p)\<rparr>"
    and "\<exists>m g'. setPercent (rightDrive c) p g = Some (m, g') \<and> controller_inv (c\<lparr>rightDrive := m\<rparr>) g'
      \<and> motor_view g' = (motor_view g)\<lparr>right_duty := percent_duty (clamp_percent p)\<rparr>"
proof -
  note inv = assms [unfolded controller_inv_def]
  show "\<exists>m g'. setPercent (leftDrive c) p g = Some (m, g') \<and> controller_inv (c\<lparr>leftDrive := m\<rparr>) g'
      \<and> motor_view g' = (motor_view g)\<lparr>left_duty := percent_duty (clamp_percent p)\<rparr>"
    using setPercent_ok [of g "leftDrive c" p] inv clamp_bounds [of p]
    by (auto simp: controller_inv_def drive_ok_def motor_view_def percent_duty_word(2))
  show "\<exists>m g'. setPercent (rightDrive c) p g = Some (m, g') \<and> controller_inv (c\<lparr>rightDrive := m\<rparr>) g'
      \<and> motor_view g' = (motor_view g)\<lparr>right_duty := percent_duty (clamp_percent p)\<rparr>"
    using setPercent_ok [of g "rightDrive c" p] inv clamp_bounds [of p]
    by (auto simp: controller_inv_def drive_ok_def motor_view_def percent_duty_word(2))
qed

lemma on_actuator_motion:
  "on_actuator i k = (case motion_word (words_list k ! 1) of
     None \<Rightarrow> Running k
   | Some m \<Rightarrow> (case setMotion (actuators (motors k) ! i) m (pins k) of
       None \<Rightarrow> Undefined | Some (_, g) \<Rightarrow> Running (k\<lparr>pins := g\<rparr>)))"
  by (auto simp: on_actuator_def motion_word_def setMotion_def Let_def split: option.split)

lemma actuator_command:
  assumes "controller_inv c g" and "i < 2"
  shows "\<exists>b g'. setMotion (actuators c ! i) m g = Some (b, g') \<and> controller_inv c g'
    \<and> motor_view g' = (if i = 0 then (motor_view g)\<lparr>lines1 := motion_lines m\<rparr> else (motor_view g)\<lparr>lines2 := motion_lines m\<rparr>)"
proof -
  note inv = assms(1) [unfolded controller_inv_def]
  have "i = 0 \<or> i = 1" using assms(2) by auto
  then obtain g' where "setMotion (actuators c ! i) m g = Some (m = NONE, g')" "gpio_ready g'" "duty g' = duty g"
    "\<And>n. out_level g' n = (if n = pinA (actuators c ! i) then fst (motion_lines m)
          else if n = pinB (actuators c ! i) then snd (motion_lines m) else out_level g n)"
    using setMotion_ok [of g "actuators c ! i" m] inv by fastforce
  with inv \<open>i = 0 \<or> i = 1\<close> show ?thesis
    by (auto simp: controller_inv_def drive_ok_def motor_view_def)
qed

text \<open>What a command must leave: the console with a controller that shows the effect \<open>v\<close>.\<close>

definition obeyed :: "console \<Rightarrow> robot_view option \<Rightarrow> turn_result \<Rightarrow> bool" where
  "obeyed k v r \<longleftrightarrow> (case v of None \<Rightarrow> r = Aborted k
     | Some v \<Rightarrow> (\<exists>c g. r = Running (k\<lparr>motors := c, pins := g\<rparr>) \<and> controller_inv c g \<and> motor_view g = v))"

lemma obeyedI: "controller_inv c g \<Longrightarrow> motor_view g = v \<Longrightarrow> obeyed k (Some v) (Running (k\<lparr>motors := c, pins := g\<rparr>))"
  unfolding obeyed_def by auto

lemma obeyed_pins:
  "controller_inv (motors k) g \<Longrightarrow> motor_view g = v \<Longrightarrow> obeyed k (Some v) (Running (k\<lparr>pins := g\<rparr>))"
  using obeyedI [of "motors k" g v k] by simp

lemma obeyed_same: "controller_inv (motors k) (pins k) \<Longrightarrow> obeyed k (Some (motor_view (pins k))) (Running k)"
  using obeyed_pins [of k "pins k"] by simp

lemma actuator_obeyed:
  assumes "controller_inv (motors k) (pins k)" and "i < 2"
  shows "obeyed k (Some (case motion_word (words_list k ! 1) of None \<Rightarrow> motor_view (pins k)
      | Some m \<Rightarrow> if i = 0 then (motor_view (pins k))\<lparr>lines1 := motion_lines m\<rparr> else (motor_view (pins k))\<lparr>lines2 := motion_lines m\<rparr>))
    (on_actuator i k)"
proof (cases "motion_word (words_list k ! 1)")
  case None
  then show ?thesis using obeyed_same [OF assms(1)] by (simp add: on_actuator_motion)
next
  case (Some m)
  obtain b g' where "setMotion (actuators (motors k) ! i) m (pins k) = Some (b, g')" "controller_inv (motors k) g'"
    "motor_view g' = (if i = 0 then (motor_view (pins k))\<lparr>lines1 := motion_lines m\<rparr> else (motor_view (pins k))\<lparr>lines2 := motion_lines m\<rparr>)"
    using actuator_command [OF assms, of m] by blast
  then show ?thesis using Some obeyed_pins by (simp add: on_actuator_motion)
qed

lemma unknown_word: "words_list k ! 0 \<notin> {''k'', ''l'', ''r'', ''t'', ''b''} \<Longrightarrow> console_command k = Running k"
  by (simp add: console_command_def)

lemma command_ok:
  assumes "controller_inv (motors k) (pins k)"
  shows "obeyed k (spec_console (words_list k) (motor_view (pins k))) (console_command k)"
proof -
  let ?w = "words_list k ! 0"
  consider "?w = ''k''" | "?w = ''l''" | "?w = ''r''" | "?w = ''t''" | "?w = ''b''"
    | "?w \<notin> {''k'', ''l'', ''r'', ''t'', ''b''}" by auto
  then show ?thesis
  proof cases
    case 1
    then show ?thesis using mc_stopMovement_ok [OF assms] by (auto simp: spec_console_def console_command_def intro: obeyedI)
  next
    case 2
    then show ?thesis using drive_command(1) [OF assms, of "the (stoi (words_list k ! 1))"] obeyedI
      by (cases "stoi (words_list k ! 1)") (auto simp: spec_console_def console_command_def obeyed_def [of _ None])
  next
    case 3
    then show ?thesis using drive_command(2) [OF assms, of "the (stoi (words_list k ! 1))"] obeyedI
      by (cases "stoi (words_list k ! 1)") (auto simp: spec_console_def console_command_def obeyed_def [of _ None])
  next
    case 4
    then show ?thesis using actuator_obeyed [OF assms, of 0] by (simp add: spec_console_def console_command_def cong: option.case_cong)
  next
    case 5
    then show ?thesis using actuator_obeyed [OF assms, of 1] by (simp add: spec_console_def console_command_def cong: option.case_cong)
  next
    case 6
    then show ?thesis using obeyed_same [OF assms] by (simp add: spec_console_def unknown_word)
  qed
qed

subsection \<open>Properties\<close>

text \<open>C23. A turn of the console on a proper line does what the words say: a line of at most 99 characters
and ten words, split at single spaces, overwrites that many remembered words, and the pins become what
the abstract command prescribes. Where it needs a number and finds none, or one outside \<open>int\<close>, the
exception ends the program and the pins stay as they are.\<close>

theorem console_obeys:
  assumes "console_ok k" and "cin k = \<lparr>chars = cs @ CHR 0x0A # rest, eofbit = False, failbit = False\<rparr>"
    and "CHR 0x0A \<notin> set cs" and "CHR 0x00 \<notin> set cs" and "length cs \<le> 99" and "length (split_at_spaces cs) \<le> 10"
    and "ws = split_at_spaces cs @ drop (length (split_at_spaces cs)) (words_list k)"
  shows "case spec_console ws (motor_view (pins k)) of
      None \<Rightarrow> \<exists>k'. console_turn k = Aborted k' \<and> pins k' = pins k
    | Some v \<Rightarrow> \<exists>k'. console_turn k = Running k' \<and> console_ok k' \<and> motor_view (pins k') = v \<and> words_list k' = ws
        \<and> cin k' = \<lparr>chars = rest, eofbit = False, failbit = False\<rparr>"
proof -
  let ?s = "\<lparr>chars = rest, eofbit = False, failbit = False\<rparr>"
  have line: "getline 100 (cin k) = (cs, ?s)"
    using get_chars_line(1) [OF assms(3), of 99 rest] assms(2,5) by (simp add: getline_def)
  have whole: "takeWhile (\<lambda>c. c \<noteq> CHR 0x00) cs = cs" using assms(4) by (auto simp: takeWhile_eq_all_conv)
  obtain w wr where w: "split_at_spaces cs = w # wr" using split_at_spaces_ne by (meson neq_Nil_conv)
  have words: "split_words 0 [] cs (words_list k) = Some ws"
    using split_words_eq [of 0 cs "words_list k" "[]"] assms(1,6,7) w by (simp add: console_ok_def)
  let ?k = "k\<lparr>cin := ?s, words_list := ws\<rparr>"
  have "length ws = 10" using assms(1,6,7) by (simp add: console_ok_def)
  then have ok: "console_ok ?k" using assms(1) by (simp add: console_ok_def)
  have turn: "console_turn k = (case console_command ?k of
      Running k \<Rightarrow> Running (if words_list k ! 0 = ''ping'' then k\<lparr>printed := printed k @ [''pong'']\<rparr> else k) | r \<Rightarrow> r)"
    by (simp add: console_turn_def line whole words)
  show ?thesis
  proof (cases "spec_console ws (motor_view (pins k))")
    case None
    then show ?thesis using command_ok [of ?k] ok turn by (simp add: obeyed_def console_ok_def)
  next
    case (Some v)
    then obtain c g where "console_command ?k = Running (?k\<lparr>motors := c, pins := g\<rparr>)" "controller_inv c g" "motor_view g = v"
      using command_ok [of ?k] ok by (auto simp: obeyed_def console_ok_def)
    then show ?thesis using Some turn \<open>length ws = 10\<close> by (simp add: console_ok_def)
  qed
qed

lemma failed_turn:
  assumes "failbit (cin k) \<or> eofbit (cin k)" and "length (words_list k) = 10"
  shows "\<exists>k'. console_turn k = Running k' \<and> failbit (cin k') \<and> length (words_list k') = 10
    \<and> pins k' = pins k \<and> motors k' = motors k \<and> printed k' = printed k"
  using assms
  by (cases "words_list k") (auto simp: console_turn_def getline_def put_word_def console_command_def)

text \<open>A line of 100 or more characters makes the console deaf: after the turn that reads its first 99
characters no command is ever obeyed again, a stop included, and the pins stay as that turn left them,
whatever is typed.\<close>

theorem console_deaf:
  assumes "console_turn k = Running k1" and "length (words_list k) = 10"
    and "cin k = \<lparr>chars = cs @ rest, eofbit = False, failbit = False\<rparr>" and "CHR 0x0A \<notin> set cs" and "100 \<le> length cs"
  shows "\<exists>k'. console_turns n (Running k1) = Running k' \<and> pins k' = pins k1 \<and> motors k' = motors k1"
proof -
  have "failbit (snd (getline 100 (cin k)))"
    using get_chars_line(2) [OF assms(4), of 99 rest] assms(3,5) by (auto simp: getline_def case_prod_beta)
  moreover have "cin k1 = snd (getline 100 (cin k)) \<and> length (words_list k1) = 10" if r: "console_turn k = Running k1"
  proof -
    obtain arr s where a: "getline 100 (cin k) = (arr, s)" by (metis prod.collapse)
    have keep: "split_words j w xs ws = Some ws' \<Longrightarrow> length ws' = length ws" for j w xs ws ws'
      by (induction j w xs ws rule: split_words.induct) (auto simp: put_word_def split: if_splits)
    have cmd: "console_command x = Running y \<Longrightarrow> cin y = cin x \<and> words_list y = words_list x" for x y
      by (auto simp: console_command_def on_actuator_def Let_def split: if_splits option.splits)
    from r a show ?thesis using keep cmd assms(2)
      by (fastforce simp: console_turn_def split: option.splits turn_result.splits if_splits)
  qed
  ultimately have "failbit (cin k1)" "length (words_list k1) = 10" using assms(1) by auto
  then have "\<exists>k'. console_turns n (Running k1) = Running k' \<and> failbit (cin k') \<and> length (words_list k') = 10
      \<and> pins k' = pins k1 \<and> motors k' = motors k1"
  proof (induction n)
    case (Suc n)
    then obtain k' where k': "console_turns n (Running k1) = Running k'" "failbit (cin k')" "length (words_list k') = 10"
      "pins k' = pins k1" "motors k' = motors k1" by blast
    from failed_turn [of k'] k' show ?case by auto
  qed simp
  then show ?thesis by blast
qed

text \<open>The program cannot run as it is: it never initialises the driver, so the construction of its
controller writes to unmapped registers.\<close>

theorem console_crashes: "console_start input gpio_boot = Undefined"
  by (simp add: console_start_def MotorController_new_def PWMDriveMotor_new_def gpioSetPWMfrequency_def gpio_boot_def
      FREQUENCY_def pin_defs)

definition typed :: "string \<Rightarrow> MotorController \<Rightarrow> gpio \<Rightarrow> console" where
  "typed input c g = \<lparr>cin = \<lparr>chars = input, eofbit = False, failbit = False\<rparr>, words_list = replicate 10 [],
     motors = c, pins = g, printed = []\<rparr>"

lemma controller_exists: "\<exists>c g. controller_inv c g \<and> left_duty (motor_view g) = 57"
  using MotorController_new_ok [OF gpio_up_ready(2)] by (auto simp: pwm_constants)

theorem console_obeys_witness:
  "\<exists>c g k'. controller_inv c g \<and> console_turn (typed (''l -50'' @ CHR 0x0A # ''k'') c g) = Running k'
     \<and> left_duty (motor_view (pins k')) = 48"
proof -
  obtain c g where c: "controller_inv c g" using controller_exists by blast
  let ?ws = "[''l'', ''-50'', [], [], [], [], [], [], [], []]"
  have "stoi ''-50'' = Some (-50)" by code_simp
  moreover have "percent_duty (clamp_percent (- 50)) = 48"
    using c_quot_minus [of 950 100] by (simp add: clamp_percent_def percent_duty_def pwm_constants c_quot_nonneg)
  ultimately have "spec_console ?ws (motor_view g) = Some ((motor_view g)\<lparr>left_duty := 48\<rparr>)"
    by (simp add: spec_console_def)
  moreover have "?ws = split_at_spaces ''l -50'' @ drop (length (split_at_spaces ''l -50'')) (words_list (typed (''l -50'' @ CHR 0x0A # ''k'') c g))"
    by (simp add: typed_def numeral_eq_Suc)
  ultimately obtain k' where "console_turn (typed (''l -50'' @ CHR 0x0A # ''k'') c g) = Running k'"
    "motor_view (pins k') = (motor_view g)\<lparr>left_duty := 48\<rparr>"
    using console_obeys [of "typed (''l -50'' @ CHR 0x0A # ''k'') c g" "''l -50''" "''k''" ?ws] c
    by (auto simp: console_ok_def typed_def)
  then show ?thesis using c by (intro exI [of _ c] exI [of _ g] exI [of _ k']) simp
qed

theorem console_deaf_witness:
  "\<exists>c g k1 k'. controller_inv c g \<and> console_turn (typed (replicate 100 (CHR ''x'') @ CHR 0x0A # ''k'') c g) = Running k1
     \<and> console_turns 5 (Running k1) = Running k' \<and> pins k' = pins k1"
proof -
  obtain c g where c: "controller_inv c g" using controller_exists by blast
  let ?k = "typed (replicate 100 (CHR ''x'') @ CHR 0x0A # ''k'') c g"
  have "split_words 0 [] (replicate 99 (CHR ''x'')) (replicate 10 []) = Some (replicate 99 (CHR ''x'') # replicate 9 [])"
    by code_simp
  moreover have "fst (getline 100 (cin ?k)) = replicate 99 (CHR ''x'')"
    unfolding typed_def by (simp add: getline_def) code_simp
  moreover have "replicate 99 (CHR ''x'') \<notin> {''k'', ''l'', ''r'', ''t'', ''b''}" by (auto dest: arg_cong [of _ _ length])
  moreover have "takeWhile (\<lambda>c. c \<noteq> CHR 0x00) (replicate 99 (CHR ''x'')) = replicate 99 (CHR ''x'')"
    by (rule takeWhile_eq_all_conv [THEN iffD2]) simp
  ultimately obtain k1 where k1: "console_turn ?k = Running k1"
    by (simp add: console_turn_def unknown_word typed_def case_prod_beta)
  have l: "length (words_list ?k) = 10"
    and i: "cin ?k = \<lparr>chars = replicate 100 (CHR ''x'') @ (CHR 0x0A # ''k''), eofbit = False, failbit = False\<rparr>"
    by (simp_all add: typed_def)
  have "CHR 0x0A \<notin> set (replicate 100 (CHR ''x''))" "100 \<le> length (replicate 100 (CHR ''x''))" by simp_all
  from console_deaf [OF k1 l i this, of 5] c k1 show ?thesis by blast
qed

end
