(* ===== verification/SerialPort.thy ===== *)
theory SerialPort imports Prelude begin

text \<open>
  Reading from the serial port, \<open>src/src/serial.cpp\<close>. The implementation object behind \<open>pimpl_\<close> is not
  in the repository: its \<open>read\<close> is the parameter \<open>rd\<close>, which answers a request for at most \<open>n\<close> octets
  with the octets that came before the time-out, or raises (\<open>None\<close>). The buffers of the code are
  \<open>alloca\<close> blocks of \<open>size\<close> octets; a write past their end is \<open>Overflow\<close>. The locks are left out.
\<close>

type_synonym 's port_read = "'s \<Rightarrow> nat \<Rightarrow> (bytes \<times> 's) option"

text \<open>What the documentation of \<open>read\<close> promises: no more than was asked for.\<close>

definition port_ok :: "'s port_read \<Rightarrow> bool" where
  "port_ok rd \<longleftrightarrow> (\<forall>s n bs s'. rd s n = Some (bs, s') \<longrightarrow> length bs \<le> n)"

datatype ('a, 's) serial_result = Read 'a 's | Raised | Overflow

subsection \<open>Operations\<close>

text \<open>\<open>read\<close> into a vector or a string appends what was read and returns its length.\<close>

definition serial_read :: "'s port_read \<Rightarrow> bytes \<Rightarrow> nat \<Rightarrow> 's \<Rightarrow> (bytes \<times> nat, 's) serial_result" where
  "serial_read rd buffer sz s =
     (case rd s sz of
        None \<Rightarrow> Raised
      | Some (bs, s) \<Rightarrow> if sz < length bs then Overflow else Read (buffer @ bs, length bs) s)"

definition serial_read_string :: "'s port_read \<Rightarrow> nat \<Rightarrow> 's \<Rightarrow> (bytes, 's) serial_result" where
  "serial_read_string rd sz s =
     (case serial_read rd [] sz s of Read (buffer, _) s \<Rightarrow> Read buffer s | Raised \<Rightarrow> Raised | Overflow \<Rightarrow> Overflow)"

definition ends_with :: "bytes \<Rightarrow> bytes \<Rightarrow> bool" where
  "ends_with eol buf \<longleftrightarrow> length eol \<le> length buf \<and> drop (length buf - length eol) buf = eol"

text \<open>The loop of \<open>readline\<close> on the octets \<open>buf\<close> read so far.\<close>

function readline_loop :: "'s port_read \<Rightarrow> nat \<Rightarrow> bytes \<Rightarrow> bytes \<Rightarrow> 's \<Rightarrow> (bytes, 's) serial_result" where
  "readline_loop rd sz eol buf s =
     (case rd s 1 of
        None \<Rightarrow> Raised
      | Some (bs, s) \<Rightarrow>
          if sz < length buf + length bs then Overflow
          else if bs = [] then Read buf s
          else
            let buf = buf @ bs in
            if length buf < length eol then readline_loop rd sz eol buf s
            else if drop (length buf - length eol) buf = eol then Read buf s
            else if length buf = sz then Read buf s
            else readline_loop rd sz eol buf s)"
  by pat_completeness auto
termination
  by (relation "measure (\<lambda>(rd, sz, eol, buf, s). sz - length buf)")
     (auto simp: length_greater_0_conv [symmetric] simp del: length_greater_0_conv)

declare readline_loop.simps [simp del]

definition readline :: "'s port_read \<Rightarrow> bytes \<Rightarrow> nat \<Rightarrow> bytes \<Rightarrow> 's \<Rightarrow> (bytes \<times> nat, 's) serial_result" where
  "readline rd buffer sz eol s =
     (case readline_loop rd sz eol [] s of
        Read buf s \<Rightarrow> Read (buffer @ buf, length buf) s | Raised \<Rightarrow> Raised | Overflow \<Rightarrow> Overflow)"

definition readline_string :: "'s port_read \<Rightarrow> nat \<Rightarrow> bytes \<Rightarrow> 's \<Rightarrow> (bytes, 's) serial_result" where
  "readline_string rd sz eol s =
     (case readline rd [] sz eol s of Read (buffer, _) s \<Rightarrow> Read buffer s | Raised \<Rightarrow> Raised | Overflow \<Rightarrow> Overflow)"

text \<open>The loop of \<open>readlines\<close>: the octets read so far, the start of the line and the lines.\<close>

function readlines_loop ::
  "'s port_read \<Rightarrow> nat \<Rightarrow> bytes \<Rightarrow> bytes \<Rightarrow> nat \<Rightarrow> bytes list \<Rightarrow> 's \<Rightarrow> (bytes list, 's) serial_result" where
  "readlines_loop rd sz eol buf start lines s =
     (if length buf < sz then
        (case rd s 1 of
           None \<Rightarrow> Raised
         | Some (bs, s) \<Rightarrow>
             if sz < length buf + length bs then Overflow
             else if bs = [] then Read (if start \<noteq> length buf then lines @ [drop start buf] else lines) s
             else
               let buf = buf @ bs in
               if length buf < length eol then readlines_loop rd sz eol buf start lines s
               else
                 let found = (drop (length buf - length eol) buf = eol);
                     lines = (if found then lines @ [drop start buf] else lines);
                     start = (if found then length buf else start)
                 in if length buf = sz then Read (if start \<noteq> length buf then lines @ [drop start buf] else lines) s
                    else readlines_loop rd sz eol buf start lines s)
      else Read lines s)"
  by pat_completeness auto
termination
  by (relation "measure (\<lambda>(rd, sz, eol, buf, start, lines, s). sz - length buf)")
     (auto simp: length_greater_0_conv [symmetric] simp del: length_greater_0_conv)

declare readlines_loop.simps [simp del]

definition readlines :: "'s port_read \<Rightarrow> nat \<Rightarrow> bytes \<Rightarrow> 's \<Rightarrow> (bytes list, 's) serial_result" where
  "readlines rd sz eol s = readlines_loop rd sz eol [] 0 [] s"

text \<open>\<open>readSerial\<close> of \<open>src/src/readSerial.cpp\<close>: whether the port is open, and what \<open>read\<close> gives with its
default size of 1.\<close>

definition readSerial :: "'s port_read \<Rightarrow> bool \<Rightarrow> 's \<Rightarrow> (bytes, 's) serial_result" where
  "readSerial rd isOpen s = (if isOpen then serial_read_string rd 1 s else Read (replicate 8 48) s)"

subsection \<open>A port with data waiting\<close>

text \<open>The port that has the octets \<open>s\<close> to give and then times out.\<close>

definition waiting :: "bytes port_read" where
  "waiting s n = Some (take n s, drop n s)"

lemma waiting_ok: "port_ok waiting"
  by (auto simp: port_ok_def waiting_def)

lemma ends_with_take: "ends_with eol (take k s) \<longleftrightarrow> length eol \<le> length (take k s) \<and> drop (length (take k s) - length eol) (take k s) = eol"
  by (simp add: ends_with_def)

text \<open>How far \<open>readline\<close> reads: to the first end of line, the size or the end of the data.\<close>

definition line_end :: "nat \<Rightarrow> bytes \<Rightarrow> bytes \<Rightarrow> nat \<Rightarrow> bool" where
  "line_end sz eol s k \<longleftrightarrow> k \<le> min sz (length s) \<and> (k = min sz (length s) \<or> 0 < k \<and> ends_with eol (take k s))
     \<and> (\<forall>j. 0 < j \<longrightarrow> j < k \<longrightarrow> \<not> ends_with eol (take j s))"

lemma readline_waiting:
  assumes "length eol \<le> sz" and "n \<le> length s" and "n < sz"
    and "\<forall>j. 0 < j \<longrightarrow> j \<le> n \<longrightarrow> \<not> ends_with eol (take j s)"
  shows "\<exists>k. readline_loop waiting sz eol (take n s) (drop n s) = Read (take k s) (drop k s) \<and> line_end sz eol s k"
  using assms(2-4)
proof (induction "sz - n" arbitrary: n rule: less_induct)
  case less
  have len: "length (take n s) = n" using less.prems(1) by simp
  show ?case
  proof (cases "n = length s")
    case True
    then show ?thesis using less.prems
      by (intro exI [of _ n]) (auto simp: readline_loop.simps [of waiting] waiting_def line_end_def)
  next
    case False
    then have n: "n < length s" using less.prems(1) by simp
    have rd: "waiting (drop n s) 1 = Some ([s ! n], drop (Suc n) s)"
      using n by (simp add: waiting_def take_Suc_conv_app_nth Cons_nth_drop_Suc [symmetric])
    have buf: "take n s @ [s ! n] = take (Suc n) s" using n by (simp add: take_Suc_conv_app_nth)
    have len': "length (take (Suc n) s) = Suc n" using n by simp
    have step: "readline_loop waiting sz eol (take n s) (drop n s) =
        (if Suc n < length eol then readline_loop waiting sz eol (take (Suc n) s) (drop (Suc n) s)
         else if ends_with eol (take (Suc n) s) \<or> Suc n = sz then Read (take (Suc n) s) (drop (Suc n) s)
         else readline_loop waiting sz eol (take (Suc n) s) (drop (Suc n) s))"
      using less.prems(2) len len' unfolding readline_loop.simps [of waiting sz eol "take n s"] rd
      by (simp add: buf ends_with_def Let_def)
    show ?thesis
    proof (cases "Suc n \<ge> length eol \<and> (ends_with eol (take (Suc n) s) \<or> Suc n = sz)")
      case True
      then show ?thesis using step less.prems n
        by (intro exI [of _ "Suc n"]) (auto simp: line_end_def less_Suc_eq_le)
    next
      case no: False
      then have "\<not> ends_with eol (take (Suc n) s)" using len' by (auto simp: ends_with_def)
      moreover have "Suc n < sz" using no less.prems(2) assms(1) by auto
      ultimately show ?thesis
        using less.hyps [of "Suc n"] step no less.prems n by (auto simp: le_Suc_eq)
    qed
  qed
qed

lemma readline_loop_safe:
  assumes "port_ok rd" and "length eol \<le> sz" and "length buf < sz"
  shows "case readline_loop rd sz eol buf s of Read b s' \<Rightarrow> length b \<le> sz \<and> take (length buf) b = buf | Raised \<Rightarrow> True | Overflow \<Rightarrow> False"
  using assms(3)
proof (induction "sz - length buf" arbitrary: buf s rule: less_induct)
  case less
  show ?case
  proof (cases "rd s 1")
    case None
    then show ?thesis by (simp add: readline_loop.simps [of rd])
  next
    case (Some x)
    obtain bs s' where x: "x = (bs, s')" by (metis prod.collapse)
    have one: "length bs \<le> 1" using assms(1) Some x unfolding port_ok_def by blast
    show ?thesis
    proof (cases "bs = []")
      case True
      then show ?thesis using Some x less.prems by (simp add: readline_loop.simps [of rd])
    next
      case False
      let ?buf = "buf @ bs"
      have l: "length ?buf = Suc (length buf)" using one False by (cases bs) auto
      have step: "readline_loop rd sz eol buf s =
          (if length ?buf < length eol then readline_loop rd sz eol ?buf s'
           else if drop (length ?buf - length eol) ?buf = eol \<or> length ?buf = sz then Read ?buf s'
           else readline_loop rd sz eol ?buf s')"
        using Some x False less.prems l by (subst readline_loop.simps) (simp add: Let_def)
      have pre: "take (length buf) b = buf" if "take (length ?buf) b = ?buf" for b
      proof -
        have "take (length buf) (take (length ?buf) b) = take (length buf) ?buf" using that by simp
        then show ?thesis by simp
      qed
      have ih: "case readline_loop rd sz eol ?buf s' of Read b s' \<Rightarrow> length b \<le> sz \<and> take (length buf) b = buf
          | Raised \<Rightarrow> True | Overflow \<Rightarrow> False" if "length ?buf < sz"
      proof -
        have "sz - length ?buf < sz - length buf" using that l by linarith
        then show ?thesis using less.hyps [of ?buf s'] that pre
          by (cases "readline_loop rd sz eol ?buf s'") simp_all
      qed
      show ?thesis
      proof (cases "length ?buf < sz")
        case True
        then show ?thesis using step ih less.prems l by auto
      next
        case False
        then have "length ?buf = sz" using less.prems l by simp
        then show ?thesis using step assms(2) by simp
      qed
    qed
  qed
qed

text \<open>\<open>readlines\<close> with an end-of-line mark of one octet: the lines cut so far end in the mark and hold it
nowhere else.\<close>

definition closed_lines :: "u8 \<Rightarrow> bytes list \<Rightarrow> bool" where
  "closed_lines e ls \<longleftrightarrow> (\<forall>l \<in> set ls. \<exists>p. l = p @ [e] \<and> e \<notin> set p)"

text \<open>The octets \<open>s\<close> cut into lines, the last of which may be without the mark.\<close>

definition cut_into :: "u8 \<Rightarrow> bytes \<Rightarrow> bytes list \<Rightarrow> bool" where
  "cut_into e s ls \<longleftrightarrow> concat ls = s
    \<and> (closed_lines e ls \<or> (\<exists>ms l. ls = ms @ [l] \<and> closed_lines e ms \<and> l \<noteq> [] \<and> e \<notin> set l))"

lemma closed_lines_snoc [simp]: "closed_lines e (ls @ [l]) \<longleftrightarrow> closed_lines e ls \<and> (\<exists>p. l = p @ [e] \<and> e \<notin> set p)"
  by (auto simp: closed_lines_def)

lemma closed_lines_Nil [simp]: "closed_lines e []"
  by (simp add: closed_lines_def)

text \<open>What the loop does last: the line that was begun is added.\<close>

lemma cut_into_last:
  assumes "concat ls = take st t" and "closed_lines e ls" and "e \<notin> set (drop st t)"
  shows "cut_into e t (if st < length t then ls @ [drop st t] else ls)"
  using assms by (auto simp: cut_into_def)

lemma readlines_step:
  assumes "rd s 1 = Some ([x], s')" and "length buf < sz"
  shows "readlines_loop rd sz [e] buf st ls s =
    (let buf' = buf @ [x]; st' = (if x = e then Suc (length buf) else st);
         ls' = (if x = e then ls @ [drop st buf'] else ls)
     in if Suc (length buf) = sz then Read (if st' \<noteq> Suc (length buf) then ls' @ [drop st' buf'] else ls') s'
        else readlines_loop rd sz [e] buf' st' ls' s')"
  using assms unfolding readlines_loop.simps [of rd sz "[e]" buf st ls s] by (simp add: Let_def)

lemma readlines_waiting:
  assumes "n \<le> length s" and "n < sz" and "st \<le> n" and "concat ls = take st s" and "closed_lines e ls"
    and "e \<notin> set (drop st (take n s))"
  shows "\<exists>out. readlines_loop waiting sz [e] (take n s) st ls (drop n s) = Read out (drop sz s) \<and> cut_into e (take sz s) out"
  using assms
proof (induction "sz - n" arbitrary: n st ls rule: less_induct)
  case less
  note loop = readlines_loop.simps [of waiting sz "[e]" "take n s" st ls]
  show ?case
  proof (cases "n = length s")
    case True
    have "cut_into e s (if st < length s then ls @ [drop st s] else ls)"
      using less.prems True by (intro cut_into_last) simp_all
    moreover have "readlines_loop waiting sz [e] (take n s) st ls (drop n s)
        = Read (if st < length s then ls @ [drop st s] else ls) (drop sz s)"
      unfolding loop using less.prems True by (simp add: waiting_def)
    ultimately show ?thesis using less.prems(2) True by simp
  next
    case False
    then have n: "n < length s" using less.prems(1) by simp
    have rd: "waiting (drop n s) 1 = Some ([s ! n], drop (Suc n) s)"
      using n by (simp add: waiting_def take_Suc_conv_app_nth Cons_nth_drop_Suc [symmetric])
    have buf: "take n s @ [s ! n] = take (Suc n) s" using n by (simp add: take_Suc_conv_app_nth)
    define begun where "begun = drop st (take (Suc n) s)"
    have begun: "begun = drop st (take n s) @ [s ! n]"
      using less.prems(3) n by (simp add: begun_def buf [symmetric])
    define st' where "st' = (if s ! n = e then Suc n else st)"
    define ls' where "ls' = (if s ! n = e then ls @ [begun] else ls)"
    have split: "take st s @ drop st (take (Suc n) s) = take (Suc n) s"
      using less.prems(3) by (metis append_take_drop_id le_SucI min.absorb1 take_take)
    have inv: "st' \<le> Suc n" "concat ls' = take st' s" "closed_lines e ls'" "e \<notin> set (drop st' (take (Suc n) s))"
      using less.prems(3-6) begun split by (auto simp: st'_def ls'_def begun_def)
    have step: "readlines_loop waiting sz [e] (take n s) st ls (drop n s) =
        (if Suc n = sz then Read (if st' \<noteq> Suc n then ls' @ [drop st' (take (Suc n) s)] else ls') (drop (Suc n) s)
         else readlines_loop waiting sz [e] (take (Suc n) s) st' ls' (drop (Suc n) s))"
      using readlines_step [where rd = waiting, OF rd, of "take n s" sz e st ls] less.prems(1,2) n
      by (simp add: buf st'_def ls'_def begun_def Let_def)
    show ?thesis
    proof (cases "Suc n = sz")
      case True
      have "cut_into e (take sz s) (if st' < length (take sz s) then ls' @ [drop st' (take sz s)] else ls')"
        using inv True by (intro cut_into_last) simp_all
      then show ?thesis using step True n inv(1) by (auto split: if_splits)
    next
      case more: False
      then show ?thesis using step less.hyps [of "Suc n" st' ls'] inv n less.prems(2) by simp
    qed
  qed
qed

subsection \<open>Properties\<close>

text \<open>With octets waiting, \<open>readline\<close> takes exactly the next line: up to and with the first end-of-line
mark, or as many octets as \<open>size\<close> allows, or all there are, and leaves the rest to be read.\<close>

theorem readline_takes_line:
  assumes "length eol \<le> sz" and "0 < sz"
  shows "\<exists>k. readline waiting buffer sz eol s = Read (buffer @ take k s, k) (drop k s) \<and> line_end sz eol s k"
proof -
  obtain k where "readline_loop waiting sz eol [] s = Read (take k s) (drop k s)" "line_end sz eol s k"
    using readline_waiting [OF assms(1), of 0 s] assms(2) by auto
  then show ?thesis by (intro exI [of _ k]) (simp add: readline_def line_end_def)
qed

theorem readline_takes_line_witness:
  "\<exists>k. readline waiting [] 16 [13, 10] [72, 105, 13, 10, 33] = Read (take k [72, 105, 13, 10, 33], k) (drop k [72, 105, 13, 10, 33])
     \<and> line_end 16 [13, 10] [72, 105, 13, 10, 33] k"
  using readline_takes_line [of "[13, 10]" 16 "[]"] by simp

text \<open>Whatever a port gives, \<open>readline\<close> stays within its buffer when the size is at least 1 and at
least the length of the end-of-line mark, and it returns.\<close>

theorem readline_in_bounds:
  assumes "port_ok rd" and "length eol \<le> sz" and "0 < sz"
  shows "readline rd buffer sz eol s \<noteq> Overflow
    \<and> (\<forall>b n s'. readline rd buffer sz eol s = Read (b, n) s' \<longrightarrow> n \<le> sz \<and> take (length buffer) b = buffer)"
  using readline_loop_safe [OF assms(1,2), of "[]" s] assms(3)
  by (auto simp: readline_def split: serial_result.splits)

theorem readline_in_bounds_witness:
  "readline waiting [] 4 [10] [1, 2, 3, 4, 5] \<noteq> Overflow"
  using readline_in_bounds [OF waiting_ok, of "[10]" 4 "[]" "[1, 2, 3, 4, 5]"] by simp

text \<open>Without that condition it writes past its buffer: with a mark longer than the size the test of the
size is skipped, and with the size 0 it never holds.\<close>

theorem readline_overflows:
  "readline waiting [] 1 [13, 10] [65, 66] = Overflow \<and> readline waiting [] 0 [10] [65] = Overflow"
  by code_simp

text \<open>With octets waiting and an end-of-line mark of one octet, \<open>readlines\<close> loses nothing and cuts at
every mark: the lines put together are what was read, at most \<open>size\<close> octets of it, every line ends in the
mark and holds it nowhere else, but for a last one that has none.\<close>

theorem readlines_cuts_lines:
  "\<exists>out. readlines waiting sz [e] s = Read out (drop sz s) \<and> cut_into e (take sz s) out"
proof (cases "sz = 0")
  case True
  then show ?thesis by (simp add: readlines_def readlines_loop.simps [of waiting] cut_into_def)
next
  case False
  then show ?thesis using readlines_waiting [of 0 s sz 0 "[]" e] by (simp add: readlines_def)
qed

text \<open>With a longer mark the octets of a mark already used can be the start of the next one: the mark
\<open>aa\<close> cuts \<open>aaa\<close> into \<open>aa\<close> and \<open>a\<close>, and the second line ends in no mark of its own although
the three octets end in one.\<close>

theorem readlines_reuses_mark:
  "readlines waiting 8 [97, 97] [97, 97, 97] = Read [[97, 97], [97]] []"
  by code_simp

text \<open>\<open>readSerial\<close> gives at most one octet of what waits at an open port, and leaves the rest there.\<close>

theorem readSerial_one_octet: "readSerial waiting True s = Read (take 1 s) (drop 1 s)"
  by (simp add: readSerial_def serial_read_string_def serial_read_def waiting_def)

end
