(* ===== verification/Forwarder.thy ===== *)
theory Forwarder imports Robot begin

text \<open>
  The forwarder \<open>src/socket-forwarder/socket-forwarder.cpp\<close>: a WebSocket server for the operator and an
  ENet client of the robot. Its two threads share \<open>client\<close> without a lock; a run is an interleaving
  of their steps. What ENet answers (the results of its functions and the events of its loop) and what
  the operator's connections do are inputs. Console output is left out.
\<close>

subsection \<open>State\<close>

text \<open>Where the ENet thread is, and what the global \<open>client\<close> points to.\<close>

datatype enet_phase = Starting | Initialised | Created | Servicing | Returned

datatype client_ptr = Null | Valid | Dangling

record enet_side =
  phase :: enet_phase
  client :: client_ptr
  address_host :: string
  address_port :: "16 word"
  linked :: bool
  to_robot :: "bytes list"
  undefined_behaviour :: bool

record forwarder =
  fw_server :: "enet_side tcp_server"
  to_operator :: "(nat \<times> bytes) list"
  exited :: bool

subsection \<open>From the operator\<close>

text \<open>
  \<open>onIncomingPacket\<close>: \<open>client->peers\<close> is the first peer of the host, the one the client connects with;
  \<open>enet_peer_send\<close> refuses a packet for a peer that is not connected, and the result is not looked at.
\<close>

definition onIncomingPacket :: "PacketData \<Rightarrow> enet_side \<Rightarrow> enet_side" where
  "onIncomingPacket data e =
     (if client e \<noteq> Valid then e\<lparr>undefined_behaviour := True\<rparr>
      else if linked e then e\<lparr>to_robot := to_robot e @ [rawMessage data]\<rparr>
      else e)"

definition fw_start :: "nat \<Rightarrow> forwarder" where
  "fw_start port_number =
     (let t = tcp_new port_number
            \<lparr>phase = Starting, client = Null, address_host = [], address_port = 0, linked = False, to_robot = [],
             undefined_behaviour = False\<rparr>
      in \<lparr>fw_server = t\<lparr>tcb := setPacketCallback onIncomingPacket (tcb t)\<rparr>, to_operator = [], exited = False\<rparr>)"

subsection \<open>The ENet thread\<close>

text \<open>The results of the calls of \<open>runENet\<close>, and the events of the operator's side.\<close>

datatype fw_step =
    Enet_initialize int
  | Enet_host_create bool
  | Enet_host_connect string "32 word" bool
  | Enet_host_service int enet_event
  | Operator ws_event

definition on_enet :: "(enet_side \<Rightarrow> enet_side) \<Rightarrow> forwarder \<Rightarrow> forwarder" where
  "on_enet f w = w\<lparr>fw_server := (fw_server w)\<lparr>tapp := f (tapp (fw_server w))\<rparr>\<rparr>"

text \<open>
  ENet's own state of the peer follows its events. A received packet becomes a C string, which reads
  past the packet when it has no zero octet; the message goes to every stored connection, and asking
  for one that has expired throws in this thread, which ends the process.
\<close>

definition from_robot :: "(nat \<Rightarrow> con_state option) \<Rightarrow> bytes \<Rightarrow> forwarder \<Rightarrow> forwarder" where
  "from_robot con packet w =
     (case c_string packet of
        None \<Rightarrow> on_enet (\<lambda>e. e\<lparr>undefined_behaviour := True\<rparr>) w
      | Some message \<Rightarrow>
          (case tcp_sendString con message (fw_server w) of
             None \<Rightarrow> w\<lparr>exited := True\<rparr>
           | Some sends \<Rightarrow> w\<lparr>to_operator := to_operator w @ sends\<rparr>))"

definition enet_service :: "(nat \<Rightarrow> con_state option) \<Rightarrow> int \<Rightarrow> enet_event \<Rightarrow> forwarder \<Rightarrow> forwarder" where
  "enet_service con ret ev w =
     (if ret < 0 then on_enet (\<lambda>e. e\<lparr>phase := Returned, client := Dangling, linked := False\<rparr>) w
      else
        let w = (case ev_type ev of
                   EV_CONNECT \<Rightarrow> on_enet (\<lambda>e. e\<lparr>linked := True\<rparr>) w
                 | EV_DISCONNECT \<Rightarrow> on_enet (\<lambda>e. e\<lparr>linked := False\<rparr>) w
                 | _ \<Rightarrow> w)
        in case (ev_type ev, ev_packet ev) of
             (EV_RECEIVE, Some packet) \<Rightarrow> from_robot con packet w
           | _ \<Rightarrow> w)"

text \<open>A step that is not the next of its thread does not happen.\<close>

definition fw_step :: "bool \<Rightarrow> (nat \<Rightarrow> con_state option) \<Rightarrow> forwarder \<Rightarrow> fw_step \<Rightarrow> forwarder" where
  "fw_step char_signed con w s =
     (if exited w \<or> undefined_behaviour (tapp (fw_server w)) then w
      else (case (s, phase (tapp (fw_server w))) of
          (Operator ev, _) \<Rightarrow> w\<lparr>fw_server := tcp_event char_signed (fw_server w) ev\<rparr>
        | (Enet_initialize rc, Starting) \<Rightarrow>
            on_enet (\<lambda>e. e\<lparr>phase := (if rc \<noteq> 0 then Returned else Initialised)\<rparr>) w
        | (Enet_host_create made, Initialised) \<Rightarrow>
            (if made then on_enet (\<lambda>e. e\<lparr>phase := Created, client := Valid\<rparr>) w else w\<lparr>exited := True\<rparr>)
        | (Enet_host_connect host port_typed found, Created) \<Rightarrow>
            (let w = on_enet (\<lambda>e. e\<lparr>address_host := ''localhost'', address_port := ucast port_typed\<rparr>) w
             in if found then on_enet (\<lambda>e. e\<lparr>phase := Servicing\<rparr>) w else w\<lparr>exited := True\<rparr>)
        | (Enet_host_service ret ev, Servicing) \<Rightarrow> enet_service con ret ev w
        | _ \<Rightarrow> w))"

definition fw_run :: "bool \<Rightarrow> (nat \<Rightarrow> con_state option) \<Rightarrow> forwarder \<Rightarrow> fw_step list \<Rightarrow> forwarder" where
  "fw_run char_signed con w steps = foldl (fw_step char_signed con) w steps"

subsection \<open>Lemmas\<close>

definition fw_registered :: "forwarder \<Rightarrow> bool" where
  "fw_registered w \<longleftrightarrow> tcp_registered (fw_server w) \<and> connectionHdls (fw_server w) = []
     \<and> onPacket (tcb (fw_server w)) = Some onIncomingPacket \<and> onMotionUpdate (tcb (fw_server w)) = None
     \<and> onMacro (tcb (fw_server w)) = None \<and> onDisconnectCallback (tcb (fw_server w)) = None"

lemma fw_registered_start: "fw_registered (fw_start n)"
  by (simp add: fw_registered_def fw_start_def tcp_new_def tcp_registered_def setPacketCallback_def no_callbacks_def Let_def)

lemma on_enet_keeps [simp]:
  "fw_registered (on_enet f w) = fw_registered w" "to_operator (on_enet f w) = to_operator w"
  "exited (on_enet f w) = exited w" "tapp (fw_server (on_enet f w)) = f (tapp (fw_server w))"
  by (simp_all add: on_enet_def fw_registered_def tcp_registered_def)

lemma fw_registered_fields [simp]:
  "fw_registered (w\<lparr>exited := b\<rparr>) = fw_registered w" "fw_registered (w\<lparr>to_operator := l\<rparr>) = fw_registered w"
  by (simp_all add: fw_registered_def)

lemma from_robot_silent:
  "fw_registered w \<Longrightarrow> fw_registered (from_robot con p w) \<and> to_operator (from_robot con p w) = to_operator w"
  by (auto simp: from_robot_def tcp_sendString_def fw_registered_def on_enet_def tcp_registered_def split: option.splits)

lemma enet_service_silent:
  "fw_registered w \<Longrightarrow> fw_registered (enet_service con ret ev w) \<and> to_operator (enet_service con ret ev w) = to_operator w"
  using from_robot_silent by (auto simp: enet_service_def Let_def split: enet_event_type.splits option.splits)

text \<open>What one operator event does to the ENet side.\<close>

fun operator_effect :: "enet_side \<Rightarrow> ws_event \<Rightarrow> enet_side" where
  "operator_effect e (Message hdl str) = onIncomingPacket (packet_data str) e"
| "operator_effect e _ = e"

lemma operator_event:
  assumes "fw_registered w"
  shows "tapp (tcp_event c (fw_server w) ev) = operator_effect (tapp (fw_server w)) ev"
  using assms by (cases ev) (auto simp: fw_registered_def tcp_registered_def tcp_bound_def tcp_onMessage_def
      tcp_onDisconnect_def call_decoded_def call_def Let_def split: decoded.split)

lemma operator_registered:
  assumes "fw_registered w"
  shows "fw_registered (w\<lparr>fw_server := tcp_event c (fw_server w) ev\<rparr>)"
  using assms tcp_registered_event [of "fw_server w" c ev] tcp_event_hdls [of "fw_server w" c ev]
  by (simp add: fw_registered_def tcp_handlers_kept)

lemma fw_step_silent:
  assumes "fw_registered w"
  shows "fw_registered (fw_step c con w s) \<and> to_operator (fw_step c con w s) = to_operator w"
  using assms operator_registered [OF assms] enet_service_silent [OF assms]
  by (cases s; cases "phase (tapp (fw_server w))") (auto simp: fw_step_def Let_def)

lemma fw_run_silent:
  "fw_registered w \<Longrightarrow> fw_registered (fw_run c con w steps) \<and> to_operator (fw_run c con w steps) = to_operator w"
  unfolding fw_run_def using fw_step_silent by (induction steps arbitrary: w) simp_all

text \<open>The messages among the operator's events.\<close>

fun operator_messages :: "ws_event list \<Rightarrow> bytes list" where
  "operator_messages (Message hdl str # evs) = str # operator_messages evs"
| "operator_messages (_ # evs) = operator_messages evs"
| "operator_messages [] = []"

text \<open>The forwarder while it is up: the connection to the robot stands.\<close>

definition fw_up :: "forwarder \<Rightarrow> bool" where
  "fw_up w \<longleftrightarrow> fw_registered w \<and> \<not> exited w \<and> \<not> undefined_behaviour (tapp (fw_server w))
     \<and> client (tapp (fw_server w)) = Valid \<and> linked (tapp (fw_server w))"

lemma fw_up_operator:
  assumes "fw_up w"
  shows "fw_up (fw_step c con w (Operator ev))
    \<and> to_robot (tapp (fw_server (fw_step c con w (Operator ev)))) = to_robot (tapp (fw_server w)) @ operator_messages [ev]"
  using assms operator_registered [of w c ev] operator_event [of w c ev]
  by (cases ev) (auto simp: fw_up_def fw_step_def onIncomingPacket_def packet_data_def)

text \<open>The answers of ENet that keep the connection: the loop goes on, the robot does not disconnect, and its
packets end in a zero octet. The calls before the loop are over.\<close>

fun link_kept :: "fw_step \<Rightarrow> bool" where
  "link_kept (Operator ev) = True"
| "link_kept (Enet_host_service ret ev) =
     (0 \<le> ret \<and> ev_type ev \<noteq> EV_DISCONNECT \<and> (\<forall>p \<in> set (event_packets ev). c_string p \<noteq> None))"
| "link_kept _ = False"

fun operator_events :: "fw_step list \<Rightarrow> ws_event list" where
  "operator_events (Operator ev # steps) = ev # operator_events steps"
| "operator_events (_ # steps) = operator_events steps"
| "operator_events [] = []"

lemma fw_up_from_robot:
  "fw_up w \<Longrightarrow> c_string p \<noteq> None \<Longrightarrow> fw_up (from_robot con p w) \<and> tapp (fw_server (from_robot con p w)) = tapp (fw_server w)"
  by (auto simp: from_robot_def tcp_sendString_def fw_up_def fw_registered_def)

lemma fw_up_service:
  assumes "fw_up w" and "link_kept (Enet_host_service ret ev)"
  shows "fw_up (fw_step c con w (Enet_host_service ret ev))
    \<and> to_robot (tapp (fw_server (fw_step c con w (Enet_host_service ret ev)))) = to_robot (tapp (fw_server w))"
proof (cases "phase (tapp (fw_server w)) = Servicing")
  case True
  then show ?thesis using assms fw_up_from_robot [OF assms(1)]
    by (cases "ev_type ev"; cases "ev_packet ev")
       (auto simp: fw_step_def enet_service_def Let_def event_packets_def fw_up_def)
next
  case False
  then show ?thesis using assms(1) by (cases "phase (tapp (fw_server w))") (auto simp: fw_step_def)
qed

lemma forward_all:
  assumes "fw_up w" and "list_all link_kept steps"
  shows "fw_up (fw_run c con w steps)
    \<and> to_robot (tapp (fw_server (fw_run c con w steps)))
      = to_robot (tapp (fw_server w)) @ operator_messages (operator_events steps)"
  using assms unfolding fw_run_def
proof (induction steps arbitrary: w)
  case (Cons x steps)
  show ?case
  proof (cases x)
    case (Operator ev)
    have "operator_messages (ev # operator_events steps) = operator_messages [ev] @ operator_messages (operator_events steps)"
      by (cases ev) simp_all
    then show ?thesis
      using fw_up_operator [OF Cons.prems(1), of c con ev] Cons.IH [of "fw_step c con w x"] Cons.prems(2) Operator by simp
  next
    case (Enet_host_service ret ev)
    then show ?thesis
      using fw_up_service [OF Cons.prems(1), of ret ev c con] Cons.IH [of "fw_step c con w x"] Cons.prems(2)
      by (simp del: link_kept.simps)
  qed (use Cons.prems(2) in simp_all)
qed simp

text \<open>A forwarder that has got as far as its loop and whose robot has answered.\<close>

definition fw_linked_steps :: "string \<Rightarrow> 32 word \<Rightarrow> fw_step list" where
  "fw_linked_steps host p = [Enet_initialize 0, Enet_host_create True, Enet_host_connect host p True,
     Enet_host_service 1 \<lparr>ev_type = EV_CONNECT, ev_peer = 0, ev_packet = None\<rparr>]"

lemma fw_run_append: "fw_run c con w (s # rest) = fw_run c con (fw_step c con w s) rest" "fw_run c con w [] = w"
  by (simp_all add: fw_run_def)

lemmas fw_eval = fw_step_def on_enet_def enet_service_def from_robot_def Let_def fw_start_def tcp_new_def
  setPacketCallback_def no_callbacks_def

lemma fw_linked:
  "fw_up (fw_run c con (fw_start n) (fw_linked_steps host p))"
  "to_robot (tapp (fw_server (fw_run c con (fw_start n) (fw_linked_steps host p)))) = []"
  using fw_run_silent [OF fw_registered_start, of c con n "fw_linked_steps host p"]
  unfolding fw_up_def by (simp_all add: fw_linked_steps_def fw_run_append fw_eval)

subsection \<open>Properties\<close>

text \<open>While the connection to the robot stands, every message of the operator becomes one packet to the
robot, unchanged and in order, and nothing else does, whatever the steps of the two threads interleave. A robot
program that receives these packets does what it would do on the operator's messages themselves.\<close>

theorem forwarder_is_transparent:
  assumes "fw_up w" and "list_all link_kept steps"
  shows "fw_up (fw_run c con w steps)
    \<and> to_robot (tapp (fw_server (fw_run c con w steps)))
      = to_robot (tapp (fw_server w)) @ operator_messages (operator_events steps)"
  by (rule forward_all) (rule assms)+

text \<open>C24. The forwarder and the robot behind it, for a run that starts once ENet's client stands connected to the
robot, and in which the loop of the ENet thread never fails, the robot does not disconnect and every packet of the
robot ends in a zero octet (outside such a run a message is dropped or is undefined behaviour, as
\<open>forwarder_races\<close> shows): however the steps of the ENet thread and the operator's connections interleave, when ENet
delivers exactly what was sent, the pins of a robot driven by its real controller are set as the abstract reading of
the operator's messages, in order, sets them.\<close>

theorem forwarder_drives_robot:
  assumes "fw_up w" and "list_all link_kept steps" and "to_robot (tapp (fw_server w)) = []" and "robot_ok st"
    and "ucb u = main_callbacks" and "uapp u = st"
    and "received net = to_robot (tapp (fw_server (fw_run c con w steps)))"
  shows "robot_ok (uapp (snd (udp_run net u)))
    \<and> robot_view_of (uapp (snd (udp_run net u))) = fold spec_message (operator_messages (operator_events steps)) (robot_view_of st)"
proof -
  have "received net = operator_messages (operator_events steps)" using forward_all [OF assms(1,2), of c con] assms(3,7) by simp
  then show ?thesis using main_messages_ok [OF assms(4)] assms(5,6) by (simp add: udp_run_effect)
qed

text \<open>Nothing the robot sends ever reaches the operator, whatever happens in whatever order: the server
stores no connection.\<close>

theorem forwarder_one_way: "to_operator (fw_run c con (fw_start n) steps) = []"
  using fw_run_silent [OF fw_registered_start] by (simp add: fw_start_def Let_def)

text \<open>The threads race: a message that comes before the ENet thread has made its client, or after a
service error has made it destroy it, is undefined behaviour, as is a packet of the robot without a zero
octet.\<close>

theorem forwarder_races:
  "undefined_behaviour (tapp (fw_server (fw_run c con (fw_start n) [Operator (Message 0 [1])])))
   \<and> undefined_behaviour (tapp (fw_server (fw_run c con (fw_start n)
       [Enet_initialize 0, Enet_host_create True, Enet_host_connect host p True,
        Enet_host_service (- 1) ev, Operator (Message 0 [1])])))
   \<and> undefined_behaviour (tapp (fw_server (fw_run c con (fw_start n)
       [Enet_initialize 0, Enet_host_create True, Enet_host_connect host p True,
        Enet_host_service 1 \<lparr>ev_type = EV_RECEIVE, ev_peer = 0, ev_packet = Some [0x10, 0x7F]\<rparr>])))"
  by (simp add: fw_run_append fw_eval tcp_bound_def tcp_onMessage_def call_def packet_data_def onIncomingPacket_def
      call_decoded_def c_string_def split: decoded.split)

text \<open>The host the user types is never used, and the port is cut to 16 bits.\<close>

theorem forwarder_ignores_host:
  assumes "phase (tapp (fw_server w)) = Created" and "\<not> exited w" and "\<not> undefined_behaviour (tapp (fw_server w))"
  shows "fw_step c con w (Enet_host_connect host p found) = fw_step c con w (Enet_host_connect ''localhost'' p found)
    \<and> unat (address_port (tapp (fw_server (fw_step c con w (Enet_host_connect host p found))))) = unat p mod 65536"
  using assms by (simp add: fw_eval unsigned_ucast_eq unsigned_take_bit_eq take_bit_eq_mod)

definition quiet :: enet_event where
  "quiet = \<lparr>ev_type = EV_NONE, ev_peer = 0, ev_packet = None\<rparr>"

theorem forwarder_is_transparent_witness:
  "to_robot (tapp (fw_server (fw_run True (\<lambda>_. None) (fw_run True (\<lambda>_. None) (fw_start 8080) (fw_linked_steps ''robot'' 9002))
      [Operator (Opened 0), Operator (Message 0 [0x10, 0x7F]), Enet_host_service 0 quiet, Operator (Message 0 [0x00, 0x00]),
       Operator (Closed 0)]))) = [[0x10, 0x7F], [0x00, 0x00]]"
  using forwarder_is_transparent [OF fw_linked(1), of "[Operator (Opened 0), Operator (Message 0 [0x10, 0x7F]),
      Enet_host_service 0 quiet, Operator (Message 0 [0x00, 0x00]), Operator (Closed 0)]" True "\<lambda>_. None" True "\<lambda>_. None" 8080 "''robot''" 9002]
    fw_linked(2) by (simp add: quiet_def event_packets_def)

theorem forwarder_drives_robot_witness:
  "\<exists>st. robot_ok st \<and> robot_view_of (uapp (snd (udp_run (map motion_event [[0x10, 0x7F], [0x00, 0x00]]) (idle_server st))))
      = fold spec_message [[0x10, 0x7F], [0x00, 0x00]] (robot_view_of st)"
proof -
  obtain c g where ok: "robot_ok (Some (Real c, g))" using robot_ok_exists by blast
  let ?w = "fw_run True (\<lambda>_. None) (fw_start 8080) (fw_linked_steps ''robot'' 9002)"
  let ?steps = "[Operator (Message 0 [0x10, 0x7F]), Enet_host_service 0 quiet, Operator (Message 0 [0x00, 0x00])]"
  have kept: "list_all link_kept ?steps" by (simp add: quiet_def event_packets_def)
  have net: "received (map motion_event [[0x10, 0x7F], [0x00, 0x00]])
      = to_robot (tapp (fw_server (fw_run True (\<lambda>_. None) ?w ?steps)))"
    using forward_all [OF fw_linked(1) kept, of True "\<lambda>_. None" True "\<lambda>_. None" 8080 "''robot''" 9002] fw_linked(2)
    by (simp add: motion_event_def)
  from forwarder_drives_robot [OF fw_linked(1) kept fw_linked(2) ok _ _ net, of "idle_server (Some (Real c, g))"] ok
  show ?thesis by (intro exI [of _ "Some (Real c, g)"]) (simp add: idle_server_def)
qed

theorem forwarder_ignores_host_witness:
  "unat (address_port (tapp (fw_server (fw_run True (\<lambda>_. None) (fw_start 8080)
     [Enet_initialize 0, Enet_host_create True, Enet_host_connect ''10.0.0.7'' 65537 True])))) = 1"
  using forwarder_ignores_host [of "fw_run True (\<lambda>_. None) (fw_start 8080) [Enet_initialize 0, Enet_host_create True]"
      True "\<lambda>_. None" "''10.0.0.7''" 65537 True]
  by (simp add: fw_run_append) (simp add: fw_eval)

end
