(* ===== verification/Buses.thy ===== *)
theory Buses imports Gpio begin

text \<open>
  What the two header-pin drivers \<open>src/JETGPIO/nano.c\<close> and \<open>src/JETGPIO/orin.c\<close> have in common: the table of
  interrupt functions with the loop of their threads, and the I2C and SPI buses. The drivers are copies of each
  other in these parts but for the numbers of the buses, so the state is a record both extend and each operation is
  defined from the point where that number is known. What the operating system answers is an argument of each
  operation; what the driver asks of it is appended to a list. A read or write through a pointer that is null,
  freed or outside its array is the value \<open>None\<close>.
\<close>

subsection \<open>State\<close>

text \<open>The timestamp variable of the program and its function are known by their addresses.\<close>

record isr_func =
  isr_stat_reg :: u32
  isr_gpio :: u32
  isr_edge :: u32
  isr_gpio_offset :: u32
  isr_timestamp :: u64
  isr_f :: u64
  isr_debounce :: u32

definition I2C_CLOSED :: u32 where "I2C_CLOSED = 0"
definition I2C_RESERVED :: u32 where "I2C_RESERVED = 1"
definition I2C_OPENED :: u32 where "I2C_OPENED = 2"

record i2c_info =
  i2c_state :: u32
  i2c_fd :: int
  i2c_addr :: u32
  i2c_flags :: u32
  i2c_funcs :: u32

definition SPI_CLOSED :: u32 where "SPI_CLOSED = 0"
definition SPI_RESERVED :: u32 where "SPI_RESERVED = 1"
definition SPI_OPENED :: u32 where "SPI_OPENED = 2"

record spi_info =
  spi_state :: u32
  spi_fd :: int
  spi_mode :: u32
  spi_speed :: u32
  spi_cs_delay :: u32
  spi_cs_change :: u32
  spi_bits_word :: u32

text \<open>The calls of the operating system that reach a device, a clock or a thread.\<close>

datatype os_call =
    Set_bus_rate u32 int
  | I2c_slave int u32
  | I2c_smbus int bool u8 nat u16
  | Spi_transfer int spi_info u32
  | Close_file int
  | Start_thread isr_func

record buses =
  ISRFunc_CFG :: "isr_func list"
  thread_n :: nat
  joined :: nat
  i2cInfo :: "i2c_info list"
  i2c_speed :: "int list"
  SpiInfo :: "spi_info list"
  j_calls :: "os_call list"

definition ask_os :: "os_call \<Rightarrow> 'a buses_scheme \<Rightarrow> 'a buses_scheme" where
  "ask_os call j = j\<lparr>j_calls := j_calls j @ [call]\<rparr>"

subsection \<open>Interrupts\<close>

definition RISING_EDGE :: u32 where "RISING_EDGE = 1"
definition FALLING_EDGE :: u32 where "FALLING_EDGE = 2"
definition EITHER_EDGE :: u32 where "EITHER_EDGE = 3"

text \<open>The end of \<open>gpioSetISRFunc\<close>: the record of the pin and the thread.\<close>

definition isr_register :: "int \<Rightarrow> isr_func \<Rightarrow> bool \<Rightarrow> 'a buses_scheme \<Rightarrow> (int \<times> 'a buses_scheme) option" where
  "isr_register status isr thread_ok j =
     (let slot = unat (isr_gpio isr) in
      if slot \<ge> length (ISRFunc_CFG j) then None
      else if isr_gpio (ISRFunc_CFG j ! slot) \<noteq> 0 then Some (-4, j)
      else
        let j = j\<lparr>ISRFunc_CFG := (ISRFunc_CFG j)[slot := isr]\<rparr>
        in if thread_n j \<ge> 28 then None
           else if \<not> thread_ok then Some (-5, j)
           else Some (status, ask_os (Start_thread isr) (j\<lparr>thread_n := thread_n j + 1\<rparr>)))"

text \<open>A read of the thread: an event with its time and its kind, or a failure, which ends it.\<close>

datatype isr_read = Event u64 u32 | Failed_read

text \<open>The loop of \<open>callback\<close>, on the reads up to the end of the thread: the times of the events the function of
the program is called for, and the timestamp it leaves.\<close>

fun isr_loop :: "u32 \<Rightarrow> u64 \<Rightarrow> isr_read list \<Rightarrow> u64 list \<times> u64" where
  "isr_loop debounce timestamp [] = ([], timestamp)"
| "isr_loop debounce timestamp (Failed_read # es) = ([], timestamp)"
| "isr_loop debounce timestamp (Event time kind # es) =
     (let (timestamp, kind) = (if time - timestamp > ucast (debounce * 100) then (time, kind) else (timestamp, 0));
          (calls, last) = isr_loop debounce timestamp es
      in (if kind = 1 \<or> kind = 2 then time # calls else calls, last))"

definition isr_callback :: "isr_func \<Rightarrow> bool \<Rightarrow> bool \<Rightarrow> isr_read list \<Rightarrow> u64 list \<times> u64" where
  "isr_callback int_struct chip_ok line_ok es =
     (if \<not> chip_ok \<or> \<not> line_ok then ([], 0) else isr_loop (isr_debounce int_struct) 0 es)"

subsection \<open>I2C\<close>

text \<open>What the system answers to \<open>i2cOpen\<close>: whether the file with the rate of the bus opens and what number it
holds, if it is one, the handle of the device, and the functions it has, if it tells.\<close>

record i2c_os =
  rate_file :: bool
  rate_read :: "int option"
  dev_fd :: int
  dev_funcs :: "u32 option"

text \<open>The constants of \<open>linux/i2c.h\<close> that the driver uses.\<close>

definition I2C_FUNC_SMBUS_READ_BYTE_DATA :: u32 where "I2C_FUNC_SMBUS_READ_BYTE_DATA = 0x00080000"
definition I2C_FUNC_SMBUS_WRITE_BYTE_DATA :: u32 where "I2C_FUNC_SMBUS_WRITE_BYTE_DATA = 0x00100000"
definition I2C_FUNC_SMBUS_READ_WORD_DATA :: u32 where "I2C_FUNC_SMBUS_READ_WORD_DATA = 0x00200000"
definition I2C_FUNC_SMBUS_WRITE_WORD_DATA :: u32 where "I2C_FUNC_SMBUS_WRITE_WORD_DATA = 0x00400000"
definition I2C_SMBUS_BYTE_DATA :: nat where "I2C_SMBUS_BYTE_DATA = 2"
definition I2C_SMBUS_WORD_DATA :: nat where "I2C_SMBUS_WORD_DATA = 3"

definition put_i2c :: "nat \<Rightarrow> (i2c_info \<Rightarrow> i2c_info) \<Rightarrow> 'a buses_scheme \<Rightarrow> 'a buses_scheme" where
  "put_i2c slot f j = j\<lparr>i2cInfo := (i2cInfo j)[slot := f (i2cInfo j ! slot)]\<rparr>"

definition i2c_rate :: "u32 \<Rightarrow> int" where
  "i2c_rate i2cFlags = (if i2cFlags = 0 then 100000 else if i2cFlags = 1 then 400000 else 1000000)"

text \<open>Opening and closing a bus, once its number is known. The handle of the file with the rate is null when it
does not open; \<open>fscanf\<close> follows it.\<close>

definition i2c_open_bus :: "u32 \<Rightarrow> u32 \<Rightarrow> i2c_os \<Rightarrow> 'a buses_scheme \<Rightarrow> (int \<times> 'a buses_scheme) option" where
  "i2c_open_bus i2cBus i2cFlags os j =
     (if \<not> (i2cFlags = 0 \<or> i2cFlags = 1 \<or> i2cFlags = 2) then Some (-2, j)
      else
        let speed = i2c_rate i2cFlags; slot = unat i2cBus in
        if i2c_state (i2cInfo j ! slot) \<noteq> I2C_CLOSED then Some (-3, j)
        else
          let j = put_i2c slot (\<lambda>i. i\<lparr>i2c_state := I2C_RESERVED\<rparr>) j in
          if \<not> rate_file os then None
          else
            let j = (case rate_read os of None \<Rightarrow> j | Some rate \<Rightarrow> j\<lparr>i2c_speed := (i2c_speed j)[slot := rate]\<rparr>);
                j = ask_os (Set_bus_rate i2cBus speed) j
            in if dev_fd os < 0 then Some (-4, j)
               else (case dev_funcs os of
                       None \<Rightarrow> Some (-6, j)
                     | Some funcs \<Rightarrow>
                         Some (int slot, put_i2c slot (\<lambda>i. i\<lparr>i2c_fd := dev_fd os, i2c_flags := i2cFlags, i2c_funcs := funcs,
                                                            i2c_state := I2C_OPENED\<rparr>) j)))"

definition i2c_close_bus :: "u32 \<Rightarrow> 'a buses_scheme \<Rightarrow> int \<times> 'a buses_scheme" where
  "i2c_close_bus handle j =
     (let slot = unat handle; i = i2cInfo j ! slot in
      if i2c_state i \<noteq> I2C_OPENED then (-2, j)
      else
        let j = (if i2c_fd i \<ge> 0 then ask_os (Close_file (i2c_fd i)) j else j);
            j = put_i2c slot (\<lambda>i. i\<lparr>i2c_fd := -1, i2c_state := I2C_CLOSED\<rparr>) j
        in (0, ask_os (Set_bus_rate handle (i2c_speed j ! slot)) j))"

text \<open>The tests of a transfer each set the status and go on: the last that fails decides.\<close>

definition last_error :: "(bool \<times> int) list \<Rightarrow> int" where
  "last_error tests = foldl (\<lambda>status (failed, code). if failed then code else status) 0 tests"

text \<open>The two calls of the device: its address on the bus, and the transfer, with the register cut to an octet.\<close>

definition i2c_transfer :: "nat \<Rightarrow> u32 \<Rightarrow> bool \<Rightarrow> u32 \<Rightarrow> nat \<Rightarrow> u16 \<Rightarrow> 'a buses_scheme \<Rightarrow> 'a buses_scheme" where
  "i2c_transfer slot i2cAddr is_read reg width dat j =
     (let j = put_i2c slot (\<lambda>i. i\<lparr>i2c_addr := i2cAddr\<rparr>) j; fd = i2c_fd (i2cInfo j ! slot)
      in ask_os (I2c_smbus fd is_read (ucast reg) width dat) (ask_os (I2c_slave fd i2cAddr) j))"

text \<open>\<open>bad\<close> is the test of the handle, which goes on like the others; a number beyond the array is \<open>None\<close>. A read
whose transfer succeeds with the value \<open>data\<close> returns it, whatever has failed before.\<close>

definition i2c_write_byte :: "bool \<Rightarrow> u32 \<Rightarrow> u32 \<Rightarrow> u32 \<Rightarrow> u32 \<Rightarrow> bool \<Rightarrow> bool \<Rightarrow> 'a buses_scheme \<Rightarrow> (int \<times> 'a buses_scheme) option" where
  "i2c_write_byte bad handle i2cAddr reg bVal slave_ok smbus_ok j =
     (if unat handle \<ge> length (i2cInfo j) then None
      else
        let i = i2cInfo j ! unat handle in
        Some (last_error [(bad, -1), (i2c_state i \<noteq> I2C_OPENED, -2), (i2cAddr > 0x7f, -3), (reg > 0xFF, -4), (bVal > 0xFF, -5),
                (\<not> slave_ok, -6), (i2c_funcs i AND I2C_FUNC_SMBUS_WRITE_BYTE_DATA = 0, -7), (\<not> smbus_ok, -8)],
              i2c_transfer (unat handle) i2cAddr False reg I2C_SMBUS_BYTE_DATA (ucast (ucast bVal :: u8)) j))"

definition i2c_write_word :: "bool \<Rightarrow> u32 \<Rightarrow> u32 \<Rightarrow> u32 \<Rightarrow> u32 \<Rightarrow> bool \<Rightarrow> bool \<Rightarrow> 'a buses_scheme \<Rightarrow> (int \<times> 'a buses_scheme) option" where
  "i2c_write_word bad handle i2cAddr reg wVal slave_ok smbus_ok j =
     (if unat handle \<ge> length (i2cInfo j) then None
      else
        let i = i2cInfo j ! unat handle in
        Some (last_error [(bad, -1), (i2c_state i \<noteq> I2C_OPENED, -2), (i2cAddr > 0x7f, -3), (reg > 0xFF, -4), (wVal > 0xFFFF, -5),
                (\<not> slave_ok, -6), (i2c_funcs i AND I2C_FUNC_SMBUS_WRITE_WORD_DATA = 0, -7), (\<not> smbus_ok, -8)],
              i2c_transfer (unat handle) i2cAddr False reg I2C_SMBUS_WORD_DATA (ucast wVal) j))"

definition i2c_read_byte :: "bool \<Rightarrow> u32 \<Rightarrow> u32 \<Rightarrow> u32 \<Rightarrow> bool \<Rightarrow> u8 option \<Rightarrow> 'a buses_scheme \<Rightarrow> (int \<times> 'a buses_scheme) option" where
  "i2c_read_byte bad handle i2cAddr reg slave_ok data j =
     (if unat handle \<ge> length (i2cInfo j) then None
      else
        let i = i2cInfo j ! unat handle in
        let status = last_error [(bad, -1), (i2c_state i \<noteq> I2C_OPENED, -2), (i2cAddr > 0x7f, -3), (reg > 0xFF, -4),
              (\<not> slave_ok, -5), (i2c_funcs i AND I2C_FUNC_SMBUS_READ_BYTE_DATA = 0, -6), (data = None, -7)] in
        Some (case data of None \<Rightarrow> status | Some byte \<Rightarrow> uint (0x0FF AND (ucast byte :: u32)),
              i2c_transfer (unat handle) i2cAddr True reg I2C_SMBUS_BYTE_DATA 0 j))"

definition i2c_read_word :: "bool \<Rightarrow> u32 \<Rightarrow> u32 \<Rightarrow> u32 \<Rightarrow> bool \<Rightarrow> u16 option \<Rightarrow> 'a buses_scheme \<Rightarrow> (int \<times> 'a buses_scheme) option" where
  "i2c_read_word bad handle i2cAddr reg slave_ok data j =
     (if unat handle \<ge> length (i2cInfo j) then None
      else
        let i = i2cInfo j ! unat handle in
        let status = last_error [(bad, -1), (i2c_state i \<noteq> I2C_OPENED, -2), (i2cAddr > 0x7f, -3), (reg > 0xFF, -4),
              (\<not> slave_ok, -5), (i2c_funcs i AND I2C_FUNC_SMBUS_READ_WORD_DATA = 0, -6), (data = None, -7)] in
        Some (case data of None \<Rightarrow> status | Some word \<Rightarrow> uint (0x0FFFF AND (ucast word :: u32)),
              i2c_transfer (unat handle) i2cAddr True reg I2C_SMBUS_WORD_DATA 0 j))"

subsection \<open>SPI\<close>

text \<open>What the system answers to \<open>spiOpen\<close>: whether the shell ran, the handle of the device, which of the eight
settings succeed, and what the device reads back, where the mode and two others are single octets.\<close>

record spi_os =
  shell_ok :: bool
  spidev_fd :: int
  settings_ok :: "nat \<Rightarrow> bool"
  read_mode :: u8
  read_bits :: u8
  read_speed :: u32

text \<open>An octet stored at the address of a word.\<close>

definition put_octet :: "u32 \<Rightarrow> u8 \<Rightarrow> u32" where
  "put_octet w b = (w AND NOT 0xFF) OR ucast b"

definition put_spi :: "nat \<Rightarrow> (spi_info \<Rightarrow> spi_info) \<Rightarrow> 'a buses_scheme \<Rightarrow> 'a buses_scheme" where
  "put_spi slot f j = j\<lparr>SpiInfo := (SpiInfo j)[slot := f (SpiInfo j ! slot)]\<rparr>"

text \<open>The eight settings in their order; the first that fails is returned.\<close>

definition spi_settings :: "spi_os \<Rightarrow> int option" where
  "spi_settings os = map_option (\<lambda>k. - 14 - int k) (find (\<lambda>k. \<not> settings_ok os k) [0..<8])"

text \<open>The tests of the arguments after the channel, in their order.\<close>

definition spi_tests :: "u32 \<Rightarrow> u32 \<Rightarrow> u32 \<Rightarrow> u32 \<Rightarrow> u32 \<Rightarrow> u32 \<Rightarrow> int option" where
  "spi_tests speed mode cs_delay bits_word lsb_first cs_change =
     (if speed > 50000000 then Some (-2)
      else if \<not> (mode = 0 \<or> mode = 1 \<or> mode = 2 \<or> mode = 3) then Some (-3)
      else if cs_delay > 1000 then Some (-5)
      else if bits_word > 32 then Some (-6)
      else if \<not> (lsb_first = 0 \<or> lsb_first = 1) then Some (-7)
      else if \<not> (cs_change = 0 \<or> cs_change = 1) then Some (-10)
      else None)"

text \<open>The end of \<open>spiOpen\<close>: the device, its settings and its record.\<close>

definition spi_open_device :: "nat \<Rightarrow> u32 \<Rightarrow> u32 \<Rightarrow> u32 \<Rightarrow> u32 \<Rightarrow> spi_os \<Rightarrow> 'a buses_scheme \<Rightarrow> int \<times> 'a buses_scheme" where
  "spi_open_device slot mode cs_delay bits_word cs_change os j =
     (if \<not> shell_ok os then (-12, j)
      else if spidev_fd os < 0 then (-13, j)
      else (case spi_settings os of
              Some error \<Rightarrow> (error, j)
            | None \<Rightarrow>
                (int slot, put_spi slot (\<lambda>i. i\<lparr>spi_fd := spidev_fd os, spi_mode := put_octet mode (read_mode os),
                  spi_speed := read_speed os, spi_cs_delay := cs_delay, spi_cs_change := cs_change,
                  spi_bits_word := put_octet bits_word (read_bits os), spi_state := SPI_OPENED\<rparr>) j)))"

text \<open>\<open>spiClose\<close> is the same in both; \<open>ret\<close> is what the system answers to a transfer, which takes the settings of
the handle.\<close>

definition spiClose :: "u32 \<Rightarrow> 'a buses_scheme \<Rightarrow> int \<times> 'a buses_scheme" where
  "spiClose handle j =
     (if handle > 1 then (-1, j)
      else
        let slot = unat handle; i = SpiInfo j ! slot in
        if spi_state i \<noteq> SPI_OPENED then (-2, j)
        else
          let j = (if spi_fd i \<ge> 0 then ask_os (Close_file (spi_fd i)) j else j)
          in (0, put_spi slot (\<lambda>i. i\<lparr>spi_fd := -1, spi_state := SPI_CLOSED\<rparr>) j))"

definition spi_transfer :: "u32 \<Rightarrow> u32 \<Rightarrow> int \<Rightarrow> 'a buses_scheme \<Rightarrow> int \<times> 'a buses_scheme" where
  "spi_transfer handle len ret j =
     (let i = SpiInfo j ! unat handle; j = ask_os (Spi_transfer (spi_fd i) i len) j
      in (if ret < 1 then -2 else ret, j))"

subsection \<open>Sequences of calls\<close>

text \<open>The calls a program makes between \<open>gpioInitialise\<close> and \<open>gpioTerminate\<close>. Those two are not among them: the first
sets every bus and channel to closed again.\<close>

datatype bus_op =
    Pins gpio_op
  | Isr u32 u32 u32 u64 u64 bool
  | I2cOpen u32 u32 i2c_os
  | I2cClose u32
  | I2cWriteByte u32 u32 u32 u32 bool bool
  | I2cWriteWord u32 u32 u32 u32 bool bool
  | I2cReadByte u32 u32 u32 bool "u8 option"
  | I2cReadWord u32 u32 u32 bool "u16 option"
  | SpiOpen u32 u32 u32 u32 u32 u32 u32 spi_os
  | SpiClose u32
  | SpiXfer u32 u32 int

fun run_with :: "('op \<Rightarrow> 's \<Rightarrow> (int \<times> 's) option) \<Rightarrow> 'op list \<Rightarrow> 's \<Rightarrow> 's option" where
  "run_with step [] j = Some j"
| "run_with step (x # xs) j = (case step x j of None \<Rightarrow> None | Some (_, j') \<Rightarrow> run_with step xs j')"

subsection \<open>Debouncing\<close>

definition event_list :: "(u64 \<times> u32) list \<Rightarrow> isr_read list" where
  "event_list evs = map (\<lambda>(t, k). Event t k) evs"

lemma unat_gap: "(d :: u32) \<le> 1000 \<Longrightarrow> unat (ucast (d * 100) :: u64) = unat d * 100"
proof -
  assume "d \<le> 1000"
  then have d: "unat d \<le> 1000" by (simp add: word_le_nat_alt)
  then have "unat (d * 100) = unat d * 100" by (simp add: unat_word_ariths)
  with d show ?thesis by (simp add: unsigned_ucast_eq take_bit_nat_eq_self)
qed

lemma later_test:
  assumes "(d :: u32) \<le> 1000" "unat (last_time :: u64) \<le> unat t"
  shows "t - last_time > ucast (d * 100) \<longleftrightarrow> unat last_time + unat d * 100 < unat t"
  using assms by (auto simp: word_less_nat_alt unat_gap unat_sub word_le_nat_alt)

text \<open>What a debounced line promises, from a last accepted time on: accepted events are more than \<open>gap\<close> apart, and
an event is only left out within \<open>gap\<close> after an accepted one.\<close>

definition debounced :: "nat \<Rightarrow> u64 \<Rightarrow> (u64 \<times> u32) list \<Rightarrow> u64 list \<Rightarrow> bool" where
  "debounced gap last_time evs calls \<longleftrightarrow>
     sorted_wrt (\<lambda>a b. unat a + gap < unat b) (last_time # calls)
     \<and> (\<forall>(t, k) \<in> set evs. t \<in> set calls
          \<or> (\<exists>a \<in> insert last_time (set calls). unat a \<le> unat t \<and> unat t \<le> unat a + gap))"

lemma debounced_accept:
  "debounced gap t evs calls \<Longrightarrow> unat T + gap < unat t \<Longrightarrow> debounced gap T ((t, k) # evs) (t # calls)"
  unfolding debounced_def by (auto dest: order_less_trans)

lemma debounced_drop:
  "debounced gap T evs calls \<Longrightarrow> unat T \<le> unat t \<Longrightarrow> \<not> unat T + gap < unat t \<Longrightarrow> debounced gap T ((t, k) # evs) calls"
  unfolding debounced_def by auto

lemma isr_loop_debounced:
  assumes "d \<le> 1000" "sorted (map (\<lambda>e. unat (fst e)) evs)"
    and "\<forall>e \<in> set evs. unat T \<le> unat (fst e) \<and> (snd e = 1 \<or> snd e = 2)"
  shows "debounced (unat d * 100) T evs (fst (isr_loop d T (event_list evs)))"
  using assms(2,3)
proof (induction evs arbitrary: T)
  case Nil
  then show ?case by (simp add: event_list_def debounced_def)
next
  case (Cons e evs)
  obtain t k where e: "e = (t, k)" by (cases e)
  have Tt: "unat T \<le> unat t" and k: "k = 1 \<or> k = 2" using Cons.prems(2) e by auto
  have ev: "event_list (e # evs) = Event t k # event_list evs" by (simp add: event_list_def e)
  show ?case
  proof (cases "unat T + unat d * 100 < unat t")
    case True
    then have "t - T > ucast (d * 100)" using later_test [OF assms(1) Tt] by blast
    then have "fst (isr_loop d T (event_list (e # evs))) = t # fst (isr_loop d t (event_list evs))"
      using k by (auto simp: ev split: prod.split)
    moreover have "debounced (unat d * 100) t evs (fst (isr_loop d t (event_list evs)))"
      using Cons e by auto
    ultimately show ?thesis using debounced_accept True by (simp add: e)
  next
    case False
    then have "\<not> t - T > ucast (d * 100)" using later_test [OF assms(1) Tt] by blast
    then have "fst (isr_loop d T (event_list (e # evs))) = fst (isr_loop d T (event_list evs))"
      by (auto simp: ev split: prod.split)
    moreover have "debounced (unat d * 100) T evs (fst (isr_loop d T (event_list evs)))"
      using Cons by auto
    ultimately show ?thesis using debounced_drop Tt False by (simp add: e)
  qed
qed

subsection \<open>What each operation leaves alone\<close>

lemma put_fields [simp]:
  "i2cInfo (put_spi k s j) = i2cInfo j" "i2cInfo (ask_os c j) = i2cInfo j"
  "i2c_speed (put_i2c k f j) = i2c_speed j" "i2c_speed (put_spi k s j) = i2c_speed j" "i2c_speed (ask_os c j) = i2c_speed j"
  "SpiInfo (put_i2c k f j) = SpiInfo j" "SpiInfo (ask_os c j) = SpiInfo j"
  "j_calls (put_i2c k f j) = j_calls j" "j_calls (put_spi k s j) = j_calls j" "j_calls (ask_os c j) = j_calls j @ [c]"
  "i2cInfo (put_i2c k f j) = (i2cInfo j)[k := f (i2cInfo j ! k)]"
  "SpiInfo (put_spi k s j) = (SpiInfo j)[k := s (SpiInfo j ! k)]"
  "joined (put_i2c k f j) = joined j" "joined (put_spi k s j) = joined j" "joined (ask_os c j) = joined j"
  "buses.more (put_i2c k f j) = buses.more j" "buses.more (put_spi k s j) = buses.more j"
  "buses.more (ask_os c j) = buses.more j"
  by (simp_all add: put_i2c_def put_spi_def ask_os_def)

lemma i2c_transfer_fields [simp]:
  "i2c_speed (i2c_transfer k a r g w v j) = i2c_speed j"
  "SpiInfo (i2c_transfer k a r g w v j) = SpiInfo j" "joined (i2c_transfer k a r g w v j) = joined j"
  "i2cInfo (i2c_transfer k a r g w v j) = (i2cInfo j)[k := (i2cInfo j ! k)\<lparr>i2c_addr := a\<rparr>]"
  "buses.more (i2c_transfer k a r g w v j) = buses.more j"
  by (simp_all add: i2c_transfer_def Let_def)

lemma nth_put: "(xs[a := v]) ! k = (if a = k \<and> k < length xs then v else xs ! k)"
  by (cases "a = k") (simp_all add: nth_list_update list_update_beyond)

lemmas i2c_states = I2C_CLOSED_def I2C_RESERVED_def I2C_OPENED_def
lemmas spi_states = SPI_CLOSED_def SPI_RESERVED_def SPI_OPENED_def

text \<open>A bus that is not closed stays as it is, with its rate, unless it is the one that is closed and it is open;
and so does an SPI channel.\<close>

definition keeps_i2c :: "nat option \<Rightarrow> 'a buses_scheme \<Rightarrow> 'a buses_scheme \<Rightarrow> bool" where
  "keeps_i2c closing j j' \<longleftrightarrow> length (i2cInfo j') = length (i2cInfo j)
     \<and> (\<forall>k < length (i2cInfo j). i2c_state (i2cInfo j ! k) \<noteq> I2C_CLOSED
          \<and> (closing \<noteq> Some k \<or> i2c_state (i2cInfo j ! k) = I2C_RESERVED)
        \<longrightarrow> i2c_state (i2cInfo j' ! k) = i2c_state (i2cInfo j ! k) \<and> i2c_speed j' ! k = i2c_speed j ! k)"

definition keeps_spi :: "nat option \<Rightarrow> 'a buses_scheme \<Rightarrow> 'a buses_scheme \<Rightarrow> bool" where
  "keeps_spi closing j j' \<longleftrightarrow> length (SpiInfo j') = length (SpiInfo j)
     \<and> (\<forall>k < length (SpiInfo j). spi_state (SpiInfo j ! k) \<noteq> SPI_CLOSED
          \<and> (closing \<noteq> Some k \<or> spi_state (SpiInfo j ! k) = SPI_RESERVED)
        \<longrightarrow> spi_state (SpiInfo j' ! k) = spi_state (SpiInfo j ! k))"

definition keeps :: "nat option \<Rightarrow> nat option \<Rightarrow> 'a buses_scheme \<Rightarrow> 'a buses_scheme \<Rightarrow> bool" where
  "keeps ci cs j j' \<longleftrightarrow> keeps_i2c ci j j' \<and> keeps_spi cs j j' \<and> joined j' = joined j"

lemma keeps_same:
  "i2cInfo j' = i2cInfo j \<Longrightarrow> i2c_speed j' = i2c_speed j \<Longrightarrow> SpiInfo j' = SpiInfo j \<Longrightarrow> joined j' = joined j \<Longrightarrow> keeps ci cs j j'"
  by (simp add: keeps_def keeps_i2c_def keeps_spi_def)

lemma isr_register_frame:
  "isr_register st isr ok j = Some (st', j') \<Longrightarrow>
     i2cInfo j' = i2cInfo j \<and> i2c_speed j' = i2c_speed j \<and> SpiInfo j' = SpiInfo j \<and> joined j' = joined j
     \<and> buses.more j' = buses.more j"
  by (auto simp: isr_register_def Let_def split: if_split_asm)

lemma i2c_open_keeps:
  assumes "i2c_open_bus b fl os j = Some (st, j')"
  shows "keeps ci cs j j' \<and> buses.more j' = buses.more j"
  using assms
  by (auto simp: i2c_open_bus_def Let_def keeps_def keeps_i2c_def keeps_spi_def nth_put i2c_states
      split: if_split_asm option.splits)

lemma i2c_close_keeps:
  assumes "i2c_close_bus h j = (st, j')"
  shows "keeps (Some (unat h)) cs j j' \<and> buses.more j' = buses.more j"
  using assms
  by (auto simp: i2c_close_bus_def Let_def keeps_def keeps_i2c_def keeps_spi_def nth_put i2c_states split: if_split_asm)

lemma spi_close_keeps:
  assumes "spiClose h j = (st, j')"
  shows "keeps ci (Some (unat h)) j j' \<and> (h > 1 \<longrightarrow> keeps ci None j j') \<and> buses.more j' = buses.more j"
  using assms
  by (auto simp: spiClose_def Let_def keeps_def keeps_i2c_def keeps_spi_def nth_put spi_states split: if_split_asm)

lemma i2c_transfer_keeps: "keeps ci cs j (i2c_transfer k a rd r w v j)"
  by (auto simp: keeps_def keeps_i2c_def keeps_spi_def nth_put)

lemma i2c_frames:
  "i2c_write_byte bad h a r v s k j = Some (st, j') \<Longrightarrow> keeps ci cs j j' \<and> buses.more j' = buses.more j"
  "i2c_write_word bad h a r v s k j = Some (st, j') \<Longrightarrow> keeps ci cs j j' \<and> buses.more j' = buses.more j"
  "i2c_read_byte bad h a r s b j = Some (st, j') \<Longrightarrow> keeps ci cs j j' \<and> buses.more j' = buses.more j"
  "i2c_read_word bad h a r s w j = Some (st, j') \<Longrightarrow> keeps ci cs j j' \<and> buses.more j' = buses.more j"
  by (auto simp: i2c_write_byte_def i2c_write_word_def i2c_read_byte_def i2c_read_word_def Let_def i2c_transfer_keeps
      split: if_split_asm)

lemma spi_transfer_frame: "spi_transfer h n r j = (st, j') \<Longrightarrow> keeps ci cs j j' \<and> buses.more j' = buses.more j"
  by (auto simp: spi_transfer_def Let_def keeps_same split: if_split_asm)

text \<open>A channel that was closed is reserved, the pins are taken by \<open>f\<close>, and the device is opened.\<close>

lemma spi_open_keeps:
  assumes "spi_state (SpiInfo j ! k) = SPI_CLOSED" "keeps None None (put_spi k (\<lambda>i. i\<lparr>spi_state := SPI_RESERVED\<rparr>) j) j1"
    and "SpiInfo j1 = SpiInfo (put_spi k (\<lambda>i. i\<lparr>spi_state := SPI_RESERVED\<rparr>) j)"
    and "spi_open_device k m d b x os j1 = (st, j')"
  shows "keeps ci cs j j' \<and> buses.more j' = buses.more j1"
  using assms
  by (auto simp: spi_open_device_def keeps_def keeps_i2c_def keeps_spi_def nth_put split: if_split_asm option.splits)

text \<open>What a failed and a successful opening leave.\<close>

lemma i2c_open_fails:
  assumes "i2c_open_bus b fl os j = Some (st, j')" "st = -4 \<or> st = -6" "unat b < length (i2cInfo j)"
  shows "i2c_state (i2cInfo j' ! unat b) = I2C_RESERVED \<and> length (i2cInfo j') = length (i2cInfo j)"
proof -
  have "uint b \<ge> 0" by simp
  then have "uint b \<noteq> -4" "uint b \<noteq> -6" by linarith+
  with assms show ?thesis by (auto simp: i2c_open_bus_def Let_def split: if_split_asm option.splits)
qed

lemma i2c_open_succeeds:
  assumes "i2c_open_bus b fl os j = Some (st, j')" "st \<ge> 0" "rate_read os = Some rate"
    and "unat b < length (i2cInfo j)" "unat b < length (i2c_speed j)"
  shows "i2c_state (i2cInfo j' ! unat b) = I2C_OPENED \<and> length (i2cInfo j') = length (i2cInfo j)
     \<and> i2c_speed j' ! unat b = rate"
  using assms by (auto simp: i2c_open_bus_def Let_def split: if_split_asm option.splits)

subsection \<open>A board\<close>

text \<open>The contract of a driver: which bus or channel a call may close, and that it keeps all the others.\<close>

locale board =
  fixes step :: "bus_op \<Rightarrow> 'a buses_scheme \<Rightarrow> (int \<times> 'a buses_scheme) option"
    and closes_i2c closes_spi :: "bus_op \<Rightarrow> nat option"
  assumes step_keeps: "step x j = Some (st, j') \<Longrightarrow> keeps (closes_i2c x) (closes_spi x) j j'"
begin

lemma run_joined: "run_with step xs j = Some j' \<Longrightarrow> joined j' = joined j"
  by (induction xs arbitrary: j) (auto simp: keeps_def dest: step_keeps split: option.splits)

lemma run_i2c:
  "run_with step xs j = Some j' \<Longrightarrow> k < length (i2cInfo j) \<Longrightarrow> i2c_state (i2cInfo j ! k) \<noteq> I2C_CLOSED \<Longrightarrow>
     (\<forall>x \<in> set xs. closes_i2c x \<noteq> Some k) \<or> i2c_state (i2cInfo j ! k) = I2C_RESERVED \<Longrightarrow>
     length (i2cInfo j') = length (i2cInfo j) \<and> i2c_state (i2cInfo j' ! k) = i2c_state (i2cInfo j ! k)
     \<and> i2c_speed j' ! k = i2c_speed j ! k"
proof (induction xs arbitrary: j)
  case Nil
  then show ?case by simp
next
  case (Cons x xs)
  from Cons.prems(1) obtain st j1 where 1: "step x j = Some (st, j1)" "run_with step xs j1 = Some j'"
    by (auto split: option.splits)
  have "keeps_i2c (closes_i2c x) j j1" using step_keeps [OF 1(1)] by (simp add: keeps_def)
  then have "length (i2cInfo j1) = length (i2cInfo j) \<and> i2c_state (i2cInfo j1 ! k) = i2c_state (i2cInfo j ! k)
     \<and> i2c_speed j1 ! k = i2c_speed j ! k"
    using Cons.prems(2-4) by (auto simp: keeps_i2c_def)
  with Cons.IH [OF 1(2)] Cons.prems(2-4) show ?case by auto
qed

lemma run_spi:
  "run_with step xs j = Some j' \<Longrightarrow> k < length (SpiInfo j) \<Longrightarrow> spi_state (SpiInfo j ! k) \<noteq> SPI_CLOSED \<Longrightarrow>
     (\<forall>x \<in> set xs. closes_spi x \<noteq> Some k) \<or> spi_state (SpiInfo j ! k) = SPI_RESERVED \<Longrightarrow>
     length (SpiInfo j') = length (SpiInfo j) \<and> spi_state (SpiInfo j' ! k) = spi_state (SpiInfo j ! k)"
proof (induction xs arbitrary: j)
  case Nil
  then show ?case by simp
next
  case (Cons x xs)
  from Cons.prems(1) obtain st j1 where 1: "step x j = Some (st, j1)" "run_with step xs j1 = Some j'"
    by (auto split: option.splits)
  have "keeps_spi (closes_spi x) j j1" using step_keeps [OF 1(1)] by (simp add: keeps_def)
  then have "length (SpiInfo j1) = length (SpiInfo j) \<and> spi_state (SpiInfo j1 ! k) = spi_state (SpiInfo j ! k)"
    using Cons.prems(2-4) by (auto simp: keeps_spi_def)
  with Cons.IH [OF 1(2)] Cons.prems(2-4) show ?case by auto
qed

lemma stuck:
  assumes "i2c_open_bus b fl os j = Some (st, j1)" "st = -4 \<or> st = -6" "unat b < length (i2cInfo j)"
    and "run_with step ops j1 = Some j2" and "fl' \<le> 2"
  shows "i2c_open_bus b fl' os' j2 = Some (-3, j2) \<and> i2c_close_bus b j2 = (-2, j2)"
proof -
  have "i2c_state (i2cInfo j2 ! unat b) = I2C_RESERVED"
    using i2c_open_fails [OF assms(1-3)] run_i2c [OF assms(4), of "unat b"] assms(3) by (auto simp: i2c_states)
  moreover have "unat fl' = 0 \<or> unat fl' = 1 \<or> unat fl' = 2" using assms(5) by (auto simp: word_le_nat_alt)
  then have "fl' = 0 \<or> fl' = 1 \<or> fl' = 2" by (auto simp: word_unat_eq_iff)
  ultimately show ?thesis by (auto simp: i2c_open_bus_def i2c_close_bus_def Let_def i2c_states)
qed

lemma rate_restored:
  assumes "i2c_open_bus b fl os j = Some (st, j1)" "st \<ge> 0" "rate_read os = Some rate"
    and "unat b < length (i2cInfo j)" "unat b < length (i2c_speed j)"
    and "run_with step ops j1 = Some j2" and "\<forall>x \<in> set ops. closes_i2c x \<noteq> Some (unat b)"
  shows "\<exists>j3. i2c_close_bus b j2 = (0, j3) \<and> last (j_calls j3) = Set_bus_rate b rate
     \<and> i2c_state (i2cInfo j3 ! unat b) = I2C_CLOSED"
proof -
  have "i2c_state (i2cInfo j2 ! unat b) = I2C_OPENED \<and> i2c_speed j2 ! unat b = rate \<and> unat b < length (i2cInfo j2)"
    using i2c_open_succeeds [OF assms(1-5)] run_i2c [OF assms(6), of "unat b"] assms(4,7) by (auto simp: i2c_states)
  then show ?thesis by (simp add: i2c_close_bus_def Let_def nth_put)
qed

end

lemma transfer_calls:
  "j_calls (i2c_transfer k a rd r w v j)
     = j_calls j @ [I2c_slave (i2c_fd (i2cInfo j ! k)) a, I2c_smbus (i2c_fd (i2cInfo j ! k)) rd (ucast r) w v]"
  by (simp add: i2c_transfer_def Let_def nth_put)

lemma cut_octet: "uint (0xFF AND (ucast (b :: u8) :: u32)) = uint b"
proof -
  have m: "(0xFF :: u32) = mask 8" by (simp add: mask_eq_exp_minus_1)
  have "(0xFF :: u32) AND ucast b = ucast b"
    unfolding m by (rule bit_word_eqI) (auto simp: bit_simps dest: bit_imp_le_length)
  moreover have "take_bit 32 (uint b) = uint b"
    using unsigned_less [of b, where ?'a = int] by (simp add: take_bit_int_eq_self_iff)
  ultimately show ?thesis by (simp add: unsigned_ucast_eq)
qed

subsection \<open>Concrete values\<close>

definition isr_free :: isr_func where
  "isr_free = \<lparr>isr_stat_reg = 0, isr_gpio = 0, isr_edge = 0, isr_gpio_offset = 0, isr_timestamp = 0, isr_f = 0, isr_debounce = 0\<rparr>"

definition i2c_idle :: i2c_info where
  "i2c_idle = \<lparr>i2c_state = I2C_CLOSED, i2c_fd = 0, i2c_addr = 0, i2c_flags = 0, i2c_funcs = 0\<rparr>"

definition spi_idle :: spi_info where
  "spi_idle = \<lparr>spi_state = SPI_CLOSED, spi_fd = 0, spi_mode = 0, spi_speed = 0, spi_cs_delay = 0, spi_cs_change = 0, spi_bits_word = 0\<rparr>"

definition i2c_os_ok :: i2c_os where
  "i2c_os_ok = \<lparr>rate_file = True, rate_read = Some 400000, dev_fd = 5, dev_funcs = Some 0x00780000\<rparr>"

definition spi_os_ok :: spi_os where
  "spi_os_ok = \<lparr>shell_ok = True, spidev_fd = 6, settings_ok = (\<lambda>_. True), read_mode = 0, read_bits = 8, read_speed = 1000000\<rparr>"

subsection \<open>Properties\<close>

text \<open>C25. On events in the order of their times the function of the program is called for events more than
  \<open>debounce * 100\<close> of their units apart, and an event is left out only within that time after an accepted one.\<close>

theorem callback_debounces:
  assumes "isr_debounce isr \<le> 1000" and "sorted (map (\<lambda>e. unat (fst e)) evs)"
    and "\<forall>e \<in> set evs. snd e = 1 \<or> snd e = 2"
  shows "debounced (unat (isr_debounce isr) * 100) 0 evs (fst (isr_callback isr True True (event_list evs)))"
  using isr_loop_debounced [OF assms(1,2), of 0] assms(3) by (simp add: isr_callback_def)

theorem callback_debounces_witness:
  "debounced 50000 0 [(60000, 1), (80000, 2), (120000, 1)] [60000, 120000]"
proof -
  have "fst (isr_callback (isr_free\<lparr>isr_debounce := 500\<rparr>) True True (event_list [(60000, 1), (80000, 2), (120000, 1)])) = [60000, 120000]"
    by (simp add: isr_callback_def isr_free_def event_list_def)
  with callback_debounces [of "isr_free\<lparr>isr_debounce := 500\<rparr>" "[(60000, 1), (80000, 2), (120000, 1)]"]
  show ?thesis by simp
qed

end
