(* ===== verification/GpioBus.thy ===== *)
theory GpioBus imports Buses begin

text \<open>
  The rest of the header-pin driver of the Nano, \<open>src/JETGPIO/nano.c\<close>: interrupts, I2C and SPI, on the operations
  of \<open>Buses\<close>. The globals of \<open>Gpio\<close> are one component of the state, beside the interrupt registers, the table of
  interrupt functions, the threads, and the two buses of each kind.
\<close>

record jetson = buses +
  j_gpio :: gpio
  INT_CLR :: "nat \<Rightarrow> u32"

subsection \<open>Start and end\<close>

text \<open>After the registers are mapped and saved both buses of each kind are closed and the 41 records of interrupt
functions are allocated; \<open>heap\<close> is what the allocated memory holds, which nothing clears.\<close>

definition jetson_initialise :: "os_answers \<Rightarrow> isr_func list \<Rightarrow> jetson \<Rightarrow> int \<times> jetson" where
  "jetson_initialise os heap j =
     (case gpioInitialise os (j_gpio j) of (status, g) \<Rightarrow>
        if status < 0 then (status, j)
        else (status, j\<lparr>j_gpio := g, ISRFunc_CFG := take 41 heap,
                i2cInfo := map (\<lambda>i. i\<lparr>i2c_state := I2C_CLOSED\<rparr>) (i2cInfo j),
                SpiInfo := map (\<lambda>i. i\<lparr>spi_state := SPI_CLOSED\<rparr>) (SpiInfo j)\<rparr>))"

text \<open>The threads are cancelled and joined before the registers are restored; a thread that has been joined
cannot be cancelled again.\<close>

definition jetson_terminate :: "jetson \<Rightarrow> jetson option" where
  "jetson_terminate j =
     (if joined j > 0 then None
      else map_option (\<lambda>g. j\<lparr>joined := thread_n j, j_gpio := g\<rparr>) (gpioTerminate (j_gpio j)))"

subsection \<open>Interrupts\<close>

text \<open>The line of each pin for the kernel, one row per \<open>case\<close>.\<close>

definition gpio_offsets :: "(u32 \<times> u32) list" where
  "gpio_offsets = [(3, 75), (5, 74), (7, 216), (8, 48), (10, 49), (11, 50), (12, 79), (13, 14), (15, 194), (16, 232),
     (18, 15), (19, 16), (21, 17), (22, 13), (23, 18), (24, 19), (26, 20), (27, 72), (28, 73), (29, 149), (31, 200),
     (32, 168), (33, 38), (35, 76), (36, 51), (37, 12), (38, 77), (40, 78)]"

text \<open>The level register. The test for a falling edge compares with 2 for pin 3 and with 0 for the others.\<close>

definition int_level :: "u32 \<Rightarrow> u32 \<Rightarrow> u32 \<Rightarrow> u32 \<Rightarrow> u32" where
  "int_level gpio edge x old =
     (if edge = 1 then old OR (x + x * 0x100)
      else if edge = (if gpio = 3 then 2 else 0) then (old OR x * 0x100) AND NOT x
      else old OR (x * 0x100 + x * 0x10000))"

definition set_interrupt :: "u32 \<Rightarrow> u32 \<Rightarrow> pin \<Rightarrow> jetson \<Rightarrow> jetson" where
  "set_interrupt gpio edge p j =
     (let x = line_mask (line p); g = j_gpio j in
      j\<lparr>j_gpio := g\<lparr>INT_LVL := (INT_LVL g)(port p := int_level gpio edge x (INT_LVL g (port p))),
                     INT_ENB := (INT_ENB g)(port p := INT_ENB g (port p) OR x)\<rparr>,
        INT_CLR := (INT_CLR j)(port p := INT_CLR j (port p) OR x)\<rparr>)"

text \<open>The records of \<open>ISRFunc_CFG\<close> are allocated between \<open>gpioInitialise\<close> and \<open>gpioTerminate\<close>.\<close>

definition gpioSetISRFunc :: "u32 \<Rightarrow> u32 \<Rightarrow> u32 \<Rightarrow> u64 \<Rightarrow> u64 \<Rightarrow> bool \<Rightarrow> jetson \<Rightarrow> (int \<times> jetson) option" where
  "gpioSetISRFunc gpio edge debounce timestamp f thread_ok j =
     (if mapping_state (j_gpio j) \<noteq> Mapped then None
      else
        let status = (if debounce > 1000 then -1 else 1);
            (status, x, gpio_offset, j) =
              (if edge = RISING_EDGE \<or> edge = FALLING_EDGE \<or> edge = EITHER_EDGE then
                 (case pin_lookup gpio of
                    None \<Rightarrow> (-2, 0, 0, j)
                  | Some p \<Rightarrow> (status, line_mask (line p), the (map_of gpio_offsets gpio), set_interrupt gpio edge p j))
               else (-3, 0, 0, j))
        in isr_register status \<lparr>isr_stat_reg = x, isr_gpio = gpio, isr_edge = edge, isr_gpio_offset = gpio_offset,
             isr_timestamp = timestamp, isr_f = f, isr_debounce = debounce\<rparr> thread_ok j)"

subsection \<open>I2C\<close>

definition i2cOpen :: "u32 \<Rightarrow> u32 \<Rightarrow> i2c_os \<Rightarrow> jetson \<Rightarrow> (int \<times> jetson) option" where
  "i2cOpen i2cBus i2cFlags os j =
     (if \<not> (i2cBus = 0 \<or> i2cBus = 1) then Some (-1, j) else i2c_open_bus i2cBus i2cFlags os j)"

definition i2cClose :: "u32 \<Rightarrow> jetson \<Rightarrow> int \<times> jetson" where
  "i2cClose handle j = (if handle > 1 then (-1, j) else i2c_close_bus handle j)"

definition i2cWriteByteData :: "u32 \<Rightarrow> u32 \<Rightarrow> u32 \<Rightarrow> u32 \<Rightarrow> bool \<Rightarrow> bool \<Rightarrow> jetson \<Rightarrow> (int \<times> jetson) option" where
  "i2cWriteByteData handle = i2c_write_byte (handle \<ge> 2) handle"

definition i2cWriteWordData :: "u32 \<Rightarrow> u32 \<Rightarrow> u32 \<Rightarrow> u32 \<Rightarrow> bool \<Rightarrow> bool \<Rightarrow> jetson \<Rightarrow> (int \<times> jetson) option" where
  "i2cWriteWordData handle = i2c_write_word (handle \<ge> 2) handle"

definition i2cReadByteData :: "u32 \<Rightarrow> u32 \<Rightarrow> u32 \<Rightarrow> bool \<Rightarrow> u8 option \<Rightarrow> jetson \<Rightarrow> (int \<times> jetson) option" where
  "i2cReadByteData handle = i2c_read_byte (handle \<ge> 2) handle"

definition i2cReadWordData :: "u32 \<Rightarrow> u32 \<Rightarrow> u32 \<Rightarrow> bool \<Rightarrow> u16 option \<Rightarrow> jetson \<Rightarrow> (int \<times> jetson) option" where
  "i2cReadWordData handle = i2c_read_word (handle \<ge> 2) handle"

subsection \<open>SPI\<close>

text \<open>The pins of each channel: their number, their pinmux and their pad configuration.\<close>

definition spi_pins :: "u32 \<Rightarrow> (u32 \<times> u32 \<times> u32) list" where
  "spi_pins spiChan =
     (if spiChan = 0 then
        [(19, 0xe200, 0xf0000000), (21, 0x0240, 0x00000000), (23, 0xe200, 0xf0000000), (24, 0xe200, 0xf0000000)]
      else [(37, 0xe200, 0xf0000000), (22, 0x0240, 0x00000000), (13, 0xe200, 0xf0000000), (18, 0xe200, 0xf0000000)])"

definition spi_pin :: "u32 \<times> u32 \<times> u32 \<Rightarrow> gpio \<Rightarrow> gpio" where
  "spi_pin row g =
     (case row of (n, mux, cfg) \<Rightarrow>
        (case pin_lookup n of
           None \<Rightarrow> g
         | Some p \<Rightarrow> g\<lparr>CNF := (CNF g)(port p := CNF g (port p) AND NOT (line_mask (line p))),
                        PINMUX := (PINMUX g)(mux_off p := mux), PINCFG := (PINCFG g)(cfg_off p := cfg)\<rparr>))"

definition spi_take_pins :: "u32 \<Rightarrow> gpio \<Rightarrow> gpio" where
  "spi_take_pins spiChan g =
     (let g = fold spi_pin (spi_pins spiChan) g
      in g\<lparr>pin_tracker := pin_tracker g OR line_mask (if spiChan = 0 then 29 else 30)\<rparr>)"

definition spiOpen :: "u32 \<Rightarrow> u32 \<Rightarrow> u32 \<Rightarrow> u32 \<Rightarrow> u32 \<Rightarrow> u32 \<Rightarrow> u32 \<Rightarrow> spi_os \<Rightarrow> jetson \<Rightarrow> (int \<times> jetson) option" where
  "spiOpen spiChan speed mode cs_delay bits_word lsb_first cs_change os j =
     (if \<not> (spiChan = 0 \<or> spiChan = 1) then Some (-1, j)
      else (case spi_tests speed mode cs_delay bits_word lsb_first cs_change of
              Some error \<Rightarrow> Some (error, j)
            | None \<Rightarrow>
                let slot = unat spiChan in
                if spi_state (SpiInfo j ! slot) \<noteq> SPI_CLOSED then Some (-11, j)
                else
                  let j = put_spi slot (\<lambda>i. i\<lparr>spi_state := SPI_RESERVED\<rparr>) j in
                  if mapping_state (j_gpio j) \<noteq> Mapped then None
                  else
                    let j = j\<lparr>j_gpio := spi_take_pins spiChan (j_gpio j)\<rparr> in
                    Some (spi_open_device slot mode cs_delay bits_word cs_change os j)))"

definition spiXfer :: "u32 \<Rightarrow> u32 \<Rightarrow> int \<Rightarrow> jetson \<Rightarrow> int \<times> jetson" where
  "spiXfer handle len ret j = (if handle > 1 then (-1, j) else spi_transfer handle len ret j)"

subsection \<open>Sequences of calls\<close>

fun bus_step :: "bus_op \<Rightarrow> jetson \<Rightarrow> (int \<times> jetson) option" where
  "bus_step (Pins x) j = map_option (\<lambda>(st, g). (st, j\<lparr>j_gpio := g\<rparr>)) (gpio_step x (j_gpio j))"
| "bus_step (Isr n e d t f ok) j = gpioSetISRFunc n e d t f ok j"
| "bus_step (I2cOpen b fl os) j = i2cOpen b fl os j"
| "bus_step (I2cClose h) j = Some (i2cClose h j)"
| "bus_step (I2cWriteByte h a r v s k) j = i2cWriteByteData h a r v s k j"
| "bus_step (I2cWriteWord h a r v s k) j = i2cWriteWordData h a r v s k j"
| "bus_step (I2cReadByte h a r s v) j = i2cReadByteData h a r s v j"
| "bus_step (I2cReadWord h a r s v) j = i2cReadWordData h a r s v j"
| "bus_step (SpiOpen c sp m d b l x os) j = spiOpen c sp m d b l x os j"
| "bus_step (SpiClose h) j = Some (spiClose h j)"
| "bus_step (SpiXfer h n r) j = Some (spiXfer h n r j)"

abbreviation bus_run :: "bus_op list \<Rightarrow> jetson \<Rightarrow> jetson option" where
  "bus_run \<equiv> run_with bus_step"

text \<open>The order the driver relies on: a frequency in range before the first duty cycle, and the mode of a pin
before its interrupt.\<close>

fun in_order :: "bool \<Rightarrow> u32 list \<Rightarrow> bus_op list \<Rightarrow> bool" where
  "in_order freq pins [] = True"
| "in_order freq pins (Pins (SetMode n m) # xs) = in_order freq (if m \<le> 1 then n # pins else pins) xs"
| "in_order freq pins (Pins (SetFreq n f) # xs) = in_order (freq \<or> 25 \<le> f \<and> f \<le> 187000) pins xs"
| "in_order freq pins (Pins (Pwm n d) # xs) = (freq \<and> in_order freq pins xs)"
| "in_order freq pins (Isr n e d t f ok # xs) = (n \<in> set pins \<and> in_order freq pins xs)"
| "in_order freq pins (_ # xs) = in_order freq pins xs"

subsection \<open>What each operation leaves alone\<close>

lemma more_kept: "buses.more j' = buses.more j \<Longrightarrow> j_gpio j' = j_gpio j \<and> INT_CLR j' = INT_CLR j" for j j' :: jetson
  by (cases j, cases j') simp

lemma put_gpio [simp]:
  "j_gpio (put_i2c k f j) = j_gpio j" "j_gpio (put_spi k s j) = j_gpio j" "j_gpio (ask_os c j) = j_gpio j"
  by (simp_all add: put_i2c_def put_spi_def ask_os_def)

lemma set_interrupt_frame:
  "keeps ci cs j (set_interrupt n e p j)" "j_gpio (set_interrupt n e p j) = (j_gpio j)
     \<lparr>INT_LVL := (INT_LVL (j_gpio j))(port p := int_level n e (line_mask (line p)) (INT_LVL (j_gpio j) (port p))),
      INT_ENB := (INT_ENB (j_gpio j))(port p := INT_ENB (j_gpio j) (port p) OR line_mask (line p))\<rparr>"
  by (auto simp: set_interrupt_def Let_def intro: keeps_same)

lemma isr_cases:
  assumes "gpioSetISRFunc n e d t f ok j = Some (st, j')"
  shows "keeps ci cs j j'
     \<and> (j_gpio j' = j_gpio j \<or> (\<exists>p. pin_lookup n = Some p \<and> j_gpio j' = j_gpio (set_interrupt n e p j)))"
  using assms
  by (auto simp: gpioSetISRFunc_def Let_def set_interrupt_def intro!: keeps_same
      split: if_split_asm option.splits dest!: isr_register_frame more_kept)

lemma spiOpen_frame:
  assumes "spiOpen c sp m d b l x os j = Some (st, j')"
  shows "keeps ci cs j j' \<and> (j_gpio j' = j_gpio j \<or> (c = 0 \<or> c = 1) \<and> j_gpio j' = spi_take_pins c (j_gpio j))"
proof (cases "c = 0 \<or> c = 1")
  case True
  let ?j1 = "(put_spi (unat c) (\<lambda>i. i\<lparr>spi_state := SPI_RESERVED\<rparr>) j)\<lparr>j_gpio := spi_take_pins c (j_gpio j)\<rparr>"
  have k: "keeps None None (put_spi (unat c) (\<lambda>i. i\<lparr>spi_state := SPI_RESERVED\<rparr>) j) ?j1" by (rule keeps_same) simp_all
  from assms True consider "j' = j"
    | "spi_state (SpiInfo j ! unat c) = SPI_CLOSED" "spi_open_device (unat c) m d b x os ?j1 = (st, j')"
    by (auto simp: spiOpen_def Let_def split: if_split_asm option.splits)
  then show ?thesis
  proof cases
    case 1
    then show ?thesis by (simp add: keeps_same)
  next
    case 2
    from spi_open_keeps [OF 2(1) k _ 2(2), of ci cs] have "keeps ci cs j j'" "buses.more j' = buses.more ?j1" by auto
    with more_kept [OF this(2)] True show ?thesis by simp
  qed
next
  case False
  with assms show ?thesis by (auto simp: spiOpen_def keeps_same)
qed

definition closes_i2c :: "bus_op \<Rightarrow> nat option" where
  "closes_i2c x = (case x of I2cClose h \<Rightarrow> Some (unat h) | _ \<Rightarrow> None)"

definition closes_spi :: "bus_op \<Rightarrow> nat option" where
  "closes_spi x = (case x of SpiClose h \<Rightarrow> Some (unat h) | _ \<Rightarrow> None)"

lemmas nano_calls = i2cOpen_def i2cClose_def i2cWriteByteData_def i2cWriteWordData_def i2cReadByteData_def
  i2cReadWordData_def spiXfer_def

text \<open>Calls on a bus leave the pins alone.\<close>

lemma bus_step_frame:
  assumes "bus_step x j = Some (st, j')" "\<And>y. x \<noteq> Pins y" "\<And>n e d t f ok. x \<noteq> Isr n e d t f ok"
    and "\<And>c sp m d b l z os. x \<noteq> SpiOpen c sp m d b l z os"
  shows "j_gpio j' = j_gpio j"
proof (cases x)
  case (Isr n e d t f ok)
  with assms(3) show ?thesis by blast
next
  case (SpiOpen c sp m d b l z os)
  with assms(4) show ?thesis by blast
qed (use assms(1,2) in \<open>auto simp: nano_calls split: if_split_asm
      dest!: i2c_open_keeps i2c_close_keeps i2c_frames spi_close_keeps spi_transfer_frame more_kept\<close>)

interpretation nano_board: board bus_step closes_i2c closes_spi
proof
  fix x j st j'
  assume s: "bus_step x j = Some (st, j')"
  show "keeps (closes_i2c x) (closes_spi x) j j'"
  proof (cases x)
    case (Isr n e d t f ok)
    then show ?thesis using s isr_cases by simp
  next
    case (SpiOpen c sp m d b l z os)
    then show ?thesis using s spiOpen_frame by simp
  qed (use s in \<open>auto simp: closes_i2c_def closes_spi_def nano_calls keeps_same split: if_split_asm
      dest: i2c_open_keeps i2c_close_keeps i2c_frames spi_close_keeps spi_transfer_frame\<close>)
qed

subsection \<open>Restoring the registers\<close>

lemma restorable_tracker: "restorable g0 g \<Longrightarrow> restorable g0 (g\<lparr>pin_tracker := pin_tracker g OR m\<rparr>)"
  by (auto simp: restorable_def saved_from_def intro: covered_or bit28_or)

lemma restorable_upd:
  assumes "restorable g0 g" "p \<in> set pin_table" "tracked (pin_tracker g) p"
  shows "restorable g0 (g\<lparr>INT_LVL := (INT_LVL g)(port p := a), INT_ENB := (INT_ENB g)(port p := b)\<rparr>)"
    and "restorable g0 (g\<lparr>CNF := (CNF g)(port p := c), PINMUX := (PINMUX g)(mux_off p := d), PINCFG := (PINCFG g)(cfg_off p := e)\<rparr>)"
  using assms unfolding restorable_def saved_from_def by (auto intro: covered_upd)

lemma spi_pin_tracker: "spi_pin row (g\<lparr>pin_tracker := t\<rparr>) = (spi_pin row g)\<lparr>pin_tracker := t\<rparr>"
  by (auto simp: spi_pin_def split: prod.splits option.splits)

lemma spi_pins_tracker: "fold spi_pin rows (g\<lparr>pin_tracker := t\<rparr>) = (fold spi_pin rows g)\<lparr>pin_tracker := t\<rparr>"
  by (induction rows arbitrary: g) (simp_all add: spi_pin_tracker)

lemma spi_pin_kept: "pin_tracker (spi_pin row g) = pin_tracker g"
  by (auto simp: spi_pin_def split: prod.splits option.splits)

lemma spi_pins_kept: "pin_tracker (fold spi_pin rows g) = pin_tracker g"
  by (induction rows arbitrary: g) (simp_all add: spi_pin_kept)

lemma spi_pins_mapped: "mapping_state (fold spi_pin rows g) = mapping_state g"
proof -
  have "mapping_state (spi_pin row g) = mapping_state g" for row g
    by (auto simp: spi_pin_def split: prod.splits option.splits)
  then show ?thesis by (induction rows arbitrary: g) simp_all
qed

lemma spi_pins_restorable:
  assumes "restorable g0 g"
    and "\<And>n mux cfg p. (n, mux, cfg) \<in> set rows \<Longrightarrow> pin_lookup n = Some p \<Longrightarrow> tracked (pin_tracker g) p"
  shows "restorable g0 (fold spi_pin rows g)"
  using assms
proof (induction rows arbitrary: g)
  case Nil
  then show ?case by simp
next
  case (Cons row rows)
  obtain n mux cfg where row: "row = (n, mux, cfg)" by (cases row)
  have 1: "restorable g0 (spi_pin row g)"
    using Cons.prems restorable_upd(2) [OF Cons.prems(1)] pin_lookup_SomeD
    by (fastforce simp: row spi_pin_def split: option.split)
  have "restorable g0 (fold spi_pin rows (spi_pin row g))"
    by (rule Cons.IH [OF 1]) (use Cons.prems(2) in \<open>force simp: spi_pin_kept\<close>)
  then show ?case by simp
qed

lemma spi_take_restorable:
  assumes "restorable g0 g" "c = 0 \<or> c = 1"
  shows "restorable g0 (spi_take_pins c g)"
proof -
  let ?m = "line_mask (if c = 0 then 29 else 30)"
  let ?g = "g\<lparr>pin_tracker := pin_tracker g OR ?m\<rparr>"
  have "spi_take_pins c g = fold spi_pin (spi_pins c) ?g"
    by (simp add: spi_take_pins_def Let_def spi_pins_tracker spi_pins_kept)
  moreover have "tracked (pin_tracker ?g) p" if "(n, mux, cfg) \<in> set (spi_pins c)" "pin_lookup n = Some p" for n mux cfg p
    using that assms(2)
    by (auto simp: spi_pins_def pin_lookup_def pin_table_def tracked_def bit_or_iff bit_line_mask split: if_splits)
  ultimately show ?thesis
    using spi_pins_restorable [OF restorable_tracker [OF assms(1)]] by metis
qed

text \<open>What the order has established: the tracker has the bit of the PWM channels, and those of the pins named.\<close>

definition prepared :: "bool \<Rightarrow> u32 list \<Rightarrow> u32 \<Rightarrow> bool" where
  "prepared freq pins t \<longleftrightarrow>
     (freq \<longrightarrow> bit t 28) \<and> (\<forall>n \<in> set pins. \<forall>p. pin_lookup n = Some p \<longrightarrow> tracked t p)"

lemma prepared_or: "prepared freq pins t \<Longrightarrow> prepared freq pins (t OR m)"
  by (auto simp: prepared_def intro: bit28_or tracked_or)

lemma tracked_mono: "tracked t p \<Longrightarrow> (\<And>k. bit t k \<Longrightarrow> bit t' k) \<Longrightarrow> tracked t' p"
  by (auto simp: tracked_def split: option.splits)

lemma prepared_mono:
  "prepared freq pins t \<Longrightarrow> (\<And>k. bit t k \<Longrightarrow> bit t' k) \<Longrightarrow> prepared freq pins t'"
  unfolding prepared_def using tracked_mono [of t _ t'] by blast

lemma set_mode_tracked:
  assumes "gpio_step (SetMode n m) g = Some (st, g')" "m \<le> 1" "pin_lookup n = Some p"
  shows "tracked (pin_tracker g') p"
proof -
  have "unat m = 0 \<or> unat m = 1" using assms(2) by (auto simp: word_le_nat_alt)
  then have "m = 0 \<or> m = 1" by (auto simp: word_unat_eq_iff)
  then show ?thesis
    using assms pin_lookup_SomeD [OF assms(3)]
    by (auto simp: gpioSetMode_def intro: tracked_self split: if_split_asm)
qed

lemma pins_step_prepared:
  assumes "prepared freq pins (pin_tracker g)" "gpio_step x g = Some (st, g')"
    and "in_order freq pins (Pins x # xs)" and "restorable g0 g"
  shows "restorable g0 g' \<and> (\<exists>freq' pins'. prepared freq' pins' (pin_tracker g') \<and> in_order freq' pins' xs)"
proof -
  have r: "restorable g0 g'"
    by (rule gpio_step_restorable [OF assms(4,2)]) (use assms(1,3) in \<open>auto simp: prepared_def\<close>)
  have kept: "prepared freq pins (pin_tracker g')"
    by (rule prepared_mono [OF assms(1)]) (rule step_tracker_mono [OF assms(2)])
  show ?thesis
  proof (cases x)
    case (SetMode n m)
    have "prepared freq (if m \<le> 1 then n # pins else pins) (pin_tracker g')"
      using kept set_mode_tracked assms(2) SetMode by (auto simp: prepared_def)
    with r assms(3) SetMode show ?thesis by (auto simp del: gpio_step.simps)
  next
    case (SetFreq n f)
    have "prepared (freq \<or> 25 \<le> f \<and> f \<le> 187000) pins (pin_tracker g')"
      using kept setfreq_tracker [of n f g st g'] assms(2) SetFreq by (auto simp: prepared_def)
    with r assms(3) SetFreq show ?thesis by (auto simp del: gpio_step.simps)
  qed (use r kept assms(3) in \<open>auto intro!: exI [of _ freq] exI [of _ pins]\<close>)
qed

lemma bus_step_prepared:
  assumes "prepared freq pins (pin_tracker (j_gpio j))" "bus_step x j = Some (st, j')"
    and "in_order freq pins (x # xs)" and "restorable g0 (j_gpio j)"
  shows "restorable g0 (j_gpio j') \<and> (\<exists>freq' pins'. prepared freq' pins' (pin_tracker (j_gpio j')) \<and> in_order freq' pins' xs)"
proof (cases x)
  case (Pins y)
  then show ?thesis using assms pins_step_prepared [of freq pins "j_gpio j" y st "j_gpio j'"] by auto
next
  case (Isr n e d t f ok)
  have n: "n \<in> set pins" and xs: "in_order freq pins xs" using assms(3) Isr by auto
  have "restorable g0 (j_gpio j') \<and> pin_tracker (j_gpio j') = pin_tracker (j_gpio j)"
    using isr_cases [of n e d t f ok j st j'] assms(1,2,4) n Isr restorable_upd(1) pin_lookup_SomeD
    by (fastforce simp: set_interrupt_frame prepared_def)
  with assms(1) xs show ?thesis by metis
next
  case (SpiOpen c sp m d b l z os)
  then have "j_gpio j' = j_gpio j \<or> (c = 0 \<or> c = 1) \<and> j_gpio j' = spi_take_pins c (j_gpio j)"
    using spiOpen_frame [of c sp m d b l z os j st j'] assms(2) by simp
  moreover have "prepared freq pins (pin_tracker (spi_take_pins c (j_gpio j)))"
    using prepared_or [OF assms(1)] by (simp add: spi_take_pins_def Let_def spi_pins_kept)
  ultimately have "restorable g0 (j_gpio j') \<and> prepared freq pins (pin_tracker (j_gpio j'))"
    using spi_take_restorable [OF assms(4)] assms(1,4) by metis
  with assms(3) SpiOpen show ?thesis by auto
qed (use assms bus_step_frame [OF assms(2)] in \<open>auto simp del: bus_step.simps intro!: exI [of _ freq] exI [of _ pins]\<close>)

lemma bus_run_restorable:
  "restorable g0 (j_gpio j) \<Longrightarrow> prepared freq pins (pin_tracker (j_gpio j)) \<Longrightarrow> in_order freq pins xs \<Longrightarrow>
     bus_run xs j = Some j' \<Longrightarrow> restorable g0 (j_gpio j')"
proof (induction xs arbitrary: j freq pins)
  case Nil
  then show ?case by simp
next
  case (Cons x xs)
  from Cons.prems(4) obtain st j1 where 1: "bus_step x j = Some (st, j1)" "bus_run xs j1 = Some j'"
    by (auto split: option.splits)
  from bus_step_prepared [OF Cons.prems(2) 1(1) Cons.prems(3,1)] Cons.IH 1(2) show ?case by blast
qed

text \<open>The registers the driver saves and puts back: not the levels OUT, nor the interrupt-clear register INT_CLR.\<close>

definition registers_back :: "gpio \<Rightarrow> gpio \<Rightarrow> bool" where
  "registers_back g0 g \<longleftrightarrow> CNF g = CNF g0 \<and> OE g = OE g0 \<and> INT_ENB g = INT_ENB g0 \<and> INT_LVL g = INT_LVL g0
     \<and> PINMUX g = PINMUX g0 \<and> PINCFG g = PINCFG g0 \<and> PWM_0 g = PWM_0 g0 \<and> PWM_2 g = PWM_2 g0"

lemma unat_bus: "(b :: u32) = 0 \<or> b = 1 \<Longrightarrow> unat b < 2"
  by auto

subsection \<open>Concrete states\<close>

definition jetson_boot :: jetson where
  "jetson_boot = \<lparr>ISRFunc_CFG = [], thread_n = 0, joined = 0, i2cInfo = [i2c_idle, i2c_idle], i2c_speed = [0, 0],
     SpiInfo = [spi_idle, spi_idle], j_calls = [], j_gpio = gpio_boot, INT_CLR = (\<lambda>_. 0)\<rparr>"

definition jetson_up :: jetson where
  "jetson_up = snd (jetson_initialise os_root (replicate 41 isr_free) jetson_boot)"

lemma jetson_up_eq:
  "jetson_up = jetson_boot\<lparr>j_gpio := gpio_up, ISRFunc_CFG := replicate 41 isr_free\<rparr>"
  by (simp add: jetson_up_def jetson_initialise_def jetson_boot_def gpio_up_init i2c_idle_def spi_idle_def)

lemma jetson_up_init: "jetson_initialise os_root (replicate 41 isr_free) jetson_boot = (1, jetson_up)"
  by (simp add: jetson_up_def jetson_initialise_def jetson_boot_def gpio_up_init)

subsection \<open>Properties\<close>

text \<open>C14. After a successful start, and before any thread has been joined, a program may make any calls on the pins,
  the PWM channels, the interrupts and both kinds of buses in any order but for two conditions (\<open>in_order\<close>): a frequency
  in range is set before the first duty cycle, and the mode of a pin before its interrupt. Then \<open>gpioTerminate\<close> puts
  back the registers CNF, OE, INT_ENB and INT_LVL, the pinmux and pad registers and those of the two PWM channels
  (\<open>registers_back\<close>). The levels in OUT and the interrupt-clear register INT_CLR are not among them: the driver saves
  neither. Without the condition on interrupts it is false (\<open>interrupt_not_undone\<close>).\<close>

theorem bus_terminate_restores:
  assumes "jetson_initialise os heap j0 = (1, j1)" and "joined j0 = 0"
    and "bus_run ops j1 = Some j2" and "in_order False [] ops"
  shows "\<exists>j3. jetson_terminate j2 = Some j3 \<and> registers_back (j_gpio j0) (j_gpio j3)"
proof -
  have "restorable (j_gpio j0) (j_gpio j1) \<and> joined j1 = 0"
    using assms(1,2) gpioInitialise_cases [of os "j_gpio j0"]
    by (auto simp: jetson_initialise_def split: prod.splits if_split_asm)
  then have "restorable (j_gpio j0) (j_gpio j2)" "joined j2 = 0"
    using bus_run_restorable [of "j_gpio j0" j1 False "[]" ops j2] nano_board.run_joined assms(3,4)
    by (auto simp: prepared_def)
  from terminate_restorable [OF this(1)] this(2) show ?thesis
    by (auto simp: jetson_terminate_def registers_back_def)
qed

text \<open>C27. An \<open>i2cOpen\<close> whose device does not open or does not answer leaves the bus reserved: whatever calls on pins,
  interrupts and buses come next (\<open>bus_op\<close> has them all but \<open>gpioInitialise\<close> and \<open>gpioTerminate\<close>), opening the bus
  answers that it is open already and closing it that it is closed. Only another successful \<open>gpioInitialise\<close> closes it.\<close>

theorem failed_open_sticks:
  assumes "i2cOpen bus fl os j = Some (st, j1)" and "st = -4 \<or> st = -6" and "length (i2cInfo j) = 2"
    and "bus_run ops j1 = Some j2" and "fl' \<le> 2"
  shows "i2cOpen bus fl' os' j2 = Some (-3, j2) \<and> i2cClose bus j2 = (-2, j2)
    \<and> (jetson_initialise start heap j2 = (1, j3) \<longrightarrow> i2c_state (i2cInfo j3 ! unat bus) = I2C_CLOSED)"
proof -
  have b: "bus = 0 \<or> bus = 1" using assms(1,2) by (auto simp: i2cOpen_def split: if_split_asm)
  then have o: "i2c_open_bus bus fl os j = Some (st, j1)" "unat bus < length (i2cInfo j)"
    using assms(1,3) by (auto simp: i2cOpen_def)
  have "length (i2cInfo j2) = 2" using i2c_open_fails [OF o(1) assms(2) o(2)] nano_board.run_i2c [OF assms(4), of "unat bus"] assms(3) o(2)
    by (simp add: i2c_states)
  then have "jetson_initialise start heap j2 = (1, j3) \<longrightarrow> i2c_state (i2cInfo j3 ! unat bus) = I2C_CLOSED"
    using b by (auto simp: jetson_initialise_def split: prod.splits if_split_asm)
  with nano_board.stuck [OF o(1) assms(2) o(2) assms(4,5), of os'] b show ?thesis
    by (auto simp: i2cOpen_def i2cClose_def)
qed

text \<open>C26. Closing a bus sets the rate it had when it was opened, whatever was called in between on any pin or bus,
  and leaves it closed.\<close>

theorem close_restores_rate:
  assumes "i2cOpen bus fl os j = Some (st, j1)" and "st \<ge> 0" and "rate_read os = Some rate"
    and "length (i2cInfo j) = 2" "length (i2c_speed j) = 2"
    and "bus_run ops j1 = Some j2" and "I2cClose bus \<notin> set ops"
  shows "\<exists>j3. i2cClose bus j2 = (0, j3) \<and> last (j_calls j3) = Set_bus_rate bus rate
     \<and> i2c_state (i2cInfo j3 ! unat bus) = I2C_CLOSED"
proof -
  have b: "bus = 0 \<or> bus = 1" using assms(1,2) by (auto simp: i2cOpen_def split: if_split_asm)
  have "\<forall>x \<in> set ops. closes_i2c x \<noteq> Some (unat bus)"
    using assms(7) by (auto simp: closes_i2c_def word_unat_eq_iff [symmetric] split: bus_op.splits)
  with nano_board.rate_restored [OF _ assms(2,3) _ _ assms(6), of bus fl j] b assms(1,4,5) show ?thesis
    by (auto simp: i2cOpen_def i2cClose_def)
qed

text \<open>C29. A write of an octet over I2C answers 0 exactly when every test passes, and a read answers the octet read,
  or -7 when the transfer fails, whatever other test has failed. The device is asked in every case, with the register
  and the value cut to an octet.\<close>

theorem i2c_transfer_status:
  assumes "h < 2" and "length (i2cInfo j) = 2" and "i = i2cInfo j ! unat h"
  shows "(\<exists>st j'. i2cWriteByteData h a r v slave_ok smbus_ok j = Some (st, j')
      \<and> (st = 0 \<longleftrightarrow> i2c_state i = I2C_OPENED \<and> a \<le> 0x7F \<and> r \<le> 0xFF \<and> v \<le> 0xFF \<and> slave_ok
           \<and> i2c_funcs i AND I2C_FUNC_SMBUS_WRITE_BYTE_DATA \<noteq> 0 \<and> smbus_ok)
      \<and> j_calls j' = j_calls j @ [I2c_slave (i2c_fd i) a, I2c_smbus (i2c_fd i) False (ucast r) I2C_SMBUS_BYTE_DATA (ucast (ucast v :: u8))])
    \<and> (\<exists>j'. i2cReadByteData h a r slave_ok byte j = Some (case byte of None \<Rightarrow> -7 | Some b \<Rightarrow> uint b, j')
      \<and> j_calls j' = j_calls j @ [I2c_slave (i2c_fd i) a, I2c_smbus (i2c_fd i) True (ucast r) I2C_SMBUS_BYTE_DATA 0])"
proof -
  have h: "\<not> h \<ge> 2" "\<not> unat h \<ge> length (i2cInfo j)" using assms(1,2) by (auto simp: word_less_nat_alt word_le_nat_alt)
  show ?thesis
    using h assms(3) transfer_calls [of "unat h" a _ r _ _ j] cut_octet
    by (auto simp: i2cWriteByteData_def i2cReadByteData_def i2c_write_byte_def i2c_read_byte_def Let_def last_error_def
        split: option.split)
qed

text \<open>A program that uses an input pin with an interrupt, an I2C device and an SPI device.\<close>

definition demo_ops :: "bus_op list" where
  "demo_ops = [Pins (SetMode 7 0), Isr 7 1 500 0 0 True, I2cOpen 0 2 i2c_os_ok, I2cWriteByte 0 0x68 0x1B 7 True True,
     SpiOpen 1 1000000 0 0 8 0 0 spi_os_ok, SpiXfer 1 3 3]"

lemma demo_run: "\<exists>j. bus_run demo_ops jetson_up = Some j"
proof -
  have "pin_lookup 7 = Some (Pin 7 0x60c 0 0x180 0x8f4 2 None False)" by (simp add: pin_lookup_def pin_table_def)
  moreover have "spi_settings spi_os_ok = None" by (simp add: spi_settings_def spi_os_ok_def find_None_iff)
  ultimately show ?thesis
    by (simp add: demo_ops_def jetson_up_eq jetson_boot_def gpioSetMode_def gpio_up_ready gpioSetISRFunc_def isr_register_def Let_def
        RISING_EDGE_def gpio_offsets_def set_interrupt_def isr_free_def ask_os_def i2cOpen_def i2c_open_bus_def i2c_os_ok_def put_i2c_def
        i2c_idle_def i2c_states i2cWriteByteData_def i2c_write_byte_def i2c_transfer_def spiOpen_def spi_tests_def spi_open_device_def spi_os_ok_def put_spi_def spi_idle_def
        SPI_CLOSED_def spi_take_pins_def spi_pins_mapped spiXfer_def spi_transfer_def)
qed

theorem bus_terminate_restores_witness:
  "\<exists>j2 j3. bus_run demo_ops jetson_up = Some j2 \<and> jetson_terminate j2 = Some j3 \<and> INT_LVL (j_gpio j3) = (\<lambda>_. 0)"
proof -
  obtain j2 where run: "bus_run demo_ops jetson_up = Some j2" using demo_run by blast
  have "in_order False [] demo_ops" by (simp add: demo_ops_def)
  from bus_terminate_restores [OF jetson_up_init _ run this] run show ?thesis
    by (auto simp: jetson_boot_def gpio_boot_def registers_back_def)
qed

theorem failed_open_sticks_witness:
  "\<exists>j1. i2cOpen 1 0 (i2c_os_ok\<lparr>dev_fd := -1\<rparr>) jetson_up = Some (-4, j1) \<and> i2cOpen 1 0 i2c_os_ok j1 = Some (-3, j1)"
proof -
  obtain j1 where o: "i2cOpen 1 0 (i2c_os_ok\<lparr>dev_fd := -1\<rparr>) jetson_up = Some (-4, j1)"
    by (simp add: i2cOpen_def i2c_open_bus_def jetson_up_eq jetson_boot_def i2c_os_ok_def i2c_idle_def Let_def)
  have "length (i2cInfo jetson_up) = 2" by (simp add: jetson_up_eq jetson_boot_def)
  from failed_open_sticks [OF o _ this, of "[]" j1 0 i2c_os_ok] o show ?thesis by simp
qed

theorem close_restores_rate_witness:
  "\<exists>j1 j3. i2cOpen 0 2 i2c_os_ok jetson_up = Some (0, j1) \<and> i2cClose 0 j1 = (0, j3)
     \<and> last (j_calls j3) = Set_bus_rate 0 400000"
proof -
  obtain j1 where o: "i2cOpen 0 2 i2c_os_ok jetson_up = Some (0, j1)"
    by (simp add: i2cOpen_def i2c_open_bus_def jetson_up_eq jetson_boot_def i2c_os_ok_def i2c_idle_def Let_def)
  have "rate_read i2c_os_ok = Some 400000" "length (i2cInfo jetson_up) = 2" "length (i2c_speed jetson_up) = 2"
    by (simp_all add: i2c_os_ok_def jetson_up_eq jetson_boot_def)
  from close_restores_rate [OF o _ this, of "[]" j1] o show ?thesis by auto
qed

theorem i2c_transfer_status_witness:
  "\<exists>j'. i2cReadByteData 1 0x68 0x75 False (Some 9) jetson_up = Some (9, j')
     \<and> j_calls j' = [I2c_slave 0 0x68, I2c_smbus 0 True 0x75 2 0]"
  using i2c_transfer_status [where h = 1 and i = i2c_idle and j = jetson_up and a = "0x68" and r = "0x75"
      and slave_ok = False and byte = "Some 9"]
  by (auto simp: jetson_up_eq jetson_boot_def i2c_idle_def I2C_SMBUS_BYTE_DATA_def)

lemma terminate_untracked:
  assumes "mapping_state g = Mapped" "pin_tracker g = 0"
  shows "gpioTerminate g = Some (g\<lparr>mapping_state := Unmapped\<rparr>)"
proof -
  have "restore_pin g p = g" for p using assms(2) by (simp add: restore_pin_def tracked_def split: option.split)
  then have "foldl restore_pin g ps = g" for ps by (induction ps) simp_all
  with assms show ?thesis by (simp add: gpioTerminate_def restore_pwm_def)
qed

subsection \<open>Where the driver falls short\<close>

text \<open>The interrupt of a pin whose mode was not set is not undone: the level and enable registers keep its bits.\<close>

lemma interrupt_not_undone:
  "\<exists>j2 j3. bus_run [Isr 7 1 0 0 0 True] jetson_up = Some j2 \<and> jetson_terminate j2 = Some j3
     \<and> INT_ENB (j_gpio j3) 0x60c = 1 \<and> INT_ENB gpio_boot 0x60c = 0"
proof -
  have up: "pin_tracker gpio_up = 0" "INT_ENB gpio_up 0x60c = 0"
    using gpioInitialise_cases [OF gpio_up_init]
    by (auto simp: gpio_boot_def restorable_def covered_def tracked_def split: option.splits)
  have look: "pin_lookup 7 = Some (Pin 7 0x60c 0 0x180 0x8f4 2 None False)" by (simp add: pin_lookup_def pin_table_def)
  obtain j2 where j2: "gpioSetISRFunc 7 1 0 0 0 True jetson_up = Some (1, j2)"
      "j_gpio j2 = j_gpio (set_interrupt 7 1 (Pin 7 0x60c 0 0x180 0x8f4 2 None False) jetson_up)" "joined j2 = 0"
    by (simp add: gpioSetISRFunc_def isr_register_def jetson_up_eq jetson_boot_def gpio_up_ready RISING_EDGE_def look
        isr_free_def ask_os_def gpio_offsets_def set_interrupt_def Let_def)
  have g: "mapping_state (j_gpio j2) = Mapped" "pin_tracker (j_gpio j2) = 0" "INT_ENB (j_gpio j2) 0x60c = 1"
    by (simp_all add: j2(2) set_interrupt_def Let_def jetson_up_eq up gpio_up_ready line_mask_def)
  with j2(1,3) show ?thesis by (simp add: jetson_terminate_def terminate_untracked gpio_boot_def)
qed

text \<open>Registering an interrupt depends on what the allocated memory happens to hold.\<close>

lemma registration_reads_heap:
  assumes "heap = replicate 41 (isr_free\<lparr>isr_gpio := g\<rparr>)" "g \<noteq> 0"
  shows "\<exists>j'. gpioSetISRFunc 7 1 0 0 0 True (snd (jetson_initialise os_root heap jetson_boot)) = Some (-4, j')"
  using assms
  by (simp add: jetson_initialise_def jetson_boot_def gpio_up_init gpioSetISRFunc_def isr_register_def Let_def gpio_up_ready
      pin_lookup_def pin_table_def gpio_offsets_def set_interrupt_def)

text \<open>The test of a falling edge fails for every pin but one: its level register is set as for either edge.\<close>

lemma falling_edge_as_either: "n \<noteq> 3 \<Longrightarrow> int_level n FALLING_EDGE x old = int_level n EITHER_EDGE x old"
  by (simp add: int_level_def FALLING_EDGE_def EITHER_EDGE_def)

text \<open>A wrong edge is reported, and the thread is started all the same.\<close>

lemma wrong_edge_starts_thread:
  "\<exists>j'. gpioSetISRFunc 7 9 0 0 0 True jetson_up = Some (-3, j') \<and> thread_n j' = 1"
  by (simp add: gpioSetISRFunc_def isr_register_def jetson_up_eq jetson_boot_def gpio_up_ready RISING_EDGE_def FALLING_EDGE_def
      EITHER_EDGE_def isr_free_def ask_os_def Let_def)

text \<open>A value that does not fit an octet is reported, and the octet left of it is written all the same.\<close>

lemma cut_value_written:
  assumes "i2cOpen 0 0 i2c_os_ok jetson_up = Some (0, j)"
  shows "\<exists>j'. i2cWriteByteData 0 0x68 1 256 True True j = Some (-5, j')
     \<and> last (j_calls j') = I2c_smbus 5 False 1 I2C_SMBUS_BYTE_DATA 0"
  using assms
  by (auto simp: i2cWriteByteData_def i2c_write_byte_def i2cOpen_def i2c_open_bus_def jetson_up_eq jetson_boot_def i2c_os_ok_def i2c_idle_def Let_def
      i2c_transfer_def ask_os_def put_i2c_def last_error_def I2C_FUNC_SMBUS_WRITE_BYTE_DATA_def)

end
