(* ===== verification/OrinGpio.thy ===== *)
theory OrinGpio imports GpioBus begin

text \<open>
  The header-pin driver of the Orin board, \<open>src/JETGPIO/orin.c\<close>, with its registers of \<open>src/JETGPIO/jetgpio.h\<close>:
  the same interface as the Nano's driver (\<open>Gpio\<close>, \<open>GpioBus\<close>), on hardware where each pin has a block of
  registers of its own. The operations take the calls of \<open>bus_op\<close>, so that a program can be run on either board.
\<close>

subsection \<open>The pins\<close>

text \<open>The base addresses, and one row per \<open>case\<close>: the pin, the addresses of its block, its pinmux and its pad
configuration, its bit in \<open>pin_tracker\<close>, the other bit that makes \<open>gpioTerminate\<close> restore it, and whether it is
one of the I2C pins, whose output mode is \<open>PINMUXO_OUT1\<close>.\<close>

definition base_CNF_AON :: nat where "base_CNF_AON = 0xc2f1000"
definition base_CNF_NAON :: nat where "base_CNF_NAON = 0x2210000"
definition Pinmux_AON :: nat where "Pinmux_AON = 0xc302000"
definition Pinmux_G7 :: nat where "Pinmux_G7 = 0x2448000"
definition Pinmux_G3 :: nat where "Pinmux_G3 = 0x2430000"
definition Pinmux_EDP :: nat where "Pinmux_EDP = 0x2440000"
definition Pinmux_G4 :: nat where "Pinmux_G4 = 0x2434000"
definition Pinmux_G2 :: nat where "Pinmux_G2 = 0x243d000"

datatype opin = OPin (o_no: u32) (o_cnf: nat) (o_mux: nat) (o_cfg: nat) (o_trk: nat) (o_alt: "nat option") (o_out1: bool)

definition orin_table :: "opin list" where
  "orin_table = [
  OPin 3 (base_CNF_AON + 0x640) (Pinmux_AON + 0x18) (Pinmux_AON + 0x1c) 0 None True,
  OPin 5 (base_CNF_AON + 0x620) (Pinmux_AON + 0x20) (Pinmux_AON + 0x24) 1 None True,
  OPin 7 (base_CNF_NAON + 0x2c0) (Pinmux_G7 + 0x30) (Pinmux_G7 + 0x34) 2 None False,
  OPin 8 (base_CNF_NAON + 0x2840) (Pinmux_G3 + 0xa8) (Pinmux_G3 + 0xac) 3 None False,
  OPin 10 (base_CNF_NAON + 0x2860) (Pinmux_G3 + 0xa0) (Pinmux_G3 + 0xa4) 4 None False,
  OPin 11 (base_CNF_NAON + 0x2880) (Pinmux_G3 + 0x98) (Pinmux_G3 + 0x9c) 5 None False,
  OPin 12 (base_CNF_NAON + 0x42e0) (Pinmux_G4 + 0x88) (Pinmux_G4 + 0x8c) 6 None False,
  OPin 13 (base_CNF_NAON + 0x1200) (Pinmux_G2 + 0x30) (Pinmux_G2 + 0x34) 7 (Some 32) False,
  OPin 15 (base_CNF_NAON + 0x2220) (Pinmux_EDP + 0x20) (Pinmux_EDP + 0x24) 8 (Some 28) False,
  OPin 16 (base_CNF_NAON + 0x1280) (Pinmux_G2 + 0x20) (Pinmux_G2 + 0x24) 9 None False,
  OPin 18 (base_CNF_NAON + 0x1260) (Pinmux_G2 + 0x10) (Pinmux_G2 + 0x14) 10 (Some 32) False,
  OPin 19 (base_CNF_NAON + 0x14a0) (Pinmux_G2 + 0x40) (Pinmux_G2 + 0x44) 11 (Some 31) False,
  OPin 21 (base_CNF_NAON + 0x1480) (Pinmux_G2 + 0x18) (Pinmux_G2 + 0x1c) 12 (Some 31) False,
  OPin 22 (base_CNF_NAON + 0x1220) (Pinmux_G2 + 0x0) (Pinmux_G2 + 0x4) 13 (Some 32) False,
  OPin 23 (base_CNF_NAON + 0x1460) (Pinmux_G2 + 0x28) (Pinmux_G2 + 0x2c) 14 (Some 31) False,
  OPin 24 (base_CNF_NAON + 0x14c0) (Pinmux_G2 + 0x8) (Pinmux_G2 + 0xc) 15 (Some 31) False,
  OPin 26 (base_CNF_NAON + 0x14e0) (Pinmux_G2 + 0x38) (Pinmux_G2 + 0x3c) 16 None False,
  OPin 27 (base_CNF_AON + 0x600) (Pinmux_AON + 0x40) (Pinmux_AON + 0x44) 17 None True,
  OPin 28 (base_CNF_AON + 0x4e0) (Pinmux_AON + 0x30) (Pinmux_AON + 0x34) 18 None True,
  OPin 29 (base_CNF_NAON + 0x26a0) (Pinmux_G3 + 0x68) (Pinmux_G3 + 0x6c) 19 None False,
  OPin 31 (base_CNF_NAON + 0x26c0) (Pinmux_G3 + 0x70) (Pinmux_G3 + 0x74) 20 None False,
  OPin 32 (base_CNF_NAON + 0x40c0) (Pinmux_G4 + 0x80) (Pinmux_G4 + 0x84) 21 (Some 30) False,
  OPin 33 (base_CNF_NAON + 0x4200) (Pinmux_G4 + 0x40) (Pinmux_G4 + 0x44) 22 (Some 29) False,
  OPin 35 (base_CNF_NAON + 0x4440) (Pinmux_G4 + 0xa0) (Pinmux_G4 + 0xa4) 23 None False,
  OPin 36 (base_CNF_NAON + 0x28a0) (Pinmux_G3 + 0x90) (Pinmux_G3 + 0x94) 24 None False,
  OPin 37 (base_CNF_NAON + 0x1240) (Pinmux_G2 + 0x48) (Pinmux_G2 + 0x4c) 25 (Some 32) False,
  OPin 38 (base_CNF_NAON + 0x4420) (Pinmux_G4 + 0x98) (Pinmux_G4 + 0x9c) 26 None False,
  OPin 40 (base_CNF_NAON + 0x4400) (Pinmux_G4 + 0x90) (Pinmux_G4 + 0x94) 27 None False]"

definition orin_lookup :: "u32 \<Rightarrow> opin option" where
  "orin_lookup gpio = find (\<lambda>p. o_no p = gpio) orin_table"

definition CNFO_IN :: u32 where "CNFO_IN = 0x1"
definition CNFO_OUT :: u32 where "CNFO_OUT = 0x3"
definition PINMUXO_IN :: u32 where "PINMUXO_IN = 0x40"
definition PINMUXO_OUT :: u32 where "PINMUXO_OUT = 0x40"
definition PINMUXO_OUT1 :: u32 where "PINMUXO_OUT1 = 0x60"
definition CFGO_IN :: u32 where "CFGO_IN = 0x0"
definition CFGO_OUT :: u32 where "CFGO_OUT = 0x1f1f000"

subsection \<open>State\<close>

text \<open>The registers of the pins by the address of their block, and the pads by their address.\<close>

record orin = buses +
  o_state :: mapping_state
  O_CNF :: "nat \<Rightarrow> u32"
  O_DEB :: "nat \<Rightarrow> u32"
  O_IN :: "nat \<Rightarrow> u32"
  O_OUT :: "nat \<Rightarrow> u32"
  O_OUT_VLE :: "nat \<Rightarrow> u32"
  O_INT_CLR :: "nat \<Rightarrow> u32"
  O_PAD :: "nat \<Rightarrow> u32"
  PWM1 :: u32
  PWM5 :: u32
  PWM7 :: u32
  o_pin_CNF :: "u32 \<Rightarrow> u32"
  o_pin_DEB :: "u32 \<Rightarrow> u32"
  o_pin_IN :: "u32 \<Rightarrow> u32"
  o_pin_OUT :: "u32 \<Rightarrow> u32"
  o_pin_OUT_VLE :: "u32 \<Rightarrow> u32"
  o_pin_MUX :: "u32 \<Rightarrow> u32"
  o_pin_CFG :: "u32 \<Rightarrow> u32"
  PWM1_Init :: u32
  PWM5_Init :: u32
  PWM7_Init :: u32
  o_tracker :: u64

subsection \<open>Start and end\<close>

definition orin_save_pin :: "orin \<Rightarrow> opin \<Rightarrow> orin" where
  "orin_save_pin j p = j
     \<lparr>o_pin_CNF := (o_pin_CNF j)(o_no p := O_CNF j (o_cnf p)),
      o_pin_DEB := (o_pin_DEB j)(o_no p := O_DEB j (o_cnf p)),
      o_pin_IN := (o_pin_IN j)(o_no p := O_IN j (o_cnf p)),
      o_pin_OUT := (o_pin_OUT j)(o_no p := O_OUT j (o_cnf p)),
      o_pin_OUT_VLE := (o_pin_OUT_VLE j)(o_no p := O_OUT_VLE j (o_cnf p)),
      o_pin_MUX := (o_pin_MUX j)(o_no p := O_PAD j (o_mux p)),
      o_pin_CFG := (o_pin_CFG j)(o_no p := O_PAD j (o_cfg p))\<rparr>"

text \<open>The eleven mappings in their order; the first that fails is answered. \<open>heap\<close> is what the memory of the
interrupt functions holds.\<close>

definition orin_initialise :: "os_answers \<Rightarrow> isr_func list \<Rightarrow> orin \<Rightarrow> int \<times> orin" where
  "orin_initialise os heap j =
     (if \<not> open_ok os then (-1, j)
      else (case find (\<lambda>k. \<not> mmap_ok os k) [0..<11] of
              Some k \<Rightarrow> (- 2 - int k, j)
            | None \<Rightarrow>
                let j = foldl orin_save_pin (j\<lparr>o_state := Mapped\<rparr>) orin_table;
                    j = j\<lparr>PWM1_Init := PWM1 j, PWM5_Init := PWM5 j, PWM7_Init := PWM7 j\<rparr>;
                    j = put_i2c 7 (\<lambda>i. i\<lparr>i2c_state := I2C_CLOSED\<rparr>) (put_i2c 1 (\<lambda>i. i\<lparr>i2c_state := I2C_CLOSED\<rparr>) j);
                    j = put_spi 2 (\<lambda>i. i\<lparr>spi_state := SPI_CLOSED\<rparr>) (put_spi 0 (\<lambda>i. i\<lparr>spi_state := SPI_CLOSED\<rparr>) j)
                in (1, j\<lparr>ISRFunc_CFG := take 41 heap\<rparr>)))"

definition orin_tracked :: "u64 \<Rightarrow> opin \<Rightarrow> bool" where
  "orin_tracked t p \<longleftrightarrow> bit t (o_trk p) \<or> (case o_alt p of None \<Rightarrow> False | Some a \<Rightarrow> bit t a)"




subsection \<open>Digital lines and PWM\<close>

definition track_mask :: "nat \<Rightarrow> u64" where
  "track_mask k = 2 ^ k"

definition orin_pad :: "opin \<Rightarrow> u32 \<Rightarrow> u32 \<Rightarrow> orin \<Rightarrow> orin" where
  "orin_pad p mux cfg j = j\<lparr>O_PAD := (O_PAD j)(o_mux p := mux, o_cfg p := cfg)\<rparr>"

definition orin_gpioSetMode :: "u32 \<Rightarrow> u32 \<Rightarrow> orin \<Rightarrow> (int \<times> orin) option" where
  "orin_gpioSetMode gpio mode j =
     (if mode = 0 then
        (case orin_lookup gpio of
           None \<Rightarrow> Some (-1, j)
         | Some p \<Rightarrow>
             if o_state j \<noteq> Mapped then None
             else Some (1, (orin_pad p PINMUXO_IN CFGO_IN j)
               \<lparr>O_CNF := (O_CNF j)(o_cnf p := CNFO_IN),
                O_OUT := (O_OUT j)(o_cnf p := O_OUT j (o_cnf p) OR 1),
                o_tracker := o_tracker j OR track_mask (o_trk p)\<rparr>))
      else if mode = 1 then
        (case orin_lookup gpio of
           None \<Rightarrow> Some (-2, j)
         | Some p \<Rightarrow>
             if o_state j \<noteq> Mapped then None
             else Some (1, (orin_pad p (if o_out1 p then PINMUXO_OUT1 else PINMUXO_OUT) CFGO_OUT j)
               \<lparr>O_CNF := (O_CNF j)(o_cnf p := CNFO_OUT),
                O_OUT := (O_OUT j)(o_cnf p := O_OUT j (o_cnf p) AND NOT 1),
                o_tracker := o_tracker j OR track_mask (o_trk p)\<rparr>))
      else Some (-3, j))"

definition orin_gpioRead :: "u32 \<Rightarrow> orin \<Rightarrow> int option" where
  "orin_gpioRead gpio j =
     (case orin_lookup gpio of
        None \<Rightarrow> Some (-1)
      | Some p \<Rightarrow> if o_state j \<noteq> Mapped then None else Some (uint (O_IN j (o_cnf p) AND 1)))"

definition orin_gpioWrite :: "u32 \<Rightarrow> u32 \<Rightarrow> orin \<Rightarrow> (int \<times> orin) option" where
  "orin_gpioWrite gpio level j =
     (if level = 0 then
        (case orin_lookup gpio of
           None \<Rightarrow> Some (-1, j)
         | Some p \<Rightarrow>
             if o_state j \<noteq> Mapped then None
             else Some (1, j\<lparr>O_OUT_VLE := (O_OUT_VLE j)(o_cnf p := O_OUT_VLE j (o_cnf p) AND level)\<rparr>))
      else if level = 1 then
        (case orin_lookup gpio of
           None \<Rightarrow> Some (-2, j)
         | Some p \<Rightarrow>
             if o_state j \<noteq> Mapped then None
             else Some (1, j\<lparr>O_OUT_VLE := (O_OUT_VLE j)(o_cnf p := O_OUT_VLE j (o_cnf p) OR level)\<rparr>))
      else Some (-3, j))"

text \<open>\<open>round(1597656.0/(double)frequency)-1\<close>, and the register of each channel.\<close>

definition orin_divider :: "u32 \<Rightarrow> u32" where
  "orin_divider frequency = word_of_int ((2 * 1597656 + uint frequency) div (2 * uint frequency) - 1)"

definition orin_take_pwm :: "u32 \<Rightarrow> u32 \<Rightarrow> nat \<Rightarrow> orin \<Rightarrow> orin" where
  "orin_take_pwm gpio mux k j =
     (case orin_lookup gpio of
        None \<Rightarrow> j
      | Some p \<Rightarrow> (orin_pad p mux CFGO_OUT j)
          \<lparr>O_CNF := (O_CNF j)(o_cnf p := 1), o_tracker := o_tracker j OR track_mask k\<rparr>)"

definition orin_gpioSetPWMfrequency :: "u32 \<Rightarrow> u32 \<Rightarrow> orin \<Rightarrow> (int \<times> orin) option" where
  "orin_gpioSetPWMfrequency gpio frequency j =
     (if 400 \<le> frequency \<and> frequency \<le> 1595000 then
        (if \<not> (gpio = 15 \<or> gpio = 32 \<or> gpio = 33) then Some (-1, j)
         else if o_state j \<noteq> Mapped then None
         else if gpio = 15 then Some (1, (orin_take_pwm 15 0x400 28 j)\<lparr>PWM1 := orin_divider frequency\<rparr>)
         else if gpio = 32 then Some (1, (orin_take_pwm 32 0x400 30 j)\<lparr>PWM7 := orin_divider frequency\<rparr>)
         else Some (1, (orin_take_pwm 33 0x401 29 j)\<lparr>PWM5 := orin_divider frequency\<rparr>))
      else Some (-2, j))"

definition orin_gpioPWM :: "u32 \<Rightarrow> u32 \<Rightarrow> orin \<Rightarrow> (int \<times> orin) option" where
  "orin_gpioPWM gpio dutycycle j =
     (if dutycycle \<le> 256 then
        (if \<not> (gpio = 15 \<or> gpio = 32 \<or> gpio = 33) then Some (-1, j)
         else if o_state j \<noteq> Mapped then None
         else if gpio = 15 then Some (1, j\<lparr>PWM1 := pwm_word (PWM1 j) dutycycle\<rparr>)
         else if gpio = 32 then Some (1, j\<lparr>PWM7 := pwm_word (PWM7 j) dutycycle\<rparr>)
         else Some (1, j\<lparr>PWM5 := pwm_word (PWM5 j) dutycycle\<rparr>))
      else Some (-2, j))"

subsection \<open>Interrupts and buses\<close>

definition orin_offsets :: "(u32 \<times> u32) list" where
  "orin_offsets = [(3, 22), (5, 21), (7, 144), (8, 110), (10, 111), (11, 112), (12, 50), (13, 122), (15, 85), (16, 126), 
     (18, 125), (19, 135), (21, 134), (22, 123), (23, 133), (24, 136), (26, 137), (27, 20), (28, 19), (29, 105), 
     (31, 106), (32, 41), (33, 43), (35, 53), (36, 113), (37, 124), (38, 52), (40, 51)]"

definition orin_edge :: "u32 \<Rightarrow> u32" where
  "orin_edge edge = (if edge = RISING_EDGE then 0xd9 else if edge = FALLING_EDGE then 0xc9 else 0xcd)"

definition orin_set_interrupt :: "u32 \<Rightarrow> opin \<Rightarrow> orin \<Rightarrow> orin" where
  "orin_set_interrupt edge p j = j
     \<lparr>O_CNF := (O_CNF j)(o_cnf p := orin_edge edge), O_INT_CLR := (O_INT_CLR j)(o_cnf p := O_INT_CLR j (o_cnf p) OR 1)\<rparr>"

definition orin_gpioSetISRFunc :: "u32 \<Rightarrow> u32 \<Rightarrow> u32 \<Rightarrow> u64 \<Rightarrow> u64 \<Rightarrow> bool \<Rightarrow> orin \<Rightarrow> (int \<times> orin) option" where
  "orin_gpioSetISRFunc gpio edge debounce timestamp f thread_ok j =
     (if o_state j \<noteq> Mapped then None
      else
        let status = (if debounce > 1000 then -1 else 1);
            (status, gpio_offset, j) =
              (if edge = RISING_EDGE \<or> edge = FALLING_EDGE \<or> edge = EITHER_EDGE then
                 (case orin_lookup gpio of
                    None \<Rightarrow> (-2, 0, j)
                  | Some p \<Rightarrow> (status, the (map_of orin_offsets gpio), orin_set_interrupt edge p j))
               else (-3, 0, j))
        in isr_register status \<lparr>isr_stat_reg = 0, isr_gpio = gpio, isr_edge = edge, isr_gpio_offset = gpio_offset,
             isr_timestamp = timestamp, isr_f = f, isr_debounce = debounce\<rparr> thread_ok j)"

text \<open>The buses 0 and 1 of the interface are 1 and 7 of the system, and these are their handles.\<close>

definition orin_i2cOpen :: "u32 \<Rightarrow> u32 \<Rightarrow> i2c_os \<Rightarrow> orin \<Rightarrow> (int \<times> orin) option" where
  "orin_i2cOpen i2cBus i2cFlags os j =
     (if \<not> (i2cBus = 0 \<or> i2cBus = 1) then Some (-1, j)
      else i2c_open_bus (if i2cBus = 0 then 1 else 7) i2cFlags os j)"

definition orin_bad_handle :: "u32 \<Rightarrow> bool" where
  "orin_bad_handle handle \<longleftrightarrow> \<not> (handle = 1 \<or> handle = 7)"

definition orin_i2cClose :: "u32 \<Rightarrow> orin \<Rightarrow> int \<times> orin" where
  "orin_i2cClose handle j = (if orin_bad_handle handle then (-1, j) else i2c_close_bus handle j)"

text \<open>The channel 1 of SPI is 2 of the system, so the test for 1 never holds. The literal \<open>1 << 31\<close> is a negative
\<open>int\<close>, extended to the 64 bits of the tracker.\<close>

definition orin_spi_pins :: "u32 \<Rightarrow> (u32 \<times> u32 \<times> u32 \<times> u32) list" where
  "orin_spi_pins spiChan =
     (if spiChan = 0 then
        [(19, 3, 0x400, CFGO_OUT), (21, 1, 0x440, CFGO_IN), (23, 3, 0x400, CFGO_OUT), (24, 3, 0x400, CFGO_OUT)]
      else if spiChan = 1 then
        [(37, 3, 0x400, CFGO_OUT), (22, 1, 0x440, CFGO_IN), (13, 3, 0x400, CFGO_OUT), (18, 3, 0x400, CFGO_OUT)]
      else [])"

definition orin_spi_pin :: "u32 \<times> u32 \<times> u32 \<times> u32 \<Rightarrow> orin \<Rightarrow> orin" where
  "orin_spi_pin row j =
     (case row of (n, cnf, mux, cfg) \<Rightarrow>
        (case orin_lookup n of
           None \<Rightarrow> j
         | Some p \<Rightarrow> (orin_pad p mux cfg j)\<lparr>O_CNF := (O_CNF j)(o_cnf p := O_CNF j (o_cnf p) OR cnf)\<rparr>))"

definition orin_spi_track :: "u32 \<Rightarrow> u64" where
  "orin_spi_track spiChan = (if spiChan = 0 then 0xFFFFFFFF80000000 else if spiChan = 1 then 0x100000000 else 0)"

definition orin_spi_take :: "u32 \<Rightarrow> orin \<Rightarrow> orin" where
  "orin_spi_take spiChan j =
     (let j = fold orin_spi_pin (orin_spi_pins spiChan) j
      in j\<lparr>o_tracker := o_tracker j OR orin_spi_track spiChan\<rparr>)"

definition orin_spiOpen :: "u32 \<Rightarrow> u32 \<Rightarrow> u32 \<Rightarrow> u32 \<Rightarrow> u32 \<Rightarrow> u32 \<Rightarrow> u32 \<Rightarrow> spi_os \<Rightarrow> orin \<Rightarrow> (int \<times> orin) option" where
  "orin_spiOpen spiChan speed mode cs_delay bits_word lsb_first cs_change os j =
     (if \<not> (spiChan = 0 \<or> spiChan = 1) then Some (-1, j)
      else
        let spiChan = (if spiChan = 1 then spiChan + 1 else spiChan) in
        (case spi_tests speed mode cs_delay bits_word lsb_first cs_change of
           Some error \<Rightarrow> Some (error, j)
         | None \<Rightarrow>
             let slot = unat spiChan in
             if spi_state (SpiInfo j ! slot) \<noteq> SPI_CLOSED then Some (-11, j)
             else
               let j = put_spi slot (\<lambda>i. i\<lparr>spi_state := SPI_RESERVED\<rparr>) j in
               if orin_spi_pins spiChan \<noteq> [] \<and> o_state j \<noteq> Mapped then None
               else Some (spi_open_device slot mode cs_delay bits_word cs_change os (orin_spi_take spiChan j))))"

definition orin_spiXfer :: "u32 \<Rightarrow> u32 \<Rightarrow> int \<Rightarrow> orin \<Rightarrow> int \<times> orin" where
  "orin_spiXfer handle len ret j = (if handle > 2 then (-1, j) else spi_transfer handle len ret j)"

fun orin_pins_step :: "gpio_op \<Rightarrow> orin \<Rightarrow> (int \<times> orin) option" where
  "orin_pins_step (SetMode n m) j = orin_gpioSetMode n m j"
| "orin_pins_step (Write n v) j = orin_gpioWrite n v j"
| "orin_pins_step (SetFreq n f) j = orin_gpioSetPWMfrequency n f j"
| "orin_pins_step (Pwm n d) j = orin_gpioPWM n d j"

fun orin_step :: "bus_op \<Rightarrow> orin \<Rightarrow> (int \<times> orin) option" where
  "orin_step (Pins x) j = orin_pins_step x j"
| "orin_step (Isr n e d t f ok) j = orin_gpioSetISRFunc n e d t f ok j"
| "orin_step (I2cOpen b fl os) j = orin_i2cOpen b fl os j"
| "orin_step (I2cClose h) j = Some (orin_i2cClose h j)"
| "orin_step (I2cWriteByte h a r v s k) j = i2c_write_byte (orin_bad_handle h) h a r v s k j"
| "orin_step (I2cWriteWord h a r v s k) j = i2c_write_word (orin_bad_handle h) h a r v s k j"
| "orin_step (I2cReadByte h a r s v) j = i2c_read_byte (orin_bad_handle h) h a r s v j"
| "orin_step (I2cReadWord h a r s v) j = i2c_read_word (orin_bad_handle h) h a r s v j"
| "orin_step (SpiOpen c sp m d b l x os) j = orin_spiOpen c sp m d b l x os j"
| "orin_step (SpiClose h) j = Some (spiClose h j)"
| "orin_step (SpiXfer h n r) j = Some (orin_spiXfer h n r j)"

subsection \<open>The table\<close>

lemmas orin_bases = base_CNF_AON_def base_CNF_NAON_def Pinmux_AON_def Pinmux_G7_def Pinmux_G3_def Pinmux_EDP_def
  Pinmux_G4_def Pinmux_G2_def

lemma orin_table_distinct:
  "distinct (map o_no orin_table)" "distinct (map o_cnf orin_table)"
  "distinct (concat (map (\<lambda>p. [o_mux p, o_cfg p]) orin_table))"
  by (simp_all add: orin_table_def orin_bases)


lemma orin_lookup_SomeD: "orin_lookup n = Some p \<Longrightarrow> p \<in> set orin_table \<and> o_no p = n"
  by (auto simp: orin_lookup_def find_Some_iff)

text \<open>The two boards have the same header pins.\<close>

lemma same_pins: "orin_lookup n = None \<longleftrightarrow> pin_lookup n = None"
proof -
  have "set (map o_no orin_table) = set (map pin_no pin_table)" by (simp add: orin_table_def pin_table_def)
  then have "n \<in> o_no ` set orin_table \<longleftrightarrow> n \<in> pin_no ` set pin_table" by (simp only: set_map)
  then show ?thesis by (auto simp: orin_lookup_def pin_lookup_def find_None_iff)
qed

lemma orin_cnf_inj:
  assumes "orin_lookup m = Some p" "orin_lookup n = Some q" "o_cnf p = o_cnf q"
  shows "m = n"
proof -
  have "inj_on o_cnf (set orin_table)" using orin_table_distinct(2) unfolding distinct_map by blast
  from inj_onD [OF this assms(3)] orin_lookup_SomeD [OF assms(1)] orin_lookup_SomeD [OF assms(2)]
  show ?thesis by auto
qed

subsection \<open>The lines and channels of the board\<close>

definition orin_level :: "orin \<Rightarrow> u32 \<Rightarrow> bool" where
  "orin_level j n = (case orin_lookup n of None \<Rightarrow> False | Some p \<Rightarrow> bit (O_OUT_VLE j (o_cnf p)) 0)"

definition orin_ready :: "orin \<Rightarrow> bool" where
  "orin_ready j \<longleftrightarrow> o_state j = Mapped"

definition orin_pwm_reg :: "orin \<Rightarrow> u32 \<Rightarrow> u32" where
  "orin_pwm_reg j n = (if n = 15 then PWM1 j else if n = 32 then PWM7 j else PWM5 j)"

definition orin_duty :: "orin \<Rightarrow> u32 \<Rightarrow> u32" where
  "orin_duty j n = pwm_duty (orin_pwm_reg j n)"

definition orin_channel :: "u32 \<Rightarrow> bool" where
  "orin_channel n \<longleftrightarrow> n = 15 \<or> n = 32 \<or> n = 33"

lemma orin_level_upd:
  assumes "orin_lookup n = Some p"
  shows "orin_level (j\<lparr>O_OUT_VLE := (O_OUT_VLE j)(o_cnf p := w)\<rparr>) m \<longleftrightarrow> (if m = n then bit w 0 else orin_level j m)"
proof (cases "m = n")
  case False
  then have "o_cnf q \<noteq> o_cnf p" if "orin_lookup m = Some q" for q using orin_cnf_inj [OF that assms] by blast
  with False show ?thesis by (simp add: orin_level_def split: option.split)
qed (simp add: orin_level_def assms)

lemma orin_write_ok:
  assumes "orin_ready j" "valid_pin n" "v = 0 \<or> v = 1"
  shows "\<exists>j'. orin_gpioWrite n v j = Some (1, j') \<and> orin_ready j'
     \<and> (\<forall>m. orin_level j' m = (if m = n then v = 1 else orin_level j m))"
proof -
  from assms(2) obtain p where p: "orin_lookup n = Some p" using same_pins [of n] by (auto simp: valid_pin_def)
  from assms(1,3) show ?thesis
    by (auto simp: orin_gpioWrite_def orin_ready_def p orin_level_upd [OF p] bit_or_iff)
qed

lemma orin_pwm_ok:
  assumes "orin_ready j" "orin_channel n" "d \<le> 256"
  shows "\<exists>j'. orin_gpioPWM n d j = Some (1, j') \<and> orin_ready j' \<and> orin_level j' = orin_level j
     \<and> (\<forall>m. orin_channel m \<longrightarrow> orin_duty j' m = (if m = n then d else orin_duty j m))"
  using assms
  by (auto simp: orin_gpioPWM_def orin_ready_def orin_channel_def orin_level_def fun_eq_iff orin_duty_def orin_pwm_reg_def
      pwm_word_bits cong: option.case_cong)

lemma orin_write_duty: "orin_gpioWrite n v j = Some (st, j') \<Longrightarrow> orin_duty j' = orin_duty j"
  by (auto simp: orin_gpioWrite_def orin_duty_def orin_pwm_reg_def fun_eq_iff split: if_split_asm option.splits)

interpretation orin_pins: motor_pins orin_gpioWrite orin_level valid_pin orin_ready orin_gpioPWM orin_duty orin_channel
  by unfold_locales (erule (2) orin_write_ok, erule (2) orin_pwm_ok, erule orin_write_duty)

subsection \<open>The contract of the buses\<close>

lemma orin_more_kept:
  fixes j j' :: orin
  assumes "buses.more j' = buses.more j"
  shows "o_state j' = o_state j" "O_CNF j' = O_CNF j" "O_DEB j' = O_DEB j" "O_IN j' = O_IN j" "O_OUT j' = O_OUT j"
    "O_OUT_VLE j' = O_OUT_VLE j" "O_PAD j' = O_PAD j" "PWM1 j' = PWM1 j" "PWM5 j' = PWM5 j" "PWM7 j' = PWM7 j"
    "o_tracker j' = o_tracker j" "o_pin_CNF j' = o_pin_CNF j" "o_pin_DEB j' = o_pin_DEB j" "o_pin_IN j' = o_pin_IN j"
    "o_pin_OUT j' = o_pin_OUT j" "o_pin_OUT_VLE j' = o_pin_OUT_VLE j" "o_pin_MUX j' = o_pin_MUX j"
    "o_pin_CFG j' = o_pin_CFG j" "PWM1_Init j' = PWM1_Init j" "PWM5_Init j' = PWM5_Init j" "PWM7_Init j' = PWM7_Init j"
  using assms by (cases j, cases j', simp)+

lemmas orin_pins_defs = orin_gpioSetMode_def orin_gpioWrite_def orin_gpioSetPWMfrequency_def orin_gpioPWM_def
  orin_take_pwm_def orin_pad_def

lemma orin_pins_keeps: "orin_pins_step x j = Some (st, j') \<Longrightarrow> keeps ci cs j j'"
  by (rule keeps_same; cases x) (auto simp: orin_pins_defs split: if_split_asm option.splits)

lemma orin_isr_frame:
  assumes "orin_gpioSetISRFunc n e d t f ok j = Some (st, j')"
  shows "keeps ci cs j j' \<and> (buses.more j' = buses.more j
     \<or> (\<exists>p. orin_lookup n = Some p \<and> buses.more j' = buses.more (orin_set_interrupt e p j)))"
  using assms
  by (auto simp: orin_gpioSetISRFunc_def Let_def orin_set_interrupt_def intro!: keeps_same
      split: if_split_asm option.splits dest!: isr_register_frame)

lemma orin_spi_pins_frame:
  "i2cInfo (fold orin_spi_pin rows j) = i2cInfo j" "i2c_speed (fold orin_spi_pin rows j) = i2c_speed j"
  "SpiInfo (fold orin_spi_pin rows j) = SpiInfo j" "joined (fold orin_spi_pin rows j) = joined j"
  "o_state (fold orin_spi_pin rows j) = o_state j" "o_tracker (fold orin_spi_pin rows j) = o_tracker j"
  by (induction rows arbitrary: j) (auto simp: orin_spi_pin_def orin_pad_def split: prod.splits option.splits)

lemma orin_spi_take_frame:
  "i2cInfo (orin_spi_take c j) = i2cInfo j" "i2c_speed (orin_spi_take c j) = i2c_speed j"
  "SpiInfo (orin_spi_take c j) = SpiInfo j" "joined (orin_spi_take c j) = joined j"
  by (simp_all add: orin_spi_take_def Let_def orin_spi_pins_frame)

lemma orin_spi_pin_put: "orin_spi_pin row (put_spi k f j) = put_spi k f (orin_spi_pin row j)"
  by (cases row, cases "orin_lookup (fst row)") (simp_all add: orin_spi_pin_def orin_pad_def put_spi_def)

lemma orin_spi_take_put: "orin_spi_take c (put_spi k f j) = put_spi k f (orin_spi_take c j)"
proof -
  have "fold orin_spi_pin rows (put_spi k f j) = put_spi k f (fold orin_spi_pin rows j)" for rows
    by (induction rows arbitrary: j) (simp_all add: orin_spi_pin_put)
  then show ?thesis by (simp add: orin_spi_take_def Let_def put_spi_def)
qed

text \<open>What an opening of SPI does to the pins: those of channel 0 are taken, those of channel 1 never are.\<close>

lemma orin_spiOpen_frame:
  assumes "orin_spiOpen c sp m d b l x os j = Some (st, j')"
  shows "keeps ci cs j j' \<and> (buses.more j' = buses.more j \<or> c = 0 \<and> buses.more j' = buses.more (orin_spi_take 0 j))"
proof (cases "c = 0 \<or> c = 1")
  case True
  let ?c = "if c = 1 then c + 1 else c"
  let ?j0 = "put_spi (unat ?c) (\<lambda>i. i\<lparr>spi_state := SPI_RESERVED\<rparr>) j"
  let ?j1 = "orin_spi_take ?c ?j0"
  have k: "keeps None None ?j0 ?j1" by (rule keeps_same) (simp_all add: orin_spi_take_frame)
  from assms True consider "j' = j"
    | "spi_state (SpiInfo j ! unat ?c) = SPI_CLOSED" "spi_open_device (unat ?c) m d b x os ?j1 = (st, j')"
    by (auto simp: orin_spiOpen_def Let_def split: if_split_asm option.splits)
  then show ?thesis
  proof cases
    case 1
    then show ?thesis by (simp add: keeps_same)
  next
    case 2
    have m: "keeps ci cs j j'" "buses.more j' = buses.more ?j1"
      using spi_open_keeps [OF 2(1) k _ 2(2), of ci cs] by (simp_all add: orin_spi_take_frame)
    have "buses.more ?j1 = buses.more (orin_spi_take ?c j)" by (simp only: orin_spi_take_put put_fields)
    moreover have "buses.more (orin_spi_take 2 j) = buses.more j"
      by (simp add: orin_spi_take_def orin_spi_pins_def orin_spi_track_def)
    ultimately show ?thesis using m True by auto
  qed
next
  case False
  with assms show ?thesis by (auto simp: orin_spiOpen_def keeps_same)
qed

definition orin_closes_i2c :: "bus_op \<Rightarrow> nat option" where
  "orin_closes_i2c x = (case x of I2cClose h \<Rightarrow> if orin_bad_handle h then None else Some (unat h) | _ \<Rightarrow> None)"

definition orin_closes_spi :: "bus_op \<Rightarrow> nat option" where
  "orin_closes_spi x = (case x of SpiClose h \<Rightarrow> if h > 1 then None else Some (unat h) | _ \<Rightarrow> None)"

lemmas orin_calls = orin_i2cOpen_def orin_i2cClose_def orin_spiXfer_def


interpretation orin_board: board orin_step orin_closes_i2c orin_closes_spi
proof
  fix x and j :: orin and st j'
  assume s: "orin_step x j = Some (st, j')"
  show "keeps (orin_closes_i2c x) (orin_closes_spi x) j j'"
  proof (cases x)
    case (Pins y)
    then show ?thesis using s orin_pins_keeps by simp
  next
    case (Isr n e d t f ok)
    then show ?thesis using s orin_isr_frame by simp
  next
    case (SpiOpen c sp m d b l z os)
    then show ?thesis using s orin_spiOpen_frame by simp
  qed (use s in \<open>auto simp: orin_closes_i2c_def orin_closes_spi_def orin_calls keeps_same split: if_split_asm
      dest: i2c_open_keeps i2c_close_keeps i2c_frames spi_close_keeps spi_transfer_frame\<close>)
qed

subsection \<open>Restoring the registers\<close>

definition orin_saved :: "orin \<Rightarrow> orin \<Rightarrow> bool" where
  "orin_saved j0 j \<longleftrightarrow> (\<forall>p \<in> set orin_table.
      o_pin_CNF j (o_no p) = O_CNF j0 (o_cnf p) \<and> o_pin_DEB j (o_no p) = O_DEB j0 (o_cnf p)
    \<and> o_pin_IN j (o_no p) = O_IN j0 (o_cnf p) \<and> o_pin_OUT j (o_no p) = O_OUT j0 (o_cnf p)
    \<and> o_pin_OUT_VLE j (o_no p) = O_OUT_VLE j0 (o_cnf p) \<and> o_pin_MUX j (o_no p) = O_PAD j0 (o_mux p)
    \<and> o_pin_CFG j (o_no p) = O_PAD j0 (o_cfg p))
    \<and> PWM1_Init j = PWM1 j0 \<and> PWM5_Init j = PWM5 j0 \<and> PWM7_Init j = PWM7 j0"

text \<open>A register may differ from its first value only where a tracked pin will restore it.\<close>

definition orin_covered :: "u64 \<Rightarrow> (opin \<Rightarrow> nat set) \<Rightarrow> (nat \<Rightarrow> u32) \<Rightarrow> (nat \<Rightarrow> u32) \<Rightarrow> bool" where
  "orin_covered t keys r0 r \<longleftrightarrow> (\<forall>a. r a \<noteq> r0 a \<longrightarrow> (\<exists>p \<in> set orin_table. a \<in> keys p \<and> orin_tracked t p))"

abbreviation block :: "opin \<Rightarrow> nat set" where
  "block p \<equiv> {o_cnf p}"

abbreviation pads :: "opin \<Rightarrow> nat set" where
  "pads p \<equiv> {o_mux p, o_cfg p}"

definition orin_restorable :: "orin \<Rightarrow> orin \<Rightarrow> bool" where
  "orin_restorable j0 j \<longleftrightarrow> o_state j = Mapped \<and> orin_saved j0 j
     \<and> orin_covered (o_tracker j) block (O_CNF j0) (O_CNF j) \<and> orin_covered (o_tracker j) block (O_DEB j0) (O_DEB j)
     \<and> orin_covered (o_tracker j) block (O_IN j0) (O_IN j) \<and> orin_covered (o_tracker j) block (O_OUT j0) (O_OUT j)
     \<and> orin_covered (o_tracker j) block (O_OUT_VLE j0) (O_OUT_VLE j)
     \<and> orin_covered (o_tracker j) pads (O_PAD j0) (O_PAD j)
     \<and> (bit (o_tracker j) 28 \<or> PWM1 j = PWM1 j0) \<and> (bit (o_tracker j) 29 \<or> PWM5 j = PWM5 j0)
     \<and> (bit (o_tracker j) 30 \<or> PWM7 j = PWM7 j0)"











lemma orin_restorable_more:
  assumes "orin_restorable j0 j" "buses.more j' = buses.more j"
  shows "orin_restorable j0 j'"
  using assms(1) unfolding orin_restorable_def orin_saved_def by (simp add: orin_more_kept [OF assms(2)])

text \<open>\<open>gpioInitialise\<close> saves every register.\<close>

lemma orin_save_frame:
  "O_CNF (foldl orin_save_pin j ps) = O_CNF j" "O_DEB (foldl orin_save_pin j ps) = O_DEB j"
  "O_IN (foldl orin_save_pin j ps) = O_IN j" "O_OUT (foldl orin_save_pin j ps) = O_OUT j"
  "O_OUT_VLE (foldl orin_save_pin j ps) = O_OUT_VLE j" "O_PAD (foldl orin_save_pin j ps) = O_PAD j"
  "PWM1 (foldl orin_save_pin j ps) = PWM1 j" "PWM5 (foldl orin_save_pin j ps) = PWM5 j"
  "PWM7 (foldl orin_save_pin j ps) = PWM7 j" "o_state (foldl orin_save_pin j ps) = o_state j"
  "o_tracker (foldl orin_save_pin j ps) = o_tracker j" "joined (foldl orin_save_pin j ps) = joined j"
  "SpiInfo (foldl orin_save_pin j ps) = SpiInfo j" "i2cInfo (foldl orin_save_pin j ps) = i2cInfo j"
  by (rule foldl_frame, simp add: orin_save_pin_def)+

lemma orin_save_saved:
  "distinct (map o_no ps) \<Longrightarrow> p \<in> set ps \<Longrightarrow>
     o_pin_CNF (foldl orin_save_pin j ps) (o_no p) = O_CNF j (o_cnf p)
   \<and> o_pin_DEB (foldl orin_save_pin j ps) (o_no p) = O_DEB j (o_cnf p)
   \<and> o_pin_IN (foldl orin_save_pin j ps) (o_no p) = O_IN j (o_cnf p)
   \<and> o_pin_OUT (foldl orin_save_pin j ps) (o_no p) = O_OUT j (o_cnf p)
   \<and> o_pin_OUT_VLE (foldl orin_save_pin j ps) (o_no p) = O_OUT_VLE j (o_cnf p)
   \<and> o_pin_MUX (foldl orin_save_pin j ps) (o_no p) = O_PAD j (o_mux p)
   \<and> o_pin_CFG (foldl orin_save_pin j ps) (o_no p) = O_PAD j (o_cfg p)"
proof (induction ps rule: rev_induct)
  case Nil
  then show ?case by simp
next
  case (snoc q ps)
  have q: "o_pin_CNF (orin_save_pin k q) = (o_pin_CNF k)(o_no q := O_CNF k (o_cnf q))"
    "o_pin_DEB (orin_save_pin k q) = (o_pin_DEB k)(o_no q := O_DEB k (o_cnf q))"
    "o_pin_IN (orin_save_pin k q) = (o_pin_IN k)(o_no q := O_IN k (o_cnf q))"
    "o_pin_OUT (orin_save_pin k q) = (o_pin_OUT k)(o_no q := O_OUT k (o_cnf q))"
    "o_pin_OUT_VLE (orin_save_pin k q) = (o_pin_OUT_VLE k)(o_no q := O_OUT_VLE k (o_cnf q))"
    "o_pin_MUX (orin_save_pin k q) = (o_pin_MUX k)(o_no q := O_PAD k (o_mux q))"
    "o_pin_CFG (orin_save_pin k q) = (o_pin_CFG k)(o_no q := O_PAD k (o_cfg q))" for k
    by (simp_all add: orin_save_pin_def)
  have "p = q \<or> p \<in> set ps \<and> o_no p \<noteq> o_no q" using snoc.prems by (auto simp: image_iff)
  then show ?case using snoc by (elim disjE) (simp_all add: q orin_save_frame)
qed

lemma put_bus_orin [simp]:
  "o_state (put_i2c k f j) = o_state j" "o_state (put_spi k g j) = o_state j"
  by (simp_all add: put_i2c_def put_spi_def)

lemma orin_initialise_cases:
  assumes "orin_initialise os heap j0 = (1, j)"
  shows "orin_restorable j0 j \<and> o_tracker j = o_tracker j0 \<and> O_OUT_VLE j = O_OUT_VLE j0 \<and> joined j = joined j0
     \<and> SpiInfo j = (SpiInfo j0)[0 := (SpiInfo j0 ! 0)\<lparr>spi_state := SPI_CLOSED\<rparr>, 2 := (SpiInfo j0 ! 2)\<lparr>spi_state := SPI_CLOSED\<rparr>]"
proof -
  let ?s = "foldl orin_save_pin (j0\<lparr>o_state := Mapped\<rparr>) orin_table"
  let ?t = "?s\<lparr>PWM1_Init := PWM1 ?s, PWM5_Init := PWM5 ?s, PWM7_Init := PWM7 ?s\<rparr>"
  let ?b = "put_spi 2 (\<lambda>i. i\<lparr>spi_state := SPI_CLOSED\<rparr>) (put_spi 0 (\<lambda>i. i\<lparr>spi_state := SPI_CLOSED\<rparr>)
     (put_i2c 7 (\<lambda>i. i\<lparr>i2c_state := I2C_CLOSED\<rparr>) (put_i2c 1 (\<lambda>i. i\<lparr>i2c_state := I2C_CLOSED\<rparr>) ?t)))"
  have j: "j = ?b\<lparr>ISRFunc_CFG := take 41 heap\<rparr>"
    using assms by (simp add: orin_initialise_def Let_def split: if_split_asm option.split_asm)
  have t: "orin_restorable j0 ?t"
    by (simp add: orin_restorable_def orin_saved_def orin_covered_def orin_save_frame orin_save_saved orin_table_distinct)
  have m: "buses.more j = buses.more ?t" by (simp add: j)
  have "o_tracker ?t = o_tracker j0" "O_OUT_VLE ?t = O_OUT_VLE j0" "joined j = joined j0" "SpiInfo ?t = SpiInfo j0"
    by (simp_all add: j orin_save_frame)
  with orin_restorable_more [OF t m] orin_more_kept(6,11) [OF m] show ?thesis
    by (simp add: j nth_put)
qed






















subsection \<open>The two boards\<close>

text \<open>The statuses of a sequence of calls and the state it leaves.\<close>

fun trace_with :: "('op \<Rightarrow> 's \<Rightarrow> (int \<times> 's) option) \<Rightarrow> 'op list \<Rightarrow> 's \<Rightarrow> (int list \<times> 's) option" where
  "trace_with step [] s = Some ([], s)"
| "trace_with step (x # xs) s =
     (case step x s of
        None \<Rightarrow> None
      | Some (st, s') \<Rightarrow> map_option (\<lambda>(sts, s''). (st # sts, s'')) (trace_with step xs s'))"

text \<open>The calls both boards document alike: all but the frequencies, whose ranges differ, and the third channel.\<close>

fun common_call :: "gpio_op \<Rightarrow> bool" where
  "common_call (SetFreq n f) = False"
| "common_call (Pwm n d) = (n \<noteq> 15)"
| "common_call _ = True"

definition same_outputs :: "gpio \<Rightarrow> orin \<Rightarrow> bool" where
  "same_outputs g j \<longleftrightarrow> gpio_ready g \<and> orin_ready j \<and> out_level g = orin_level j
     \<and> (\<forall>n. pwm_pin_no n \<longrightarrow> duty g n = orin_duty j n)"

lemma set_mode_agrees:
  assumes "same_outputs g j"
  shows "\<exists>st g' j'. gpioSetMode n m g = Some (st, g') \<and> orin_gpioSetMode n m j = Some (st, j') \<and> same_outputs g' j'"
proof (cases "pin_lookup n")
  case None
  then have "orin_lookup n = None" by (simp add: same_pins)
  with None assms show ?thesis by (auto simp: gpioSetMode_def orin_gpioSetMode_def)
next
  case (Some p)
  then obtain q where "orin_lookup n = Some q" using same_pins [of n] by auto
  with Some assms show ?thesis
    by (auto simp: gpioSetMode_def orin_gpioSetMode_def same_outputs_def gpio_ready_def orin_ready_def orin_pad_def
        out_level_def orin_level_def duty_def pwm_reg_def orin_duty_def orin_pwm_reg_def fun_eq_iff pwm_pin_no_def
        cong: option.case_cong)
qed

lemma write_agrees:
  assumes "same_outputs g j"
  shows "\<exists>st g' j'. gpioWrite n v g = Some (st, g') \<and> orin_gpioWrite n v j = Some (st, j') \<and> same_outputs g' j'"
proof (cases "(v = 0 \<or> v = 1) \<and> valid_pin n")
  case True
  obtain g' where g: "gpioWrite n v g = Some (1, g')" "gpio_ready g'" "\<And>m. out_level g' m = (if m = n then v = 1 else out_level g m)"
    using nano.wr_obtain [of g n v] assms True by (auto simp: same_outputs_def)
  obtain j' where j: "orin_gpioWrite n v j = Some (1, j')" "orin_ready j'" "\<And>m. orin_level j' m = (if m = n then v = 1 else orin_level j m)"
    using orin_pins.wr_obtain [of j n v] assms True by (auto simp: same_outputs_def)
  have "same_outputs g' j'"
    using assms g j nano.wr_frame [OF g(1)] orin_pins.wr_frame [OF j(1)] by (auto simp: same_outputs_def fun_eq_iff)
  with g(1) j(1) show ?thesis by blast
next
  case False
  then show ?thesis using assms same_pins [of n]
    by (auto simp: gpioWrite_def orin_gpioWrite_def valid_pin_def)
qed

lemma pwm_agrees:
  assumes "same_outputs g j" "n \<noteq> 15"
  shows "\<exists>st g' j'. gpioPWM n d g = Some (st, g') \<and> orin_gpioPWM n d j = Some (st, j') \<and> same_outputs g' j'"
proof (cases "d \<le> 256 \<and> pwm_pin_no n")
  case True
  obtain g' where g: "gpioPWM n d g = Some (1, g')" "gpio_ready g'" "out_level g' = out_level g"
    "\<And>m. pwm_pin_no m \<Longrightarrow> duty g' m = (if m = n then d else duty g m)"
    using nano.pwm_obtain [of g n d] assms(1) True by (auto simp: same_outputs_def)
  obtain j' where j: "orin_gpioPWM n d j = Some (1, j')" "orin_ready j'" "orin_level j' = orin_level j"
    "\<And>m. orin_channel m \<Longrightarrow> orin_duty j' m = (if m = n then d else orin_duty j m)"
    using orin_pins.pwm_obtain [of j n d] assms(1) True by (auto simp: same_outputs_def orin_channel_def pwm_pin_no_def)
  have "same_outputs g' j'" using assms(1) g j by (auto simp: same_outputs_def orin_channel_def pwm_pin_no_def)
  with g(1) j(1) show ?thesis by blast
next
  case False
  then show ?thesis using assms by (auto simp: gpioPWM_def orin_gpioPWM_def pwm_pin_no_def split: option.split)
qed

lemma step_agrees:
  assumes "same_outputs g j" "common_call x"
  shows "\<exists>st g' j'. gpio_step x g = Some (st, g') \<and> orin_pins_step x j = Some (st, j') \<and> same_outputs g' j'"
  using assms set_mode_agrees write_agrees pwm_agrees by (cases x) auto

subsection \<open>Concrete states\<close>

definition orin_boot :: orin where
  "orin_boot = \<lparr>ISRFunc_CFG = [], thread_n = 0, joined = 0, i2cInfo = replicate 8 i2c_idle, i2c_speed = replicate 8 0,
     SpiInfo = replicate 3 spi_idle, j_calls = [], o_state = NotMapped, O_CNF = (\<lambda>_. 0), O_DEB = (\<lambda>_. 0), O_IN = (\<lambda>_. 0),
     O_OUT = (\<lambda>_. 0), O_OUT_VLE = (\<lambda>_. 0), O_INT_CLR = (\<lambda>_. 0), O_PAD = (\<lambda>_. 0), PWM1 = 0, PWM5 = 0, PWM7 = 0,
     o_pin_CNF = (\<lambda>_. 0), o_pin_DEB = (\<lambda>_. 0), o_pin_IN = (\<lambda>_. 0), o_pin_OUT = (\<lambda>_. 0), o_pin_OUT_VLE = (\<lambda>_. 0),
     o_pin_MUX = (\<lambda>_. 0), o_pin_CFG = (\<lambda>_. 0), PWM1_Init = 0, PWM5_Init = 0, PWM7_Init = 0, o_tracker = 0\<rparr>"

definition orin_up :: orin where
  "orin_up = snd (orin_initialise os_root (replicate 41 isr_free) orin_boot)"

lemma orin_up_init: "orin_initialise os_root (replicate 41 isr_free) orin_boot = (1, orin_up)"
proof -
  have "find (\<lambda>k. \<not> mmap_ok os_root k) [0..<11] = None" by (simp add: find_None_iff os_root_def)
  then show ?thesis by (simp add: orin_up_def orin_initialise_def os_root_def Let_def)
qed

lemma orin_up_facts:
  "orin_restorable orin_boot orin_up" "orin_ready orin_up" "o_tracker orin_up = 0" "O_OUT_VLE orin_up = (\<lambda>_. 0)"
  "PWM5 orin_up = 0" "PWM7 orin_up = 0" "SpiInfo orin_up = replicate 3 spi_idle"
proof -
  note up = orin_initialise_cases [OF orin_up_init]
  from up show r: "orin_restorable orin_boot orin_up" by blast
  from up show t: "o_tracker orin_up = 0" by (simp add: orin_boot_def)
  from up show "O_OUT_VLE orin_up = (\<lambda>_. 0)" by (simp add: orin_boot_def)
  from up show "SpiInfo orin_up = replicate 3 spi_idle"
    by (simp add: orin_boot_def spi_idle_def numeral_3_eq_3 numeral_2_eq_2)
  from r show "orin_ready orin_up" by (simp add: orin_restorable_def orin_ready_def)
  have "PWM5 orin_boot = 0" "PWM7 orin_boot = 0" by (simp_all add: orin_boot_def)
  with r t show "PWM5 orin_up = 0" "PWM7 orin_up = 0" unfolding orin_restorable_def by simp_all
qed

lemma same_outputs_up: "same_outputs gpio_up orin_up"
proof -
  have "OUT gpio_up = (\<lambda>_. 0)" "PWM_0 gpio_up = 0" "PWM_2 gpio_up = 0"
    using gpioInitialise_cases [OF gpio_up_init] by (auto simp: gpio_boot_def restorable_def)
  then show ?thesis using orin_up_facts gpio_up_ready
    by (auto simp: same_outputs_def out_level_def port_bit_def orin_level_def duty_def pwm_reg_def orin_duty_def
        orin_pwm_reg_def pwm_pin_no_def fun_eq_iff split: option.split)
qed

subsection \<open>Properties\<close>

text \<open>C13. From initialised states with the same levels on all pins and the same duty cycles on the pins 32 and 33
  (\<open>same_outputs\<close>), the two drivers answer the same status to every mode, write and duty cycle, whatever pin, level or
  cycle is named, and leave such states again. Two calls are not common to the boards and are left out
  (\<open>common_call\<close>): setting a frequency, whose ranges differ, and a duty cycle on pin 15, a PWM channel of the Orin
  only, to which the Nano answers -1.\<close>

theorem boards_agree:
  assumes "same_outputs g j" and "\<forall>x \<in> set ops. common_call x"
  shows "\<exists>sts g' j'. trace_with gpio_step ops g = Some (sts, g') \<and> trace_with orin_pins_step ops j = Some (sts, j')
     \<and> same_outputs g' j'"
  using assms
proof (induction ops arbitrary: g j)
  case Nil
  then show ?case by simp
next
  case (Cons x xs)
  obtain st g1 j1 where 1: "gpio_step x g = Some (st, g1)" "orin_pins_step x j = Some (st, j1)" "same_outputs g1 j1"
    using step_agrees [of g j x] Cons.prems by auto
  from Cons.IH [OF 1(3)] Cons.prems(2) 1 show ?case by fastforce
qed


text \<open>C28. The second SPI channel of the Orin opens once: its pins are never given to it, and whatever calls on pins,
  interrupts and buses come next (\<open>bus_op\<close> has them all but \<open>gpioInitialise\<close> and \<open>gpioTerminate\<close>), its handle is refused by
  \<open>spiClose\<close> and a new opening finds it open. Only another successful \<open>gpioInitialise\<close> closes it.\<close>

theorem orin_spi1_stuck:
  assumes "orin_spiOpen 1 sp m d b l x os j = Some (st, j1)" and "st \<ge> 0" and "length (SpiInfo j) = 3"
    and "run_with orin_step ops j1 = Some j2"
  shows "st = 2 \<and> O_PAD j1 = O_PAD j \<and> O_CNF j1 = O_CNF j
     \<and> spiClose 2 j2 = (-1, j2) \<and> orin_spiOpen 1 sp m d b l x os' j2 = Some (-11, j2)
     \<and> (orin_initialise start heap j2 = (1, j3) \<longrightarrow> spi_state (SpiInfo j3 ! 2) = SPI_CLOSED)"
proof -
  let ?slot = "SpiInfo j ! 2"
  have t: "spi_tests sp m d b l x = None" "spi_state ?slot = SPI_CLOSED"
    and o: "spi_open_device 2 m d b x os (orin_spi_take 2 (put_spi 2 (\<lambda>i. i\<lparr>spi_state := SPI_RESERVED\<rparr>) j)) = (st, j1)"
    using assms(1,2) by (auto simp: orin_spiOpen_def Let_def split: if_split_asm option.splits)
      (auto simp: spi_tests_def split: if_split_asm)
  have m: "buses.more j1 = buses.more j" using orin_spiOpen_frame [OF assms(1)] by simp
  have s: "st = 2" "spi_state (SpiInfo j1 ! 2) = SPI_OPENED" "length (SpiInfo j1) = 3"
    using o assms(2,3)
    by (auto simp: spi_open_device_def spi_settings_def orin_spi_take_frame split: if_split_asm option.splits)
  have "orin_closes_spi y \<noteq> Some 2" for y
    by (auto simp: orin_closes_spi_def word_le_nat_alt not_less split: bus_op.splits)
  then have "spi_state (SpiInfo j2 ! 2) = SPI_OPENED" and len: "length (SpiInfo j2) = 3"
    using orin_board.run_spi [OF assms(4), of 2] s by (simp_all add: spi_states)
  moreover have "orin_initialise start heap j2 = (1, j3) \<longrightarrow> spi_state (SpiInfo j3 ! 2) = SPI_CLOSED"
    using orin_initialise_cases [of start heap j2 j3] len by simp
  ultimately show ?thesis using s t orin_more_kept(2,7) [OF m]
    by (simp add: spiClose_def orin_spiOpen_def Let_def spi_states)
qed

text \<open>Programs on the two boards.\<close>

theorem boards_agree_witness:
  "\<exists>g' j'. trace_with gpio_step [SetMode 35 1, Write 35 1, Pwm 32 57, Write 9 1] gpio_up = Some ([1, 1, 1, -2], g')
     \<and> trace_with orin_pins_step [SetMode 35 1, Write 35 1, Pwm 32 57, Write 9 1] orin_up = Some ([1, 1, 1, -2], j')
     \<and> same_outputs g' j'"
proof -
  let ?ops = "[SetMode 35 1, Write 35 1, Pwm 32 57, Write 9 1]"
  obtain sts g' j' where o: "trace_with gpio_step ?ops gpio_up = Some (sts, g')"
    "trace_with orin_pins_step ?ops orin_up = Some (sts, j')" "same_outputs g' j'"
    using boards_agree [OF same_outputs_up, of ?ops] by auto
  have "orin_lookup 35 \<noteq> None" "orin_lookup 9 = None" by (simp_all add: orin_lookup_def orin_table_def)
  then have "sts = [1, 1, 1, -2]"
    using o(2) orin_up_facts(2)
    by (auto simp: orin_gpioSetMode_def orin_gpioWrite_def orin_gpioPWM_def orin_ready_def orin_pad_def)
  with o show ?thesis by blast
qed


theorem orin_spi1_stuck_witness:
  "\<exists>j1. orin_spiOpen 1 1000000 0 0 8 0 0 spi_os_ok orin_up = Some (2, j1) \<and> spiClose 2 j1 = (-1, j1)"
proof -
  have "spi_settings spi_os_ok = None" by (simp add: spi_settings_def spi_os_ok_def find_None_iff)
  then obtain j1 where o: "orin_spiOpen 1 1000000 0 0 8 0 0 spi_os_ok orin_up = Some (2, j1)"
    by (simp add: orin_spiOpen_def orin_up_facts spi_tests_def spi_open_device_def spi_os_ok_def spi_idle_def
        orin_spi_pins_def nth_Cons' numeral_3_eq_3)
  have "length (SpiInfo orin_up) = 3" by (simp add: orin_up_facts)
  from orin_spi1_stuck [OF o _ this, of "[]" j1] o show ?thesis by simp
qed

end
