(* ===== verification/Spec2Isabelle.thy ===== *)
theory Spec2Isabelle imports WsAnswer Console SerialPort Forwarder OrinGpio begin

text \<open>
  \<^bold>\<open>What this development is about.\<close> The repository is the control program of a robot on a Jetson Nano.
  An operator's program sends two-octet packets; the robot decodes them and drives two wheels by PWM and
  two linear actuators by pairs of output lines. The parts and the theories that model them:

  \<^item> \<open>Packet\<close>: the packet format of \<open>src/src/server.hpp\<close>, the decoders \<open>udp_decode\<close> and \<open>tcp_decode\<close>,
    and the controller's side of it (\<open>controller_bytes\<close>), with the round trip.
  \<^item> \<open>Gpio\<close>: the pin driver \<open>src/JETGPIO/nano.c\<close>: its pin table, the registers it maps, digital output
    and input, PWM, saving and restoring of the registers (\<open>gpioInitialise\<close>, \<open>gpioTerminate\<close>,
    \<open>gpioSetMode\<close>, \<open>gpioWrite\<close>, \<open>gpioPWM\<close>, ...). An operation that writes to registers that are not
    mapped is \<open>None\<close>. \<open>GpioBus\<close> has the rest of that driver: interrupts, I2C
    and SPI, with the sequences of all its calls (\<open>bus_step\<close>). \<open>OrinGpio\<close> is the driver of the Orin board,
    \<open>src/JETGPIO/orin.c\<close>, on the same calls. What the two drivers share word for word (the loop of the
    interrupt threads, the buses once their numbers are known) is in \<open>Buses\<close>. What the system answers is an
    argument of each call. The locales \<open>motor_pins\<close> (digital lines and PWM channels) and \<open>board\<close> (which
    call may close which bus) are the contracts of a driver; both boards are interpretations of them.
  \<^item> \<open>Motor\<close>: \<open>src/src/motor.hpp\<close>: drive motors, actuators, the controller and its simulation, and
    the refinement of the controller to the four outputs the robot is made of (\<open>robot_view\<close>).
  \<^item> \<open>Server\<close>: the two servers of \<open>src/src/server.hpp\<close>, with their callbacks.
  \<^item> \<open>Robot\<close>: \<open>src/src/main.cpp\<close>, the callbacks of the program, run by the ENet server.
  \<^item> \<open>Console\<close>: \<open>src/src/motor-control-example.cpp\<close>, the controller driven from a command line.
  \<^item> \<open>SerialPort\<close>: the reading functions of \<open>src/src/serial.cpp\<close> and \<open>src/src/readSerial.cpp\<close>.
  \<^item> \<open>Forwarder\<close>: \<open>src/socket-forwarder/socket-forwarder.cpp\<close>, a WebSocket server that passes the
    operator's messages to the robot over ENet, as the interleaving of its two threads.
  \<^item> The WebSocket library under \<open>src/websocketpp/websocketpp\<close>, on which the WebSocket server rests.
    Its frames: \<open>Octets\<close> and \<open>WsFrame\<close> (byte order, frame headers and masking, \<open>frame.hpp\<close>), \<open>WsUtf8\<close>
    (\<open>utf8_validator.hpp\<close>), \<open>WsClose\<close> (error categories and close codes), \<open>WsHybi13\<close> (the frame
    processor \<open>processors/hybi13.hpp\<close>, every octet of its state machine), and \<open>WsConnection\<close>
    (\<open>impl/connection_impl.hpp\<close> from the end of the opening handshake: sending, the write queue, pings,
    closing, reading, pausing, time-outs, termination).
  \<^item> Its opening handshake: \<open>CText\<close> (the string functions of the standard library the code calls),
    \<open>HttpText\<close> (tokens, quoted strings, parameter lists and header maps, \<open>http/parser.hpp\<close>),
    \<open>HttpParser\<close> (the streaming request parser, \<open>http/impl/parser.hpp\<close>, \<open>http/impl/request.hpp\<close>),
    \<open>HttpResponse\<close> (\<open>http/response.hpp\<close>, \<open>http/impl/response.hpp\<close>, \<open>http/constants.hpp\<close>), \<open>WsUri\<close>
    (\<open>uri.hpp\<close>), \<open>WsSha1\<close> and \<open>WsBase64\<close> (\<open>sha1.hpp\<close>, \<open>base64.hpp\<close>), \<open>WsHandshake\<close> (the handshake
    half of the processors: \<open>processors/processor.hpp\<close>, \<open>processors/hybi13.hpp\<close>), \<open>WsMd5\<close> and \<open>WsHybi00\<close>
    (\<open>common/md5.hpp\<close> and \<open>processors/hybi00.hpp\<close>, draft 76 of the protocol), and \<open>WsOpening\<close> (the
    opening handshake of \<open>impl/connection_impl.hpp\<close> in both roles, with its timer, error responses and the
    interface it gives to the application).
  \<^item> \<open>TcpRobot\<close>: the robot's callbacks behind the WebSocket server and its connection; \<open>WsAnswer\<close>:
    the same robot from the first octet of the operator's HTTP request.

  \<^bold>\<open>How they interact.\<close> A network library hands octets to a decoder, whose result goes to the
  callbacks of the program; these call the controller, which calls the pin driver. The models are composed
  in the same way: \<open>udp_run\<close> takes the events of ENet and runs \<open>main_callbacks\<close> on the state of the
  controller and the pins; a step of the WebSocket connection (\<open>con_step\<close>) takes what its transport
  completes and runs the handlers of \<open>tcp_app\<close>. A step of the
  opening handshake (\<open>opening_step\<close>) builds the connection that \<open>con_step\<close> starts from (\<open>opened\<close>).
  \<open>robot_over_handshake\<close> goes the whole way, from the octets of a client's request and of its masked
  frames to the state of the pins. The frames may be cut anywhere; for the request there is a bound on the size of
  its head and the number of its reads, since the code's count of header octets grows with the cuts.

  \<^bold>\<open>What the lemmas show.\<close> For the driver: that writing changes the addressed line alone, that PWM sets
  the duty asked for, that termination restores the registers it saves after any sequence of calls on pins, interrupts and buses on either
  board that keeps the order the driver relies on (\<open>in_order\<close>, \<open>orin_order\<close>), that the two boards answer and act
  alike on the calls they share (\<open>common_call\<close>: no frequencies, no duty cycle on pin 15), that
  interrupts are debounced, and what the buses answer and ask of their devices. For the controller: that every operation
  refines its abstract command. For the decoders: round trips and totality. For the frame processor
  (\<open>WsFraming\<close>, \<open>WsStream\<close>, \<open>WsSafety\<close>, \<open>WsPeer\<close>): that consuming a stream in pieces is consuming it
  whole, that messages come out as they were framed, that its invariant holds and the state machine
  never indexes outside its buffers. For the connection (\<open>WsLifecycle\<close>, \<open>WsQueue\<close>, \<open>WsReading\<close>,
  \<open>WsSession\<close>, \<open>WsEnding\<close>, \<open>WsDelivery\<close>, \<open>WsHearing\<close>): invariants of the reachable states of an
  inductive step relation, that it never follows a null pointer, writes what is sent in order, answers a
  close frame as a server and ends exactly once, with no close or fail handler behind the report of its end. For the HTTP parser (\<open>HttpStream\<close>, \<open>HttpPrint\<close>): that a request in pieces is
  parsed as it is parsed whole, below a bound on the size of its head and the number of pieces, and that what is printed is what is read. For the opening
  handshake (\<open>WsOpened\<close>, \<open>WsAnswer\<close>): how that of a server can end (the opening of a draft-76 connection, whose frames
  after it are not joined to the model of connections, apart), that it never stops short of an end, that the
  connection it opens is one the theorems of the open connection are about, and that a valid request
  opens it; that a client accepts the answer the server computes (\<open>WsHandshake\<close>). Several theorems state what the code does against its intention;
  they are listed with the findings.

  \<^bold>\<open>Bounds and loops.\<close> Registers, header fields, hashes and counters are words of the code's width; where
  \<open>size_t\<close> cannot wrap (lengths of data in memory) it is a natural number. Loops are structural or have
  a termination proof; the loop of the connection's reader that could fail to end is a
  \<open>partial_function\<close> into \<open>option\<close>, and \<open>reading_returns\<close> proves that it ends. The limits of the code
  are kept as they are: 16000 octets of HTTP headers, 32000000 octets of body, 16384 octets a read. \<open>console_turns\<close> counts
  the turns of an endless loop.

  \<^bold>\<open>What is not modelled.\<close> The chip identification of the pin library; ENet and the Boost Asio transport,
  whose events are inputs; the endpoint classes, loggers and configuration headers of the WebSocket
  library; its compression extension, which the configuration disables; what becomes of a connection of draft
  76 once it is open (its processor is modelled, but the connection is that of the later versions); what only
  prints.
\<close>

end
